(* ===== verification/Bilby_Prelude.thy ===== *)
theory Bilby_Prelude
  imports Main "HOL-Library.Word" "HOL-Library.Monad_Syntax"
begin

unbundle bit_operations_syntax

text \<open>
  Shared vocabulary of the development.
  \<^item> C integer types as words (\<open>u8\<close> to \<open>u64\<close>); a C \<open>int\<close> is an \<open>int\<close>.
  \<^item> Kernel error codes as the datatype \<open>errno\<close>; a C function that returns a negative
    error code or a value returns \<open>errno + 'a\<close>.
  \<^item> \<open>BUG_ON\<close> and memory accesses outside an object are the value \<open>None\<close> of an
    option type: a theorem that a call is \<open>Some \<dots>\<close> says that neither happens.
  \<^item> Memory blocks are byte lists; multi-byte fields are little endian, as the on-flash
    format has them.
  \<^item> The collections \<open>buf_simps\<close> (reads over writes of a byte block) and \<open>len_simps\<close>
    (sizes of blocks) carry the proofs about packed objects.
\<close>

section \<open>Integer types, error codes\<close>

type_synonym u8 = "8 word"
type_synonym u16 = "16 word"
type_synonym u32 = "32 word"
type_synonym u64 = "64 word"
type_synonym buf = "8 word list"
type_synonym name = "8 word list"

named_theorems buf_simps \<open>reading a field of a block after writing fields of it\<close>
named_theorems len_simps \<open>lengths of blocks\<close>

datatype errno =
    ENOENT | EINVAL | ENOMEM | ENOSPC | ENODATA | EROFS | ENAMETOOLONG
  | ENOTEMPTY | EOVERFLOW | ENFILE | EOTHER nat

text \<open>\<open>bilbyfs_assert(v)\<close> is \<open>BUG_ON(!(v))\<close>: the machine stops when \<open>v\<close> is false.\<close>

definition bilbyfs_assert :: "bool \<Rightarrow> unit option" where
  "bilbyfs_assert v = (if v then Some () else None)"

lemma bilbyfs_assert_simps [simp]:
  "bilbyfs_assert True = Some ()" "bilbyfs_assert False = None"
  by (simp_all add: bilbyfs_assert_def)

lemma bilbyfs_assert_bind:
  "Option.bind (bilbyfs_assert v) f = (if v then f () else None)"
  by (simp add: bilbyfs_assert_def)

text \<open>
  \<open>kmalloc\<close>, \<open>vmalloc\<close> and the slab allocator may fail. The outcomes of the coming
  allocations are a list; past its end every allocation succeeds.
\<close>

type_synonym kmem = "bool list"

fun kmalloc_ok :: "kmem \<Rightarrow> bool \<times> kmem" where
  "kmalloc_ok [] = (True, [])"
| "kmalloc_ok (b # bs) = (b, bs)"

text \<open>An array access: \<open>None\<close> outside the array.\<close>

definition nth_opt :: "'a list \<Rightarrow> nat \<Rightarrow> 'a option" where
  "nth_opt xs i = (if i < length xs then Some (xs ! i) else None)"

lemma nth_opt_Some [simp]: "i < length xs \<Longrightarrow> nth_opt xs i = Some (xs ! i)"
  by (simp add: nth_opt_def)

section \<open>Alignment\<close>

text \<open>The kernel's \<open>ALIGN(x, a)\<close>: \<open>(x + (a - 1)) & ~(a - 1)\<close>, for \<open>a\<close> a power of two.\<close>

definition ALIGN :: "int \<Rightarrow> int \<Rightarrow> int" where
  "ALIGN x a = (x + (a - 1)) AND NOT (a - 1)"

lemma and_not_mask_int: "(x :: int) AND NOT (2 ^ k - 1) = x div 2 ^ k * 2 ^ k"
proof -
  have "x AND NOT (mask k) = push_bit k (drop_bit k x)"
    by (rule bit_eqI) (auto simp: bit_simps)
  then show ?thesis
    by (simp add: mask_eq_exp_minus_1 push_bit_eq_mult drop_bit_eq_div)
qed

lemma ALIGN_pow2: "ALIGN x (2 ^ k) = (x + (2 ^ k - 1)) div 2 ^ k * 2 ^ k"
  unfolding ALIGN_def by (rule and_not_mask_int)

lemma ALIGN_ge: "x \<le> ALIGN x (2 ^ k)"
proof -
  have "(x + (2 ^ k - 1)) mod 2 ^ k < (2 ^ k :: int)" by simp
  then show ?thesis
    unfolding ALIGN_pow2
    using div_mult_mod_eq [of "x + (2 ^ k - 1)" "2 ^ k"] by linarith
qed

lemma ALIGN_less: "ALIGN x (2 ^ k) < x + 2 ^ k"
proof -
  have "0 \<le> (x + (2 ^ k - 1)) mod (2 ^ k :: int)" by simp
  then show ?thesis
    unfolding ALIGN_pow2
    using div_mult_mod_eq [of "x + (2 ^ k - 1)" "2 ^ k"] by linarith
qed

lemma ALIGN_dvd: "2 ^ k dvd ALIGN x (2 ^ k)"
  unfolding ALIGN_pow2 by simp

lemma ALIGN_id: "2 ^ k dvd x \<Longrightarrow> ALIGN x (2 ^ k) = x"
proof -
  assume d: "2 ^ k dvd x"
  then have "2 ^ k dvd ALIGN x (2 ^ k) - x" using ALIGN_dvd [of k x] by simp
  moreover have "0 \<le> ALIGN x (2 ^ k) - x" "ALIGN x (2 ^ k) - x < 2 ^ k"
    using ALIGN_ge [of x k] ALIGN_less [of x k] by linarith+
  ultimately have "ALIGN x (2 ^ k) - x = 0"
    by (metis zdvd_not_zless order_le_less)
  then show ?thesis by simp
qed

lemma ALIGN_le_dvd: "x \<le> n \<Longrightarrow> 2 ^ k dvd n \<Longrightarrow> ALIGN x (2 ^ k) \<le> n"
proof (rule ccontr)
  assume a: "x \<le> n" "2 ^ k dvd n" "\<not> ALIGN x (2 ^ k) \<le> n"
  then have "2 ^ k dvd ALIGN x (2 ^ k) - n" using ALIGN_dvd [of k x] by simp
  moreover have "0 < ALIGN x (2 ^ k) - n" using a by simp
  ultimately have "2 ^ k \<le> ALIGN x (2 ^ k) - n" by (simp add: zdvd_imp_le)
  with ALIGN_less [of x k] a(1) show False by linarith
qed

lemma ALIGN_mono: "x \<le> y \<Longrightarrow> ALIGN x (2 ^ k) \<le> ALIGN y (2 ^ k)"
  unfolding ALIGN_pow2 by (simp add: zdiv_mono1)

lemmas ALIGN_8 = ALIGN_pow2 [where k = 3, simplified]
lemmas ALIGN_8_ge = ALIGN_ge [where k = 3, simplified]
lemmas ALIGN_8_less = ALIGN_less [where k = 3, simplified]
lemmas ALIGN_8_dvd = ALIGN_dvd [where k = 3, simplified]
lemmas ALIGN_8_id = ALIGN_id [where k = 3, simplified]
lemmas ALIGN_8_mono = ALIGN_mono [where k = 3, simplified]

section \<open>Little-endian fields\<close>

primrec le_enc :: "nat \<Rightarrow> 'a::len word \<Rightarrow> buf" where
  "le_enc 0 w = []"
| "le_enc (Suc n) w = ucast w # le_enc n (drop_bit 8 w)"

primrec le_dec :: "buf \<Rightarrow> 'a::len word" where
  "le_dec [] = 0"
| "le_dec (b # bs) = ucast b OR push_bit 8 (le_dec bs)"

lemma length_le_enc [simp, len_simps]: "length (le_enc n w) = n"
  by (induction n arbitrary: w) simp_all

lemma le_dec_enc: "le_dec (le_enc n (w :: 'a::len word)) = take_bit (8 * n) w"
proof (induction n arbitrary: w)
  case 0
  show ?case by simp
next
  case (Suc n)
  have "ucast (ucast w :: u8) OR push_bit 8 (take_bit (8 * n) (drop_bit 8 w))
      = take_bit (8 + 8 * n) w"
    by (rule bit_word_eqI) (auto simp: bit_simps)
  then show ?case by (simp add: Suc.IH)
qed

lemma le_dec_enc_full: "LENGTH('a) \<le> 8 * n \<Longrightarrow> le_dec (le_enc n (w :: 'a::len word)) = w"
  by (simp add: le_dec_enc take_bit_word_eq_self)

declare le_enc.simps [simp del] le_dec.simps [simp del]

section \<open>Blocks of memory\<close>

text \<open>
  \<open>splice b off bs\<close> is the block \<open>b\<close> with \<open>bs\<close> stored at offset \<open>off\<close>. The checked
  accesses (\<open>buf_get\<close>, \<open>buf_put\<close>, \<open>buf_fill\<close>, \<open>getw\<close>, \<open>putw\<close>) are \<open>None\<close> when
  they leave the block.
\<close>

definition splice :: "buf \<Rightarrow> nat \<Rightarrow> buf \<Rightarrow> buf" where
  "splice b off bs = take off b @ bs @ drop (off + length bs) b"

definition rdw :: "nat \<Rightarrow> buf \<Rightarrow> nat \<Rightarrow> 'a::len word" where
  "rdw n b off = le_dec (take n (drop off b))"

definition buf_get :: "buf \<Rightarrow> nat \<Rightarrow> nat \<Rightarrow> buf option" where
  "buf_get b off n = (if off + n \<le> length b then Some (take n (drop off b)) else None)"

definition buf_put :: "buf \<Rightarrow> nat \<Rightarrow> buf \<Rightarrow> buf option" where
  "buf_put b off bs = (if off + length bs \<le> length b then Some (splice b off bs) else None)"

definition buf_fill :: "buf \<Rightarrow> nat \<Rightarrow> u8 \<Rightarrow> nat \<Rightarrow> buf option" where
  "buf_fill b off v n = buf_put b off (replicate n v)"

definition getw :: "nat \<Rightarrow> buf \<Rightarrow> nat \<Rightarrow> 'a::len word option" where
  "getw n b off = (if off + n \<le> length b then Some (rdw n b off) else None)"

definition putw :: "nat \<Rightarrow> buf \<Rightarrow> nat \<Rightarrow> 'a::len word \<Rightarrow> buf option" where
  "putw n b off v = buf_put b off (le_enc n v)"

abbreviation rd8 :: "buf \<Rightarrow> nat \<Rightarrow> u8" where "rd8 \<equiv> rdw 1"
abbreviation rd16 :: "buf \<Rightarrow> nat \<Rightarrow> u16" where "rd16 \<equiv> rdw 2"
abbreviation rd32 :: "buf \<Rightarrow> nat \<Rightarrow> u32" where "rd32 \<equiv> rdw 4"
abbreviation rd64 :: "buf \<Rightarrow> nat \<Rightarrow> u64" where "rd64 \<equiv> rdw 8"
abbreviation get8 :: "buf \<Rightarrow> nat \<Rightarrow> u8 option" where "get8 \<equiv> getw 1"
abbreviation get16 :: "buf \<Rightarrow> nat \<Rightarrow> u16 option" where "get16 \<equiv> getw 2"
abbreviation get32 :: "buf \<Rightarrow> nat \<Rightarrow> u32 option" where "get32 \<equiv> getw 4"
abbreviation get64 :: "buf \<Rightarrow> nat \<Rightarrow> u64 option" where "get64 \<equiv> getw 8"
abbreviation put8 :: "buf \<Rightarrow> nat \<Rightarrow> u8 \<Rightarrow> buf option" where "put8 \<equiv> putw 1"
abbreviation put16 :: "buf \<Rightarrow> nat \<Rightarrow> u16 \<Rightarrow> buf option" where "put16 \<equiv> putw 2"
abbreviation put32 :: "buf \<Rightarrow> nat \<Rightarrow> u32 \<Rightarrow> buf option" where "put32 \<equiv> putw 4"
abbreviation put64 :: "buf \<Rightarrow> nat \<Rightarrow> u64 \<Rightarrow> buf option" where "put64 \<equiv> putw 8"

text \<open>A C string stored at \<open>off\<close>: the bytes before the first zero byte.\<close>

definition c_str :: "buf \<Rightarrow> nat \<Rightarrow> name option" where
  "c_str b off = (if 0 \<in> set (drop off b) then Some (takeWhile (\<lambda>x. x \<noteq> 0) (drop off b)) else None)"

lemma length_splice [simp, len_simps]:
  "off + length bs \<le> length b \<Longrightarrow> length (splice b off bs) = length b"
  by (simp add: splice_def)

lemma take_drop_splice_eq [buf_simps]:
  "off \<le> length b \<Longrightarrow> n = length bs \<Longrightarrow> take n (drop off (splice b off bs)) = bs"
  by (simp add: splice_def)

lemma take_drop_splice_before:
  "off' + n \<le> off \<Longrightarrow> off \<le> length b \<Longrightarrow>
   take n (drop off' (splice b off bs)) = take n (drop off' b)"
  by (simp add: splice_def take_drop)

lemma drop_splice_after:
  "off + length bs \<le> off' \<Longrightarrow> off \<le> length b \<Longrightarrow> drop off' (splice b off bs) = drop off' b"
  by (simp add: splice_def add.commute)

lemma take_splice_before:
  "n \<le> off \<Longrightarrow> off \<le> length b \<Longrightarrow> take n (splice b off bs) = take n b"
  by (simp add: splice_def min_def)

lemma rdw_splice_eq [buf_simps]:
  "off \<le> length b \<Longrightarrow> LENGTH('a) \<le> 8 * n \<Longrightarrow>
   rdw n (splice b off (le_enc n v)) off = (v :: 'a::len word)"
  by (simp add: rdw_def splice_def le_dec_enc_full)

lemma rdw_splice_before [buf_simps]:
  "off' + n \<le> off \<Longrightarrow> off \<le> length b \<Longrightarrow> rdw n (splice b off bs) off' = rdw n b off'"
  by (simp add: rdw_def take_drop_splice_before)

lemma rdw_splice_after [buf_simps]:
  "off + length bs \<le> off' \<Longrightarrow> off \<le> length b \<Longrightarrow> rdw n (splice b off bs) off' = rdw n b off'"
  by (simp add: rdw_def drop_splice_after)

lemma putw_Some: "off + n \<le> length b \<Longrightarrow> putw n b off v = Some (splice b off (le_enc n v))"
  by (simp add: putw_def buf_put_def)

lemma putw_None: "\<not> off + n \<le> length b \<Longrightarrow> putw n b off v = None"
  by (simp add: putw_def buf_put_def)

lemma getw_Some: "off + n \<le> length b \<Longrightarrow> getw n b off = Some (rdw n b off)"
  by (simp add: getw_def)

lemma buf_put_Some: "off + length bs \<le> length b \<Longrightarrow> buf_put b off bs = Some (splice b off bs)"
  by (simp add: buf_put_def)

lemma buf_fill_Some:
  "off + n \<le> length b \<Longrightarrow> buf_fill b off v n = Some (splice b off (replicate n v))"
  by (simp add: buf_fill_def buf_put_def)

lemma buf_get_Some: "off + n \<le> length b \<Longrightarrow> buf_get b off n = Some (take n (drop off b))"
  by (simp add: buf_get_def)

lemmas access_simps = putw_Some getw_Some buf_put_Some buf_fill_Some buf_get_Some

lemma buf_put_length: "buf_put b off bs = Some b' \<Longrightarrow> length b' = length b"
  by (auto simp: buf_put_def split: if_splits)

lemma putw_length: "putw n b off v = Some b' \<Longrightarrow> length b' = length b"
  unfolding putw_def by (rule buf_put_length)

lemma splice_self: "off + n \<le> length b \<Longrightarrow> splice b off (take n (drop off b)) = b"
  by (simp add: splice_def)
     (metis append_take_drop_id drop_drop add.commute)

lemma takeWhile_nonzero: "0 \<notin> set nm \<Longrightarrow> takeWhile (\<lambda>x. x \<noteq> 0) (nm @ 0 # r) = nm"
  by (induction nm) auto

lemma c_str_splice:
  "off + length nm < length b \<Longrightarrow> 0 \<notin> set nm \<Longrightarrow>
   c_str (splice b off (nm @ [0])) off = Some nm"
  by (simp add: c_str_def splice_def takeWhile_nonzero)

section \<open>Blocks as lists of written fields\<close>

text \<open>
  A block after a sequence of stores, the last store first. Sizes and reads are computed from
  the list of stores, one store at a time.
\<close>

fun stores :: "buf \<Rightarrow> (nat \<times> buf) list \<Rightarrow> buf" where
  "stores b [] = b"
| "stores b ((off, bs) # fs) = splice (stores b fs) off bs"

fun stores_fit :: "nat \<Rightarrow> (nat \<times> buf) list \<Rightarrow> bool" where
  "stores_fit n [] = True"
| "stores_fit n ((off, bs) # fs) = (off + length bs \<le> n \<and> stores_fit n fs)"

declare stores.simps [simp del]

lemma length_stores [simp, len_simps]:
  "stores_fit (length b) fs \<Longrightarrow> length (stores b fs) = length b"
  by (induction fs rule: stores.induct) (auto simp: stores.simps)

lemma stores_stores [simp]: "stores (stores b fs) gs = stores b (gs @ fs)"
  by (induction gs) (auto simp: stores.simps)

lemma put_stores:
  shows "off + n \<le> length b \<Longrightarrow> putw n b off v = Some (stores b [(off, le_enc n v)])"
    and "off + length bs \<le> length b \<Longrightarrow> buf_put b off bs = Some (stores b [(off, bs)])"
    and "off + n \<le> length b \<Longrightarrow> buf_fill b off x n = Some (stores b [(off, replicate n x)])"
  by (simp_all add: access_simps stores.simps)

lemma rdw_stores:
  assumes "stores_fit (length b) ((off, bs) # fs)"
  shows "bs = le_enc n v \<Longrightarrow> LENGTH('a) \<le> 8 * n \<Longrightarrow>
      rdw n (stores b ((off, bs) # fs)) off = (v :: 'a::len word)"
    and "off' + m \<le> off \<or> off + length bs \<le> off' \<Longrightarrow>
      rdw m (stores b ((off, bs) # fs)) off' = rdw m (stores b fs) off'"
  using assms by (auto simp: stores.simps buf_simps)

lemma rdw_stores_Nil: "rdw n (stores b []) off = rdw n b off"
  by (simp add: stores.simps)

lemmas store_reads = rdw_stores rdw_stores_Nil getw_Some

section \<open>Small integers as words\<close>

lemma int_words [simp]:
  assumes "0 \<le> x" "x < 2147483648"
  shows "uint (word_of_int x :: u32) = x" "uint (word_of_int x :: u64) = x"
    "sint (word_of_int x :: u32) = x" "unat (word_of_int x :: u32) = nat x"
    "unat (word_of_int x :: u64) = nat x"
proof -
  show u: "uint (word_of_int x :: u32) = x" "uint (word_of_int x :: u64) = x"
    using assms by (simp_all add: uint_word_of_int take_bit_int_eq_self)
  show "sint (word_of_int x :: u32) = x"
    using assms by (simp add: sint_uint signed_take_bit_int_eq_self u)
  show "unat (word_of_int x :: u32) = nat x" "unat (word_of_int x :: u64) = nat x"
    unfolding unat_eq_nat_uint by (simp_all only: u)
qed

lemma unat_uint_le: "n \<le> unat w \<longleftrightarrow> int n \<le> uint w"
  using of_nat_le_iff [of n "unat w", where 'a = int] by simp

lemma unat_uint_less: "unat w < n \<longleftrightarrow> uint w < int n"
  using of_nat_less_iff [of "unat w" n, where 'a = int] by simp

end
