(* ===== verification/Bilby_Rbt.thy ===== *)
theory Bilby_Rbt
  imports Bilby_Prelude
begin

text \<open>
  Red-black trees (\<open>rbt.c\<close> and the \<open>rbt_*\<close> macros of \<open>bilbyfs.h\<close>).
  A node of C has two child pointers and a word that packs its parent pointer and its
  colour. A subtree is a value of \<open>'n rbt\<close>; a pointer to a node is that subtree
  together with its path to the root, one crumb per ancestor, so \<open>rbt_parent\<close> is the head
  of the path and an empty path is a node without a parent. A \<open>NULL\<close> dereference is
  \<open>None\<close>.
  The theorems: insertion and removal never dereference \<open>NULL\<close> on a red-black tree, keep
  the order of the nodes and the red-black invariant; the packing of parent and colour
  loses nothing.
\<close>

section \<open>The packed parent and colour word\<close>

definition rbt_parent :: "u64 \<Rightarrow> u64" where
  "rbt_parent pc = pc AND NOT 3"

definition rbt_color :: "u64 \<Rightarrow> u64" where
  "rbt_color pc = pc AND 1"

definition rbt_set_red_pc :: "u64 \<Rightarrow> u64" where
  "rbt_set_red_pc pc = pc AND NOT 1"

definition rbt_set_black_pc :: "u64 \<Rightarrow> u64" where
  "rbt_set_black_pc pc = pc OR 1"

definition rbt_set_parent :: "u64 \<Rightarrow> u64 \<Rightarrow> u64" where
  "rbt_set_parent pc p = (pc AND 3) OR p"

definition rbt_set_color :: "u64 \<Rightarrow> u64 \<Rightarrow> u64" where
  "rbt_set_color pc c = (pc AND NOT 1) OR c"

lemma bit_3_u64: "bit (3 :: u64) n \<longleftrightarrow> n < 2"
proof -
  have eq: "(3 :: u64) = mask 2" by (simp add: mask_eq_exp_minus_1)
  show ?thesis unfolding eq bit_mask_iff by auto
qed

lemma bit_3_int: "bit (3 :: int) n \<longleftrightarrow> n < 2"
proof -
  have eq: "(3 :: int) = mask 2" by (simp add: mask_eq_exp_minus_1)
  show ?thesis unfolding eq bit_mask_iff by auto
qed

lemmas pc_defs = rbt_parent_def rbt_color_def rbt_set_red_pc_def rbt_set_black_pc_def
  rbt_set_parent_def rbt_set_color_def

lemma aligned_low_bits: "p AND 3 = 0 \<Longrightarrow> n < 2 \<Longrightarrow> \<not> bit (p :: u64) n"
  by (metis bit_3_u64 bit_and_iff bit_0_eq bot_apply bot_bool_def)

lemma rbt_parent_set_parent: "p AND 3 = 0 \<Longrightarrow> rbt_parent (rbt_set_parent pc p) = p"
  by (rule bit_word_eqI) (auto simp: pc_defs bit_simps bit_3_int dest: aligned_low_bits)

lemma rbt_color_set_parent: "p AND 3 = 0 \<Longrightarrow> rbt_color (rbt_set_parent pc p) = rbt_color pc"
  by (rule bit_word_eqI)
     (auto simp: pc_defs bit_simps bit_3_int dest: aligned_low_bits [of _ 0, simplified])

lemma rbt_color_set_color: "c = 0 \<or> c = 1 \<Longrightarrow> rbt_color (rbt_set_color pc c) = c"
  by (rule bit_word_eqI) (auto simp: pc_defs bit_simps)

lemma rbt_parent_set_color: "c = 0 \<or> c = 1 \<Longrightarrow> rbt_parent (rbt_set_color pc c) = rbt_parent pc"
  by (rule bit_word_eqI) (auto simp: pc_defs bit_simps bit_3_int)

section \<open>Trees and pointers into them\<close>

datatype color = RBT_RED | RBT_BLACK

datatype 'n rbt = NIL | Node "'n rbt" color 'n "'n rbt"

datatype 'n crumb = LeftOf color 'n "'n rbt" | RightOf "'n rbt" color 'n

type_synonym 'n path = "'n crumb list"

fun plug1 :: "'n rbt \<Rightarrow> 'n crumb \<Rightarrow> 'n rbt" where
  "plug1 t (LeftOf c x r) = Node t c x r"
| "plug1 t (RightOf l c x) = Node l c x t"

fun plug :: "'n rbt \<Rightarrow> 'n path \<Rightarrow> 'n rbt" where
  "plug t [] = t"
| "plug t (p # ps) = plug (plug1 t p) ps"

fun crumb_color :: "'n crumb \<Rightarrow> color" where
  "crumb_color (LeftOf c x r) = c"
| "crumb_color (RightOf l c x) = c"

text \<open>The tests \<open>node && rbt_is_red(node)\<close> and \<open>!node || rbt_is_black(node)\<close>.\<close>

fun is_red :: "'n rbt \<Rightarrow> bool" where
  "is_red NIL = False"
| "is_red (Node l c x r) = (c = RBT_RED)"

fun rbt_set_black :: "'n rbt \<Rightarrow> 'n rbt" where
  "rbt_set_black NIL = NIL"
| "rbt_set_black (Node l c x r) = Node l RBT_BLACK x r"

fun rbt_first :: "'n rbt \<Rightarrow> 'n option" where
  "rbt_first NIL = None"
| "rbt_first (Node NIL c x r) = Some x"
| "rbt_first (Node l c x r) = rbt_first l"

fun rbt_last :: "'n rbt \<Rightarrow> 'n option" where
  "rbt_last NIL = None"
| "rbt_last (Node l c x NIL) = Some x"
| "rbt_last (Node l c x r) = rbt_last r"

text \<open>
  \<open>rbt_link_node(node, parent, link)\<close> stores the parent pointer in a word whose colour
  bit is then 0: the new leaf is red.
\<close>

definition rbt_link_node :: "'n \<Rightarrow> 'n path \<Rightarrow> 'n rbt \<times> 'n path" where
  "rbt_link_node n path = (Node NIL RBT_RED n NIL, path)"

fun rbt_rotate_left :: "'n rbt \<Rightarrow> 'n rbt option" where
  "rbt_rotate_left (Node a c x (Node b d y e)) = Some (Node (Node a c x b) d y e)"
| "rbt_rotate_left _ = None"

fun rbt_rotate_right :: "'n rbt \<Rightarrow> 'n rbt option" where
  "rbt_rotate_right (Node (Node a d y b) c x e) = Some (Node a d y (Node b c x e))"
| "rbt_rotate_right _ = None"

fun go_left :: "'n rbt \<Rightarrow> ('n rbt \<times> 'n crumb) option" where
  "go_left (Node l c x r) = Some (l, LeftOf c x r)"
| "go_left NIL = None"

fun go_right :: "'n rbt \<Rightarrow> ('n rbt \<times> 'n crumb) option" where
  "go_right (Node l c x r) = Some (r, RightOf l c x)"
| "go_right NIL = None"

section \<open>Rebalancing after an insertion\<close>

text \<open>
  One iteration of the loop of \<open>rbt_insert_color\<close> with the red parent \<open>p\<close> and the
  grandparent \<open>g\<close>: the next \<open>node\<close>, and how far below the place of the grandparent it is.
  A red uncle is recoloured and the loop goes on at the grandparent; otherwise the inner
  child is rotated out and the grandparent rotated down.
\<close>

fun insert_step :: "'n rbt \<Rightarrow> 'n crumb \<Rightarrow> 'n crumb \<Rightarrow> ('n rbt \<times> 'n path) option" where
  "insert_step t p (LeftOf gc gx uncle) =
     (if is_red uncle then
        Some (Node (rbt_set_black (plug1 t p)) RBT_RED gx (rbt_set_black uncle), [])
      else do {
        parent \<leftarrow> (case p of RightOf _ _ _ \<Rightarrow> rbt_rotate_left (plug1 t p)
                          | LeftOf _ _ _ \<Rightarrow> Some (plug1 t p));
        g \<leftarrow> rbt_rotate_right (Node (rbt_set_black parent) RBT_RED gx uncle);
        (node, q) \<leftarrow> go_left g;
        Some (node, [q])
      })"
| "insert_step t p (RightOf uncle gc gx) =
     (if is_red uncle then
        Some (Node (rbt_set_black uncle) RBT_RED gx (rbt_set_black (plug1 t p)), [])
      else do {
        parent \<leftarrow> (case p of LeftOf _ _ _ \<Rightarrow> rbt_rotate_right (plug1 t p)
                          | RightOf _ _ _ \<Rightarrow> Some (plug1 t p));
        g \<leftarrow> rbt_rotate_left (Node uncle RBT_RED gx (rbt_set_black parent));
        (node, q) \<leftarrow> go_right g;
        Some (node, [q])
      })"

lemma insert_step_short: "insert_step t p g = Some (n, q) \<Longrightarrow> length q \<le> 1"
  by (cases g) (auto simp: bind_eq_Some_conv split: if_splits)

text \<open>The whole loop, then \<open>rbt_set_black(root->rbt_node)\<close>.\<close>

function rbt_insert_color :: "'n rbt \<Rightarrow> 'n path \<Rightarrow> 'n rbt option" where
  "rbt_insert_color t [] = Some (rbt_set_black t)"
| "rbt_insert_color t [p] =
     (if crumb_color p = RBT_BLACK then Some (rbt_set_black (plug t [p])) else None)"
| "rbt_insert_color t (p # g # rest) =
     (if crumb_color p = RBT_BLACK then Some (rbt_set_black (plug t (p # g # rest)))
      else case insert_step t p g of
             None \<Rightarrow> None
           | Some (node, q) \<Rightarrow> rbt_insert_color node (q @ rest))"
  by pat_completeness auto
termination
  by (relation "measure (\<lambda>(t, path). length path)") (auto dest: insert_step_short)

section \<open>Removal\<close>

text \<open>
  One iteration of the loop of \<open>__rbt_erase_color\<close> either stops the loop with the whole
  tree (\<open>Inr\<close>, the \<open>break\<close> with \<open>node = root\<close>) or gives the next \<open>node\<close> and its path.
  In the iteration the sibling \<open>other\<close> is first made black by a rotation at the parent;
  \<open>erase_done_left\<close> and \<open>erase_done_right\<close> are the lines before the \<open>break\<close>.
\<close>

fun erase_done_left ::
  "'n rbt \<Rightarrow> color \<Rightarrow> 'n \<Rightarrow> 'n rbt \<Rightarrow> 'n path \<Rightarrow> (('n rbt \<times> 'n path) + 'n rbt) option" where
  "erase_done_left t pc px NIL rest = None"
| "erase_done_left t pc px (Node l c x r) rest =
     map_option (\<lambda>p. Inr (plug p rest))
       (rbt_rotate_left (Node t RBT_BLACK px (Node l pc x (rbt_set_black r))))"

fun erase_done_right ::
  "'n rbt \<Rightarrow> color \<Rightarrow> 'n \<Rightarrow> 'n rbt \<Rightarrow> 'n path \<Rightarrow> (('n rbt \<times> 'n path) + 'n rbt) option" where
  "erase_done_right t pc px NIL rest = None"
| "erase_done_right t pc px (Node l c x r) rest =
     map_option (\<lambda>p. Inr (plug p rest))
       (rbt_rotate_right (Node (Node (rbt_set_black l) pc x r) RBT_BLACK px t))"

definition erase_step_left ::
  "'n rbt \<Rightarrow> color \<Rightarrow> 'n \<Rightarrow> 'n rbt \<Rightarrow> 'n path \<Rightarrow> (('n rbt \<times> 'n path) + 'n rbt) option" where
  "erase_step_left t pc px other rest =
     (case other of NIL \<Rightarrow> None
      | Node ol oc ox orr \<Rightarrow>
        (let (pc', other', rest') =
               (if oc = RBT_RED then (RBT_RED, ol, LeftOf RBT_BLACK ox orr # rest)
                else (pc, other, rest))
         in case other' of NIL \<Rightarrow> None
            | Node l c x r \<Rightarrow>
              if \<not> is_red l \<and> \<not> is_red r then
                Some (Inl (Node t pc' px (Node l RBT_RED x r), rest'))
              else do {
                o2 \<leftarrow> (if \<not> is_red r then rbt_rotate_right (Node (rbt_set_black l) RBT_RED x r)
                      else Some other');
                erase_done_left t pc' px o2 rest'
              }))"

definition erase_step_right ::
  "'n rbt \<Rightarrow> color \<Rightarrow> 'n \<Rightarrow> 'n rbt \<Rightarrow> 'n path \<Rightarrow> (('n rbt \<times> 'n path) + 'n rbt) option" where
  "erase_step_right t pc px other rest =
     (case other of NIL \<Rightarrow> None
      | Node ol oc ox orr \<Rightarrow>
        (let (pc', other', rest') =
               (if oc = RBT_RED then (RBT_RED, orr, RightOf ol RBT_BLACK ox # rest)
                else (pc, other, rest))
         in case other' of NIL \<Rightarrow> None
            | Node l c x r \<Rightarrow>
              if \<not> is_red l \<and> \<not> is_red r then
                Some (Inl (Node (Node l RBT_RED x r) pc' px t, rest'))
              else do {
                o2 \<leftarrow> (if \<not> is_red l then rbt_rotate_left (Node l RBT_RED x (rbt_set_black r))
                      else Some other');
                erase_done_right t pc' px o2 rest'
              }))"

fun erase_step :: "'n rbt \<Rightarrow> 'n crumb \<Rightarrow> 'n path \<Rightarrow> (('n rbt \<times> 'n path) + 'n rbt) option" where
  "erase_step t (LeftOf pc px other) rest = erase_step_left t pc px other rest"
| "erase_step t (RightOf other pc px) rest = erase_step_right t pc px other rest"

definition erase_measure :: "'n rbt \<times> 'n path \<Rightarrow> nat" where
  "erase_measure = (\<lambda>(t, path). 2 * length path + (if is_red t then 0 else 1))"

lemma erase_done_Inr:
  "erase_done_left t pc px ot rest \<noteq> Some (Inl q)" "erase_done_right t pc px ot rest \<noteq> Some (Inl q)"
  by (cases ot; auto)+

lemma erase_step_smaller:
  assumes "\<not> is_red t" and "erase_step t p rest = Some (Inl q)"
  shows "erase_measure q < erase_measure (t, p # rest)"
  using assms
  by (cases p)
     (auto simp: erase_measure_def erase_step_left_def erase_step_right_def Let_def
        bind_eq_Some_conv erase_done_Inr split: rbt.splits if_splits)

function rbt_erase_color :: "'n rbt \<Rightarrow> 'n path \<Rightarrow> 'n rbt option" where
  "rbt_erase_color t [] = Some (rbt_set_black t)"
| "rbt_erase_color t (p # rest) =
     (if is_red t then Some (plug (rbt_set_black t) (p # rest))
      else case erase_step t p rest of
             None \<Rightarrow> None
           | Some (Inr root) \<Rightarrow> Some (rbt_set_black root)
           | Some (Inl (t', path')) \<Rightarrow> rbt_erase_color t' path')"
  by pat_completeness auto
termination
  by (relation "measure erase_measure") (simp_all add: erase_step_smaller)

text \<open>The inner loop of \<open>rbt_erase\<close> that finds the successor: follow left children.\<close>

fun leftmost :: "'n rbt \<Rightarrow> 'n path \<Rightarrow> ('n rbt \<times> 'n path)" where
  "leftmost (Node (Node ll lc lx lr) c x r) path = leftmost (Node ll lc lx lr) (LeftOf c x r # path)"
| "leftmost t path = (t, path)"

definition rbt_erase :: "'n rbt \<Rightarrow> 'n path \<Rightarrow> 'n rbt option" where
  "rbt_erase node path =
     (case node of NIL \<Rightarrow> None
      | Node l c x r \<Rightarrow>
        (let finish = (\<lambda>child col q. if col = RBT_BLACK then rbt_erase_color child q
                                     else Some (plug child q))
         in if l = NIL then finish r c path
            else if r = NIL then finish l c path
            else (case leftmost r [] of
                    (Node sl sc sx child, below) \<Rightarrow> finish child sc (below @ RightOf l c sx # path)
                  | (NIL, _) \<Rightarrow> None)))"

section \<open>Neighbours of a node\<close>

text \<open>
  \<open>rbt_next\<close> and \<open>rbt_prev\<close>: down into the subtree when there is one, otherwise up to the
  first ancestor of which the node is in the other subtree.
\<close>

fun rightmost :: "'n rbt \<Rightarrow> 'n path \<Rightarrow> ('n rbt \<times> 'n path)" where
  "rightmost (Node l c x (Node rl rc rx rr)) path = rightmost (Node rl rc rx rr) (RightOf l c x # path)"
| "rightmost t path = (t, path)"

fun climb_from_right :: "'n path \<Rightarrow> 'n option" where
  "climb_from_right [] = None"
| "climb_from_right (RightOf l c x # ps) = climb_from_right ps"
| "climb_from_right (LeftOf c x r # ps) = Some x"

fun climb_from_left :: "'n path \<Rightarrow> 'n option" where
  "climb_from_left [] = None"
| "climb_from_left (LeftOf c x r # ps) = climb_from_left ps"
| "climb_from_left (RightOf l c x # ps) = Some x"

fun node_of :: "'n rbt \<Rightarrow> 'n option" where
  "node_of NIL = None"
| "node_of (Node l c x r) = Some x"

fun rbt_next :: "'n rbt \<Rightarrow> 'n path \<Rightarrow> 'n option" where
  "rbt_next NIL path = None"
| "rbt_next (Node l c x r) path =
     (if r \<noteq> NIL then node_of (fst (leftmost r (RightOf l c x # path))) else climb_from_right path)"

fun rbt_prev :: "'n rbt \<Rightarrow> 'n path \<Rightarrow> 'n option" where
  "rbt_prev NIL path = None"
| "rbt_prev (Node l c x r) path =
     (if l \<noteq> NIL then node_of (fst (rightmost l (LeftOf c x r # path))) else climb_from_left path)"

text \<open>\<open>rbt_replace_node\<close>: the new node takes the links and the colour of the victim.\<close>

fun rbt_replace_node :: "'n rbt \<Rightarrow> 'n \<Rightarrow> 'n path \<Rightarrow> 'n rbt" where
  "rbt_replace_node NIL new path = plug NIL path"
| "rbt_replace_node (Node l c x r) new path = plug (Node l c new r) path"

section \<open>Order of the nodes\<close>

primrec inorder :: "'n rbt \<Rightarrow> 'n list" where
  "inorder NIL = []"
| "inorder (Node l c x r) = inorder l @ x # inorder r"

text \<open>The nodes of the tree before and after a pointed-to subtree.\<close>

fun before :: "'n path \<Rightarrow> 'n list" where
  "before [] = []"
| "before (LeftOf c x r # ps) = before ps"
| "before (RightOf l c x # ps) = before ps @ inorder l @ [x]"

fun after :: "'n path \<Rightarrow> 'n list" where
  "after [] = []"
| "after (LeftOf c x r # ps) = x # inorder r @ after ps"
| "after (RightOf l c x # ps) = after ps"

lemma inorder_plug [simp]: "inorder (plug t p) = before p @ inorder t @ after p"
proof (induction p arbitrary: t)
  case (Cons a p)
  then show ?case by (cases a) simp_all
qed simp

lemma inorder_set_black [simp]: "inorder (rbt_set_black t) = inorder t"
  by (cases t) simp_all

lemma before_append [simp]: "before (p @ q) = before q @ before p"
  by (induction p rule: before.induct) simp_all

lemma after_append [simp]: "after (p @ q) = after p @ after q"
  by (induction p rule: after.induct) simp_all

lemma rotate_left_inorder: "rbt_rotate_left t = Some t' \<Longrightarrow> inorder t' = inorder t"
  by (induction t rule: rbt_rotate_left.induct) auto

lemma rotate_right_inorder: "rbt_rotate_right t = Some t' \<Longrightarrow> inorder t' = inorder t"
  by (induction t rule: rbt_rotate_right.induct) auto

lemma go_left_inorder:
  "go_left t = Some (n, q) \<Longrightarrow> inorder t = before [q] @ inorder n @ after [q]"
  by (cases t) auto

lemma go_right_inorder:
  "go_right t = Some (n, q) \<Longrightarrow> inorder t = before [q] @ inorder n @ after [q]"
  by (cases t) auto

lemmas move_inorder = rotate_left_inorder rotate_right_inorder

lemma insert_step_inorder:
  assumes "insert_step t p g = Some (n, q)"
  shows "before q @ inorder n @ after q = before [p, g] @ inorder t @ after [p, g]"
  using assms
  by (cases g; cases p)
     (auto simp: bind_eq_Some_conv split: if_splits
        dest!: move_inorder go_left_inorder go_right_inorder)

lemma insert_color_inorder:
  "rbt_insert_color t p = Some t' \<Longrightarrow> inorder t' = before p @ inorder t @ after p"
proof (induction t p arbitrary: t' rule: rbt_insert_color.induct)
  case (3 t p g rest)
  show ?case
  proof (cases "crumb_color p = RBT_BLACK")
    case True
    with "3.prems" show ?thesis by (auto simp del: plug.simps)
  next
    case False
    with "3.prems" obtain n q where st: "insert_step t p g = Some (n, q)"
      and rec: "rbt_insert_color n (q @ rest) = Some t'"
      by (auto split: option.splits)
    have "inorder t' = before rest @ (before q @ inorder n @ after q) @ after rest"
      using "3.IH" [OF False st refl rec] by simp
    also have "\<dots> = before rest @ (before [p, g] @ inorder t @ after [p, g]) @ after rest"
      by (simp only: insert_step_inorder [OF st])
    also have "\<dots> = before ([p, g] @ rest) @ inorder t @ after ([p, g] @ rest)"
      by (simp only: before_append after_append append_assoc)
    finally show ?thesis by simp
  qed
qed (auto simp del: plug.simps split: if_splits)

lemma erase_done_inorder:
  "erase_done_left t pc px ot rest = Some res \<Longrightarrow>
     \<exists>root. res = Inr root \<and> inorder root = before rest @ inorder t @ px # inorder ot @ after rest"
  "erase_done_right t pc px ot rest = Some res \<Longrightarrow>
     \<exists>root. res = Inr root \<and> inorder root = before rest @ inorder ot @ px # inorder t @ after rest"
  by (cases ot; auto)+

lemma erase_step_inorder:
  assumes "erase_step t p rest = Some res"
  shows "before (p # rest) @ inorder t @ after (p # rest) =
     (case res of Inl (t', q) \<Rightarrow> before q @ inorder t' @ after q | Inr root \<Rightarrow> inorder root)"
  using assms
  by (cases p)
     (auto simp: erase_step_left_def erase_step_right_def Let_def bind_eq_Some_conv
        dest!: move_inorder erase_done_inorder split: rbt.splits if_splits)

lemma erase_color_inorder:
  "rbt_erase_color t p = Some t' \<Longrightarrow> inorder t' = before p @ inorder t @ after p"
proof (induction t p arbitrary: t' rule: rbt_erase_color.induct)
  case (1 t)
  then show ?case by auto
next
  case (2 t p rest)
  show ?case
  proof (cases "is_red t")
    case True
    with "2.prems" show ?thesis by (auto simp del: plug.simps)
  next
    case False
    with "2.prems" obtain res where res: "erase_step t p rest = Some res"
      by (auto split: option.splits)
    then show ?thesis
      using False "2.prems" "2.IH" erase_step_inorder [OF res]
      by (auto split: sum.splits)
  qed
qed

lemma leftmost_inorder:
  "leftmost t p = (t', q) \<Longrightarrow> before q @ inorder t' @ after q = before p @ inorder t @ after p"
  by (induction t p rule: leftmost.induct) auto

lemma leftmost_left_NIL: "leftmost t p = (Node sl sc sx child, q) \<Longrightarrow> sl = NIL"
  by (induction t p rule: leftmost.induct) auto

lemma leftmost_node: "t \<noteq> NIL \<Longrightarrow> \<exists>c x r q. leftmost t p = (Node NIL c x r, q)"
  by (induction t p rule: leftmost.induct) auto

lemma leftmost_before: "leftmost t p = (t', q) \<Longrightarrow> before q = before p"
  by (induction t p rule: leftmost.induct) auto

lemma erase_inorder:
  assumes "rbt_erase (Node l c x r) p = Some t'"
  shows "inorder t' = before p @ inorder l @ inorder r @ after p"
proof -
  obtain s q where lm: "leftmost r [] = (s, q)" by (cases "leftmost r []")
  then have "before q = []" "inorder s @ after q = inorder r"
    using leftmost_before [OF lm] leftmost_inorder [OF lm] by auto
  moreover have "sl = NIL" if "s = Node sl sc sx ch" for sl sc sx ch
    using lm leftmost_left_NIL that by metis
  ultimately show ?thesis
    using assms lm
    by (auto simp: rbt_erase_def Let_def dest!: erase_color_inorder
        split: if_splits rbt.splits)
qed

lemma first_inorder: "rbt_first t = (if inorder t = [] then None else Some (hd (inorder t)))"
  by (induction t rule: rbt_first.induct) (auto simp: hd_append)

lemma last_inorder: "rbt_last t = (if inorder t = [] then None else Some (last (inorder t)))"
  by (induction t rule: rbt_last.induct) auto

lemma leftmost_node_of:
  "node_of (fst (leftmost t p)) = (if inorder t = [] then None else Some (hd (inorder t)))"
  by (induction t p rule: leftmost.induct) (auto simp: hd_append)

lemma rightmost_node_of:
  "node_of (fst (rightmost t p)) = (if inorder t = [] then None else Some (last (inorder t)))"
  by (induction t p rule: rightmost.induct) auto

lemma climb_right: "climb_from_right p = (if after p = [] then None else Some (hd (after p)))"
  by (induction p rule: climb_from_right.induct) auto

lemma climb_left: "climb_from_left p = (if before p = [] then None else Some (last (before p)))"
  by (induction p rule: climb_from_left.induct) auto

lemma next_inorder:
  "rbt_next (Node l c x r) p =
     (if inorder r @ after p = [] then None else Some (hd (inorder r @ after p)))"
proof (cases r)
  case (Node rl rc rx rr)
  then show ?thesis by (simp add: leftmost_node_of hd_append)
qed (simp add: climb_right)

lemma prev_inorder:
  "rbt_prev (Node l c x r) p =
     (if before p @ inorder l = [] then None else Some (last (before p @ inorder l)))"
proof (cases l)
  case (Node ll lc lx lr)
  then show ?thesis by (simp add: rightmost_node_of)
qed (simp add: climb_left)

section \<open>The red-black invariant\<close>

primrec bheight :: "'n rbt \<Rightarrow> nat" where
  "bheight NIL = 0"
| "bheight (Node l c x r) = (if c = RBT_BLACK then Suc (bheight l) else bheight l)"

primrec balanced :: "'n rbt \<Rightarrow> bool" where
  "balanced NIL = True"
| "balanced (Node l c x r) = (bheight l = bheight r \<and> balanced l \<and> balanced r)"

primrec no_red_red :: "'n rbt \<Rightarrow> bool" where
  "no_red_red NIL = True"
| "no_red_red (Node l c x r) =
     ((c = RBT_RED \<longrightarrow> \<not> is_red l \<and> \<not> is_red r) \<and> no_red_red l \<and> no_red_red r)"

definition rb_inv :: "'n rbt \<Rightarrow> bool" where
  "rb_inv t \<longleftrightarrow> balanced t \<and> no_red_red t \<and> \<not> is_red t"

text \<open>
  \<open>path_ok h p\<close>: the context \<open>p\<close> is that of a subtree of black height \<open>h\<close> in a red-black
  tree. \<open>fits t p\<close>: the colour of \<open>t\<close> goes with the parent's.
\<close>

fun path_ok :: "nat \<Rightarrow> 'n path \<Rightarrow> bool" where
  "path_ok h [] = True"
| "path_ok h (LeftOf c x r # ps) =
     (bheight r = h \<and> balanced r \<and> no_red_red r \<and>
      (c = RBT_RED \<longrightarrow> \<not> is_red r \<and> ps \<noteq> [] \<and> crumb_color (hd ps) = RBT_BLACK) \<and>
      path_ok (if c = RBT_BLACK then Suc h else h) ps)"
| "path_ok h (RightOf l c x # ps) =
     (bheight l = h \<and> balanced l \<and> no_red_red l \<and>
      (c = RBT_RED \<longrightarrow> \<not> is_red l \<and> ps \<noteq> [] \<and> crumb_color (hd ps) = RBT_BLACK) \<and>
      path_ok (if c = RBT_BLACK then Suc h else h) ps)"

definition fits :: "'n rbt \<Rightarrow> 'n path \<Rightarrow> bool" where
  "fits t p \<longleftrightarrow> (is_red t \<longrightarrow> p \<noteq> [] \<and> crumb_color (hd p) = RBT_BLACK)"

lemma not_red_is_black [simp]: "c \<noteq> RBT_RED \<longleftrightarrow> c = RBT_BLACK" "c \<noteq> RBT_BLACK \<longleftrightarrow> c = RBT_RED"
  by (cases c; simp)+

lemma set_black_simps [simp]:
  "\<not> is_red (rbt_set_black t)" "balanced (rbt_set_black t) = balanced t"
  "no_red_red t \<Longrightarrow> no_red_red (rbt_set_black t)"
  "\<not> is_red t \<Longrightarrow> rbt_set_black t = t"
  by (cases t; auto)+

lemma bheight_set_black: "bheight (rbt_set_black t) = (if is_red t then Suc (bheight t) else bheight t)"
  by (cases t) auto

lemma rb_inv_plug:
  "rb_inv (plug t p) \<longleftrightarrow> path_ok (bheight t) p \<and> balanced t \<and> no_red_red t \<and> fits t p"
proof (induction p arbitrary: t)
  case Nil
  show ?case by (auto simp: rb_inv_def fits_def)
next
  case (Cons a p)
  show ?case
    by (cases a) (auto simp: Cons.IH fits_def)
qed

lemma insert_step_ok:
  assumes "path_ok (bheight t) (p # g # rest)" "balanced t" "no_red_red t" "is_red t"
    and "crumb_color p \<noteq> RBT_BLACK"
  shows "\<exists>n q. insert_step t p g = Some (n, q) \<and> path_ok (bheight n) (q @ rest) \<and>
           balanced n \<and> no_red_red n \<and> is_red n"
  using assms
  by (cases g; cases p; cases t)
     (auto simp: bheight_set_black)

lemma insert_color_ok:
  "path_ok (bheight t) p \<Longrightarrow> balanced t \<Longrightarrow> no_red_red t \<Longrightarrow> is_red t \<Longrightarrow>
   \<exists>t'. rbt_insert_color t p = Some t' \<and> rb_inv t'"
proof (induction t p rule: rbt_insert_color.induct)
  case (1 t)
  then show ?case by (auto simp: rb_inv_def)
next
  case (2 t p)
  then have "rb_inv (plug t [p])"
    by (subst rb_inv_plug) (cases p; auto simp: fits_def)
  with 2 show ?case by (cases p) (auto simp: rb_inv_def)
next
  case (3 t p g rest)
  show ?case
  proof (cases "crumb_color p = RBT_BLACK")
    case True
    then have "rb_inv (plug t (p # g # rest))"
      using "3.prems" by (subst rb_inv_plug) (simp add: fits_def)
    with True show ?thesis by (auto simp: rb_inv_def simp del: plug.simps)
  next
    case False
    from insert_step_ok [OF "3.prems" False] obtain n q where
      st: "insert_step t p g = Some (n, q)" and ok: "path_ok (bheight n) (q @ rest)"
        "balanced n" "no_red_red n" "is_red n" by blast
    from "3.IH" [OF False st refl ok] False st show ?thesis by simp
  qed
qed

lemma is_red_Node: "is_red t \<Longrightarrow> \<exists>l x r. t = Node l RBT_RED x r"
  by (cases t) auto

lemmas erase_ok_simps = rb_inv_plug fits_def bheight_set_black Let_def

lemma erase_step_ok:
  assumes "path_ok (Suc (bheight t)) (p # rest)" "balanced t" "no_red_red t" "\<not> is_red t"
  shows "\<exists>res. erase_step t p rest = Some res \<and>
     (case res of
        Inl (t', q) \<Rightarrow> path_ok (Suc (bheight t')) q \<and> balanced t' \<and> no_red_red (rbt_set_black t')
      | Inr root \<Rightarrow> rb_inv root)"
proof (cases p)
  case (LeftOf pc px other)
  with assms obtain ol oc ox orr where o: "other = Node ol oc ox orr" by (cases other) auto
  show ?thesis
    using assms LeftOf o
    by (cases oc; cases ol)
       (auto simp: erase_step_left_def erase_ok_simps dest!: is_red_Node split: if_splits)
next
  case (RightOf other pc px)
  with assms obtain ol oc ox orr where o: "other = Node ol oc ox orr" by (cases other) auto
  show ?thesis
    using assms RightOf o
    by (cases oc; cases orr)
       (auto simp: erase_step_right_def erase_ok_simps dest!: is_red_Node split: if_splits)
qed

lemma erase_color_ok:
  "path_ok (Suc (bheight t)) p \<Longrightarrow> balanced t \<Longrightarrow> no_red_red (rbt_set_black t) \<Longrightarrow>
   \<exists>t'. rbt_erase_color t p = Some t' \<and> rb_inv t'"
proof (induction t p rule: rbt_erase_color.induct)
  case (1 t)
  then show ?case by (auto simp: rb_inv_def)
next
  case (2 t p rest)
  show ?case
  proof (cases "is_red t")
    case True
    with "2.prems" have "rb_inv (plug (rbt_set_black t) (p # rest))"
      by (subst rb_inv_plug) (simp add: fits_def bheight_set_black)
    with True show ?thesis by simp
  next
    case False
    with "2.prems" have "no_red_red t" by simp
    from erase_step_ok [OF "2.prems"(1,2) this False] obtain res where
      st: "erase_step t p rest = Some res" and
      ok: "case res of
        Inl (t', q) \<Rightarrow> path_ok (Suc (bheight t')) q \<and> balanced t' \<and> no_red_red (rbt_set_black t')
      | Inr root \<Rightarrow> rb_inv root" by blast
    show ?thesis
    proof (cases res)
      case (Inr root)
      with False st ok show ?thesis by (auto simp: rb_inv_def)
    next
      case (Inl q)
      then obtain t' path where q: "res = Inl (t', path)" by (cases q) simp
      with "2.IH" [OF False] False st ok show ?thesis by simp
    qed
  qed
qed

lemma path_ok_payload: "path_ok h (b @ RightOf l c x # p) = path_ok h (b @ RightOf l c y # p)"
proof (induction b arbitrary: h)
  case (Cons a b)
  have "crumb_color (hd (b @ RightOf l c x # p)) = crumb_color (hd (b @ RightOf l c y # p))"
    by (cases b) simp_all
  with Cons.IH show ?case by (cases a) simp_all
qed simp

lemma leftmost_plug: "leftmost t p = (s, q) \<Longrightarrow> plug s (q @ r) = plug t (p @ r)"
  by (induction t p rule: leftmost.induct) auto

lemma erase_ok:
  assumes "rb_inv (plug (Node l c x r) p)"
  shows "\<exists>t'. rbt_erase (Node l c x r) p = Some t' \<and> rb_inv t'"
proof -
  have finish: "\<exists>t'. (if col = RBT_BLACK then rbt_erase_color child q else Some (plug child q)) = Some t'
      \<and> rb_inv t'"
    if "path_ok (bheight child + (if col = RBT_BLACK then 1 else 0)) q" "balanced child"
      "no_red_red child" "col = RBT_RED \<longrightarrow> \<not> is_red child" for child col and q :: "'a path"
    using that erase_color_ok [of child q] by (auto simp: rb_inv_plug fits_def)
  show ?thesis
  proof (cases "l = NIL \<or> r = NIL")
    case True
    with assms finish [of r c p] finish [of l c p] show ?thesis
      by (auto simp: rbt_erase_def rb_inv_plug)
  next
    case False
    from leftmost_node [of r "[]"] False obtain sc sx ch q where
      lm: "leftmost r [] = (Node NIL sc sx ch, q)" by blast
    have "rb_inv (plug (Node NIL sc sx ch) (q @ RightOf l c x # p))"
      using leftmost_plug [OF lm, of "RightOf l c x # p"] assms by simp
    then have ok: "path_ok (bheight ch + (if sc = RBT_BLACK then 1 else 0)) (q @ RightOf l c sx # p)"
      "balanced ch" "no_red_red ch" "sc = RBT_RED \<longrightarrow> \<not> is_red ch"
      by (auto simp: rb_inv_plug path_ok_payload [of _ q l c x p sx] split: if_splits)
    with finish [OF ok] False lm show ?thesis
      by (simp add: rbt_erase_def)
  qed
qed

section \<open>Emptying a tree\<close>

text \<open>
  The loop of \<open>idx_clean\<close> and \<open>gim_clean\<close>: erase \<open>rbt_first\<close> until there is none.
\<close>

function rbt_clear :: "'n rbt \<Rightarrow> 'n rbt option" where
  "rbt_clear t =
     (case leftmost t [] of (node, path) \<Rightarrow>
        (case node of NIL \<Rightarrow> Some t
         | Node _ _ _ _ \<Rightarrow> (case rbt_erase node path of None \<Rightarrow> None | Some t' \<Rightarrow> rbt_clear t')))"
  by pat_completeness auto
termination
proof (relation "measure (\<lambda>t. length (inorder t))", goal_cases)
  case (2 t x1 path l c x r t')
  then have "leftmost t [] = (Node l c x r, path)" by simp
  from arg_cong [OF leftmost_inorder [OF this], of length]
    arg_cong [OF erase_inorder [of l c x r path t'], of length] 2
  show ?case by simp
qed simp

declare rbt_clear.simps [simp del]

lemma leftmost_NIL: "fst (leftmost t p) = NIL \<Longrightarrow> t = NIL"
  by (induction t p rule: leftmost.induct) auto

lemma clear_ok: "rb_inv t \<Longrightarrow> rbt_clear t = Some NIL"
proof (induction t rule: rbt_clear.induct)
  case (1 t)
  obtain s q where lm: "leftmost t [] = (s, q)" by (cases "leftmost t []")
  show ?case
  proof (cases s)
    case NIL
    with lm have "t = NIL" using leftmost_NIL [of t "[]"] by simp
    then show ?thesis by (simp add: rbt_clear.simps [of NIL])
  next
    case (Node l c x r)
    have "plug s q = t" using leftmost_plug [OF lm, of "[]"] by simp
    with 1(2) Node obtain t' where t': "rbt_erase s q = Some t'" "rb_inv t'"
      using erase_ok [of l c x r q] by auto
    with 1(1) [OF lm [symmetric] Node t'(1)] lm Node show ?thesis
      by (simp add: rbt_clear.simps [of t])
  qed
qed

section \<open>Height\<close>

primrec height :: "'n rbt \<Rightarrow> nat" where
  "height NIL = 0"
| "height (Node l c x r) = Suc (max (height l) (height r))"

lemma bheight_size: "balanced t \<Longrightarrow> 2 ^ bheight t \<le> length (inorder t) + 1"
  by (induction t) (auto split: if_splits)

lemma height_bheight:
  "balanced t \<Longrightarrow> no_red_red t \<Longrightarrow> height t \<le> 2 * bheight t + (if is_red t then 1 else 0)"
proof (induction t)
  case (Node l c x r)
  then show ?case by (cases c) (auto split: if_splits)
qed simp

lemma height_log: "rb_inv t \<Longrightarrow> 2 ^ (height t div 2) \<le> length (inorder t) + 1"
proof -
  assume i: "rb_inv t"
  then have "height t div 2 \<le> bheight t" using height_bheight [of t] by (simp add: rb_inv_def)
  then have "(2::nat) ^ (height t div 2) \<le> 2 ^ bheight t" by simp
  also have "\<dots> \<le> length (inorder t) + 1" using i by (intro bheight_size) (simp add: rb_inv_def)
  finally show ?thesis .
qed

section \<open>Correctness of the tree operations\<close>

text \<open>
  Parent pointer and colour share one word: with pointers aligned to four bytes, setting
  one leaves the other as it was and reads back what was stored.
\<close>

lemma rbt_parent_color_packing:
  assumes "p AND 3 = 0" "c = 0 \<or> c = 1"
  shows "rbt_parent (rbt_set_parent pc p) = p \<and> rbt_color (rbt_set_parent pc p) = rbt_color pc \<and>
    rbt_color (rbt_set_color pc c) = c \<and> rbt_parent (rbt_set_color pc c) = rbt_parent pc"
  using assms rbt_parent_set_parent rbt_color_set_parent rbt_color_set_color rbt_parent_set_color
  by blast

text \<open>
  C22. Linking a new node at a free position of a red-black tree and running
  \<open>rbt_insert_color\<close> never dereferences a null pointer, ends, gives a red-black tree again,
  and the node stands between the nodes that were before and after the position.
\<close>

theorem rbt_insert_color_correct:
  assumes "rb_inv (plug NIL p)"
  shows "\<exists>t'. rbt_insert_color (fst (rbt_link_node n p)) (snd (rbt_link_node n p)) = Some t' \<and>
    rb_inv t' \<and> inorder t' = before p @ n # after p"
proof -
  from assms have "path_ok 0 p" using rb_inv_plug [of NIL p] by simp
  then obtain t' where "rbt_insert_color (Node NIL RBT_RED n NIL) p = Some t'" "rb_inv t'"
    using insert_color_ok [of "Node NIL RBT_RED n NIL" p] by auto
  with insert_color_inorder [OF this(1)] show ?thesis by (simp add: rbt_link_node_def)
qed

theorem rbt_insert_color_correct_witness:
  "\<exists>t'. rbt_insert_color (Node NIL RBT_RED (7::nat) NIL)
          [RightOf NIL RBT_RED 5, RightOf NIL RBT_BLACK 3] = Some t' \<and>
    rb_inv t' \<and> inorder t' = [3, 5, 7]"
  using rbt_insert_color_correct [of "[RightOf NIL RBT_RED 5, RightOf NIL RBT_BLACK 3]" "7::nat"]
  by (simp add: rb_inv_def rbt_link_node_def)

text \<open>
  C23. Erasing any node of a red-black tree never dereferences a null pointer, ends, gives a
  red-black tree again, and removes exactly that node from the order.
\<close>

theorem rbt_erase_correct:
  assumes "rb_inv (plug (Node l c x r) p)"
  shows "\<exists>t'. rbt_erase (Node l c x r) p = Some t' \<and> rb_inv t' \<and>
    inorder (plug (Node l c x r) p) = (before p @ inorder l) @ x # (inorder r @ after p) \<and>
    inorder t' = (before p @ inorder l) @ (inorder r @ after p)"
  using erase_ok [OF assms] erase_inorder [of l c x r p] by auto

theorem rbt_erase_correct_witness:
  "\<exists>t'. rbt_erase (Node NIL RBT_BLACK (3::nat) NIL) [LeftOf RBT_BLACK 5 (Node NIL RBT_BLACK 7 NIL)]
      = Some t' \<and> rb_inv t' \<and> inorder t' = [5, 7]"
  using rbt_erase_correct
    [of NIL RBT_BLACK "3::nat" NIL "[LeftOf RBT_BLACK 5 (Node NIL RBT_BLACK 7 NIL)]"]
  by (simp add: rb_inv_def)

text \<open>
  \<open>rbt_next\<close> and \<open>rbt_prev\<close> return the neighbours of a node in the order of the tree,
  and \<open>NULL\<close> at its ends.
\<close>

lemma rbt_next_prev_correct:
  "rbt_next (Node l c x r) p =
     (case inorder r @ after p of [] \<Rightarrow> None | y # _ \<Rightarrow> Some y) \<and>
   rbt_prev (Node l c x r) p =
     (case rev (before p @ inorder l) of [] \<Rightarrow> None | y # _ \<Rightarrow> Some y)"
  unfolding next_inorder prev_inorder by (auto simp: hd_rev [symmetric] split: list.split)

text \<open>
  Search loops are short: the height of a red-black tree with \<open>n\<close> nodes is at most
  \<open>2 * log2 (n + 1) + 1\<close>.
\<close>

lemma rbt_height_logarithmic:
  assumes "rb_inv t"
  shows "2 ^ (height t div 2) \<le> length (inorder t) + 1"
  using assms by (rule height_log)

end
