(* ===== verification/Bilby_Keyed_Tree.thy ===== *)
theory Bilby_Keyed_Tree
  imports Bilby_Rbt
begin

text \<open>
  The contract between the red-black trees and their two clients, the object index
  (\<open>idx.c\<close>) and the garbage information manager (\<open>gim.c\<close>). Both embed \<open>rbt_node\<close> in a
  structure with an object id and write their own search loops over the child pointers.
  The locale \<open>keyed_tree\<close> fixes the key of a node and the three loops of a client (search,
  search for an insertion point, search for the next greater key) with their defining
  equations as laws, and shows once that the operations of a client are those of a finite
  map from keys to nodes.
\<close>

definition tmap :: "('n \<Rightarrow> 'k) \<Rightarrow> 'n list \<Rightarrow> 'k \<rightharpoonup> 'n" where
  "tmap key xs = map_of (map (\<lambda>x. (key x, x)) xs)"

definition key_sorted :: "('n \<Rightarrow> 'k::linorder) \<Rightarrow> 'n list \<Rightarrow> bool" where
  "key_sorted key xs \<longleftrightarrow> sorted_wrt (<) (map key xs)"

lemma key_sorted_simps [simp]:
  "key_sorted key []"
  "key_sorted key (x # xs) \<longleftrightarrow> (\<forall>y \<in> set xs. key x < key y) \<and> key_sorted key xs"
  "key_sorted key (xs @ ys) \<longleftrightarrow>
     key_sorted key xs \<and> key_sorted key ys \<and> (\<forall>x \<in> set xs. \<forall>y \<in> set ys. key x < key y)"
  by (auto simp: key_sorted_def sorted_wrt_append)

lemma tmap_Nil [simp]: "tmap key [] = Map.empty"
  by (simp add: tmap_def)

lemma tmap_Cons [simp]: "tmap key (x # xs) = (tmap key xs)(key x \<mapsto> x)"
  by (simp add: tmap_def)

lemma tmap_None: "tmap key xs k = None \<longleftrightarrow> (\<forall>x \<in> set xs. key x \<noteq> k)"
  by (induction xs) auto

lemma tmap_append: "tmap key (xs @ ys) = tmap key ys ++ tmap key xs"
  by (simp add: tmap_def)

lemma tmap_SomeD: "tmap key xs k = Some x \<Longrightarrow> x \<in> set xs \<and> key x = k"
  by (induction xs) (auto split: if_splits)

lemma tmap_middle:
  assumes "\<forall>y \<in> set ys. key y \<noteq> key x" and "\<forall>y \<in> set zs. key y \<noteq> key x"
  shows "tmap key (ys @ x # zs) = (tmap key (ys @ zs))(key x \<mapsto> x)"
    and "tmap key (ys @ zs) (key x) = None"
  using assms tmap_None [of key ys "key x"] tmap_None [of key zs "key x"]
  by (auto simp: tmap_append map_add_def fun_eq_iff split: option.splits)

lemma key_sorted_distinct:
  assumes "key_sorted key (ys @ x # zs)"
  shows "\<forall>y \<in> set ys. key y \<noteq> key x" and "\<forall>y \<in> set zs. key y \<noteq> key x"
  using assms by force+

lemma tmap_sorted_middle:
  assumes "key_sorted key (ys @ x # zs)"
  shows "tmap key (ys @ x # zs) = (tmap key (ys @ zs))(key x \<mapsto> x)"
    and "tmap key (ys @ zs) (key x) = None"
  by (rule tmap_middle [OF key_sorted_distinct [OF assms]])+

locale keyed_tree =
  fixes key :: "'n \<Rightarrow> 'k::linorder"
    and search :: "'n rbt \<Rightarrow> 'k \<Rightarrow> 'n option"
    and walk :: "'n rbt \<Rightarrow> 'k \<Rightarrow> 'n path \<Rightarrow> 'n rbt \<times> 'n path"
    and greater :: "'n rbt \<Rightarrow> 'k \<Rightarrow> 'n option \<Rightarrow> 'n option"
  assumes search_NIL: "search NIL k = None"
    and search_Node: "search (Node l c x r) k =
          (if k < key x then search l k else if key x < k then search r k else Some x)"
    and walk_NIL: "walk NIL k p = (NIL, p)"
    and walk_Node: "walk (Node l c x r) k p =
          (if k < key x then walk l k (LeftOf c x r # p)
           else if key x < k then walk r k (RightOf l c x # p) else (Node l c x r, p))"
    and greater_NIL: "greater NIL k acc = acc"
    and greater_Node: "greater (Node l c x r) k acc =
          (if k < key x then greater l k (Some x) else greater r k acc)"
begin

lemma search_tmap: "key_sorted key (inorder t) \<Longrightarrow> search t k = tmap key (inorder t) k"
proof (induction t)
  case NIL
  show ?case by (simp add: search_NIL)
next
  case (Node l c x r)
  then have "\<forall>y \<in> set (inorder l). key y < key x" "\<forall>y \<in> set (inorder r). key x < key y"
    by auto
  then have "key x \<le> k \<Longrightarrow> tmap key (inorder l) k = None"
    and "k \<le> key x \<Longrightarrow> tmap key (inorder r) k = None"
    unfolding tmap_None by force+
  with Node show ?case
    by (auto simp: search_Node tmap_append map_add_def split: option.splits)
qed

lemma walk_plug: "walk t k p = (s, q) \<Longrightarrow> plug s q = plug t p"
proof (induction t arbitrary: p)
  case NIL
  then show ?case by (simp add: walk_NIL)
next
  case (Node l c x r)
  then show ?case by (fastforce simp: walk_Node split: if_splits)
qed

lemma walk_bounds:
  assumes "walk t k p = (s, q)" "key_sorted key (inorder t)"
    and "\<forall>x \<in> set (before p). key x < k" "\<forall>x \<in> set (after p). k < key x"
  shows "(s = NIL \<longrightarrow> (\<forall>x \<in> set (before q). key x < k) \<and> (\<forall>x \<in> set (after q). k < key x)) \<and>
         (\<forall>l c x r. s = Node l c x r \<longrightarrow> key x = k)"
  using assms
proof (induction t arbitrary: p)
  case NIL
  then show ?case by (auto simp: walk_NIL)
next
  case (Node l c x r)
  consider "k < key x" | "key x < k" | "key x = k" by force
  then show ?case
  proof cases
    case 1
    with Node.prems have "\<forall>y \<in> set (inorder r). k < key y" by fastforce
    with 1 Node.prems show ?thesis
      by (intro Node.IH(1) [of "LeftOf c x r # p"]) (auto simp: walk_Node)
  next
    case 2
    with Node.prems have "\<forall>y \<in> set (inorder l). key y < k" by fastforce
    moreover have "walk r k (RightOf l c x # p) = (s, q)"
      using 2 Node.prems(1) by (simp add: walk_Node order_less_not_sym)
    ultimately show ?thesis
      using 2 Node.prems by (intro Node.IH(2) [of "RightOf l c x # p"]) auto
  next
    case 3
    with Node.prems show ?thesis by (auto simp: walk_Node)
  qed
qed

lemma walk_search:
  assumes "key_sorted key (inorder t)" "walk t k [] = (s, q)"
  shows "search t k = node_of s"
proof -
  have io: "inorder t = before q @ inorder s @ after q"
    using arg_cong [OF walk_plug [OF assms(2)], of inorder] by simp
  show ?thesis
  proof (cases s)
    case NIL
    with walk_bounds [OF assms(2,1)] have "\<forall>x \<in> set (inorder t). key x \<noteq> k"
      using io by fastforce
    then show ?thesis using NIL assms(1) by (simp add: search_tmap tmap_None)
  next
    case (Node l c x r)
    with walk_bounds [OF assms(2,1)] have kx: "key x = k" by simp
    from io Node have split: "inorder t = (before q @ inorder l) @ x # (inorder r @ after q)" by simp
    have "tmap key (inorder t) (key x) = Some x"
      using tmap_sorted_middle(1) [OF assms(1) [unfolded split]] unfolding split by simp
    then show ?thesis using kx Node assms(1) by (simp add: search_tmap)
  qed
qed

text \<open>Inserting a node whose key is not in the tree.\<close>

lemma insert_new:
  assumes "rb_inv t" "key_sorted key (inorder t)" "walk t (key n) [] = (NIL, q)"
  shows "\<exists>t'. rbt_insert_color (Node NIL RBT_RED n NIL) q = Some t' \<and> rb_inv t' \<and>
     key_sorted key (inorder t') \<and> tmap key (inorder t') = (tmap key (inorder t))(key n \<mapsto> n) \<and>
     set (inorder t') = insert n (set (inorder t)) \<and> tmap key (inorder t) (key n) = None"
proof -
  have pl: "plug NIL q = t" using walk_plug [OF assms(3)] by simp
  then have io: "inorder t = before q @ after q" by auto
  have b: "\<forall>x \<in> set (before q). key x < key n" "\<forall>x \<in> set (after q). key n < key x"
    using walk_bounds [OF assms(3,2)] by auto
  from assms(1) pl have "path_ok 0 q" using rb_inv_plug [of NIL q] by simp
  then obtain t' where t': "rbt_insert_color (Node NIL RBT_RED n NIL) q = Some t'" "rb_inv t'"
    using insert_color_ok [of "Node NIL RBT_RED n NIL" q] by auto
  have io': "inorder t' = before q @ n # after q"
    using insert_color_inorder [OF t'(1)] by simp
  have "tmap key (inorder t') = (tmap key (inorder t))(key n \<mapsto> n)"
    and "tmap key (inorder t) (key n) = None"
    unfolding io io' using b by (intro tmap_middle; force)+
  moreover have "key_sorted key (inorder t')"
    using b assms(2) unfolding io io' by (auto dest: order_less_trans)
  ultimately show ?thesis using t' io io' by auto
qed

text \<open>Removing the node found by a search.\<close>

lemma erase_found:
  assumes "rb_inv t" "key_sorted key (inorder t)" "walk t k [] = (Node l c x r, q)"
  shows "\<exists>t'. rbt_erase (Node l c x r) q = Some t' \<and> rb_inv t' \<and>
     key_sorted key (inorder t') \<and> tmap key (inorder t') = (tmap key (inorder t))(k := None) \<and>
     set (inorder t') \<subseteq> set (inorder t)"
proof -
  have pl: "plug (Node l c x r) q = t" using walk_plug [OF assms(3)] by simp
  then have io: "inorder t = (before q @ inorder l) @ x # (inorder r @ after q)" by auto
  have kx: "key x = k" using walk_bounds [OF assms(3,2)] by simp
  from assms(1) pl obtain t' where t': "rbt_erase (Node l c x r) q = Some t'" "rb_inv t'"
    using erase_ok [of l c x r q] by auto
  have io': "inorder t' = (before q @ inorder l) @ (inorder r @ after q)"
    using erase_inorder [OF t'(1)] by simp
  have "tmap key (inorder t) = (tmap key (inorder t'))(key x \<mapsto> x)"
    and "tmap key (inorder t') (key x) = None"
    using tmap_sorted_middle [OF assms(2) [unfolded io]] unfolding io io' by simp_all
  then have "tmap key (inorder t') = (tmap key (inorder t))(k := None)"
    using kx by (auto simp: fun_eq_iff)
  with t' io io' assms(2) show ?thesis by auto
qed

text \<open>Writing through a pointer to a node without changing its key.\<close>

lemma update_found:
  assumes "rb_inv t" "key_sorted key (inorder t)" "walk t k [] = (Node l c x r, q)" "key y = key x"
  shows "rb_inv (plug (Node l c y r) q)"
    and "key_sorted key (inorder (plug (Node l c y r) q))"
    and "tmap key (inorder (plug (Node l c y r) q)) = (tmap key (inorder t))(k \<mapsto> y)"
    and "set (inorder (plug (Node l c y r) q)) \<subseteq> insert y (set (inorder t))"
proof -
  have pl: "plug (Node l c x r) q = t" using walk_plug [OF assms(3)] by simp
  then have io: "inorder t = (before q @ inorder l) @ x # (inorder r @ after q)" by auto
  have kx: "key x = k" using walk_bounds [OF assms(3,2)] by simp
  from assms(1) pl have "rb_inv (plug (Node l c x r) q)" by simp
  then show "rb_inv (plug (Node l c y r) q)"
    unfolding rb_inv_plug fits_def by simp
  have "map key (inorder (plug (Node l c y r) q)) = map key (inorder t)"
    using io assms(4) by simp
  with assms(2) show "key_sorted key (inorder (plug (Node l c y r) q))"
    by (simp only: key_sorted_def)
  have nx: "\<forall>z \<in> set (before q @ inorder l). key z \<noteq> key x"
    "\<forall>z \<in> set (inorder r @ after q). key z \<noteq> key x"
    using key_sorted_distinct [OF assms(2) [unfolded io]] by blast+
  have io': "inorder (plug (Node l c y r) q) = (before q @ inorder l) @ y # (inorder r @ after q)"
    by simp
  have "tmap key (inorder (plug (Node l c y r) q)) =
      (tmap key ((before q @ inorder l) @ (inorder r @ after q)))(key y \<mapsto> y)"
    unfolding io' using nx assms(4) by (intro tmap_middle(1)) auto
  also have "\<dots> = (tmap key (inorder t))(k \<mapsto> y)"
    unfolding io tmap_middle(1) [OF nx] using kx assms(4) by simp
  finally show "tmap key (inorder (plug (Node l c y r) q)) = (tmap key (inorder t))(k \<mapsto> y)" .
  show "set (inorder (plug (Node l c y r) q)) \<subseteq> insert y (set (inorder t))"
    using io by auto
qed

lemma greater_find:
  "key_sorted key (inorder t) \<Longrightarrow>
   greater t k acc = (case find (\<lambda>x. k < key x) (inorder t) of None \<Rightarrow> acc | Some x \<Rightarrow> Some x)"
proof (induction t arbitrary: acc)
  case NIL
  show ?case by (simp add: greater_NIL)
next
  case (Node l c x r)
  have fa: "find P (xs @ ys) = (case find P xs of None \<Rightarrow> find P ys | Some z \<Rightarrow> Some z)"
    for P and xs ys :: "'n list"
    by (induction xs) auto
  have "\<not> k < key x \<Longrightarrow> find (\<lambda>x. k < key x) (inorder l) = None"
    using Node.prems by (fastforce simp: find_None_iff)
  with Node show ?case
    by (auto simp: greater_Node fa split: option.splits)
qed

end

section \<open>Hash tables of trees\<close>

text \<open>
  Both clients hash a key to one of 2048 trees. A table is well formed when every tree is a
  red-black tree sorted by key that holds only keys of its bucket; it stands for the map that
  looks a key up in the tree of its bucket.
\<close>

definition table_ok :: "('n \<Rightarrow> 'k::linorder) \<Rightarrow> ('k \<Rightarrow> nat) \<Rightarrow> nat \<Rightarrow> 'n rbt list \<Rightarrow> bool" where
  "table_ok key bucket n ts \<longleftrightarrow> length ts = n \<and>
     (\<forall>h < n. rb_inv (ts ! h) \<and> key_sorted key (inorder (ts ! h)) \<and>
       (\<forall>x \<in> set (inorder (ts ! h)). bucket (key x) = h))"

definition table_map :: "('n \<Rightarrow> 'k) \<Rightarrow> ('k \<Rightarrow> nat) \<Rightarrow> 'n rbt list \<Rightarrow> 'k \<rightharpoonup> 'n" where
  "table_map key bucket ts k = tmap key (inorder (ts ! bucket k)) k"

lemma table_ok_empty: "table_ok key bucket n (replicate n NIL)"
  by (simp add: table_ok_def rb_inv_def)

lemma table_map_empty: "(\<And>k. bucket k < n) \<Longrightarrow> table_map key bucket (replicate n NIL) = Map.empty"
  by (simp add: table_map_def fun_eq_iff)

locale keyed_table = keyed_tree key search walk greater
  for key :: "'n \<Rightarrow> 'k::linorder"
    and search :: "'n rbt \<Rightarrow> 'k \<Rightarrow> 'n option"
    and walk :: "'n rbt \<Rightarrow> 'k \<Rightarrow> 'n path \<Rightarrow> 'n rbt \<times> 'n path"
    and greater :: "'n rbt \<Rightarrow> 'k \<Rightarrow> 'n option \<Rightarrow> 'n option" +
  fixes bucket :: "'k \<Rightarrow> nat" and n :: nat
  assumes bucket_less: "bucket k < n"
begin

lemma table_okD:
  assumes "table_ok key bucket n ts"
  shows "nth_opt ts (bucket k) = Some (ts ! bucket k)" "rb_inv (ts ! bucket k)"
    "key_sorted key (inorder (ts ! bucket k))"
    "\<forall>x \<in> set (inorder (ts ! bucket k)). bucket (key x) = bucket k"
  using assms bucket_less [of k] by (auto simp: table_ok_def)

lemma table_upd:
  assumes "table_ok key bucket n ts" "rb_inv t" "key_sorted key (inorder t)"
    and "\<forall>x \<in> set (inorder t). bucket (key x) = bucket k"
    and "tmap key (inorder t) = (tmap key (inorder (ts ! bucket k)))(k := v)"
  shows "table_ok key bucket n (ts[bucket k := t])"
    and "table_map key bucket (ts[bucket k := t]) = (table_map key bucket ts)(k := v)"
proof -
  show "table_ok key bucket n (ts[bucket k := t])"
    using assms bucket_less [of k] by (auto simp: table_ok_def nth_list_update)
  have "length ts = n" using assms(1) by (simp add: table_ok_def)
  then show "table_map key bucket (ts[bucket k := t]) = (table_map key bucket ts)(k := v)"
    using assms(5) bucket_less by (auto simp: table_map_def nth_list_update fun_eq_iff)
qed

lemma table_search: "table_ok key bucket n ts \<Longrightarrow> search (ts ! bucket k) k = table_map key bucket ts k"
  using table_okD(3) [of ts k] by (simp add: search_tmap table_map_def)

lemma table_walk:
  "table_ok key bucket n ts \<Longrightarrow> walk (ts ! bucket k) k [] = (s, p) \<Longrightarrow> table_map key bucket ts k = node_of s"
  using walk_search [OF table_okD(3)] table_search by metis

lemma table_insert:
  assumes "table_ok key bucket n ts" "walk (ts ! bucket (key x)) (key x) [] = (NIL, p)"
  shows "\<exists>t'. rbt_insert_color (Node NIL RBT_RED x NIL) p = Some t' \<and>
    table_ok key bucket n (ts[bucket (key x) := t']) \<and>
    table_map key bucket (ts[bucket (key x) := t']) = (table_map key bucket ts)(key x \<mapsto> x)"
proof -
  note ok = table_okD [OF assms(1), of "key x"]
  from insert_new [OF ok(2,3) assms(2)] obtain t' where
    t': "rbt_insert_color (Node NIL RBT_RED x NIL) p = Some t'" "rb_inv t'" "key_sorted key (inorder t')"
    "tmap key (inorder t') = (tmap key (inorder (ts ! bucket (key x))))(key x \<mapsto> x)"
    "set (inorder t') = insert x (set (inorder (ts ! bucket (key x))))"
    by auto
  then have "\<forall>y \<in> set (inorder t'). bucket (key y) = bucket (key x)" using ok(4) by auto
  from table_upd [OF assms(1) t'(2,3) this t'(4)] t'(1) show ?thesis by blast
qed

lemma table_erase:
  assumes "table_ok key bucket n ts" "walk (ts ! bucket k) k [] = (Node l c x r, p)"
  shows "\<exists>t'. rbt_erase (Node l c x r) p = Some t' \<and> table_ok key bucket n (ts[bucket k := t']) \<and>
    table_map key bucket (ts[bucket k := t']) = (table_map key bucket ts)(k := None)"
proof -
  note ok = table_okD [OF assms(1), of k]
  from erase_found [OF ok(2,3) assms(2)] obtain t' where
    t': "rbt_erase (Node l c x r) p = Some t'" "rb_inv t'" "key_sorted key (inorder t')"
    "tmap key (inorder t') = (tmap key (inorder (ts ! bucket k)))(k := None)"
    "set (inorder t') \<subseteq> set (inorder (ts ! bucket k))"
    by auto
  then have "\<forall>y \<in> set (inorder t'). bucket (key y) = bucket k" using ok(4) by auto
  from table_upd [OF assms(1) t'(2,3) this t'(4)] t'(1) show ?thesis by blast
qed

lemma table_update:
  assumes "table_ok key bucket n ts" "walk (ts ! bucket k) k [] = (Node l c x r, p)" "key y = key x"
  shows "table_ok key bucket n (ts[bucket k := plug (Node l c y r) p])"
    and "table_map key bucket (ts[bucket k := plug (Node l c y r) p]) = (table_map key bucket ts)(k \<mapsto> y)"
proof -
  note ok = table_okD [OF assms(1), of k]
  note u = update_found [OF ok(2,3) assms(2,3)]
  have "key x = k" using walk_bounds [OF assms(2) ok(3)] by simp
  then have "\<forall>z \<in> set (inorder (plug (Node l c y r) p)). bucket (key z) = bucket k"
    using u(4) ok(4) assms(3) by auto
  from table_upd [OF assms(1) u(1,2) this u(3)]
  show "table_ok key bucket n (ts[bucket k := plug (Node l c y r) p])"
    "table_map key bucket (ts[bucket k := plug (Node l c y r) p]) = (table_map key bucket ts)(k \<mapsto> y)"
    by blast+
qed

end

end
