(* ===== verification/Bilby_Types.thy ===== *)
theory Bilby_Types
  imports Bilby_Keyed_Tree
begin

text \<open>
  The data of \<open>bilbyfs.h\<close>: constants, object ids, the in-memory structures and the global
  state \<open>struct bilbyfs_info\<close>. The kernel services that BilbyFs calls and does not define
  (UBI, CRC-32, the clock, the caller's credentials, the contents of fresh memory) are the
  record \<open>kernel\<close>, an argument of every operation that uses them.
  The lemmas show that an object id keeps its inode number, its type and its block index
  apart, and how ids of one inode are ordered.
\<close>

section \<open>Constants\<close>

abbreviation (input) BILBYFS_INODE_OBJ :: "'a::len word" where "BILBYFS_INODE_OBJ \<equiv> 0"
abbreviation (input) BILBYFS_DATA_OBJ :: "'a::len word" where "BILBYFS_DATA_OBJ \<equiv> 1"
abbreviation (input) BILBYFS_DENTARR_OBJ :: "'a::len word" where "BILBYFS_DENTARR_OBJ \<equiv> 2"
abbreviation (input) BILBYFS_SUP_OBJ :: "'a::len word" where "BILBYFS_SUP_OBJ \<equiv> 3"
abbreviation (input) BILBYFS_PAD_OBJ :: "'a::len word" where "BILBYFS_PAD_OBJ \<equiv> 4"
abbreviation (input) BILBYFS_DEL_OBJ :: "'a::len word" where "BILBYFS_DEL_OBJ \<equiv> 5"
abbreviation (input) BILBYFS_SUM_OBJ :: "'a::len word" where "BILBYFS_SUM_OBJ \<equiv> 6"
abbreviation (input) BILBYFS_OBJ_TYPES_CNT :: "'a::len word" where "BILBYFS_OBJ_TYPES_CNT \<equiv> 7"

abbreviation (input) BILBYFS_ITYPE_REG :: u8 where "BILBYFS_ITYPE_REG \<equiv> 0"
abbreviation (input) BILBYFS_ITYPE_DIR :: u8 where "BILBYFS_ITYPE_DIR \<equiv> 1"
abbreviation (input) BILBYFS_ITYPE_LNK :: u8 where "BILBYFS_ITYPE_LNK \<equiv> 2"
abbreviation (input) BILBYFS_ITYPE_BLK :: u8 where "BILBYFS_ITYPE_BLK \<equiv> 3"
abbreviation (input) BILBYFS_ITYPE_CHR :: u8 where "BILBYFS_ITYPE_CHR \<equiv> 4"
abbreviation (input) BILBYFS_ITYPE_FIFO :: u8 where "BILBYFS_ITYPE_FIFO \<equiv> 5"
abbreviation (input) BILBYFS_ITYPE_SOCK :: u8 where "BILBYFS_ITYPE_SOCK \<equiv> 6"

abbreviation (input) BILBYFS_TRANS_ST :: u8 where "BILBYFS_TRANS_ST \<equiv> 1"
abbreviation (input) BILBYFS_TRANS_IN :: u8 where "BILBYFS_TRANS_IN \<equiv> 2"
abbreviation (input) BILBYFS_TRANS_END :: u8 where "BILBYFS_TRANS_END \<equiv> 4"
abbreviation (input) BILBYFS_TRANS_ATOM :: u8 where "BILBYFS_TRANS_ATOM \<equiv> 5"

abbreviation (input) BILBYFS_ORPHAN_FL :: u32 where "BILBYFS_ORPHAN_FL \<equiv> 1"
abbreviation (input) BILBYFS_APPEND_FL :: u32 where "BILBYFS_APPEND_FL \<equiv> 2"
abbreviation (input) BILBYFS_IMMUTABLE_FL :: u32 where "BILBYFS_IMMUTABLE_FL \<equiv> 4"

text \<open>The flags \<open>OSW_DEL = 1\<close>, \<open>OSW_GC = 2\<close>, \<open>OSW_SYNC = 4\<close> of a write.\<close>

record osw_flag =
  OSW_DEL :: bool
  OSW_GC :: bool
  OSW_SYNC :: bool

definition OSW_NONE :: osw_flag where
  "OSW_NONE = \<lparr>OSW_DEL = False, OSW_GC = False, OSW_SYNC = False\<rparr>"

definition BILBYFS_ROOT_INO :: u64 where [simp]: "BILBYFS_ROOT_INO = 24"
definition BILBYFS_FIRST_SQNUM :: u64 where [simp]: "BILBYFS_FIRST_SQNUM = 1"
definition BILBYFS_FIRST_INO :: u32 where [simp]: "BILBYFS_FIRST_INO = 25"
definition BILBYFS_LAST_INUM :: u32 where [simp]: "BILBYFS_LAST_INUM = 0xFFFFFF00"
definition BILBYFS_SUP_LNUM :: int where [simp]: "BILBYFS_SUP_LNUM = 0"
definition BILBYFS_LOG_FST_LNUM :: int where [simp]: "BILBYFS_LOG_FST_LNUM = 3"
definition BILBYFS_MIN_USABLE_LOG_SZ :: int where [simp]: "BILBYFS_MIN_USABLE_LOG_SZ = 2"
definition BILBYFS_MAX_NLEN :: nat where [simp]: "BILBYFS_MAX_NLEN = 255"
definition BILBYFS_DEFAULT_NB_RESERVED_GC :: int where [simp]: "BILBYFS_DEFAULT_NB_RESERVED_GC = 3"
definition BILBYFS_DEFAULT_NB_RESERVED_DEL :: int where [simp]: "BILBYFS_DEFAULT_NB_RESERVED_DEL = 3"
definition BILBYFS_OBJ_MAGIC :: u32 where [simp]: "BILBYFS_OBJ_MAGIC = 0xb17b9f50"
definition BILBYFS_PAD_BYTE :: u8 where [simp]: "BILBYFS_PAD_BYTE = 0x42"
definition BILBYFS_OBJ_PADDING :: int where [simp]: "BILBYFS_OBJ_PADDING = 8"
definition BILBYFS_CRC32_INIT :: u32 where [simp]: "BILBYFS_CRC32_INIT = 0xFFFFFFFF"
definition BILBYFS_BLOCK_SIZE :: int where [simp]: "BILBYFS_BLOCK_SIZE = 4096"
definition BILBYFS_BLOCK_SHIFT :: nat where [simp]: "BILBYFS_BLOCK_SHIFT = 12"
definition BILBYFS_ID_XINFO_BITS :: nat where [simp]: "BILBYFS_ID_XINFO_BITS = 29"
definition BILBYFS_ID_XINFO_MASK :: u64 where [simp]: "BILBYFS_ID_XINFO_MASK = 0x1FFFFFF"
definition BILBYFS_MAX_FILE_SZ :: int where [simp]: "BILBYFS_MAX_FILE_SZ = 2 ^ 41"
definition BILBYFS_MAX_OBJ_PER_TRANS :: nat where [simp]: "BILBYFS_MAX_OBJ_PER_TRANS = 2048"
definition BILBYFS_MAX_DENTARR_ENTRIES :: u32 where [simp]: "BILBYFS_MAX_DENTARR_ENTRIES = 16"
definition BILBYFS_SUM_ENTRY_DEL_FLAG_MASK :: u32 where
  [simp]: "BILBYFS_SUM_ENTRY_DEL_FLAG_MASK = 0x80000000"
definition NIL_ID :: u64 where [simp]: "NIL_ID = 0xFFFFFFFFFFFFFFFF"

text \<open>Sizes of the packed structures.\<close>

definition BILBYFS_CH_SZ :: nat where [simp]: "BILBYFS_CH_SZ = 24"
definition BILBYFS_INODE_SZ :: nat where [simp]: "BILBYFS_INODE_SZ = 96"
definition BILBYFS_DATA_SZ :: nat where [simp]: "BILBYFS_DATA_SZ = 40"
definition BILBYFS_DENTARR_SZ :: nat where [simp]: "BILBYFS_DENTARR_SZ = 40"
definition BILBYFS_SUPER_SZ :: nat where [simp]: "BILBYFS_SUPER_SZ = 120"
definition BILBYFS_DENTRY_SZ :: nat where [simp]: "BILBYFS_DENTRY_SZ = 7"
definition BILBYFS_DEL_SZ :: nat where [simp]: "BILBYFS_DEL_SZ = 32"
definition BILBYFS_SUM_SZ :: nat where [simp]: "BILBYFS_SUM_SZ = 28"
definition BILBYFS_SUM_ENTRY_SZ :: nat where [simp]: "BILBYFS_SUM_ENTRY_SZ = 26"
definition BILBYFS_OBJ_SUM_OFFS_SZ :: nat where [simp]: "BILBYFS_OBJ_SUM_OFFS_SZ = 4"
definition BILBYFS_MAX_DATA_SZ :: nat where [simp]: "BILBYFS_MAX_DATA_SZ = 4136"
definition BILBYFS_MAX_DENTRY_SZ :: nat where [simp]: "BILBYFS_MAX_DENTRY_SZ = 263"
definition BILBYFS_MAX_DENTARR_SZ :: nat where [simp]: "BILBYFS_MAX_DENTARR_SZ = 4248"

section \<open>Object ids\<close>

type_synonym obj_id = u64

definition inum_from_id :: "obj_id \<Rightarrow> u64" where
  "inum_from_id oid = drop_bit 32 oid"

definition type_from_id :: "obj_id \<Rightarrow> u32" where
  "type_from_id oid = ucast (drop_bit BILBYFS_ID_XINFO_BITS oid AND 7)"

definition xinfo_from_id :: "obj_id \<Rightarrow> u32" where
  "xinfo_from_id oid = ucast (oid AND BILBYFS_ID_XINFO_MASK)"

definition inode_id_init :: "u64 \<Rightarrow> obj_id" where
  "inode_id_init ino = push_bit 32 ino"

text \<open>
  \<open>id_hash_nm\<close>: the bytes are read as \<open>signed char\<close> and promoted to \<open>int\<close>, so
  \<open>*str >> 4\<close> is an arithmetic shift. The loop ends at the zero byte; \<open>len\<close> is not used.
\<close>

fun id_hash_loop :: "name \<Rightarrow> u32 \<Rightarrow> u32" where
  "id_hash_loop [] a = a"
| "id_hash_loop (c # cs) a =
     (if c = 0 then a
      else let s = (scast c :: u32);
               a1 = a + push_bit 4 s;
               a2 = a1 + signed_drop_bit 4 s
           in id_hash_loop cs (a2 * 11))"

definition id_hash_nm :: "name \<Rightarrow> u32" where
  "id_hash_nm s = id_hash_loop s 0 AND ucast BILBYFS_ID_XINFO_MASK"

definition dentarr_id_init :: "u64 \<Rightarrow> name \<Rightarrow> obj_id" where
  "dentarr_id_init ino name =
     (push_bit 32 ino OR push_bit BILBYFS_ID_XINFO_BITS BILBYFS_DENTARR_OBJ) OR
     ucast (id_hash_nm name)"

definition data_id_init :: "u64 \<Rightarrow> u32 \<Rightarrow> obj_id" where
  "data_id_init ino block =
     (push_bit 32 ino OR push_bit BILBYFS_ID_XINFO_BITS BILBYFS_DATA_OBJ) OR ucast block"

definition is_inode_id :: "obj_id \<Rightarrow> bool" where
  "is_inode_id oid \<longleftrightarrow> type_from_id oid = BILBYFS_INODE_OBJ"

definition is_dentarr_id :: "obj_id \<Rightarrow> bool" where
  "is_dentarr_id oid \<longleftrightarrow> type_from_id oid = BILBYFS_DENTARR_OBJ"

definition is_data_id :: "obj_id \<Rightarrow> bool" where
  "is_data_id oid \<longleftrightarrow> type_from_id oid = BILBYFS_DATA_OBJ"

text \<open>The three fields of an id: 32 bits inode number, 3 bits type, 29 bits extra information.\<close>

definition mk_id :: "u64 \<Rightarrow> u64 \<Rightarrow> u64 \<Rightarrow> obj_id" where
  "mk_id ino ty x = (push_bit 32 ino OR push_bit 29 ty) OR x"

lemma inode_id_mk: "inode_id_init ino = mk_id ino 0 0"
  by (simp add: mk_id_def inode_id_init_def)

lemma data_id_mk: "data_id_init ino b = mk_id ino 1 (ucast b)"
  by (simp add: mk_id_def data_id_init_def)

lemma dentarr_id_mk: "dentarr_id_init ino nm = mk_id ino 2 (ucast (id_hash_nm nm))"
  by (simp add: mk_id_def dentarr_id_init_def)

lemma or_add_nat: "(y :: nat) < 2 ^ n \<Longrightarrow> push_bit n x OR y = x * 2 ^ n + y"
proof -
  assume y: "y < 2 ^ n"
  have "push_bit n x OR y = push_bit n x + y"
  proof (rule disjunctive_add [symmetric])
    fix k
    have "bit y k \<Longrightarrow> k < n" using y
      by (metis bit_take_bit_iff take_bit_nat_eq_self)
    then show "\<not> bit (push_bit n x) k \<or> \<not> bit y k" by (auto simp: bit_simps)
  qed
  then show ?thesis by (simp add: push_bit_eq_mult)
qed

lemma unat_mk_id:
  assumes "unat ino < 2 ^ 32" "unat ty < 8" "unat x < 2 ^ 29"
  shows "unat (mk_id ino ty x) = (unat ino * 8 + unat ty) * 2 ^ 29 + unat x"
proof -
  have "unat (push_bit 32 ino) = push_bit 29 (unat ino * 8)"
    unfolding unsigned_push_bit_eq unfolding push_bit_eq_mult
    using assms(1) by (simp add: take_bit_nat_eq_self)
  moreover have "unat (push_bit 29 ty) = push_bit 29 (unat ty)"
    unfolding unsigned_push_bit_eq unfolding push_bit_eq_mult
    using assms(2) by (simp add: take_bit_nat_eq_self)
  moreover have "unat ino * 8 OR unat ty = unat ino * 8 + unat ty"
    using or_add_nat [of "unat ty" 3 "unat ino"] assms(2) by (simp add: push_bit_eq_mult)
  ultimately show ?thesis
    using or_add_nat [OF assms(3), of "unat ino * 8 + unat ty"]
    unfolding mk_id_def unsigned_or_eq by (simp only: push_bit_or [symmetric])
qed

lemma unat_and_mask: "unat ((w :: 'a::len word) AND mask n) = unat w mod 2 ^ n"
  unfolding take_bit_eq_mask [symmetric] unsigned_take_bit_eq unfolding take_bit_eq_mod ..

lemma mk_id_parts:
  assumes "unat ino < 2 ^ 32" "unat ty < 8" "unat x < 2 ^ 29"
  shows "inum_from_id (mk_id ino ty x) = ino"
    and "unat (type_from_id (mk_id ino ty x)) = unat ty"
    and "unat (xinfo_from_id (mk_id ino ty x)) = unat x mod 2 ^ 25"
proof -
  note u = unat_mk_id [OF assms]
  have m7: "(7 :: u64) = mask 3" and m25: "(0x1FFFFFF :: u64) = mask 25"
    by (simp_all add: mask_eq_exp_minus_1)
  have "unat (drop_bit 32 (mk_id ino ty x)) = unat ino"
    unfolding unat_drop_bit_eq unfolding drop_bit_eq_div u using assms by simp
  then show "inum_from_id (mk_id ino ty x) = ino" unfolding inum_from_id_def word_unat_eq_iff .
  have "unat (drop_bit 29 (mk_id ino ty x)) = unat ino * 8 + unat ty"
    unfolding unat_drop_bit_eq unfolding drop_bit_eq_div u using assms(3) by (simp only: div_mult_self3) simp
  then have "unat (drop_bit 29 (mk_id ino ty x) AND 7) = unat ty"
    unfolding m7 unat_and_mask using assms(2) by simp
  moreover have "unat ty mod 2 ^ 32 = unat ty" using assms(2) by simp
  ultimately show "unat (type_from_id (mk_id ino ty x)) = unat ty"
    unfolding type_from_id_def BILBYFS_ID_XINFO_BITS_def unsigned_ucast_eq take_bit_eq_mod by simp
  have "unat (mk_id ino ty x AND 0x1FFFFFF) = unat x mod 2 ^ 25"
  proof -
    have "(unat ino * 8 + unat ty) * 2 ^ 29 + unat x =
        unat x + 2 ^ 25 * (16 * (unat ino * 8 + unat ty))" by simp
    then show ?thesis unfolding m25 unat_and_mask u by (simp only: mod_mult_self2)
  qed
  then show "unat (xinfo_from_id (mk_id ino ty x)) = unat x mod 2 ^ 25"
    unfolding xinfo_from_id_def BILBYFS_ID_XINFO_MASK_def unsigned_ucast_eq take_bit_eq_mod by simp
qed

lemma id_hash_bound: "unat (id_hash_nm nm) < 2 ^ 25"
proof -
  have "id_hash_nm nm = id_hash_loop nm 0 AND mask 25"
    by (simp add: id_hash_nm_def mask_eq_exp_minus_1)
  then show ?thesis by (simp add: unat_and_mask)
qed

lemma id_hash_bound_64: "unat (ucast (id_hash_nm nm) :: u64) < 2 ^ 29"
  using id_hash_bound [of nm] by (simp add: unsigned_ucast_eq take_bit_nat_eq_self)

lemma mk_id_less:
  assumes "unat ino < 2 ^ 32" "unat ty < 8" "unat x < 2 ^ 29"
    and "unat ino' < 2 ^ 32" "unat ty' < 8" "unat x' < 2 ^ 29"
  shows "mk_id ino ty x < mk_id ino' ty' x' \<longleftrightarrow>
    ino < ino' \<or> ino = ino' \<and> (ty < ty' \<or> ty = ty' \<and> x < x')"
proof -
  have "(a * 8 + b) * 2 ^ 29 + c < (a' * 8 + b') * 2 ^ 29 + c' \<longleftrightarrow>
      a < a' \<or> a = a' \<and> (b < b' \<or> b = b' \<and> c < c')"
    if "b < 8" "b' < 8" "c < 2 ^ 29" "c' < 2 ^ 29" for a b c a' b' c' :: nat
    using that by auto
  from this [OF assms(2,5,3,6)] show ?thesis
    unfolding word_less_nat_alt unat_mk_id [OF assms(1-3)] unat_mk_id [OF assms(4-6)]
    by (simp add: word_unat_eq_iff)
qed

lemma unat_ucast_block: "unat (ucast (b :: u32) :: u64) = unat b"
proof -
  have "unat b < 2 ^ 32" using unsigned_less [of b] by simp
  then show ?thesis by (simp add: unsigned_ucast_eq take_bit_nat_eq_self)
qed

text \<open>
  A data id determines the inode number, the object type and the block index it was made
  from, for every block below 2^25.
\<close>

lemma data_id_roundtrip:
  assumes "unat ino < 2 ^ 32" "unat blk < 2 ^ 25"
  shows "inum_from_id (data_id_init ino blk) = ino \<and> is_data_id (data_id_init ino blk) \<and>
    xinfo_from_id (data_id_init ino blk) = blk"
proof -
  have b: "unat (ucast blk :: u64) < 2 ^ 29" using assms(2) by (simp add: unat_ucast_block)
  have "inum_from_id (data_id_init ino blk) = ino"
    unfolding data_id_mk using assms b by (intro mk_id_parts(1)) simp_all
  moreover have "is_data_id (data_id_init ino blk)"
    unfolding data_id_mk is_data_id_def word_unat_eq_iff using assms b
    by (subst mk_id_parts(2)) simp_all
  moreover have "xinfo_from_id (data_id_init ino blk) = blk"
    unfolding data_id_mk word_unat_eq_iff using assms b
    by (subst mk_id_parts(3)) (simp_all add: unat_ucast_block)
  ultimately show ?thesis by blast
qed

lemma data_id_roundtrip_example:
  "inum_from_id (data_id_init 24 7) = 24 \<and> is_data_id (data_id_init 24 7) \<and>
   xinfo_from_id (data_id_init 24 7) = 7"
  using data_id_roundtrip [of 24 7] by simp

text \<open>
  Ids sort by inode number first; within an inode the inode object comes first, then the
  data blocks by block index, then the directory entry arrays. The index relies on this when it
  walks the objects of one inode.
\<close>

lemma id_order:
  assumes "unat ino < 2 ^ 32" "unat ino' < 2 ^ 32" "unat b < 2 ^ 29" "unat b' < 2 ^ 29"
  shows "inode_id_init ino < data_id_init ino b \<and>
    data_id_init ino b < dentarr_id_init ino nm \<and>
    (data_id_init ino b < data_id_init ino b' \<longleftrightarrow> b < b') \<and>
    (ino < ino' \<longrightarrow> dentarr_id_init ino nm < inode_id_init ino')"
proof -
  have b: "unat (ucast b :: u64) < 2 ^ 29" "unat (ucast b' :: u64) < 2 ^ 29"
    using assms by (simp_all add: unat_ucast_block)
  have lt: "(ucast b :: u64) < ucast b' \<longleftrightarrow> b < b'"
    by (simp add: word_less_nat_alt unat_ucast_block)
  note m = mk_id_less [OF assms(1) _ _ assms(1)] mk_id_less [OF assms(1) _ _ assms(2)]
  show ?thesis
    unfolding inode_id_mk data_id_mk dentarr_id_mk
    using b id_hash_bound_64 [of nm] by (simp add: m lt)
qed

lemma id_order_example:
  "inode_id_init 24 < data_id_init 24 0 \<and> data_id_init 24 0 < data_id_init 24 1 \<and>
   data_id_init 24 1 < dentarr_id_init 24 [97] \<and> dentarr_id_init 24 [97] < inode_id_init 25"
  using id_order [of 24 25 0 1 "[97]"] id_order [of 24 25 1 0 "[97]"] by simp

text \<open>
  The mask of \<open>xinfo_from_id\<close> has 25 bits although the field has 29: for a block at or
  above 2^25 (a file offset of 128 GiB, below \<open>BILBYFS_MAX_FILE_SZ\<close>) the block index read
  back from the id is the index modulo 2^25.
\<close>

lemma xinfo_truncates_block:
  assumes "unat ino < 2 ^ 32" "unat blk < 2 ^ 29"
  shows "unat (xinfo_from_id (data_id_init ino blk)) = unat blk mod 2 ^ 25"
  unfolding data_id_mk using assms
  by (subst mk_id_parts(3)) (simp_all add: unat_ucast_block)

lemma xinfo_truncates_block_example:
  "xinfo_from_id (data_id_init 24 0x2000003) = 3"
  using xinfo_truncates_block [of 24 "0x2000003"] by (simp add: word_unat_eq_iff)

section \<open>Structures\<close>

record obj_addr =
  oa_lnum :: u32
  oa_offs :: u32
  oa_len :: u32
  oa_sqnum :: u64

record bilbyfs_wbuf =
  wb_buf :: buf
  wb_size :: int
  wb_avail :: int
  wb_used :: int
  wb_sync_offs :: int

record bilbyfs_rbuf =
  rb_buf :: buf
  rb_size :: int
  rb_offs :: int

record bilbyfs_super =
  su_uuid :: buf
  su_flags :: u32
  su_sqnum :: u64
  su_leb_cnt :: int
  su_leb_size :: int
  su_nb_reserved_gc :: int
  su_nb_reserved_del :: int
  su_min_io_size :: int
  su_max_io_size :: int
  su_log_lnum :: u32
  su_log_offs :: u32
  su_lowest_sqnum :: u64
  su_last_inum :: u64

record idx_node =
  xn_addr :: obj_addr
  xn_id :: obj_id

record gim_node =
  gn_id :: obj_id
  gn_sqnum :: u64
  gn_count :: u32

text \<open>
  The pool of preallocated nodes: \<open>arr\<close> is \<open>None\<close> for a \<open>NULL\<close> array, an entry is true
  when it points to a node.
\<close>

record alloc_pool =
  ap_tot_nodes_needed :: int
  ap_arr :: "bool list option"
  ap_len :: int
  ap_i :: int
  ap_sz_obj :: int

text \<open>The volume and device information UBI reports.\<close>

record ubi_info =
  vi_usable_leb_size :: int
  vi_size :: int
  vi_cdev :: nat
  di_min_io_size :: int
  di_max_write_size :: int

text \<open>
  The global state. \<open>bi_ubi\<close> is the volume, \<open>bi_kmem\<close> the outcomes of the coming allocations;
  \<open>bi_addrs\<close> says that \<open>addrs\<close> points to the array that \<open>ostore_mount\<close> allocates.
\<close>

record 'u bilbyfs_info =
  bi_ubi :: 'u
  bi_info :: ubi_info
  bi_kmem :: kmem
  bi_next_inum :: u32
  bi_next_sqnum :: u64
  bi_is_ro :: bool
  bi_odata :: buf
  bi_idx_hash :: "idx_node rbt list"
  bi_wbuf :: bilbyfs_wbuf
  bi_rbuf :: bilbyfs_rbuf
  bi_super :: bilbyfs_super
  bi_sup_wbuf :: bilbyfs_wbuf
  bi_super_offs :: int
  bi_node_pool :: alloc_pool
  bi_summary :: buf
  bi_is_mounting :: bool
  bi_addrs :: bool
  bi_dirty_list :: "u32 list"
  bi_used_leb_list :: "bool list"
  bi_fsm_lnum :: u32
  bi_fsm_nb_free_eb :: u32
  bi_gim_hash :: "gim_node rbt list"
  bi_gc_buf :: bilbyfs_rbuf
  bi_no_summary :: bool
  bi_nb_pages :: int
  bi_nb_extra_pages :: int

text \<open>The state with every field zero, as \<open>kzalloc\<close> gives it.\<close>

definition zero_super :: bilbyfs_super where
  "zero_super = \<lparr>su_uuid = [], su_flags = 0, su_sqnum = 0, su_leb_cnt = 0, su_leb_size = 0,
     su_nb_reserved_gc = 0, su_nb_reserved_del = 0, su_min_io_size = 0, su_max_io_size = 0,
     su_log_lnum = 0, su_log_offs = 0, su_lowest_sqnum = 0, su_last_inum = 0\<rparr>"

definition info_on :: "'u \<Rightarrow> 'u bilbyfs_info" where
  "info_on ubi = \<lparr>bi_ubi = ubi,
     bi_info = \<lparr>vi_usable_leb_size = 0, vi_size = 0, vi_cdev = 0, di_min_io_size = 0, di_max_write_size = 0\<rparr>,
     bi_kmem = [], bi_next_inum = 0, bi_next_sqnum = 0, bi_is_ro = False, bi_odata = [], bi_idx_hash = [],
     bi_wbuf = \<lparr>wb_buf = [], wb_size = 0, wb_avail = 0, wb_used = 0, wb_sync_offs = 0\<rparr>,
     bi_rbuf = \<lparr>rb_buf = [], rb_size = 0, rb_offs = 0\<rparr>, bi_super = zero_super,
     bi_sup_wbuf = \<lparr>wb_buf = [], wb_size = 0, wb_avail = 0, wb_used = 0, wb_sync_offs = 0\<rparr>,
     bi_super_offs = 0,
     bi_node_pool = \<lparr>ap_tot_nodes_needed = 0, ap_arr = None, ap_len = 0, ap_i = 0, ap_sz_obj = 0\<rparr>,
     bi_summary = [], bi_is_mounting = False, bi_addrs = False, bi_dirty_list = [], bi_used_leb_list = [],
     bi_fsm_lnum = 0, bi_fsm_nb_free_eb = 0, bi_gim_hash = [],
     bi_gc_buf = \<lparr>rb_buf = [], rb_size = 0, rb_offs = 0\<rparr>, bi_no_summary = False,
     bi_nb_pages = 0, bi_nb_extra_pages = 0\<rparr>"

abbreviation zero_info :: "unit bilbyfs_info" where "zero_info \<equiv> info_on ()"

text \<open>
  Kernel services. Each UBI call returns \<open>None\<close> for success or an error code; a write that
  fails may have changed the volume. \<open>k_junk\<close> is the content of memory that was not
  initialised.
\<close>

record 'u kernel =
  k_crc32 :: "u32 \<Rightarrow> buf \<Rightarrow> u32"
  k_ubi_read :: "'u \<Rightarrow> int \<Rightarrow> int \<Rightarrow> int \<Rightarrow> errno + buf"
  k_ubi_leb_write :: "'u \<Rightarrow> int \<Rightarrow> buf \<Rightarrow> int \<Rightarrow> errno option \<times> 'u"
  k_ubi_leb_change :: "'u \<Rightarrow> int \<Rightarrow> buf \<Rightarrow> errno option \<times> 'u"
  k_ubi_leb_erase :: "'u \<Rightarrow> int \<Rightarrow> errno option \<times> 'u"
  k_ubi_is_mapped :: "'u \<Rightarrow> int \<Rightarrow> errno + bool"
  k_junk :: "nat \<Rightarrow> u8"

definition uninit :: "'u kernel \<Rightarrow> nat \<Rightarrow> buf" where
  "uninit K n = map (k_junk K) [0..<n]"

lemma length_uninit [simp, len_simps]: "length (uninit K n) = n"
  by (simp add: uninit_def)

definition next_sqnum :: "'u bilbyfs_info \<Rightarrow> u64 \<times> 'u bilbyfs_info" where
  "next_sqnum bi = (let n = bi_next_sqnum bi + 1 in (n, bi\<lparr>bi_next_sqnum := n\<rparr>))"

definition next_inum :: "'u bilbyfs_info \<Rightarrow> u32 \<times> 'u bilbyfs_info" where
  "next_inum bi = (let n = bi_next_inum bi + 1 in (n, bi\<lparr>bi_next_inum := n\<rparr>))"

end
