(* ===== verification/Bilby_Allocpool.thy ===== *)
theory Bilby_Allocpool
  imports Bilby_Types
begin

text \<open>
  \<open>allocpool.c\<close>: the pool of preallocated index nodes. \<open>allocpool_alloc\<close> fills the pool from
  the slab cache while failure is still possible; \<open>allocpool_pop\<close> then hands nodes out after
  data has reached the flash, where an error could no longer be reported.
  The lemmas give the invariant of a filled pool and that popping from it does not stop the
  machine.
\<close>

definition allocpool_init :: "alloc_pool \<Rightarrow> kmem \<Rightarrow> errno option \<times> alloc_pool \<times> kmem" where
  "allocpool_init pool km =
     (let (ok, km') = kmalloc_ok km
      in if ok then (None, pool\<lparr>ap_len := 0, ap_arr := None\<rparr>, km')
         else (Some ENOMEM, pool, km'))"

definition allocpool_destroy :: "alloc_pool \<Rightarrow> alloc_pool" where
  "allocpool_destroy pool = pool\<lparr>ap_arr := None\<rparr>"

text \<open>\<open>allocpool_empty\<close> writes \<open>len\<close> entries; it faults on a null or shorter array.\<close>

definition allocpool_empty :: "alloc_pool \<Rightarrow> alloc_pool option" where
  "allocpool_empty pool =
     (if ap_len pool \<le> 0 then Some (pool\<lparr>ap_i := 0\<rparr>)
      else do {
        arr \<leftarrow> ap_arr pool;
        if nat (ap_len pool) \<le> length arr
        then Some (pool\<lparr>ap_arr := Some (replicate (nat (ap_len pool)) False @ drop (nat (ap_len pool)) arr),
                        ap_i := 0\<rparr>)
        else None
      })"

text \<open>
  The loop of \<open>allocpool_alloc\<close>, with \<open>n\<close> entries left to fill from index \<open>i\<close>. The
  first component says whether every slab allocation succeeded.
\<close>

fun allocpool_fill :: "nat \<Rightarrow> nat \<Rightarrow> bool list \<Rightarrow> kmem \<Rightarrow> bool \<times> bool list \<times> kmem" where
  "allocpool_fill 0 i arr km = (True, arr, km)"
| "allocpool_fill (Suc n) i arr km =
     (let (ok, km') = kmalloc_ok km
      in if ok then allocpool_fill n (Suc i) (arr[i := True]) km'
         else (False, arr[i := False], km'))"

definition allocpool_alloc ::
  "alloc_pool \<Rightarrow> int \<Rightarrow> int \<Rightarrow> kmem \<Rightarrow> (errno option \<times> alloc_pool \<times> kmem) option" where
  "allocpool_alloc pool sz_pool sz_obj km =
     (let (pool, km) =
        (if ap_len pool < sz_pool
         then let (ok, km') = kmalloc_ok km
              in (pool\<lparr>ap_sz_obj := sz_obj, ap_len := sz_pool,
                       ap_arr := (if ok then Some (replicate (nat sz_pool) False) else None)\<rparr>, km')
         else (pool, km))
      in case ap_arr pool of
           None \<Rightarrow> Some (Some ENOMEM, pool, km)
         | Some arr \<Rightarrow>
             if length arr < nat (ap_len pool) then None
             else (let len = nat (ap_len pool);
                       zeroed = replicate len False @ drop len arr;
                       (ok, arr', km') = allocpool_fill len 0 zeroed km;
                       pool' = pool\<lparr>ap_i := 0, ap_arr := Some arr'\<rparr>
                   in if ok then Some (None, pool', km')
                      else do {
                        pool'' \<leftarrow> allocpool_empty pool';
                        Some (Some ENOMEM, pool'', km')
                      }))"

definition allocpool_pop :: "alloc_pool \<Rightarrow> kmem \<Rightarrow> (alloc_pool \<times> kmem) option" where
  "allocpool_pop pool km = do {
     let pool = pool\<lparr>ap_tot_nodes_needed := ap_tot_nodes_needed pool + 1\<rparr>;
     (pool, km) \<leftarrow>
       (if ap_len pool \<le> ap_i pool
        then do {
          (err, pool, km) \<leftarrow> allocpool_alloc pool (ap_len pool) (ap_sz_obj pool) km;
          bilbyfs_assert (err = None);
          Some (pool, km)
        }
        else Some (pool, km));
     arr \<leftarrow> ap_arr pool;
     bilbyfs_assert (0 \<le> ap_i pool);
     p \<leftarrow> nth_opt arr (nat (ap_i pool));
     bilbyfs_assert p;
     Some (pool\<lparr>ap_arr := Some (arr[nat (ap_i pool) := False]), ap_i := ap_i pool + 1\<rparr>, km)
   }"

text \<open>
  The choice \<open>allocated_node ? allocated_node : allocpool_pop(&bi->node_pool)\<close> of the index
  and of the garbage information manager.
\<close>

definition node_alloc :: "'u bilbyfs_info \<Rightarrow> bool \<Rightarrow> 'u bilbyfs_info option" where
  "node_alloc bi allocated_node =
     (if allocated_node then Some bi
      else do {
        (pool, km) \<leftarrow> allocpool_pop (bi_node_pool bi) (bi_kmem bi);
        Some (bi\<lparr>bi_node_pool := pool, bi_kmem := km\<rparr>)
      })"

section \<open>The invariant of a filled pool\<close>

text \<open>Every entry from \<open>i\<close> on is a node; \<open>i\<close> is at most \<open>len\<close>.\<close>

definition pool_ok :: "alloc_pool \<Rightarrow> bool" where
  "pool_ok pool \<longleftrightarrow>
     (case ap_arr pool of None \<Rightarrow> False
      | Some arr \<Rightarrow> int (length arr) = ap_len pool \<and> 0 < ap_len pool \<and> 0 \<le> ap_i pool \<and>
          ap_i pool \<le> ap_len pool \<and> (\<forall>b \<in> set (drop (nat (ap_i pool)) arr). b))"

lemma kmalloc_ok_all:
  "\<forall>b \<in> set km. b \<Longrightarrow> \<exists>km'. kmalloc_ok km = (True, km') \<and> (\<forall>b \<in> set km'. b)"
  by (cases km) auto

lemma allocpool_fill_all:
  assumes "\<forall>b \<in> set km. b" "length arr = i + n" "\<forall>b \<in> set (take i arr). b"
  shows "\<exists>km'. allocpool_fill n i arr km = (True, replicate (i + n) True, km') \<and> (\<forall>b \<in> set km'. b)"
  using assms
proof (induction n arbitrary: i arr km)
  case 0
  then have "replicate (length arr) True = arr" by (intro replicate_eqI [symmetric]) auto
  with 0 show ?case by simp
next
  case (Suc n)
  then obtain km' where km': "kmalloc_ok km = (True, km')" "\<forall>b \<in> set km'. b"
    using kmalloc_ok_all by blast
  have "\<forall>b \<in> set (take (Suc i) (arr[i := True])). b"
    using Suc.prems by (simp add: take_Suc_conv_app_nth)
  with Suc.IH [OF km'(2), of "arr[i := True]" "Suc i"] Suc.prems km' show ?case by auto
qed

text \<open>Filling the pool when memory is available.\<close>

lemma allocpool_alloc_fills:
  assumes "\<forall>b \<in> set km. b" "0 < sz_pool"
    and "ap_len pool < sz_pool \<or> (\<exists>arr. ap_arr pool = Some arr \<and> int (length arr) = ap_len pool)"
  shows "\<exists>pool' km'. allocpool_alloc pool sz_pool sz_obj km = Some (None, pool', km') \<and>
    pool_ok pool' \<and> ap_i pool' = 0 \<and> ap_len pool' = max (ap_len pool) sz_pool \<and> (\<forall>b \<in> set km'. b)"
proof (cases "ap_len pool < sz_pool")
  case True
  obtain km1 where km1: "kmalloc_ok km = (True, km1)" "\<forall>b \<in> set km1. b"
    using kmalloc_ok_all [OF assms(1)] by blast
  show ?thesis
    using True assms km1 allocpool_fill_all [OF km1(2), of "replicate (nat sz_pool) False" 0 "nat sz_pool"]
    by (auto simp: allocpool_alloc_def pool_ok_def Let_def)
next
  case False
  with assms(3) obtain arr where arr: "ap_arr pool = Some arr" "int (length arr) = ap_len pool" by auto
  then have "nat (ap_len pool) = length arr" by simp
  with False arr assms allocpool_fill_all [OF assms(1), of "replicate (length arr) False" 0 "length arr"]
  show ?thesis
    by (auto simp: allocpool_alloc_def pool_ok_def Let_def)
qed

lemma allocpool_pop_ok:
  assumes "pool_ok pool" "ap_i pool < ap_len pool \<or> (\<forall>b \<in> set km. b)"
  shows "\<exists>pool' km'. allocpool_pop pool km = Some (pool', km') \<and> pool_ok pool' \<and>
    ap_len pool' = ap_len pool \<and> ((\<forall>b \<in> set km. b) \<longrightarrow> (\<forall>b \<in> set km'. b)) \<and>
    (ap_i pool < ap_len pool \<longrightarrow> ap_i pool' = ap_i pool + 1)"
proof -
  have take1: "\<exists>pool'. do {
       arr \<leftarrow> ap_arr q; bilbyfs_assert (0 \<le> ap_i q); p \<leftarrow> nth_opt arr (nat (ap_i q)); bilbyfs_assert p;
       Some (q\<lparr>ap_arr := Some (arr[nat (ap_i q) := False]), ap_i := ap_i q + 1\<rparr>, k) } = Some (pool', k) \<and>
     pool_ok pool' \<and> ap_len pool' = ap_len q \<and> ap_i pool' = ap_i q + 1"
    if q: "pool_ok q" "ap_i q < ap_len q" for q and k :: kmem
  proof -
    from q obtain arr where a: "ap_arr q = Some arr" "int (length arr) = ap_len q" "0 \<le> ap_i q"
      "\<forall>b \<in> set (drop (nat (ap_i q)) arr). b"
      by (auto simp: pool_ok_def split: option.splits)
    have i: "nat (ap_i q) < length arr" using a(2,3) q(2) by linarith
    with a(4) have "arr ! nat (ap_i q)" "\<forall>b \<in> set (drop (Suc (nat (ap_i q))) arr). b"
      by (metis Cons_nth_drop_Suc list.set_intros(1), metis Cons_nth_drop_Suc list.set_intros(2))
    moreover have "nat (ap_i q + 1) = Suc (nat (ap_i q))" using a(3) by simp
    ultimately show ?thesis using a i q(2) by (simp add: pool_ok_def)
  qed
  show ?thesis
  proof (cases "ap_i pool < ap_len pool")
    case True
    have ok: "pool_ok (pool\<lparr>ap_tot_nodes_needed := ap_tot_nodes_needed pool + 1\<rparr>)"
      using assms(1) by (auto simp: pool_ok_def split: option.splits)
    show ?thesis using take1 [OF ok, of km] True by (auto simp: allocpool_pop_def)
  next
    case False
    let ?p = "pool\<lparr>ap_tot_nodes_needed := ap_tot_nodes_needed pool + 1\<rparr>"
    have "0 < ap_len ?p" "\<exists>arr. ap_arr ?p = Some arr \<and> int (length arr) = ap_len ?p"
      using assms(1) by (auto simp: pool_ok_def split: option.splits)
    then obtain q km' where q: "allocpool_alloc ?p (ap_len ?p) (ap_sz_obj ?p) km = Some (None, q, km')"
      "pool_ok q" "ap_i q = 0" "ap_len q = ap_len pool" "\<forall>b \<in> set km'. b"
      using allocpool_alloc_fills [of km "ap_len ?p" ?p "ap_sz_obj ?p"] assms(2) False by auto
    then have "ap_i q < ap_len q" using \<open>0 < ap_len ?p\<close> by simp
    from take1 [OF q(2) this, of km'] q False show ?thesis by (auto simp: allocpool_pop_def)
  qed
qed

text \<open>What an operation that may take a node does to the pool.\<close>

definition empty_pool :: alloc_pool where
  "empty_pool = \<lparr>ap_tot_nodes_needed = 0, ap_arr = None, ap_len = 0, ap_i = 0, ap_sz_obj = 0\<rparr>"

definition pop_ok :: "'u bilbyfs_info \<Rightarrow> 'u bilbyfs_info \<Rightarrow> bool" where
  "pop_ok bi bi' \<longleftrightarrow>
     allocpool_pop (bi_node_pool bi) (bi_kmem bi) = Some (bi_node_pool bi', bi_kmem bi')"

definition can_pop :: "'u bilbyfs_info \<Rightarrow> bool" where
  "can_pop bi \<longleftrightarrow> allocpool_pop (bi_node_pool bi) (bi_kmem bi) \<noteq> None"

definition same_pool :: "'u bilbyfs_info \<Rightarrow> 'u bilbyfs_info \<Rightarrow> bool" where
  "same_pool bi bi' \<longleftrightarrow> bi_node_pool bi' = bi_node_pool bi \<and> bi_kmem bi' = bi_kmem bi"

text \<open>Allocations use up outcomes from the front of the list.\<close>

lemma kmalloc_ok_subset: "kmalloc_ok km = (ok, km') \<Longrightarrow> set km' \<subseteq> set km"
  by (cases km) auto

lemma allocpool_fill_kmem: "allocpool_fill n i arr km = (ok, arr', km') \<Longrightarrow> set km' \<subseteq> set km"
proof (induction n arbitrary: i arr km)
  case (Suc n)
  obtain o1 km1 where "kmalloc_ok km = (o1, km1)" by fastforce
  with kmalloc_ok_subset [OF this] Suc show ?case by (fastforce split: if_splits)
qed simp

lemma allocpool_alloc_kmem: "allocpool_alloc pool sz_pool sz_obj km = Some (err, pool', km') \<Longrightarrow> set km' \<subseteq> set km"
  by (auto simp: allocpool_alloc_def Let_def split: prod.splits if_splits option.splits Option.bind_splits
      dest!: kmalloc_ok_subset allocpool_fill_kmem)

lemma pop_kmem: "(if P then same_pool bi bi' else pop_ok bi bi') \<Longrightarrow> set (bi_kmem bi') \<subseteq> set (bi_kmem bi)"
  by (auto simp: same_pool_def pop_ok_def allocpool_pop_def Let_def
      split: if_splits Option.bind_splits dest!: allocpool_alloc_kmem)

lemma node_alloc_cases:
  assumes "allocated \<or> can_pop bi"
  obtains (node) pool km where
    "node_alloc bi allocated = Some (bi\<lparr>bi_node_pool := pool, bi_kmem := km\<rparr>)"
    "if allocated then same_pool bi (bi\<lparr>bi_node_pool := pool, bi_kmem := km\<rparr>)
     else pop_ok bi (bi\<lparr>bi_node_pool := pool, bi_kmem := km\<rparr>)"
    "set km \<subseteq> set (bi_kmem bi)"
proof (cases allocated)
  case True
  then show ?thesis
    using node [where pool = "bi_node_pool bi" and km = "bi_kmem bi"] by (simp add: node_alloc_def same_pool_def)
next
  case False
  with assms obtain pool km where "allocpool_pop (bi_node_pool bi) (bi_kmem bi) = Some (pool, km)"
    by (auto simp: can_pop_def)
  with False show ?thesis
    using node [where pool = pool and km = km] pop_kmem [of False bi "bi\<lparr>bi_node_pool := pool, bi_kmem := km\<rparr>"]
    by (simp add: node_alloc_def pop_ok_def)
qed

end
