(* ===== verification/Bilby_Idx.thy ===== *)
theory Bilby_Idx
  imports Bilby_Allocpool
begin

text \<open>
  \<open>idx.c\<close>: the in-memory index that maps an object id to its address on flash. The index is a
  hash table of 2048 red-black trees, chosen by inode number, so that all objects of an inode
  are in one tree. A pointer to an \<open>idx_node\<close> is the id of the node; reading and writing its
  address goes through \<open>idx_node_addr\<close> and \<open>idx_node_set_addr\<close>.
  The lemmas show that the operations are those of a finite map, \<open>idx_map\<close>.
\<close>

definition IDX_HASH_SIZE :: nat where [simp]: "IDX_HASH_SIZE = 2048"

definition zero_obj_addr :: obj_addr where
  "zero_obj_addr = \<lparr>oa_lnum = 0, oa_offs = 0, oa_len = 0, oa_sqnum = 0\<rparr>"

definition idx_init :: "'u bilbyfs_info \<Rightarrow> errno option \<times> 'u bilbyfs_info" where
  "idx_init bi =
     (let (ok, km) = kmalloc_ok (bi_kmem bi); bi = bi\<lparr>bi_kmem := km\<rparr>
      in if ok then (None, bi\<lparr>bi_idx_hash := replicate IDX_HASH_SIZE NIL\<rparr>)
         else (Some ENOMEM, bi\<lparr>bi_idx_hash := []\<rparr>))"

fun clear_all :: "'n rbt list \<Rightarrow> unit option" where
  "clear_all [] = Some ()"
| "clear_all (t # ts) = do { _ \<leftarrow> rbt_clear t; clear_all ts }"

text \<open>\<open>idx_clean\<close>: a freed table is the empty list.\<close>

definition idx_clean :: "'u bilbyfs_info \<Rightarrow> 'u bilbyfs_info option" where
  "idx_clean bi =
     (if length (bi_idx_hash bi) \<noteq> IDX_HASH_SIZE then None
      else do { clear_all (bi_idx_hash bi); Some (bi\<lparr>bi_idx_hash := []\<rparr>) })"

fun idx_index_search :: "idx_node rbt \<Rightarrow> obj_id \<Rightarrow> idx_node option" where
  "idx_index_search NIL oid = None"
| "idx_index_search (Node l c xnode r) oid =
     (if oid < xn_id xnode then idx_index_search l oid
      else if xn_id xnode < oid then idx_index_search r oid
      else Some xnode)"

definition idx_hash_inum :: "u32 \<Rightarrow> u32" where
  "idx_hash_inum inum = inum mod of_nat IDX_HASH_SIZE"

definition idx_bucket :: "obj_id \<Rightarrow> nat" where
  "idx_bucket oid = unat (idx_hash_inum (ucast (inum_from_id oid)))"

definition idx_get_obj_addr :: "'u bilbyfs_info \<Rightarrow> obj_id \<Rightarrow> (errno + obj_addr) option" where
  "idx_get_obj_addr bi oid = do {
     t \<leftarrow> nth_opt (bi_idx_hash bi) (idx_bucket oid);
     (case idx_index_search t oid of
        None \<Rightarrow> Some (Inl ENOENT)
      | Some xnode \<Rightarrow> Some (Inr (xn_addr xnode)))
   }"

text \<open>The loop that looks for the place of a new node keeps the links it came through.\<close>

fun idx_walk ::
  "idx_node rbt \<Rightarrow> obj_id \<Rightarrow> idx_node path \<Rightarrow> idx_node rbt \<times> idx_node path" where
  "idx_walk NIL oid path = (NIL, path)"
| "idx_walk (Node l c xnode r) oid path =
     (if oid < xn_id xnode then idx_walk l oid (LeftOf c xnode r # path)
      else if xn_id xnode < oid then idx_walk r oid (RightOf l c xnode # path)
      else (Node l c xnode r, path))"

text \<open>
  \<open>index_insert_or_replace\<close> on the bucket of the id; \<open>allocated_node\<close> says whether the caller
  passes a node to use. The node found or made is the one with this id.
\<close>

definition index_insert_or_replace ::
  "'u bilbyfs_info \<Rightarrow> nat \<Rightarrow> obj_id \<Rightarrow> bool \<Rightarrow> 'u bilbyfs_info option" where
  "index_insert_or_replace bi hash oid allocated_node = do {
     root \<leftarrow> nth_opt (bi_idx_hash bi) hash;
     (case idx_walk root oid [] of
        (Node _ _ _ _, _) \<Rightarrow> Some bi
      | (NIL, path) \<Rightarrow> do {
          bi \<leftarrow> node_alloc bi allocated_node;
          let xnode = \<lparr>xn_addr = zero_obj_addr, xn_id = oid\<rparr>;
          let (leaf, path) = rbt_link_node xnode path;
          root' \<leftarrow> rbt_insert_color leaf path;
          Some (bi\<lparr>bi_idx_hash := (bi_idx_hash bi)[hash := root']\<rparr>)
        })
   }"

text \<open>Reading and writing \<open>xnode->addr\<close>.\<close>

definition idx_node_addr :: "'u bilbyfs_info \<Rightarrow> obj_id \<Rightarrow> obj_addr option" where
  "idx_node_addr bi oid = do {
     root \<leftarrow> nth_opt (bi_idx_hash bi) (idx_bucket oid);
     xnode \<leftarrow> node_of (fst (idx_walk root oid []));
     Some (xn_addr xnode)
   }"

definition idx_node_set_addr ::
  "'u bilbyfs_info \<Rightarrow> obj_id \<Rightarrow> obj_addr \<Rightarrow> 'u bilbyfs_info option" where
  "idx_node_set_addr bi oid addr = do {
     root \<leftarrow> nth_opt (bi_idx_hash bi) (idx_bucket oid);
     (case idx_walk root oid [] of
        (NIL, _) \<Rightarrow> None
      | (Node l c xnode r, path) \<Rightarrow>
          Some (bi\<lparr>bi_idx_hash := (bi_idx_hash bi)
                     [idx_bucket oid := plug (Node l c (xnode\<lparr>xn_addr := addr\<rparr>) r) path]\<rparr>))
   }"

definition idx_set_obj_addr ::
  "'u bilbyfs_info \<Rightarrow> obj_id \<Rightarrow> obj_addr \<Rightarrow> bool \<Rightarrow> 'u bilbyfs_info option" where
  "idx_set_obj_addr bi oid addr allocated_node = do {
     bi \<leftarrow> index_insert_or_replace bi (idx_bucket oid) oid allocated_node;
     idx_node_set_addr bi oid addr
   }"

definition idx_get_or_create_obj_addr_node ::
  "'u bilbyfs_info \<Rightarrow> obj_id \<Rightarrow> 'u bilbyfs_info option" where
  "idx_get_or_create_obj_addr_node bi oid = index_insert_or_replace bi (idx_bucket oid) oid False"

fun idx_greater :: "idx_node rbt \<Rightarrow> obj_id \<Rightarrow> idx_node option \<Rightarrow> idx_node option" where
  "idx_greater NIL oid xnode_greater = xnode_greater"
| "idx_greater (Node l c xnode r) oid xnode_greater =
     (if oid < xn_id xnode then idx_greater l oid (Some xnode)
      else idx_greater r oid xnode_greater)"

definition idx_next_obj_id :: "'u bilbyfs_info \<Rightarrow> obj_id \<Rightarrow> obj_id option" where
  "idx_next_obj_id bi oid = do {
     t \<leftarrow> nth_opt (bi_idx_hash bi) (idx_bucket oid);
     let inum = (ucast (inum_from_id oid) :: u32);
     (case idx_greater t oid None of
        None \<Rightarrow> Some NIL_ID
      | Some xnode_greater \<Rightarrow>
          if ucast inum \<noteq> inum_from_id (xn_id xnode_greater) then Some NIL_ID
          else Some (xn_id xnode_greater))
   }"

definition idx_del_obj_addr :: "'u bilbyfs_info \<Rightarrow> obj_id \<Rightarrow> 'u bilbyfs_info option" where
  "idx_del_obj_addr bi oid = do {
     root \<leftarrow> nth_opt (bi_idx_hash bi) (idx_bucket oid);
     bilbyfs_assert (idx_index_search root oid \<noteq> None);
     let (node, path) = idx_walk root oid [];
     root' \<leftarrow> rbt_erase node path;
     Some (bi\<lparr>bi_idx_hash := (bi_idx_hash bi)[idx_bucket oid := root']\<rparr>)
   }"

lemma idx_bucket_less [simp]: "idx_bucket oid < 2048"
  by (simp add: idx_bucket_def idx_hash_inum_def unat_mod)

interpretation idx: keyed_table xn_id idx_index_search idx_walk idx_greater idx_bucket 2048
  by unfold_locales auto

section \<open>The index is a finite map\<close>

definition idx_ok :: "'u bilbyfs_info \<Rightarrow> bool" where
  "idx_ok bi \<longleftrightarrow> table_ok xn_id idx_bucket IDX_HASH_SIZE (bi_idx_hash bi)"

definition idx_map :: "'u bilbyfs_info \<Rightarrow> obj_id \<rightharpoonup> obj_addr" where
  "idx_map bi oid = map_option xn_addr (table_map xn_id idx_bucket (bi_idx_hash bi) oid)"

lemma idx_ok_table: "idx_ok bi \<Longrightarrow> table_ok xn_id idx_bucket 2048 (bi_idx_hash bi)"
  by (simp add: idx_ok_def)

lemmas idx_okD = idx.table_okD [OF idx_ok_table]

lemma idx_get_map:
  "idx_ok bi \<Longrightarrow> idx_get_obj_addr bi oid =
     Some (case idx_map bi oid of None \<Rightarrow> Inl ENOENT | Some a \<Rightarrow> Inr a)"
  by (auto simp: idx_get_obj_addr_def idx_okD idx.table_search [OF idx_ok_table] idx_map_def
      split: option.splits)

text \<open>The fields the index operations may change.\<close>

definition idx_frame :: "'u bilbyfs_info \<Rightarrow> 'u bilbyfs_info \<Rightarrow> bool" where
  "idx_frame bi bi' \<longleftrightarrow>
     bi'\<lparr>bi_idx_hash := [], bi_node_pool := empty_pool, bi_kmem := []\<rparr> =
     bi\<lparr>bi_idx_hash := [], bi_node_pool := empty_pool, bi_kmem := []\<rparr> \<and>
     set (bi_kmem bi') \<subseteq> set (bi_kmem bi)"

text \<open>\<open>index_insert_or_replace\<close>: the id is in the map afterwards, other ids are unchanged.\<close>

lemma insert_or_replace_ok:
  assumes "idx_ok bi" and pop: "allocated \<or> idx_map bi oid \<noteq> None \<or> can_pop bi"
  shows "\<exists>bi'. index_insert_or_replace bi (idx_bucket oid) oid allocated = Some bi' \<and> idx_ok bi' \<and>
    idx_map bi' = (if idx_map bi oid = None then (idx_map bi)(oid \<mapsto> zero_obj_addr) else idx_map bi) \<and>
    idx_frame bi bi' \<and>
    (if allocated \<or> idx_map bi oid \<noteq> None then same_pool bi bi' else pop_ok bi bi')"
proof -
  note ok = idx_ok_table [OF assms(1)]
  obtain s path where w: "idx_walk (bi_idx_hash bi ! idx_bucket oid) oid [] = (s, path)"
    by (cases "idx_walk (bi_idx_hash bi ! idx_bucket oid) oid []")
  have m: "idx_map bi oid = map_option xn_addr (node_of s)"
    using idx.table_walk [OF ok w] by (simp add: idx_map_def)
  show ?thesis
  proof (cases s)
    case (Node l c x r)
    then show ?thesis
      using w m assms(1) idx_okD(1) [OF assms(1)]
      by (simp add: index_insert_or_replace_def idx_frame_def same_pool_def)
  next
    case NIL
    let ?n = "\<lparr>xn_addr = zero_obj_addr, xn_id = oid\<rparr>"
    from pop m NIL have "allocated \<or> can_pop bi" by simp
    then obtain b where b: "node_alloc bi allocated = Some b" "idx_frame bi b"
      "bi_idx_hash b = bi_idx_hash bi" "if allocated then same_pool bi b else pop_ok bi b"
      by (rule node_alloc_cases) (auto simp: idx_frame_def)
    from idx.table_insert [OF ok, of ?n path] w NIL obtain t' where
      t': "rbt_insert_color (Node NIL RBT_RED ?n NIL) path = Some t'"
      "table_ok xn_id idx_bucket 2048 ((bi_idx_hash bi)[idx_bucket oid := t'])"
      "table_map xn_id idx_bucket ((bi_idx_hash bi)[idx_bucket oid := t']) =
        (table_map xn_id idx_bucket (bi_idx_hash bi))(oid \<mapsto> ?n)"
      by auto
    let ?b = "b\<lparr>bi_idx_hash := (bi_idx_hash b)[idx_bucket oid := t']\<rparr>"
    have "idx_ok ?b" "idx_map ?b = (idx_map bi)(oid \<mapsto> zero_obj_addr)"
      using t'(2,3) b(3) by (auto simp: idx_ok_def idx_map_def fun_eq_iff)
    moreover have "index_insert_or_replace bi (idx_bucket oid) oid allocated = Some ?b"
      using NIL w t'(1) idx_okD(1) [OF assms(1)] b(1)
      by (simp add: index_insert_or_replace_def rbt_link_node_def)
    moreover have "idx_frame bi ?b" "if allocated then same_pool bi ?b else pop_ok bi ?b"
      using b(2,4) by (auto simp: idx_frame_def same_pool_def pop_ok_def)
    ultimately show ?thesis using m NIL by simp
  qed
qed

lemma idx_walk_found:
  assumes "idx_ok bi" "idx_map bi oid = Some a"
  obtains l c x r path where
    "idx_walk (bi_idx_hash bi ! idx_bucket oid) oid [] = (Node l c x r, path)" "xn_addr x = a"
proof -
  obtain s path where w: "idx_walk (bi_idx_hash bi ! idx_bucket oid) oid [] = (s, path)"
    by (cases "idx_walk (bi_idx_hash bi ! idx_bucket oid) oid []")
  have "map_option xn_addr (node_of s) = Some a"
    using idx.table_walk [OF idx_ok_table w] assms by (simp add: idx_map_def)
  with w that show ?thesis by (cases s) auto
qed

lemma idx_node_addr_map: "idx_ok bi \<Longrightarrow> idx_map bi oid = Some a \<Longrightarrow> idx_node_addr bi oid = Some a"
  by (rule idx_walk_found) (auto simp: idx_node_addr_def idx_okD)

lemma idx_node_set_addr_ok:
  assumes "idx_ok bi" "idx_map bi oid = Some a0"
  shows "\<exists>bi'. idx_node_set_addr bi oid a = Some bi' \<and> idx_ok bi' \<and>
    idx_map bi' = (idx_map bi)(oid \<mapsto> a) \<and> idx_frame bi bi' \<and> same_pool bi bi'"
proof -
  from assms obtain l c x r path where
    w: "idx_walk (bi_idx_hash bi ! idx_bucket oid) oid [] = (Node l c x r, path)"
    by (rule idx_walk_found)
  note u = idx.table_update [OF idx_ok_table [OF assms(1)] w, of "x\<lparr>xn_addr := a\<rparr>", simplified]
  have "idx_map (bi\<lparr>bi_idx_hash := (bi_idx_hash bi)[idx_bucket oid :=
      plug (Node l c (x\<lparr>xn_addr := a\<rparr>) r) path]\<rparr>) = (idx_map bi)(oid \<mapsto> a)"
    using u(2) by (simp add: idx_map_def fun_eq_iff)
  then show ?thesis
    using u(1) w idx_okD(1) [OF assms(1)]
    by (simp add: idx_node_set_addr_def idx_frame_def same_pool_def idx_ok_def)
qed

lemma idx_frame_trans: "idx_frame a b \<Longrightarrow> idx_frame b c \<Longrightarrow> idx_frame a c"
  by (auto simp: idx_frame_def)

lemma idx_set_ok:
  assumes "idx_ok bi" "allocated \<or> idx_map bi oid \<noteq> None \<or> can_pop bi"
  shows "\<exists>bi'. idx_set_obj_addr bi oid addr allocated = Some bi' \<and> idx_ok bi' \<and>
    idx_map bi' = (idx_map bi)(oid \<mapsto> addr) \<and> idx_frame bi bi' \<and>
    (if allocated \<or> idx_map bi oid \<noteq> None then same_pool bi bi' else pop_ok bi bi')"
proof -
  from insert_or_replace_ok [OF assms] obtain b where
    b: "index_insert_or_replace bi (idx_bucket oid) oid allocated = Some b" "idx_ok b"
    "idx_map b = (if idx_map bi oid = None then (idx_map bi)(oid \<mapsto> zero_obj_addr) else idx_map bi)"
    "idx_frame bi b"
    "if allocated \<or> idx_map bi oid \<noteq> None then same_pool bi b else pop_ok bi b"
    by blast
  then obtain a0 where "idx_map b oid = Some a0" by (auto split: if_splits)
  from idx_node_set_addr_ok [OF b(2) this, of addr] b idx_frame_trans [OF b(4)] show ?thesis
    by (auto simp: idx_set_obj_addr_def same_pool_def pop_ok_def split: if_splits)
qed

lemma idx_del_ok:
  assumes "idx_ok bi" "idx_map bi oid = Some a"
  shows "\<exists>bi'. idx_del_obj_addr bi oid = Some bi' \<and> idx_ok bi' \<and>
    idx_map bi' = (idx_map bi)(oid := None) \<and> idx_frame bi bi' \<and> same_pool bi bi'"
proof -
  note ok = idx_ok_table [OF assms(1)]
  from assms obtain l c x r path where
    w: "idx_walk (bi_idx_hash bi ! idx_bucket oid) oid [] = (Node l c x r, path)"
    by (rule idx_walk_found)
  from idx.table_erase [OF ok w] obtain t' where t': "rbt_erase (Node l c x r) path = Some t'"
    "table_ok xn_id idx_bucket 2048 ((bi_idx_hash bi)[idx_bucket oid := t'])"
    "table_map xn_id idx_bucket ((bi_idx_hash bi)[idx_bucket oid := t']) =
      (table_map xn_id idx_bucket (bi_idx_hash bi))(oid := None)"
    by blast
  have "idx_index_search (bi_idx_hash bi ! idx_bucket oid) oid \<noteq> None"
    using idx.table_search [OF ok] idx.table_walk [OF ok w] by simp
  moreover have "idx_map (bi\<lparr>bi_idx_hash := (bi_idx_hash bi)[idx_bucket oid := t']\<rparr>) =
      (idx_map bi)(oid := None)"
    using t'(3) by (simp add: idx_map_def fun_eq_iff)
  ultimately show ?thesis
    using w t'(1,2) idx_okD(1) [OF assms(1)]
    by (simp add: idx_del_obj_addr_def idx_frame_def same_pool_def idx_ok_def)
qed

lemma idx_del_missing: "idx_ok bi \<Longrightarrow> idx_map bi oid = None \<Longrightarrow> idx_del_obj_addr bi oid = None"
  by (simp add: idx_del_obj_addr_def idx_okD idx.table_search [OF idx_ok_table] idx_map_def)

section \<open>The next object of an inode\<close>

lemma inum_from_id_mono: "k \<le> k' \<Longrightarrow> inum_from_id k \<le> inum_from_id k'"
  unfolding inum_from_id_def word_le_nat_alt unat_drop_bit_eq
  unfolding drop_bit_eq_div by (rule div_le_mono)

lemma inum_from_id_u32: "ucast (ucast (inum_from_id k) :: u32) = inum_from_id k"
  unfolding inum_from_id_def 
  by (rule bit_word_eqI) (auto simp: bit_simps dest: bit_imp_le_length)

lemma find_sorted_least:
  assumes "key_sorted f xs" "find P xs = Some x"
  shows "x \<in> set xs \<and> P x \<and> (\<forall>y \<in> set xs. P y \<longrightarrow> f x \<le> f y)"
  using assms by (induction xs) (auto split: if_splits)

lemma idx_next_ok:
  fixes oid :: obj_id
  assumes "idx_ok bi"
  defines "S \<equiv> {k \<in> dom (idx_map bi). oid < k \<and> inum_from_id k = inum_from_id oid}"
  shows "if S = {} then idx_next_obj_id bi oid = Some NIL_ID
    else \<exists>k \<in> S. idx_next_obj_id bi oid = Some k \<and> (\<forall>k' \<in> S. k \<le> k')"
proof -
  let ?t = "bi_idx_hash bi ! idx_bucket oid"
  note ok = idx_okD [OF assms(1), of oid]
  have bucket: "idx_bucket k = idx_bucket oid" if "inum_from_id k = inum_from_id oid" for k
    using that by (simp add: idx_bucket_def)
  have S: "k \<in> S \<longleftrightarrow> (\<exists>x \<in> set (inorder ?t). xn_id x = k) \<and> oid < k \<and> inum_from_id k = inum_from_id oid"
    for k
    using bucket [of k] tmap_None [of xn_id "inorder ?t" k]
    by (auto simp: S_def idx_map_def table_map_def domIff)
  have g: "idx_greater ?t oid None = find (\<lambda>x. oid < xn_id x) (inorder ?t)"
    by (subst idx.greater_find [OF ok(3)]) (simp split: option.split)
  show ?thesis
  proof (cases "find (\<lambda>x. oid < xn_id x) (inorder ?t)")
    case None
    then have "S = {}" using S by (fastforce simp: find_None_iff)
    with None ok(1) g show ?thesis by (simp add: idx_next_obj_id_def)
  next
    case (Some x)
    have x: "x \<in> set (inorder ?t)" "oid < xn_id x"
      "y \<in> set (inorder ?t) \<Longrightarrow> oid < xn_id y \<Longrightarrow> xn_id x \<le> xn_id y" for y
      using find_sorted_least [OF ok(3) Some] by auto
    have le: "k \<in> S \<Longrightarrow> xn_id x \<le> k" for k using S x(3) by auto
    show ?thesis
    proof (cases "inum_from_id (xn_id x) = inum_from_id oid")
      case True
      then have "xn_id x \<in> S" using S x by auto
      then show ?thesis using Some ok(1) g le True
        by (auto simp: idx_next_obj_id_def inum_from_id_u32 intro!: bexI [of _ "xn_id x"])
    next
      case False
      have "inum_from_id oid < inum_from_id (xn_id x)"
        using False inum_from_id_mono x(2) by (metis order_le_less)
      then have "S = {}"
        using inum_from_id_mono le S by (metis equals0I leD)
      with Some ok(1) g False show ?thesis by (simp add: idx_next_obj_id_def inum_from_id_u32)
    qed
  qed
qed

lemma idx_init_ok:
  "kmalloc_ok (bi_kmem bi) = (True, km) \<Longrightarrow> idx_init bi = (None, bi') \<Longrightarrow>
   idx_ok bi' \<and> idx_map bi' = Map.empty"
  by (auto simp: idx_init_def idx_ok_def table_ok_def rb_inv_def idx_map_def table_map_def fun_eq_iff)

lemma clear_all_ok: "\<forall>t \<in> set ts. rb_inv t \<Longrightarrow> clear_all ts = Some ()"
  by (induction ts) (auto simp: clear_ok)

lemma idx_clean_ok: "idx_ok bi \<Longrightarrow> idx_clean bi = Some (bi\<lparr>bi_idx_hash := []\<rparr>)"
proof -
  assume ok: "idx_ok bi"
  then have "\<forall>t \<in> set (bi_idx_hash bi). rb_inv t"
    by (auto simp: idx_ok_def table_ok_def in_set_conv_nth)
  with ok show ?thesis by (simp add: idx_clean_def idx_ok_def table_ok_def clear_all_ok)
qed

section \<open>The contract of the index\<close>

text \<open>
  What the object store and the directory reader rely on: a finite map from ids to addresses
  with lookup, update, removal and enumeration of the ids of one inode in increasing order.
\<close>

locale obj_index =
  fixes ok :: "'s \<Rightarrow> bool" and imap :: "'s \<Rightarrow> obj_id \<rightharpoonup> 'a" and can_set :: "'s \<Rightarrow> obj_id \<Rightarrow> bool"
    and get :: "'s \<Rightarrow> obj_id \<Rightarrow> (errno + 'a) option" and set_addr :: "'s \<Rightarrow> obj_id \<Rightarrow> 'a \<Rightarrow> 's option"
    and del :: "'s \<Rightarrow> obj_id \<Rightarrow> 's option" and next_id :: "'s \<Rightarrow> obj_id \<Rightarrow> obj_id option"
  assumes get_law: "ok s \<Longrightarrow> get s k = Some (case imap s k of None \<Rightarrow> Inl ENOENT | Some a \<Rightarrow> Inr a)"
    and set_law: "ok s \<Longrightarrow> can_set s k \<Longrightarrow>
      \<exists>s'. set_addr s k a = Some s' \<and> ok s' \<and> imap s' = (imap s)(k \<mapsto> a)"
    and del_law: "ok s \<Longrightarrow> imap s k \<noteq> None \<Longrightarrow>
      \<exists>s'. del s k = Some s' \<and> ok s' \<and> imap s' = (imap s)(k := None)"
    and next_law: "ok s \<Longrightarrow>
      (if {j \<in> dom (imap s). k < j \<and> inum_from_id j = inum_from_id k} = {}
       then next_id s k = Some NIL_ID
       else \<exists>j \<in> {j \<in> dom (imap s). k < j \<and> inum_from_id j = inum_from_id k}.
         next_id s k = Some j \<and>
         (\<forall>j' \<in> {j \<in> dom (imap s). k < j \<and> inum_from_id j = inum_from_id k}. j \<le> j'))"
begin

lemma get_set:
  assumes "ok s" "can_set s k"
  shows "\<exists>s'. set_addr s k a = Some s' \<and> ok s' \<and> get s' k = Some (Inr a) \<and>
    (\<forall>k'. k' \<noteq> k \<longrightarrow> get s' k' = get s k')"
proof -
  from set_law [OF assms] obtain s' where s': "set_addr s k a = Some s'" "ok s'"
    "imap s' = (imap s)(k \<mapsto> a)" by blast
  then show ?thesis using assms(1) by (auto simp: get_law)
qed

lemma get_del:
  assumes "ok s" "get s k = Some (Inr a)"
  shows "\<exists>s'. del s k = Some s' \<and> ok s' \<and> get s' k = Some (Inl ENOENT) \<and>
    (\<forall>k'. k' \<noteq> k \<longrightarrow> get s' k' = get s k')"
proof -
  have "imap s k \<noteq> None" using assms by (auto simp: get_law split: option.splits)
  from del_law [OF assms(1) this] obtain s' where s': "del s k = Some s'" "ok s'"
    "imap s' = (imap s)(k := None)" by blast
  then show ?thesis using assms(1) by (auto simp: get_law)
qed

lemma next_least:
  assumes "ok s" "next_id s k = Some j" "j \<noteq> NIL_ID"
  shows "k < j \<and> inum_from_id j = inum_from_id k \<and> (\<exists>a. get s j = Some (Inr a)) \<and>
    (\<forall>i. k < i \<and> i < j \<longrightarrow> get s i = Some (Inl ENOENT))"
proof -
  let ?S = "{j \<in> dom (imap s). k < j \<and> inum_from_id j = inum_from_id k}"
  from next_law [OF assms(1), of k] assms(2,3)
  have j: "j \<in> ?S" "\<forall>j' \<in> ?S. j \<le> j'" by (auto split: if_splits)
  have "imap s i = None" if i: "k < i" "i < j" for i
  proof (rule ccontr)
    assume a: "imap s i \<noteq> None"
    have m: "inum_from_id a \<le> inum_from_id b" if "a \<le> b" for a b
      by (rule inum_from_id_mono) fact
    have "inum_from_id k \<le> inum_from_id i" "inum_from_id i \<le> inum_from_id j"
      using i by (intro m; simp)+
    then have "inum_from_id i = inum_from_id k" using j(1) by simp
    with a i(1) have "i \<in> ?S" by auto
    with j(2) i(2) show False by auto
  qed
  with j(1) assms(1) show ?thesis by (auto simp: get_law)
qed

lemma next_none:
  assumes "ok s" "next_id s k = Some NIL_ID" "get s NIL_ID = Some (Inl ENOENT)"
  shows "\<forall>i. k < i \<and> inum_from_id i = inum_from_id k \<longrightarrow> get s i = Some (Inl ENOENT)"
proof -
  have "imap s NIL_ID = None" using assms(1,3) by (simp add: get_law split: option.splits)
  with next_law [OF assms(1), of k] assms(2)
  have "{j \<in> dom (imap s). k < j \<and> inum_from_id j = inum_from_id k} = {}"
    by (auto split: if_splits)
  with assms(1) show ?thesis by (auto simp: get_law domIff)
qed

end

interpretation index: obj_index idx_ok idx_map
  "\<lambda>bi oid. idx_map bi oid \<noteq> None \<or> can_pop bi" idx_get_obj_addr
  "\<lambda>bi oid addr. idx_set_obj_addr bi oid addr False" idx_del_obj_addr idx_next_obj_id
proof
  fix s :: "'a bilbyfs_info" and k a
  assume ok: "idx_ok s"
  show "idx_get_obj_addr s k = Some (case idx_map s k of None \<Rightarrow> Inl ENOENT | Some a \<Rightarrow> Inr a)"
    using ok by (rule idx_get_map)
  show "\<exists>s'. idx_set_obj_addr s k a False = Some s' \<and> idx_ok s' \<and> idx_map s' = (idx_map s)(k \<mapsto> a)"
    if "idx_map s k \<noteq> None \<or> can_pop s"
    using idx_set_ok [OF ok, of False k a] that by blast
  show "\<exists>s'. idx_del_obj_addr s k = Some s' \<and> idx_ok s' \<and> idx_map s' = (idx_map s)(k := None)"
    if "idx_map s k \<noteq> None"
    using idx_del_ok [OF ok, of k] that by blast
qed (rule idx_next_ok)

text \<open>A state with two objects of inode 0 and a filled pool, for the examples below.\<close>

definition idx_demo :: "unit bilbyfs_info" where
  "idx_demo = zero_info\<lparr>
     bi_idx_hash := (replicate IDX_HASH_SIZE NIL)[0 :=
       Node NIL RBT_BLACK \<lparr>xn_addr = zero_obj_addr, xn_id = 1\<rparr>
         (Node NIL RBT_RED \<lparr>xn_addr = zero_obj_addr, xn_id = 3\<rparr> NIL)],
     bi_node_pool := \<lparr>ap_tot_nodes_needed = 0, ap_arr = Some [True, True], ap_len = 2, ap_i = 0,
       ap_sz_obj = 0\<rparr>\<rparr>"

lemma idx_demo_ok: "idx_ok idx_demo" "can_pop idx_demo" "idx_map idx_demo 5 = None"
  "idx_map idx_demo 1 = Some zero_obj_addr" "idx_next_obj_id idx_demo 1 = Some 3"
  by (simp_all add: idx_ok_def table_ok_def rb_inv_def idx_demo_def can_pop_def allocpool_pop_def
      idx_map_def table_map_def idx_next_obj_id_def nth_list_update idx_bucket_def idx_hash_inum_def
      inum_from_id_def)

text \<open>
  C19. After \<open>idx_set_obj_addr\<close>, \<open>idx_get_obj_addr\<close> returns the address that was set and every
  other id is looked up as before. Neither call stops the machine as long as the node pool can
  provide a node, and the index stays well formed.
\<close>

theorem idx_set_then_get:
  assumes "idx_ok bi" "idx_map bi oid \<noteq> None \<or> can_pop bi"
  shows "\<exists>bi'. idx_set_obj_addr bi oid addr False = Some bi' \<and> idx_ok bi' \<and>
    idx_get_obj_addr bi' oid = Some (Inr addr) \<and>
    (\<forall>oid'. oid' \<noteq> oid \<longrightarrow> idx_get_obj_addr bi' oid' = idx_get_obj_addr bi oid')"
  using assms by (rule index.get_set)

theorem idx_set_then_get_witness:
  "\<exists>bi'. idx_set_obj_addr idx_demo 5 zero_obj_addr False = Some bi' \<and>
     idx_get_obj_addr bi' 5 = Some (Inr zero_obj_addr)"
  using idx_set_then_get [of idx_demo 5 zero_obj_addr] idx_demo_ok by blast

text \<open>
  C21. \<open>idx_del_obj_addr\<close> on an id that is in the index removes this id and no other; on an id
  that is not in the index it stops the machine.
\<close>

theorem idx_del_then_get:
  assumes "idx_ok bi"
  shows "if idx_get_obj_addr bi oid = Some (Inl ENOENT) then idx_del_obj_addr bi oid = None
    else \<exists>bi'. idx_del_obj_addr bi oid = Some bi' \<and> idx_ok bi' \<and>
      idx_get_obj_addr bi' oid = Some (Inl ENOENT) \<and>
      (\<forall>oid'. oid' \<noteq> oid \<longrightarrow> idx_get_obj_addr bi' oid' = idx_get_obj_addr bi oid')"
proof (cases "idx_map bi oid")
  case None
  with assms show ?thesis by (simp add: idx_get_map idx_del_missing)
next
  case (Some a)
  with assms have "idx_get_obj_addr bi oid = Some (Inr a)" by (simp add: idx_get_map)
  with index.get_del [OF assms this] show ?thesis by simp
qed

theorem idx_del_then_get_witness:
  "idx_del_obj_addr idx_demo 5 = None \<and>
   (\<exists>bi'. idx_del_obj_addr idx_demo 1 = Some bi' \<and> idx_get_obj_addr bi' 1 = Some (Inl ENOENT))"
  using idx_del_then_get [OF idx_demo_ok(1), of 5] idx_del_then_get [OF idx_demo_ok(1), of 1]
    idx_demo_ok by (auto simp: idx_get_map)

text \<open>
  C20. \<open>idx_next_obj_id\<close> returns the least id above the given one that is in the index and
  belongs to the same inode, and \<open>NIL_ID\<close> when the inode has no such object.
\<close>

theorem idx_next_obj_id_least:
  assumes "idx_ok bi" "idx_next_obj_id bi oid = Some j"
  shows "if j = NIL_ID
    then idx_get_obj_addr bi NIL_ID = Some (Inl ENOENT) \<longrightarrow>
      (\<forall>i. oid < i \<and> inum_from_id i = inum_from_id oid \<longrightarrow> idx_get_obj_addr bi i = Some (Inl ENOENT))
    else oid < j \<and> inum_from_id j = inum_from_id oid \<and> (\<exists>a. idx_get_obj_addr bi j = Some (Inr a)) \<and>
      (\<forall>i. oid < i \<and> i < j \<longrightarrow> idx_get_obj_addr bi i = Some (Inl ENOENT))"
  using index.next_none [of bi oid] index.next_least [of bi oid j] assms by simp

theorem idx_next_obj_id_least_witness:
  "(\<exists>a. idx_get_obj_addr idx_demo 3 = Some (Inr a)) \<and> idx_get_obj_addr idx_demo 2 = Some (Inl ENOENT)"
  using idx_next_obj_id_least [OF idx_demo_ok(1,5)] by simp

end
