(* ===== verification/Bilby_Packobj.thy ===== *)
theory Bilby_Packobj
  imports Bilby_Types
begin

unbundle bit_operations_syntax

text \<open>
  The on-flash objects: the packed structures of \<open>bilbyfs.h\<close> as byte blocks with their field
  offsets, the inline accessors of these structures, and \<open>packobj.c\<close>, which fills and checks
  them. A pointer into a block is an offset. Functions the code applies inside a larger buffer
  (the common header, padding, directory entries) take the offset of the object.
  The lemmas are round trips: a packed object passes the header check, and unpacking returns
  what was packed.
\<close>

section \<open>Field offsets of the packed structures\<close>

abbreviation (input) ch_magic :: nat where "ch_magic \<equiv> 0"
abbreviation (input) ch_crc :: nat where "ch_crc \<equiv> 4"
abbreviation (input) ch_sqnum :: nat where "ch_sqnum \<equiv> 8"
abbreviation (input) ch_len :: nat where "ch_len \<equiv> 16"
abbreviation (input) ch_type :: nat where "ch_type \<equiv> 20"
abbreviation (input) ch_trans :: nat where "ch_trans \<equiv> 21"
abbreviation (input) ch_padding :: nat where "ch_padding \<equiv> 22"

abbreviation (input) ino_id :: nat where "ino_id \<equiv> 24"
abbreviation (input) ino_creat_sqnum :: nat where "ino_creat_sqnum \<equiv> 32"
abbreviation (input) ino_size :: nat where "ino_size \<equiv> 40"
abbreviation (input) ino_atime_sec :: nat where "ino_atime_sec \<equiv> 48"
abbreviation (input) ino_ctime_sec :: nat where "ino_ctime_sec \<equiv> 56"
abbreviation (input) ino_mtime_sec :: nat where "ino_mtime_sec \<equiv> 64"
abbreviation (input) ino_nlink :: nat where "ino_nlink \<equiv> 72"
abbreviation (input) ino_uid :: nat where "ino_uid \<equiv> 76"
abbreviation (input) ino_gid :: nat where "ino_gid \<equiv> 80"
abbreviation (input) ino_mode :: nat where "ino_mode \<equiv> 84"
abbreviation (input) ino_flags :: nat where "ino_flags \<equiv> 88"
abbreviation (input) ino_padding :: nat where "ino_padding \<equiv> 92"

abbreviation (input) dentarr_id :: nat where "dentarr_id \<equiv> 24"
abbreviation (input) dentarr_nb_dentry :: nat where "dentarr_nb_dentry \<equiv> 32"
abbreviation (input) dentarr_size :: nat where "dentarr_size \<equiv> 36"

abbreviation (input) de_ino :: nat where "de_ino \<equiv> 0"
abbreviation (input) de_type :: nat where "de_type \<equiv> 4"
abbreviation (input) de_nlen :: nat where "de_nlen \<equiv> 5"
abbreviation (input) de_name :: nat where "de_name \<equiv> 7"

abbreviation (input) odata_id :: nat where "odata_id \<equiv> 24"
abbreviation (input) odata_size :: nat where "odata_size \<equiv> 32"
abbreviation (input) odata_padding :: nat where "odata_padding \<equiv> 36"
abbreviation (input) odata_data :: nat where "odata_data \<equiv> 40"

abbreviation (input) odel_id :: nat where "odel_id \<equiv> 24"

abbreviation (input) se_id :: nat where "se_id \<equiv> 0"
abbreviation (input) se_sqnum :: nat where "se_sqnum \<equiv> 8"
abbreviation (input) se_len :: nat where "se_len \<equiv> 16"
abbreviation (input) se_del_flag_and_offs :: nat where "se_del_flag_and_offs \<equiv> 20"
abbreviation (input) se_count :: nat where "se_count \<equiv> 24"

abbreviation (input) sum_nb_sum_entry :: nat where "sum_nb_sum_entry \<equiv> 24"

abbreviation (input) sup_flags :: nat where "sup_flags \<equiv> 24"
abbreviation (input) sup_leb_size :: nat where "sup_leb_size \<equiv> 76"
abbreviation (input) sup_leb_cnt :: nat where "sup_leb_cnt \<equiv> 80"
abbreviation (input) sup_nb_reserved_gc :: nat where "sup_nb_reserved_gc \<equiv> 84"
abbreviation (input) sup_nb_reserved_del :: nat where "sup_nb_reserved_del \<equiv> 88"
abbreviation (input) sup_log_head_leb :: nat where "sup_log_head_leb \<equiv> 92"
abbreviation (input) sup_log_head_offs :: nat where "sup_log_head_offs \<equiv> 96"
abbreviation (input) sup_lowest_sqnum :: nat where "sup_lowest_sqnum \<equiv> 100"
abbreviation (input) sup_last_inum :: nat where "sup_last_inum \<equiv> 108"
abbreviation (input) sup_padding :: nat where "sup_padding \<equiv> 116"

section \<open>Accessors of bilbyfs.h\<close>

text \<open>The offset of \<open>sum->entries[i]\<close>.\<close>

definition sum_entry_offs :: "nat \<Rightarrow> nat" where
  "sum_entry_offs i = BILBYFS_SUM_SZ + i * BILBYFS_SUM_ENTRY_SZ"

definition obj_sum_entry_offs :: "buf \<Rightarrow> nat \<Rightarrow> u32 option" where
  "obj_sum_entry_offs b entry = do {
     w \<leftarrow> get32 b (entry + se_del_flag_and_offs);
     Some (w AND NOT BILBYFS_SUM_ENTRY_DEL_FLAG_MASK)
   }"

definition obj_sum_entry_is_del :: "buf \<Rightarrow> nat \<Rightarrow> bool option" where
  "obj_sum_entry_is_del b entry = do {
     w \<leftarrow> get32 b (entry + se_del_flag_and_offs);
     Some (w AND BILBYFS_SUM_ENTRY_DEL_FLAG_MASK \<noteq> 0)
   }"

definition obj_sum_offs :: "buf \<Rightarrow> nat option" where
  "obj_sum_offs b = do {
     len \<leftarrow> get32 b ch_len;
     if unat len < BILBYFS_OBJ_SUM_OFFS_SZ then None
     else Some (unat len - BILBYFS_OBJ_SUM_OFFS_SZ)
   }"

definition get_obj_id :: "buf \<Rightarrow> nat \<Rightarrow> obj_id option" where
  "get_obj_id b obj = do {
     ty \<leftarrow> get8 b (obj + ch_type);
     bilbyfs_assert (ty = BILBYFS_INODE_OBJ \<or> ty = BILBYFS_DENTARR_OBJ \<or>
                     ty = BILBYFS_DATA_OBJ \<or> ty = BILBYFS_DEL_OBJ);
     get64 b (obj + BILBYFS_CH_SZ)
   }"

definition obj_dentry_size :: "buf \<Rightarrow> nat \<Rightarrow> nat option" where
  "obj_dentry_size b de = do {
     nlen \<leftarrow> get16 b (de + de_nlen);
     Some (BILBYFS_DENTRY_SZ + unat nlen + 1)
   }"

text \<open>\<open>obj_dentarr_size\<close> returns an unsigned value as an \<open>int\<close>.\<close>

definition obj_dentarr_size :: "buf \<Rightarrow> int option" where
  "obj_dentarr_size dearr = do {
     size \<leftarrow> get32 dearr dentarr_size;
     Some (if size = 0 then int BILBYFS_DENTARR_SZ else sint size)
   }"

definition obj_dentry_size_from_nm :: "name \<Rightarrow> int" where
  "obj_dentry_size_from_nm name = int (BILBYFS_DENTRY_SZ + length name + 1)"

definition obj_dentarr_size_with_nm :: "buf \<Rightarrow> name \<Rightarrow> int option" where
  "obj_dentarr_size_with_nm dentarr name = do {
     sz \<leftarrow> obj_dentarr_size dentarr;
     Some (sz + obj_dentry_size_from_nm name)
   }"

definition obj_data_size_with_data :: "int \<Rightarrow> int" where
  "obj_data_size_with_data data_size = int BILBYFS_DATA_SZ + data_size"

text \<open>The size of a summary with \<open>nb\<close> entries: computed in 64 bits, returned as an \<open>int\<close>.\<close>

definition sum_size :: "u32 \<Rightarrow> int" where
  "sum_size nb = sint (word_of_int
     (ALIGN (int BILBYFS_SUM_SZ + uint nb * int BILBYFS_SUM_ENTRY_SZ + int BILBYFS_OBJ_SUM_OFFS_SZ)
       BILBYFS_OBJ_PADDING) :: u32)"

definition obj_sum_size :: "buf \<Rightarrow> int option" where
  "obj_sum_size b = do {
     nb \<leftarrow> get32 b sum_nb_sum_entry;
     Some (sum_size nb)
   }"

section \<open>packobj.c\<close>

text \<open>
  The part of \<open>struct inode\<close> and \<open>struct bilbyfs_inode\<close> that BilbyFs uses. Times are the
  seconds; the granularity of the file system is one second.
\<close>

record inode =
  i_ino :: u64
  i_mode :: u16
  i_nlink :: u32
  i_uid :: u32
  i_gid :: u32
  i_size :: u64
  i_atime :: u64
  i_mtime :: u64
  i_ctime :: u64
  i_flags :: u32
  bi_creat_sqnum :: u64
  bi_flags :: u32

definition S_IFMT :: u16 where [simp]: "S_IFMT = 0xF000"
definition S_IFREG :: u16 where [simp]: "S_IFREG = 0x8000"
definition S_IFDIR :: u16 where [simp]: "S_IFDIR = 0x4000"
definition S_IFLNK :: u16 where [simp]: "S_IFLNK = 0xA000"
definition S_IFSOCK :: u16 where [simp]: "S_IFSOCK = 0xC000"
definition S_IFIFO :: u16 where [simp]: "S_IFIFO = 0x1000"
definition S_IFBLK :: u16 where [simp]: "S_IFBLK = 0x6000"
definition S_IFCHR :: u16 where [simp]: "S_IFCHR = 0x2000"
definition S_NOATIME :: u32 where [simp]: "S_NOATIME = 2"
definition S_NOCMTIME :: u32 where [simp]: "S_NOCMTIME = 0x80"

definition inode_mode_to_dent_type :: "u16 \<Rightarrow> u8 option" where
  "inode_mode_to_dent_type mode =
     (let fmt = mode AND S_IFMT
      in if fmt = S_IFREG then Some BILBYFS_ITYPE_REG
         else if fmt = S_IFDIR then Some BILBYFS_ITYPE_DIR
         else if fmt = S_IFLNK then Some BILBYFS_ITYPE_LNK
         else if fmt = S_IFSOCK then Some BILBYFS_ITYPE_SOCK
         else if fmt = S_IFIFO then Some BILBYFS_ITYPE_FIFO
         else if fmt = S_IFBLK then Some BILBYFS_ITYPE_BLK
         else if fmt = S_IFCHR then Some BILBYFS_ITYPE_CHR
         else None)"

text \<open>
  \<open>max_obj_sz\<close> is an \<open>int\<close> that the code compares with a 64-bit and a 32-bit unsigned value.
\<close>

definition check_obj_header :: "'u kernel \<Rightarrow> buf \<Rightarrow> nat \<Rightarrow> int \<Rightarrow> errno option option" where
  "check_obj_header K b obj max_obj_sz =
     (if (word_of_int max_obj_sz :: u64) < of_nat BILBYFS_CH_SZ then Some (Some ENOENT)
      else do {
        magic \<leftarrow> get32 b (obj + ch_magic);
        if magic \<noteq> BILBYFS_OBJ_MAGIC then Some (Some ENOENT)
        else do {
          len \<leftarrow> get32 b (obj + ch_len);
          if len < of_nat BILBYFS_CH_SZ \<or> word_of_int max_obj_sz < len then Some (Some EINVAL)
          else do {
            body \<leftarrow> buf_get b (obj + 8) (unat (len - 8));
            crc \<leftarrow> get32 b (obj + ch_crc);
            if k_crc32 K BILBYFS_CRC32_INIT body \<noteq> crc then Some (Some EINVAL) else Some None
          }
        }
      })"

definition zero_obj_ch_unused :: "buf \<Rightarrow> nat \<Rightarrow> buf option" where
  "zero_obj_ch_unused b ch = buf_fill b (ch + ch_padding) 0 2"

definition pack_obj_header :: "'u kernel \<Rightarrow> buf \<Rightarrow> nat \<Rightarrow> u64 \<Rightarrow> u8 \<Rightarrow> buf option" where
  "pack_obj_header K b obj sqnum trans_pos = do {
     ty \<leftarrow> get8 b (obj + ch_type);
     bilbyfs_assert (ty < BILBYFS_OBJ_TYPES_CNT);
     b \<leftarrow> put32 b (obj + ch_magic) BILBYFS_OBJ_MAGIC;
     b \<leftarrow> put64 b (obj + ch_sqnum) sqnum;
     b \<leftarrow> put8 b (obj + ch_trans) trans_pos;
     b \<leftarrow> zero_obj_ch_unused b obj;
     len \<leftarrow> get32 b (obj + ch_len);
     body \<leftarrow> buf_get b (obj + 8) (unat (len - 8));
     put32 b (obj + ch_crc) (k_crc32 K BILBYFS_CRC32_INIT body)
   }"

text \<open>The comparison of \<open>len\<close> with a \<open>sizeof\<close> is unsigned.\<close>

definition len_to_le32 :: "int \<Rightarrow> u32 option" where
  "len_to_le32 len = do {
     bilbyfs_assert (of_nat BILBYFS_CH_SZ \<le> (word_of_int len :: u64));
     Some (word_of_int (ALIGN len BILBYFS_OBJ_PADDING))
   }"

definition zero_obj_inode_unused :: "buf \<Rightarrow> buf option" where
  "zero_obj_inode_unused ino = put32 ino ino_padding 0"

definition pack_obj_inode :: "buf \<Rightarrow> inode \<Rightarrow> buf option" where
  "pack_obj_inode ino inode = do {
     ino \<leftarrow> put8 ino ch_type BILBYFS_INODE_OBJ;
     len \<leftarrow> len_to_le32 (int BILBYFS_INODE_SZ);
     ino \<leftarrow> put32 ino ch_len len;
     ino \<leftarrow> put64 ino ino_id (inode_id_init (i_ino inode));
     ino \<leftarrow> put64 ino ino_creat_sqnum (bi_creat_sqnum inode);
     ino \<leftarrow> put64 ino ino_size (i_size inode);
     ino \<leftarrow> put64 ino ino_atime_sec (i_atime inode);
     ino \<leftarrow> put64 ino ino_ctime_sec (i_ctime inode);
     ino \<leftarrow> put64 ino ino_mtime_sec (i_mtime inode);
     ino \<leftarrow> put32 ino ino_nlink (i_nlink inode);
     ino \<leftarrow> put32 ino ino_uid (i_uid inode);
     ino \<leftarrow> put32 ino ino_gid (i_gid inode);
     ino \<leftarrow> put32 ino ino_mode (ucast (i_mode inode));
     ino \<leftarrow> put32 ino ino_flags (bi_flags inode);
     zero_obj_inode_unused ino
   }"

definition pack_obj_dentarr :: "buf \<Rightarrow> obj_id \<Rightarrow> int \<Rightarrow> int \<Rightarrow> buf option" where
  "pack_obj_dentarr dentarr oid nbdentry sz = do {
     dentarr \<leftarrow> put8 dentarr ch_type BILBYFS_DENTARR_OBJ;
     len \<leftarrow> len_to_le32 sz;
     dentarr \<leftarrow> put32 dentarr ch_len len;
     dentarr \<leftarrow> put64 dentarr dentarr_id oid;
     dentarr \<leftarrow> put32 dentarr dentarr_nb_dentry (word_of_int nbdentry);
     put32 dentarr dentarr_size (word_of_int sz)
   }"

definition zero_obj_data_unused :: "buf \<Rightarrow> buf option" where
  "zero_obj_data_unused odata = buf_fill odata odata_padding 0 4"

definition pack_obj_data :: "buf \<Rightarrow> obj_id \<Rightarrow> int \<Rightarrow> buf \<Rightarrow> buf option" where
  "pack_obj_data odata oid sz_data data = do {
     odata \<leftarrow> put8 odata ch_type BILBYFS_DATA_OBJ;
     len \<leftarrow> len_to_le32 (int BILBYFS_DATA_SZ + sz_data);
     odata \<leftarrow> put32 odata ch_len len;
     odata \<leftarrow> put64 odata odata_id oid;
     odata \<leftarrow> put32 odata odata_size (word_of_int sz_data);
     bilbyfs_assert (0 \<le> sz_data);
     bytes \<leftarrow> buf_get data 0 (nat sz_data);
     odata \<leftarrow> buf_put odata odata_data bytes;
     zero_obj_data_unused odata
   }"

definition pack_obj_dentry :: "buf \<Rightarrow> nat \<Rightarrow> inode \<Rightarrow> name \<Rightarrow> buf option" where
  "pack_obj_dentry b de inode name = do {
     b \<leftarrow> put32 b (de + de_ino) (ucast (i_ino inode));
     ty \<leftarrow> inode_mode_to_dent_type (i_mode inode);
     b \<leftarrow> put8 b (de + de_type) ty;
     b \<leftarrow> put16 b (de + de_nlen) (of_nat (length name));
     buf_put b (de + de_name) (name @ [0])
   }"

text \<open>A negative byte count is a huge \<open>size_t\<close>: the fill leaves the block.\<close>

definition pack_obj_pad :: "buf \<Rightarrow> nat \<Rightarrow> int \<Rightarrow> buf option" where
  "pack_obj_pad b pad pad_sz = do {
     b \<leftarrow> put8 b (pad + ch_type) BILBYFS_PAD_OBJ;
     len \<leftarrow> len_to_le32 pad_sz;
     b \<leftarrow> put32 b (pad + ch_len) len;
     bilbyfs_assert (int BILBYFS_CH_SZ \<le> pad_sz);
     buf_fill b (pad + BILBYFS_CH_SZ) BILBYFS_PAD_BYTE (nat pad_sz - BILBYFS_CH_SZ)
   }"

definition unpack_obj_inode :: "inode \<Rightarrow> buf \<Rightarrow> inode option" where
  "unpack_obj_inode inode ino = do {
     nlink \<leftarrow> get32 ino ino_nlink;
     uid \<leftarrow> get32 ino ino_uid;
     gid \<leftarrow> get32 ino ino_gid;
     atime \<leftarrow> get64 ino ino_atime_sec;
     mtime \<leftarrow> get64 ino ino_mtime_sec;
     ctime \<leftarrow> get64 ino ino_ctime_sec;
     mode \<leftarrow> get32 ino ino_mode;
     size \<leftarrow> get64 ino ino_size;
     flags \<leftarrow> get32 ino ino_flags;
     creat_sqnum \<leftarrow> get64 ino ino_creat_sqnum;
     Some (inode\<lparr>i_flags := i_flags inode OR (S_NOCMTIME OR S_NOATIME), i_nlink := nlink,
             i_uid := uid, i_gid := gid, i_atime := atime, i_mtime := mtime, i_ctime := ctime,
             i_mode := ucast mode, i_size := size, bi_flags := flags,
             bi_creat_sqnum := creat_sqnum\<rparr>)
   }"

definition zero_obj_super_unused :: "buf \<Rightarrow> buf option" where
  "zero_obj_super_unused super = buf_fill super sup_padding 0 4"

definition pack_obj_super :: "buf \<Rightarrow> bilbyfs_super \<Rightarrow> buf option" where
  "pack_obj_super super bsuper = do {
     super \<leftarrow> put8 super ch_type BILBYFS_SUP_OBJ;
     len \<leftarrow> len_to_le32 (int BILBYFS_SUPER_SZ);
     super \<leftarrow> put32 super ch_len len;
     super \<leftarrow> put32 super sup_flags (su_flags bsuper);
     super \<leftarrow> put32 super sup_leb_cnt (word_of_int (su_leb_cnt bsuper));
     super \<leftarrow> put32 super sup_nb_reserved_del (word_of_int (su_nb_reserved_del bsuper));
     super \<leftarrow> put32 super sup_nb_reserved_gc (word_of_int (su_nb_reserved_gc bsuper));
     super \<leftarrow> put32 super sup_leb_size (word_of_int (su_leb_size bsuper));
     super \<leftarrow> put32 super sup_log_head_leb (su_log_lnum bsuper);
     super \<leftarrow> put32 super sup_log_head_offs (su_log_offs bsuper);
     super \<leftarrow> put64 super sup_lowest_sqnum (su_lowest_sqnum bsuper);
     zero_obj_super_unused super
   }"

definition unpack_obj_super :: "bilbyfs_super \<Rightarrow> buf \<Rightarrow> nat \<Rightarrow> bilbyfs_super option" where
  "unpack_obj_super bsuper b super = do {
     sqnum \<leftarrow> get64 b (super + ch_sqnum);
     flags \<leftarrow> get32 b (super + sup_flags);
     leb_cnt \<leftarrow> get32 b (super + sup_leb_cnt);
     nb_reserved_del \<leftarrow> get32 b (super + sup_nb_reserved_del);
     nb_reserved_gc \<leftarrow> get32 b (super + sup_nb_reserved_gc);
     leb_size \<leftarrow> get32 b (super + sup_leb_size);
     log_lnum \<leftarrow> get32 b (super + sup_log_head_leb);
     log_offs \<leftarrow> get32 b (super + sup_log_head_offs);
     lowest_sqnum \<leftarrow> get64 b (super + sup_lowest_sqnum);
     last_inum \<leftarrow> get64 b (super + sup_last_inum);
     Some (bsuper\<lparr>su_sqnum := sqnum, su_flags := flags, su_leb_cnt := sint leb_cnt,
             su_nb_reserved_del := sint nb_reserved_del, su_nb_reserved_gc := sint nb_reserved_gc,
             su_leb_size := sint leb_size, su_log_lnum := log_lnum, su_log_offs := log_offs,
             su_lowest_sqnum := lowest_sqnum, su_last_inum := last_inum\<rparr>)
   }"

definition pack_obj_del :: "buf \<Rightarrow> obj_id \<Rightarrow> buf option" where
  "pack_obj_del obj oid = do {
     obj \<leftarrow> put8 obj ch_type BILBYFS_DEL_OBJ;
     len \<leftarrow> len_to_le32 (int BILBYFS_DEL_SZ);
     obj \<leftarrow> put32 obj ch_len len;
     put64 obj odel_id oid
   }"

definition pack_obj_sum :: "buf \<Rightarrow> u32 \<Rightarrow> buf option" where
  "pack_obj_sum osum offs = do {
     len \<leftarrow> obj_sum_size osum;
     let len = (word_of_int len :: u32);
     osum \<leftarrow> put8 osum ch_type BILBYFS_SUM_OBJ;
     chlen \<leftarrow> len_to_le32 (sint len);
     osum \<leftarrow> put32 osum ch_len chlen;
     osum \<leftarrow> buf_fill osum (unat len) BILBYFS_PAD_BYTE (unat (chlen - len));
     pos \<leftarrow> obj_sum_offs osum;
     put32 osum pos offs
   }"

section \<open>Lengths of packed objects\<close>

lemma len_to_le32_ok: "24 \<le> len \<Longrightarrow> len < 2 ^ 31 \<Longrightarrow> len_to_le32 len = Some (word_of_int (ALIGN len 8))"
proof -
  assume "24 \<le> len" "len < 2 ^ 31"
  then have "(24 :: u64) \<le> word_of_int len"
    by (simp add: word_le_def uint_word_of_int take_bit_int_eq_self)
  then show ?thesis by (simp add: len_to_le32_def)
qed

lemma ALIGN_consts [simp]: "ALIGN 96 8 = 96" "ALIGN 120 8 = 120" "ALIGN 32 8 = 32" "ALIGN 40 8 = 40"
  by (simp_all add: ALIGN_8)

lemma len_to_le32_consts [simp]:
  "len_to_le32 96 = Some 96" "len_to_le32 120 = Some 120" "len_to_le32 32 = Some 32"
  by (simp_all add: len_to_le32_ok)

section \<open>Common header\<close>

text \<open>What \<open>pack_obj_header\<close> leaves in the block.\<close>

definition header_bytes :: "buf \<Rightarrow> nat \<Rightarrow> u64 \<Rightarrow> u8 \<Rightarrow> buf" where
  "header_bytes b obj sqnum tpos =
     splice (splice (splice (splice b obj (le_enc 4 BILBYFS_OBJ_MAGIC))
       (obj + 8) (le_enc 8 sqnum)) (obj + 21) (le_enc 1 tpos)) (obj + 22) (replicate 2 0)"

lemma length_header_bytes [simp, len_simps]:
  "obj + 24 \<le> length b \<Longrightarrow> length (header_bytes b obj sqnum tpos) = length b"
  by (simp add: header_bytes_def)

lemma rd_header_bytes:
  assumes "obj + 24 \<le> length b"
  shows "rd32 (header_bytes b obj sqnum tpos) obj = BILBYFS_OBJ_MAGIC"
    "rd64 (header_bytes b obj sqnum tpos) (obj + 8) = sqnum"
    "rd8 (header_bytes b obj sqnum tpos) (obj + 21) = tpos"
    "rd8 (header_bytes b obj sqnum tpos) (obj + 20) = rd8 b (obj + 20)"
    "rd32 (header_bytes b obj sqnum tpos) (obj + 16) = rd32 b (obj + 16)"
    "rdw n (header_bytes b obj sqnum tpos) (obj + 24 + k) = rdw n b (obj + 24 + k)"
  using assms unfolding header_bytes_def by (simp_all add: buf_simps)

lemma header_bytes_outside:
  assumes "obj + 24 \<le> length b"
  shows "take obj (header_bytes b obj sqnum tpos) = take obj b"
    "drop (obj + 24) (header_bytes b obj sqnum tpos) = drop (obj + 24) b"
  using assms unfolding header_bytes_def by (simp_all add: take_splice_before drop_splice_after)

definition header_crc :: "'u kernel \<Rightarrow> buf \<Rightarrow> nat \<Rightarrow> u64 \<Rightarrow> u8 \<Rightarrow> u32" where
  "header_crc K b obj sqnum tpos = k_crc32 K BILBYFS_CRC32_INIT
     (take (unat (rd32 b (obj + 16)) - 8) (drop (obj + 8) (header_bytes b obj sqnum tpos)))"

lemma pack_obj_header_eq:
  assumes "rd8 b (obj + 20) < 7" "24 \<le> unat (rd32 b (obj + 16))"
    and "obj + unat (rd32 b (obj + 16)) \<le> length b"
  shows "pack_obj_header K b obj sqnum tpos =
    Some (splice (header_bytes b obj sqnum tpos) (obj + 4) (le_enc 4 (header_crc K b obj sqnum tpos)))"
proof -
  have l: "obj + 24 \<le> length b" using assms by linarith
  have u: "unat (rd32 b (obj + 16) - 8) = unat (rd32 b (obj + 16)) - 8"
    using assms(2) by (simp add: unat_sub word_le_nat_alt)
  have "rd32 (header_bytes b obj sqnum tpos) (obj + 16) = rd32 b (obj + 16)"
    using rd_header_bytes [OF l] by simp
  with l u assms show ?thesis
    unfolding header_crc_def header_bytes_def
    by (simp add: pack_obj_header_def zero_obj_ch_unused_def access_simps)
qed

text \<open>The bytes the checksum covers do not contain the checksum.\<close>

lemma check_after_pack:
  assumes "rd8 b (obj + 20) < 7" "24 \<le> unat (rd32 b (obj + 16))"
    and "int (unat (rd32 b (obj + 16))) \<le> maxsz" "maxsz < 2 ^ 31"
    and "obj + unat (rd32 b (obj + 16)) \<le> length b"
    and "pack_obj_header K b obj sqnum tpos = Some b'"
  shows "check_obj_header K b' obj maxsz = Some None"
proof -
  let ?h = "header_bytes b obj sqnum tpos"
  let ?crc = "header_crc K b obj sqnum tpos"
  have l: "obj + 24 \<le> length b" using assms by linarith
  have b': "b' = splice ?h (obj + 4) (le_enc 4 ?crc)"
    using assms pack_obj_header_eq [of b obj K sqnum tpos] by simp
  have len: "length ?h = length b" using l by simp
  note rd = rd_header_bytes [OF l, where sqnum = sqnum and tpos = tpos]
  have f: "rd32 b' obj = BILBYFS_OBJ_MAGIC" "rd32 b' (obj + 16) = rd32 b (obj + 16)"
    "rd32 b' (obj + 4) = ?crc" "length b' = length b" "drop (obj + 8) b' = drop (obj + 8) ?h"
    using l rd unfolding b' by (simp_all add: buf_simps drop_splice_after)
  have u: "unat (rd32 b (obj + 16) - 8) = unat (rd32 b (obj + 16)) - 8"
    using assms(2) by (simp add: unat_sub word_le_nat_alt)
  have m: "\<not> (word_of_int maxsz :: u64) < 24" "\<not> word_of_int maxsz < rd32 b (obj + 16)"
    "\<not> rd32 b (obj + 16) < 24"
    using assms(2-4) by (simp_all add: word_less_def unat_uint_le)
  show ?thesis
    using l assms(5) f u m by (simp add: check_obj_header_def header_crc_def access_simps)
qed

text \<open>
  An object whose type and length are valid passes \<open>check_obj_header\<close> after
  \<open>pack_obj_header\<close>, for every checksum function: the call does not fail, the header carries
  the sequence number and the transaction position it was given, and no byte outside the 24
  bytes of the header changes.
\<close>

lemma pack_check_header:
  assumes "rd8 b (obj + 20) < 7" "24 \<le> unat (rd32 b (obj + 16))"
    and "int (unat (rd32 b (obj + 16))) \<le> maxsz" "maxsz < 2 ^ 31"
    and "obj + unat (rd32 b (obj + 16)) \<le> length b"
  shows "\<exists>b'. pack_obj_header K b obj sqnum tpos = Some b' \<and>
    check_obj_header K b' obj maxsz = Some None \<and> length b' = length b \<and>
    rd64 b' (obj + 8) = sqnum \<and> rd8 b' (obj + 21) = tpos \<and>
    take obj b' = take obj b \<and> drop (obj + 24) b' = drop (obj + 24) b"
proof -
  have l: "obj + 24 \<le> length b" using assms by linarith
  let ?b = "splice (header_bytes b obj sqnum tpos) (obj + 4) (le_enc 4 (header_crc K b obj sqnum tpos))"
  have p: "pack_obj_header K b obj sqnum tpos = Some ?b"
    by (rule pack_obj_header_eq) fact+
  note rd = rd_header_bytes [OF l, where sqnum = sqnum and tpos = tpos]
    header_bytes_outside [OF l, where sqnum = sqnum and tpos = tpos]
  have "length ?b = length b" "rd64 ?b (obj + 8) = sqnum" "rd8 ?b (obj + 21) = tpos"
    "take obj ?b = take obj b" "drop (obj + 24) ?b = drop (obj + 24) b"
    using l rd by (simp_all add: buf_simps take_splice_before drop_splice_after)
  with p check_after_pack [OF assms p] show ?thesis by blast
qed

text \<open>A 24-byte deletion header is a valid object.\<close>

definition demo_kernel :: "unit kernel" where
  "demo_kernel = \<lparr>k_crc32 = (\<lambda>i bs. foldl (\<lambda>a x. a + ucast x) i bs),
     k_ubi_read = (\<lambda>u l off n. Inl ENOENT), k_ubi_leb_write = (\<lambda>u l b off. (None, u)),
     k_ubi_leb_change = (\<lambda>u l b. (None, u)), k_ubi_leb_erase = (\<lambda>u l. (None, u)),
     k_ubi_is_mapped = (\<lambda>u l. Inr False), k_junk = (\<lambda>i. 0)\<rparr>"

definition demo_obj :: buf where
  "demo_obj = replicate 16 0 @ [24, 0, 0, 0] @ [5] @ replicate 3 0"

lemma pack_check_header_example:
  "\<exists>b'. pack_obj_header demo_kernel demo_obj 0 7 5 = Some b' \<and>
     check_obj_header demo_kernel b' 0 24 = Some None \<and> rd64 b' 8 = 7"
proof -
  have "rd8 demo_obj 20 = 5" "rd32 demo_obj 16 = 24" "length demo_obj = 24"
    by code_simp+
  with pack_check_header [of demo_obj 0 24 demo_kernel 7 5] show ?thesis by auto
qed

section \<open>Objects\<close>

lemma ucast_mode [simp]: "ucast (ucast (m :: u16) :: u32) = m"
  by (rule bit_word_eqI) (auto simp: bit_simps dest: bit_imp_le_length)

definition inode_stores :: "inode \<Rightarrow> (nat \<times> buf) list" where
  "inode_stores inode =
    [(92, le_enc 4 (0 :: u32)), (88, le_enc 4 (bi_flags inode)), (84, le_enc 4 (ucast (i_mode inode) :: u32)),
     (80, le_enc 4 (i_gid inode)), (76, le_enc 4 (i_uid inode)), (72, le_enc 4 (i_nlink inode)),
     (64, le_enc 8 (i_mtime inode)), (56, le_enc 8 (i_ctime inode)), (48, le_enc 8 (i_atime inode)),
     (40, le_enc 8 (i_size inode)), (32, le_enc 8 (bi_creat_sqnum inode)),
     (24, le_enc 8 (inode_id_init (i_ino inode))), (16, le_enc 4 (96 :: u32)), (20, le_enc 1 (0 :: u8))]"

lemma pack_obj_inode_stores:
  "96 \<le> length b \<Longrightarrow> pack_obj_inode b inode = Some (stores b (inode_stores inode))"
  by (simp add: pack_obj_inode_def zero_obj_inode_unused_def inode_stores_def put_stores)

text \<open>
  Unpacking a packed inode object gives back every attribute of the inode that is stored on
  flash, and the object has the inode's id, the inode type and its full length.
\<close>

lemma inode_pack_unpack:
  assumes "length b = BILBYFS_INODE_SZ"
  shows "\<exists>b'. pack_obj_inode b inode = Some b' \<and> length b' = BILBYFS_INODE_SZ \<and>
    get_obj_id b' 0 = Some (inode_id_init (i_ino inode)) \<and> rd32 b' 16 = of_nat BILBYFS_INODE_SZ \<and>
    unpack_obj_inode inode0 b' = Some (inode0\<lparr>i_mode := i_mode inode, i_nlink := i_nlink inode,
      i_uid := i_uid inode, i_gid := i_gid inode, i_size := i_size inode,
      i_atime := i_atime inode, i_mtime := i_mtime inode, i_ctime := i_ctime inode,
      i_flags := i_flags inode0 OR (S_NOCMTIME OR S_NOATIME),
      bi_creat_sqnum := bi_creat_sqnum inode, bi_flags := bi_flags inode\<rparr>)"
  using assms
  by (simp add: pack_obj_inode_stores unpack_obj_inode_def get_obj_id_def inode_stores_def store_reads)


lemma inode_pack_unpack_example:
  "\<exists>b'. pack_obj_inode (replicate 96 0) \<lparr>i_ino = 24, i_mode = 0x41ED, i_nlink = 2, i_uid = 0, i_gid = 0,
      i_size = 0, i_atime = 5, i_mtime = 6, i_ctime = 7, i_flags = 0, bi_creat_sqnum = 9, bi_flags = 0\<rparr>
      = Some b' \<and> length b' = 96 \<and> get_obj_id b' 0 = Some (inode_id_init 24)"
  using inode_pack_unpack [of "replicate 96 0" "\<lparr>i_ino = 24, i_mode = 0x41ED, i_nlink = 2, i_uid = 0,
      i_gid = 0, i_size = 0, i_atime = 5, i_mtime = 6, i_ctime = 7, i_flags = 0, bi_creat_sqnum = 9,
      bi_flags = 0\<rparr>"]
  by auto

lemma rdw_replicate_0: "rdw n (replicate m 0) off = 0"
proof -
  have "le_dec (replicate k 0) = (0 :: 'a::len word)" for k
    by (induction k) (simp_all add: le_dec.simps)
  then show ?thesis by (simp add: rdw_def drop_replicate take_replicate)
qed

definition super_stores :: "bilbyfs_super \<Rightarrow> (nat \<times> buf) list" where
  "super_stores s =
    [(116, replicate 4 0), (100, le_enc 8 (su_lowest_sqnum s)), (96, le_enc 4 (su_log_offs s)),
     (92, le_enc 4 (su_log_lnum s)), (76, le_enc 4 (word_of_int (su_leb_size s) :: u32)),
     (84, le_enc 4 (word_of_int (su_nb_reserved_gc s) :: u32)),
     (88, le_enc 4 (word_of_int (su_nb_reserved_del s) :: u32)),
     (80, le_enc 4 (word_of_int (su_leb_cnt s) :: u32)), (24, le_enc 4 (su_flags s)),
     (16, le_enc 4 (120 :: u32)), (20, le_enc 1 (3 :: u8))]"

lemma pack_obj_super_stores:
  "120 \<le> length b \<Longrightarrow> pack_obj_super b s = Some (stores b (super_stores s))"
  by (simp add: pack_obj_super_def zero_obj_super_unused_def super_stores_def put_stores)

text \<open>
  The superblock object round-trips every geometry field, and not \<open>last_inum\<close>:
  \<open>pack_obj_super\<close> does not store it, so what \<open>unpack_obj_super\<close> reads back from a zeroed
  object is 0 whatever inode number was last used.
\<close>

lemma super_pack_unpack:
  assumes "0 \<le> su_leb_cnt s" "su_leb_cnt s < 2 ^ 31" "0 \<le> su_leb_size s" "su_leb_size s < 2 ^ 31"
    and "0 \<le> su_nb_reserved_gc s" "su_nb_reserved_gc s < 2 ^ 31"
    and "0 \<le> su_nb_reserved_del s" "su_nb_reserved_del s < 2 ^ 31"
  shows "\<exists>b'. pack_obj_super (replicate BILBYFS_SUPER_SZ 0) s = Some b' \<and> length b' = BILBYFS_SUPER_SZ \<and>
    unpack_obj_super s0 b' 0 = Some (s0\<lparr>su_sqnum := 0, su_flags := su_flags s,
      su_leb_cnt := su_leb_cnt s, su_nb_reserved_del := su_nb_reserved_del s,
      su_nb_reserved_gc := su_nb_reserved_gc s, su_leb_size := su_leb_size s,
      su_log_lnum := su_log_lnum s, su_log_offs := su_log_offs s,
      su_lowest_sqnum := su_lowest_sqnum s, su_last_inum := 0\<rparr>)"
  using assms
  by (simp add: pack_obj_super_stores unpack_obj_super_def super_stores_def store_reads rdw_replicate_0)

lemma super_pack_unpack_example:
  "\<exists>b' s'. pack_obj_super (replicate 120 0) (zero_super\<lparr>su_leb_cnt := 8, su_last_inum := 77\<rparr>) = Some b' \<and>
     unpack_obj_super zero_super b' 0 = Some s' \<and> su_leb_cnt s' = 8 \<and> su_last_inum s' = 0"
  using super_pack_unpack [of "zero_super\<lparr>su_leb_cnt := 8, su_last_inum := 77\<rparr>" zero_super]
  by (auto simp: zero_super_def)

lemma sum_size_eq:
  assumes "uint nb < 2 ^ 26"
  shows "sum_size nb = ALIGN (32 + uint nb * 26) 8"
    and "32 + uint nb * 26 \<le> sum_size nb" and "sum_size nb < 40 + uint nb * 26"
    and "8 dvd sum_size nb"
proof -
  have b: "32 + uint nb * 26 \<le> ALIGN (32 + uint nb * 26) 8"
    "ALIGN (32 + uint nb * 26) 8 < 40 + uint nb * 26"
    using ALIGN_8_ge [of "32 + uint nb * 26"] ALIGN_8_less [of "32 + uint nb * 26"] by auto
  have "0 \<le> uint nb" by simp
  then have r: "0 \<le> ALIGN (32 + uint nb * 26) 8" "ALIGN (32 + uint nb * 26) 8 < 2147483648"
    using b assms [simplified] by linarith+
  have "int BILBYFS_SUM_SZ + uint nb * int BILBYFS_SUM_ENTRY_SZ + int BILBYFS_OBJ_SUM_OFFS_SZ =
      32 + uint nb * 26" by simp
  then show e: "sum_size nb = ALIGN (32 + uint nb * 26) 8"
    unfolding sum_size_def BILBYFS_OBJ_PADDING_def using int_words(3) [OF r] by (simp only:)
  from b ALIGN_8_dvd e show "32 + uint nb * 26 \<le> sum_size nb" "sum_size nb < 40 + uint nb * 26"
    "8 dvd sum_size nb" by simp_all
qed

text \<open>
  \<open>pack_obj_sum\<close> on a summary with \<open>nb\<close> entries that fits its block succeeds, makes it an
  object of the length \<open>obj_sum_size\<close> announces, stores the given flash offset in the last four
  bytes of the object, where the mount code looks for it, and keeps all entries.
\<close>

lemma pack_obj_sum_correct:
  assumes "uint (rd32 b 24) < 2 ^ 26" "nat (sum_size (rd32 b 24)) \<le> length b"
  shows "\<exists>b'. pack_obj_sum b offs = Some b' \<and> length b' = length b \<and>
    rd8 b' 20 = BILBYFS_SUM_OBJ \<and> uint (rd32 b' 16) = sum_size (rd32 b 24) \<and>
    rd32 b' (nat (sum_size (rd32 b 24)) - 4) = offs \<and>
    (\<forall>n k. 24 \<le> k \<and> k + n \<le> sum_entry_offs (unat (rd32 b 24)) \<longrightarrow>
      rdw n b' k = (rdw n b k :: u64))"
proof -
  let ?nb = "rd32 b 24"
  define L where "L = nat (sum_size ?nb)"
  note sz = sum_size_eq [OF assms(1)]
  have nn: "0 \<le> uint ?nb" by simp
  have s0: "0 \<le> sum_size ?nb" "sum_size ?nb < 2147483648" "24 \<le> sum_size ?nb"
    using sz(2,3) nn assms(1) [simplified] by linarith+
  have L: "28 + 26 * unat ?nb + 4 \<le> L" "L \<le> length b" "int L = sum_size ?nb"
    using sz(2) s0 assms(2) by (simp_all add: L_def le_nat_iff)
  let ?w = "word_of_int (sum_size ?nb) :: u32"
  have w: "sint ?w = sum_size ?nb" "unat ?w = L" "uint ?w = sum_size ?nb" using s0 by (simp_all add: L_def)
  have al: "len_to_le32 (sum_size ?nb) = Some ?w"
    using s0 ALIGN_8_id [OF sz(4)] by (simp add: len_to_le32_ok)
  let ?fs = "[(L - 4, le_enc 4 offs), (L, []), (16, le_enc 4 ?w), (20, le_enc 1 (6 :: u8))]"
  have g: "rd32 (stores b [(16, le_enc 4 ?w), (20, le_enc 1 (6 :: u8))]) 16 = ?w"
    using L by (simp add: store_reads)
  have p: "pack_obj_sum b offs = Some (stores b ?fs)"
    using L w al g
    by (simp add: pack_obj_sum_def obj_sum_size_def obj_sum_offs_def put_stores getw_Some store_reads)
  have "rdw n (stores b ?fs) k = (rdw n b k :: u64)"
    if "24 \<le> k" "k + n \<le> sum_entry_offs (unat ?nb)" for n k
    using L that by (simp add: sum_entry_offs_def store_reads)
  then show ?thesis
    using p L w by (simp add: store_reads flip: L_def)
qed

lemma pack_obj_sum_correct_example:
  "\<exists>b'. pack_obj_sum (replicate 64 0) 4096 = Some b' \<and> rd32 b' 28 = 4096 \<and> rd8 b' 20 = 6"
proof -
  have "sum_size 0 = 32" by (simp add: sum_size_eq ALIGN_8)
  with pack_obj_sum_correct [of "replicate 64 0" 4096] show ?thesis
    by (auto simp: rdw_replicate_0)
qed

end
