(* ===== verification/Bilby_Gim.thy ===== *)
theory Bilby_Gim
  imports Bilby_Idx Bilby_Packobj
begin

text \<open>
  \<open>gim.c\<close>: the garbage information manager. For every object id that has obsolete versions on
  flash it records how many there are and the highest sequence number among them. The garbage
  collector asks it which objects of an erase-block it may drop.
  A pointer to a \<open>gim_node\<close> is the id of the node. The lemmas show that marking and collecting
  are updates of a finite map, \<open>gim_map\<close>, from ids to sequence number and count.
\<close>

definition GIM_HASH_SIZE :: nat where [simp]: "GIM_HASH_SIZE = 2048"

definition gim_init :: "'u bilbyfs_info \<Rightarrow> errno option \<times> 'u bilbyfs_info" where
  "gim_init bi =
     (let (ok, km) = kmalloc_ok (bi_kmem bi); bi = bi\<lparr>bi_kmem := km\<rparr>
      in if ok then (None, bi\<lparr>bi_gim_hash := replicate GIM_HASH_SIZE NIL\<rparr>)
         else (Some ENOMEM, bi\<lparr>bi_gim_hash := []\<rparr>))"

definition gim_clean :: "'u bilbyfs_info \<Rightarrow> 'u bilbyfs_info option" where
  "gim_clean bi =
     (if length (bi_gim_hash bi) \<noteq> GIM_HASH_SIZE then None
      else do { clear_all (bi_gim_hash bi); Some (bi\<lparr>bi_gim_hash := []\<rparr>) })"

definition gim_hash_inum :: "u32 \<Rightarrow> u32" where
  "gim_hash_inum inum = inum mod of_nat GIM_HASH_SIZE"

definition gim_bucket :: "obj_id \<Rightarrow> nat" where
  "gim_bucket oid = unat (gim_hash_inum (ucast (inum_from_id oid)))"

fun gim_search_loop :: "gim_node rbt \<Rightarrow> obj_id \<Rightarrow> gim_node option" where
  "gim_search_loop NIL oid = None"
| "gim_search_loop (Node l c gnode r) oid =
     (if oid < gn_id gnode then gim_search_loop l oid
      else if gn_id gnode < oid then gim_search_loop r oid
      else Some gnode)"

text \<open>The outer option is the array access, the inner one the pointer returned.\<close>

definition gim_index_search :: "'u bilbyfs_info \<Rightarrow> obj_id \<Rightarrow> gim_node option option" where
  "gim_index_search bi oid = do {
     root \<leftarrow> nth_opt (bi_gim_hash bi) (gim_bucket oid);
     Some (gim_search_loop root oid)
   }"

fun gim_walk ::
  "gim_node rbt \<Rightarrow> obj_id \<Rightarrow> gim_node path \<Rightarrow> gim_node rbt \<times> gim_node path" where
  "gim_walk NIL oid path = (NIL, path)"
| "gim_walk (Node l c gnode r) oid path =
     (if oid < gn_id gnode then gim_walk l oid (LeftOf c gnode r # path)
      else if gn_id gnode < oid then gim_walk r oid (RightOf l c gnode # path)
      else (Node l c gnode r, path))"

definition gim_insert_or_replace ::
  "'u bilbyfs_info \<Rightarrow> obj_id \<Rightarrow> bool \<Rightarrow> 'u bilbyfs_info option" where
  "gim_insert_or_replace bi oid allocated_node = do {
     let hash = gim_bucket oid;
     root \<leftarrow> nth_opt (bi_gim_hash bi) hash;
     (case gim_walk root oid [] of
        (Node _ _ _ _, _) \<Rightarrow> Some bi
      | (NIL, path) \<Rightarrow> do {
          bi \<leftarrow> node_alloc bi allocated_node;
          let xnode = \<lparr>gn_id = oid, gn_sqnum = 0, gn_count = 0\<rparr>;
          let (leaf, path) = rbt_link_node xnode path;
          root' \<leftarrow> rbt_insert_color leaf path;
          Some (bi\<lparr>bi_gim_hash := (bi_gim_hash bi)[hash := root']\<rparr>)
        })
   }"

text \<open>Writing through a \<open>gnode\<close> pointer.\<close>

definition gim_node_update ::
  "'u bilbyfs_info \<Rightarrow> obj_id \<Rightarrow> (gim_node \<Rightarrow> gim_node) \<Rightarrow> 'u bilbyfs_info option" where
  "gim_node_update bi oid f = do {
     root \<leftarrow> nth_opt (bi_gim_hash bi) (gim_bucket oid);
     (case gim_walk root oid [] of
        (NIL, _) \<Rightarrow> None
      | (Node l c gnode r, path) \<Rightarrow>
          Some (bi\<lparr>bi_gim_hash := (bi_gim_hash bi)[gim_bucket oid := plug (Node l c (f gnode) r) path]\<rparr>))
   }"

definition gim_mark_garbage_cnt ::
  "'u bilbyfs_info \<Rightarrow> obj_id \<Rightarrow> obj_addr \<Rightarrow> u32 \<Rightarrow> bool \<Rightarrow> 'u bilbyfs_info option" where
  "gim_mark_garbage_cnt bi oid addr cnt allocated_node = do {
     bi \<leftarrow> gim_insert_or_replace bi oid allocated_node;
     gim_node_update bi oid (\<lambda>gnode.
       let gnode = (if gn_sqnum gnode < oa_sqnum addr then gnode\<lparr>gn_sqnum := oa_sqnum addr\<rparr> else gnode)
       in gnode\<lparr>gn_count := gn_count gnode + cnt\<rparr>)
   }"

definition gim_mark_garbage ::
  "'u bilbyfs_info \<Rightarrow> obj_id \<Rightarrow> obj_addr \<Rightarrow> bool \<Rightarrow> 'u bilbyfs_info option" where
  "gim_mark_garbage bi oid addr allocated_node = gim_mark_garbage_cnt bi oid addr 1 allocated_node"

fun gim_greater :: "gim_node rbt \<Rightarrow> obj_id \<Rightarrow> gim_node option \<Rightarrow> gim_node option" where
  "gim_greater NIL oid gnode_greater = gnode_greater"
| "gim_greater (Node l c gnode r) oid gnode_greater =
     (if oid < gn_id gnode then gim_greater l oid (Some gnode)
      else gim_greater r oid gnode_greater)"

definition gim_next_node :: "'u bilbyfs_info \<Rightarrow> gim_node \<Rightarrow> gim_node option option" where
  "gim_next_node bi curr_gnode = do {
     root \<leftarrow> nth_opt (bi_gim_hash bi) (gim_bucket (gn_id curr_gnode));
     Some (gim_greater root (gn_id curr_gnode) None)
   }"

text \<open>
  The loop of \<open>gim_is_removable\<close> over the nodes of one inode. The fuel bounds the number of
  nodes visited; \<open>gim_is_removable\<close> passes the number of nodes of the bucket plus one, and
  \<open>del_loop_fuel\<close> below shows that the loop never uses it up.
\<close>

fun gim_del_loop ::
  "nat \<Rightarrow> 'u bilbyfs_info \<Rightarrow> u64 \<Rightarrow> gim_node option \<Rightarrow> gim_node option \<Rightarrow> bool option" where
  "gim_del_loop fuel bi sqnum None pre_gnode = Some True"
| "gim_del_loop 0 bi sqnum (Some gnode) pre_gnode = None"
| "gim_del_loop (Suc fuel) bi sqnum (Some gnode) pre_gnode =
     (if pre_gnode = None \<or>
         inum_from_id (gn_id gnode) = inum_from_id (gn_id (the pre_gnode))
      then (if gn_sqnum gnode \<le> sqnum \<and> 1 < gn_count gnode then Some False
            else do {
              nxt \<leftarrow> gim_next_node bi gnode;
              gim_del_loop fuel bi sqnum nxt (Some gnode)
            })
      else Some True)"

definition gim_bucket_size :: "'u bilbyfs_info \<Rightarrow> obj_id \<Rightarrow> nat" where
  "gim_bucket_size bi oid = length (inorder (bi_gim_hash bi ! gim_bucket oid))"

definition gim_is_removable :: "'u bilbyfs_info \<Rightarrow> buf \<Rightarrow> nat \<Rightarrow> bool option" where
  "gim_is_removable bi b obj = do {
     sqnum \<leftarrow> get64 b (obj + ch_sqnum);
     ty \<leftarrow> get8 b (obj + ch_type);
     if ty = BILBYFS_PAD_OBJ \<or> ty = BILBYFS_SUM_OBJ then Some True
     else do {
       oid \<leftarrow> get_obj_id b obj;
       found \<leftarrow> gim_index_search bi oid;
       (case found of
          None \<Rightarrow> Some False
        | Some gnode \<Rightarrow>
            if gn_sqnum gnode < sqnum then Some False
            else if ty = BILBYFS_DEL_OBJ then
              (if type_from_id oid = BILBYFS_DENTARR_OBJ then Some True
               else if type_from_id oid = BILBYFS_INODE_OBJ \<or> type_from_id oid = BILBYFS_DATA_OBJ
               then gim_del_loop (Suc (gim_bucket_size bi oid)) bi sqnum (Some gnode) None
               else None)
            else Some True)
     }
   }"

text \<open>\<open>count\<close> is unsigned: \<open>count <= 0\<close> after the decrement means that it was 1.\<close>

definition gim_garbage_collected ::
  "'u bilbyfs_info \<Rightarrow> buf \<Rightarrow> nat \<Rightarrow> (errno option \<times> 'u bilbyfs_info) option" where
  "gim_garbage_collected bi b obj = do {
     ty \<leftarrow> get8 b (obj + ch_type);
     if ty = BILBYFS_PAD_OBJ \<or> ty = BILBYFS_SUM_OBJ then Some (None, bi)
     else do {
       oid \<leftarrow> get_obj_id b obj;
       found \<leftarrow> gim_index_search bi oid;
       (case found of
          None \<Rightarrow> Some (Some ENOENT, bi)
        | Some gnode \<Rightarrow> do {
            bi \<leftarrow> gim_node_update bi oid (\<lambda>g. g\<lparr>gn_count := gn_count g - 1\<rparr>);
            if gn_count gnode - 1 \<le> 0 then do {
              root \<leftarrow> nth_opt (bi_gim_hash bi) (gim_bucket oid);
              let (node, path) = gim_walk root oid [];
              root' \<leftarrow> rbt_erase node path;
              Some (None, bi\<lparr>bi_gim_hash := (bi_gim_hash bi)[gim_bucket oid := root']\<rparr>)
            }
            else Some (None, bi)
          })
     }
   }"

lemma gim_bucket_less [simp]: "gim_bucket oid < 2048"
  by (simp add: gim_bucket_def gim_hash_inum_def unat_mod)

interpretation gim: keyed_table gn_id gim_search_loop gim_walk gim_greater gim_bucket 2048
  by unfold_locales auto

section \<open>The garbage information is a finite map\<close>

definition gim_ok :: "'u bilbyfs_info \<Rightarrow> bool" where
  "gim_ok bi \<longleftrightarrow> table_ok gn_id gim_bucket GIM_HASH_SIZE (bi_gim_hash bi)"

definition gim_map :: "'u bilbyfs_info \<Rightarrow> obj_id \<rightharpoonup> u64 \<times> u32" where
  "gim_map bi oid = map_option (\<lambda>g. (gn_sqnum g, gn_count g))
     (table_map gn_id gim_bucket (bi_gim_hash bi) oid)"

definition gim_frame :: "'u bilbyfs_info \<Rightarrow> 'u bilbyfs_info \<Rightarrow> bool" where
  "gim_frame bi bi' \<longleftrightarrow>
     bi'\<lparr>bi_gim_hash := [], bi_node_pool := empty_pool, bi_kmem := []\<rparr> =
     bi\<lparr>bi_gim_hash := [], bi_node_pool := empty_pool, bi_kmem := []\<rparr> \<and>
     set (bi_kmem bi') \<subseteq> set (bi_kmem bi)"

lemma gim_ok_table: "gim_ok bi \<Longrightarrow> table_ok gn_id gim_bucket 2048 (bi_gim_hash bi)"
  by (simp add: gim_ok_def)

lemmas gim_okD = gim.table_okD [OF gim_ok_table]

lemma gim_frame_trans: "gim_frame a b \<Longrightarrow> gim_frame b c \<Longrightarrow> gim_frame a c"
  by (auto simp: gim_frame_def)

lemma gim_insert_ok:
  assumes "gim_ok bi" and pop: "allocated \<or> gim_map bi oid \<noteq> None \<or> can_pop bi"
  shows "\<exists>bi'. gim_insert_or_replace bi oid allocated = Some bi' \<and> gim_ok bi' \<and>
    gim_map bi' = (if gim_map bi oid = None then (gim_map bi)(oid \<mapsto> (0, 0)) else gim_map bi) \<and>
    gim_frame bi bi' \<and>
    (if allocated \<or> gim_map bi oid \<noteq> None then same_pool bi bi' else pop_ok bi bi')"
proof -
  note ok = gim_ok_table [OF assms(1)]
  obtain s path where w: "gim_walk (bi_gim_hash bi ! gim_bucket oid) oid [] = (s, path)"
    by (cases "gim_walk (bi_gim_hash bi ! gim_bucket oid) oid []")
  have m: "gim_map bi oid = map_option (\<lambda>g. (gn_sqnum g, gn_count g)) (node_of s)"
    using gim.table_walk [OF ok w] by (simp add: gim_map_def)
  show ?thesis
  proof (cases s)
    case (Node l c x r)
    then show ?thesis
      using w m assms(1) gim_okD(1) [OF assms(1)]
      by (simp add: gim_insert_or_replace_def gim_frame_def same_pool_def)
  next
    case NIL
    let ?n = "\<lparr>gn_id = oid, gn_sqnum = 0, gn_count = 0\<rparr>"
    from pop m NIL have "allocated \<or> can_pop bi" by simp
    then obtain b where b: "node_alloc bi allocated = Some b" "gim_frame bi b"
      "bi_gim_hash b = bi_gim_hash bi" "if allocated then same_pool bi b else pop_ok bi b"
      by (rule node_alloc_cases) (auto simp: gim_frame_def)
    from gim.table_insert [OF ok, of ?n path] w NIL obtain t' where
      t': "rbt_insert_color (Node NIL RBT_RED ?n NIL) path = Some t'"
      "table_ok gn_id gim_bucket 2048 ((bi_gim_hash bi)[gim_bucket oid := t'])"
      "table_map gn_id gim_bucket ((bi_gim_hash bi)[gim_bucket oid := t']) =
        (table_map gn_id gim_bucket (bi_gim_hash bi))(oid \<mapsto> ?n)"
      by auto
    let ?b = "b\<lparr>bi_gim_hash := (bi_gim_hash b)[gim_bucket oid := t']\<rparr>"
    have "gim_ok ?b" "gim_map ?b = (gim_map bi)(oid \<mapsto> (0, 0))"
      using t'(2,3) b(3) by (auto simp: gim_ok_def gim_map_def fun_eq_iff)
    moreover have "gim_insert_or_replace bi oid allocated = Some ?b"
      using NIL w t'(1) gim_okD(1) [OF assms(1)] b(1)
      by (simp add: gim_insert_or_replace_def rbt_link_node_def)
    moreover have "gim_frame bi ?b" "if allocated then same_pool bi ?b else pop_ok bi ?b"
      using b(2,4) by (auto simp: gim_frame_def same_pool_def pop_ok_def)
    ultimately show ?thesis using m NIL by simp
  qed
qed

lemma gim_walk_found:
  assumes "gim_ok bi" "table_map gn_id gim_bucket (bi_gim_hash bi) oid = Some g"
  obtains l c r path where
    "gim_walk (bi_gim_hash bi ! gim_bucket oid) oid [] = (Node l c g r, path)" "gn_id g = oid"
proof -
  obtain s path where w: "gim_walk (bi_gim_hash bi ! gim_bucket oid) oid [] = (s, path)"
    by (cases "gim_walk (bi_gim_hash bi ! gim_bucket oid) oid []")
  have "node_of s = Some g" using gim.table_walk [OF gim_ok_table w] assms by simp
  then obtain l c r where s: "s = Node l c g r" by (cases s) auto
  then have "gn_id g = oid" using gim.walk_bounds [OF w gim_okD(3) [OF assms(1)]] by simp
  with w s that show ?thesis by blast
qed

lemma gim_update_ok:
  assumes "gim_ok bi" "table_map gn_id gim_bucket (bi_gim_hash bi) oid = Some g"
    and "gn_id (f g) = gn_id g"
  shows "\<exists>bi'. gim_node_update bi oid f = Some bi' \<and> gim_ok bi' \<and>
    table_map gn_id gim_bucket (bi_gim_hash bi') = (table_map gn_id gim_bucket (bi_gim_hash bi))(oid \<mapsto> f g) \<and>
    gim_frame bi bi' \<and> same_pool bi bi'"
proof -
  from assms(1,2) obtain l c r path where
    w: "gim_walk (bi_gim_hash bi ! gim_bucket oid) oid [] = (Node l c g r, path)"
    by (rule gim_walk_found)
  from gim.table_update [OF gim_ok_table [OF assms(1)] w assms(3)] w gim_okD(1) [OF assms(1)]
  show ?thesis by (simp add: gim_node_update_def gim_frame_def same_pool_def gim_ok_def)
qed

lemma gim_mark_ok:
  assumes "gim_ok bi" "allocated \<or> gim_map bi oid \<noteq> None \<or> can_pop bi"
  shows "\<exists>bi'. gim_mark_garbage_cnt bi oid addr cnt allocated = Some bi' \<and> gim_ok bi' \<and>
    gim_map bi' = (gim_map bi)(oid \<mapsto> (case gim_map bi oid of
        None \<Rightarrow> (oa_sqnum addr, cnt)
      | Some (s, c) \<Rightarrow> (max s (oa_sqnum addr), c + cnt))) \<and> gim_frame bi bi' \<and>
    (if allocated \<or> gim_map bi oid \<noteq> None then same_pool bi bi' else pop_ok bi bi')"
proof -
  from gim_insert_ok [OF assms] obtain b where
    b: "gim_insert_or_replace bi oid allocated = Some b" "gim_ok b"
    "gim_map b = (if gim_map bi oid = None then (gim_map bi)(oid \<mapsto> (0, 0)) else gim_map bi)"
    "gim_frame bi b"
    "if allocated \<or> gim_map bi oid \<noteq> None then same_pool bi b else pop_ok bi b"
    by blast
  from b(3) have "gim_map b oid \<noteq> None" by (auto split: if_splits)
  then obtain g where g: "table_map gn_id gim_bucket (bi_gim_hash b) oid = Some g"
    by (auto simp: gim_map_def)
  have gm: "(gn_sqnum g, gn_count g) = (case gim_map bi oid of None \<Rightarrow> (0, 0) | Some p \<Rightarrow> p)"
  proof -
    have "gim_map b oid = Some (gn_sqnum g, gn_count g)" using g by (simp add: gim_map_def)
    then show ?thesis using b(3) by (auto split: if_splits option.splits)
  qed
  let ?f = "\<lambda>gnode. let gnode = (if gn_sqnum gnode < oa_sqnum addr then gnode\<lparr>gn_sqnum := oa_sqnum addr\<rparr>
       else gnode) in gnode\<lparr>gn_count := gn_count gnode + cnt\<rparr>"
  have "gn_id (?f g) = gn_id g" by (simp add: Let_def)
  from gim_update_ok [OF b(2) g, where f = ?f, OF this] obtain b' where
    b': "gim_node_update b oid ?f = Some b'" "gim_ok b'"
    "table_map gn_id gim_bucket (bi_gim_hash b') = (table_map gn_id gim_bucket (bi_gim_hash b))(oid \<mapsto> ?f g)"
    "gim_frame b b'" "same_pool b b'"
    by blast
  have "gim_map b' = (gim_map b)(oid \<mapsto> (max (gn_sqnum g) (oa_sqnum addr), gn_count g + cnt))"
    using b'(3) by (auto simp: gim_map_def fun_eq_iff max_def Let_def)
  also have "\<dots> = (gim_map bi)(oid \<mapsto> (case gim_map bi oid of None \<Rightarrow> (oa_sqnum addr, cnt)
      | Some (s, c) \<Rightarrow> (max s (oa_sqnum addr), c + cnt)))"
    using gm b(3) by (auto simp: max_def split: option.splits)
  finally show ?thesis
    using b b' gim_frame_trans [OF b(4)]
    by (auto simp: gim_mark_garbage_cnt_def same_pool_def pop_ok_def)
qed

section \<open>The deletion loop\<close>

lemma gim_next_find:
  "gim_ok bi \<Longrightarrow> gim_next_node bi g =
     Some (find (\<lambda>x. gn_id g < gn_id x) (inorder (bi_gim_hash bi ! gim_bucket (gn_id g))))"
  by (simp add: gim_next_node_def gim_okD gim.greater_find split: option.split)

text \<open>The nodes the loop has still to visit after \<open>g\<close>.\<close>

definition gim_rest :: "'u bilbyfs_info \<Rightarrow> gim_node \<Rightarrow> gim_node list" where
  "gim_rest bi g = filter (\<lambda>x. gn_id g < gn_id x) (inorder (bi_gim_hash bi ! gim_bucket (gn_id g)))"

lemma find_filter: "find P xs = (case filter P xs of [] \<Rightarrow> None | x # _ \<Rightarrow> Some x)"
  by (induction xs) auto

lemma filter_sorted_tail:
  assumes "key_sorted f xs" "filter (\<lambda>x. k < f x) xs = y # ys"
  shows "filter (\<lambda>x. f y < f x) xs = ys"
  using assms
proof (induction xs)
  case (Cons x xs)
  show ?case
  proof (cases "k < f x")
    case True
    with Cons.prems have "y = x" "filter (\<lambda>z. k < f z) xs = ys" by auto
    moreover have "filter (\<lambda>z. k < f z) xs = filter (\<lambda>z. f x < f z) xs"
      by (rule filter_cong) (use Cons.prems(1) True in \<open>auto dest: order_less_trans\<close>)
    ultimately show ?thesis by simp
  next
    case False
    then have "y \<in> set (filter (\<lambda>z. k < f z) xs)" using Cons.prems(2) by simp
    then have "\<not> f y < f x" using Cons.prems(1) by (auto dest: order_less_not_sym)
    with False Cons show ?thesis by auto
  qed
qed simp

lemma gim_next_rest:
  "gim_ok bi \<Longrightarrow> gim_next_node bi g =
     Some (case gim_rest bi g of [] \<Rightarrow> None | y # _ \<Rightarrow> Some y)"
  by (simp add: gim_next_find find_filter gim_rest_def)

lemma gim_rest_step:
  assumes "gim_ok bi" "gim_rest bi g = y # ys" "inum_from_id (gn_id y) = inum_from_id (gn_id g)"
  shows "gim_rest bi y = ys"
proof -
  have "gim_bucket (gn_id y) = gim_bucket (gn_id g)" using assms(3) by (simp add: gim_bucket_def)
  then show ?thesis
    using filter_sorted_tail [OF gim_okD(3) [OF assms(1), of "gn_id g"]] assms(2)
    by (simp add: gim_rest_def)
qed

text \<open>
  A deletion object must be kept while an older version of an object it deletes may still be
  on flash.
\<close>

definition blocks_del :: "u64 \<Rightarrow> gim_node \<Rightarrow> bool" where
  "blocks_del sqnum g \<longleftrightarrow> gn_sqnum g \<le> sqnum \<and> 1 < gn_count g"

declare gim_del_loop.simps(3) [simp del]

lemma del_loop_step:
  "gim_del_loop (Suc fuel) bi sqnum (Some gnode) pre =
     (if pre = None \<or> inum_from_id (gn_id gnode) = inum_from_id (gn_id (the pre))
      then (if blocks_del sqnum gnode then Some False
            else do { nxt \<leftarrow> gim_next_node bi gnode; gim_del_loop fuel bi sqnum nxt (Some gnode) })
      else Some True)"
  by (simp add: gim_del_loop.simps(3) blocks_del_def)

lemma del_loop_spec:
  assumes "gim_ok bi" "length (gim_rest bi g) < fuel"
    and "pre = None \<or> inum_from_id (gn_id g) = inum_from_id (gn_id (the pre))"
  shows "gim_del_loop fuel bi sqnum (Some g) pre =
    Some (\<not> list_ex (blocks_del sqnum)
      (g # takeWhile (\<lambda>x. inum_from_id (gn_id x) = inum_from_id (gn_id g)) (gim_rest bi g)))"
  using assms
proof (induction fuel arbitrary: g pre)
  case (Suc fuel)
  show ?case
  proof (cases "gim_rest bi g")
    case Nil
    with Suc.prems show ?thesis by (auto simp: gim_next_rest del_loop_step)
  next
    case (Cons y ys)
    show ?thesis
    proof (cases "inum_from_id (gn_id y) = inum_from_id (gn_id g)")
      case True
      have r: "gim_rest bi y = ys" by (rule gim_rest_step [OF Suc.prems(1) Cons True])
      with Suc.prems(2) Cons have "length (gim_rest bi y) < fuel" by simp
      from Suc.IH [OF Suc.prems(1) this, of "Some g"] True
      have ih: "gim_del_loop fuel bi sqnum (Some y) (Some g) =
          Some (\<not> list_ex (blocks_del sqnum) (y # takeWhile (\<lambda>x. inum_from_id (gn_id x) = inum_from_id (gn_id g)) ys))"
        using r by simp
      show ?thesis using Suc.prems(1,3) Cons True ih by (auto simp: gim_next_rest del_loop_step)
    next
      case False
      then have "gim_del_loop fuel bi sqnum (Some y) (Some g) = Some True"
        using Suc.prems(2) Cons by (cases fuel) (auto simp: del_loop_step)
      with False Suc.prems(1,3) Cons show ?thesis by (auto simp: gim_next_rest del_loop_step)
    qed
  qed
qed simp

lemma del_loop_fuel:
  "gim_ok bi \<Longrightarrow> gim_bucket oid = gim_bucket (gn_id g) \<Longrightarrow>
   length (gim_rest bi g) < Suc (gim_bucket_size bi oid)"
  by (simp add: gim_rest_def gim_bucket_size_def le_imp_less_Suc)

lemma takeWhile_inum:
  assumes "key_sorted gn_id xs" "\<forall>x \<in> set xs. k \<le> gn_id x"
  shows "takeWhile (\<lambda>x. inum_from_id (gn_id x) = inum_from_id k) xs =
    filter (\<lambda>x. inum_from_id (gn_id x) = inum_from_id k) xs"
  using assms
proof (induction xs)
  case (Cons x xs)
  show ?case
  proof (cases "inum_from_id (gn_id x) = inum_from_id k")
    case False
    have m: "inum_from_id k < inum_from_id (gn_id x)"
      using False Cons.prems(2) inum_from_id_mono [of k "gn_id x"] by auto
    have "inum_from_id (gn_id y) \<noteq> inum_from_id k" if "y \<in> set xs" for y
      using m Cons.prems(1) that inum_from_id_mono [of "gn_id x" "gn_id y"] by fastforce
    with False show ?thesis by simp
  qed (use Cons in auto)
qed simp

lemma gim_search_map: "gim_ok bi \<Longrightarrow>
  gim_index_search bi oid = Some (table_map gn_id gim_bucket (bi_gim_hash bi) oid)"
  by (simp add: gim_index_search_def gim_okD gim.table_search [OF gim_ok_table])

lemma table_map_mem:
  assumes "gim_ok bi"
  shows "table_map gn_id gim_bucket (bi_gim_hash bi) k = Some x \<longleftrightarrow>
    x \<in> set (inorder (bi_gim_hash bi ! gim_bucket k)) \<and> gn_id x = k"
proof
  assume "x \<in> set (inorder (bi_gim_hash bi ! gim_bucket k)) \<and> gn_id x = k"
  moreover from this obtain ys zs where "inorder (bi_gim_hash bi ! gim_bucket k) = ys @ x # zs"
    by (auto simp: in_set_conv_decomp)
  ultimately show "table_map gn_id gim_bucket (bi_gim_hash bi) k = Some x"
    using tmap_sorted_middle(1) [of gn_id ys x zs] gim_okD(3) [OF assms, of k]
    by (simp add: table_map_def)
qed (auto simp: table_map_def dest: tmap_SomeD)

lemma gim_map_Some:
  "gim_map bi k = Some (s, c) \<longleftrightarrow> (\<exists>g. table_map gn_id gim_bucket (bi_gim_hash bi) k = Some g \<and>
     gn_sqnum g = s \<and> gn_count g = c)"
  by (auto simp: gim_map_def)

text \<open>The nodes the deletion loop visits are those of the inode from the given id on.\<close>

lemma del_loop_map:
  assumes "gim_ok bi" "table_map gn_id gim_bucket (bi_gim_hash bi) oid = Some g"
  shows "gim_del_loop (Suc (gim_bucket_size bi oid)) bi sqnum (Some g) None =
    Some (\<forall>k s c. oid \<le> k \<and> inum_from_id k = inum_from_id oid \<and> gim_map bi k = Some (s, c) \<longrightarrow>
      \<not> (s \<le> sqnum \<and> 1 < c))"
proof -
  let ?xs = "inorder (bi_gim_hash bi ! gim_bucket oid)"
  have g: "g \<in> set ?xs" "gn_id g = oid" using table_map_mem [OF assms(1)] assms(2) by auto
  have bucket: "gim_bucket k = gim_bucket oid" if "inum_from_id k = inum_from_id oid" for k
    using that by (simp add: gim_bucket_def)
  have uniq: "x = g" if "x \<in> set ?xs" "gn_id x = oid" for x
    using table_map_mem [OF assms(1), of oid x] assms(2) that by simp
  have sorted: "key_sorted gn_id (gim_rest bi g)"
    using gim_okD(3) [OF assms(1), of oid] g
    by (auto simp: gim_rest_def key_sorted_def sorted_wrt_map intro: sorted_wrt_filter)
  have "takeWhile (\<lambda>x. inum_from_id (gn_id x) = inum_from_id (gn_id g)) (gim_rest bi g) =
      filter (\<lambda>x. inum_from_id (gn_id x) = inum_from_id (gn_id g)) (gim_rest bi g)"
    by (rule takeWhile_inum [OF sorted]) (auto simp: gim_rest_def)
  then have "x \<in> set (g # takeWhile (\<lambda>x. inum_from_id (gn_id x) = inum_from_id (gn_id g)) (gim_rest bi g)) \<longleftrightarrow>
      x = g \<or> x \<in> set ?xs \<and> oid < gn_id x \<and> inum_from_id (gn_id x) = inum_from_id oid" for x
    using g(2) by (simp add: gim_rest_def conj_ac)
  moreover have "x = g \<or> x \<in> set ?xs \<and> oid < gn_id x \<and> inum_from_id (gn_id x) = inum_from_id oid \<longleftrightarrow>
      x \<in> set ?xs \<and> oid \<le> gn_id x \<and> inum_from_id (gn_id x) = inum_from_id oid" for x
    by (metis g(1,2) uniq order_less_le order_refl)
  ultimately have "x \<in> set (g # takeWhile (\<lambda>x. inum_from_id (gn_id x) = inum_from_id (gn_id g)) (gim_rest bi g)) \<longleftrightarrow>
      x \<in> set ?xs \<and> oid \<le> gn_id x \<and> inum_from_id (gn_id x) = inum_from_id oid" for x
    by blast
  then have "list_ex (blocks_del sqnum)
      (g # takeWhile (\<lambda>x. inum_from_id (gn_id x) = inum_from_id (gn_id g)) (gim_rest bi g)) \<longleftrightarrow>
      (\<exists>x \<in> set ?xs. oid \<le> gn_id x \<and> inum_from_id (gn_id x) = inum_from_id oid \<and> blocks_del sqnum x)"
    unfolding list_ex_iff by blast
  also have "\<dots> \<longleftrightarrow> (\<exists>k s c. oid \<le> k \<and> inum_from_id k = inum_from_id oid \<and>
      gim_map bi k = Some (s, c) \<and> s \<le> sqnum \<and> 1 < c)"
  proof -
    have "gim_map bi k = Some (s, c) \<longleftrightarrow>
        (\<exists>x \<in> set ?xs. gn_id x = k \<and> gn_sqnum x = s \<and> gn_count x = c)"
      if "inum_from_id k = inum_from_id oid" for k s c
      unfolding gim_map_Some table_map_mem [OF assms(1)] bucket [OF that] by blast
    then show ?thesis unfolding blocks_del_def by metis
  qed
  finally show ?thesis
    using del_loop_spec [OF assms(1) del_loop_fuel [OF assms(1), of oid g], of None sqnum] g(2) by auto
qed

section \<open>Properties\<close>

definition gim_demo :: "unit bilbyfs_info" where
  "gim_demo = zero_info\<lparr>
     bi_gim_hash := (replicate GIM_HASH_SIZE NIL)[0 :=
       Node NIL RBT_BLACK \<lparr>gn_id = 1, gn_sqnum = 40, gn_count = 2\<rparr> NIL],
     bi_node_pool := \<lparr>ap_tot_nodes_needed = 0, ap_arr = Some [True, True], ap_len = 2, ap_i = 0,
       ap_sz_obj = 0\<rparr>\<rparr>"

lemma gim_demo_ok: "gim_ok gim_demo" "can_pop gim_demo" "gim_map gim_demo 1 = Some (40, 2)"
  by (simp_all add: gim_ok_def table_ok_def rb_inv_def gim_demo_def can_pop_def allocpool_pop_def
      gim_map_def table_map_def nth_list_update gim_bucket_def gim_hash_inum_def inum_from_id_def)

text \<open>
  Marking an object as garbage adds to the count of its id and raises the recorded sequence
  number to the newest one; other ids keep their record. The call does not stop the machine as
  long as a node is available.
\<close>

lemma gim_mark_garbage_counts:
  assumes "gim_ok bi" "allocated \<or> gim_map bi oid \<noteq> None \<or> can_pop bi"
  shows "\<exists>bi'. gim_mark_garbage_cnt bi oid addr cnt allocated = Some bi' \<and> gim_ok bi' \<and>
    gim_map bi' = (gim_map bi)(oid \<mapsto> (case gim_map bi oid of
        None \<Rightarrow> (oa_sqnum addr, cnt)
      | Some (s, c) \<Rightarrow> (max s (oa_sqnum addr), c + cnt)))"
  using gim_mark_ok [OF assms] by blast

lemma gim_mark_garbage_counts_example:
  "\<exists>bi'. gim_mark_garbage_cnt gim_demo 1 (zero_obj_addr\<lparr>oa_sqnum := 41\<rparr>) 1 False = Some bi' \<and>
     gim_map bi' 1 = Some (41, 3)"
  using gim_mark_garbage_counts [of gim_demo False 1 "zero_obj_addr\<lparr>oa_sqnum := 41\<rparr>" 1] gim_demo_ok
  by (auto simp: max_def)

text \<open>
  C24. Which objects the garbage collector may drop. Padding and summaries always; an object
  whose id has no garbage record, or that is newer than every recorded version, never; a
  deletion object of an inode or of a range of data blocks only when no object it covers (same
  inode, id not below) still has several obsolete versions as old as the deletion.
\<close>

theorem gim_is_removable_correct:
  assumes "gim_ok bi" "obj + 32 \<le> length b" "rd8 b (obj + 20) = ty" "rd64 b (obj + 8) = sq"
    and "rd64 b (obj + 24) = oid" "ty < 7" "ty \<noteq> BILBYFS_SUP_OBJ"
    and "ty = BILBYFS_DEL_OBJ \<longrightarrow> type_from_id oid \<in> {BILBYFS_INODE_OBJ, BILBYFS_DATA_OBJ, BILBYFS_DENTARR_OBJ}"
  shows "gim_is_removable bi b obj = Some (
    if ty = BILBYFS_PAD_OBJ \<or> ty = BILBYFS_SUM_OBJ then True
    else case gim_map bi oid of None \<Rightarrow> False
      | Some (s, c) \<Rightarrow> sq \<le> s \<and> (ty = BILBYFS_DEL_OBJ \<and> type_from_id oid \<noteq> BILBYFS_DENTARR_OBJ \<longrightarrow>
          (\<forall>k s' c'. oid \<le> k \<and> inum_from_id k = inum_from_id oid \<and> gim_map bi k = Some (s', c') \<longrightarrow>
             \<not> (s' \<le> sq \<and> 1 < c'))))"
proof -
  have l: "obj + 24 + 8 \<le> length b" using assms(2) by simp
  have id: "ty \<noteq> 4 \<Longrightarrow> ty \<noteq> 6 \<Longrightarrow> get_obj_id b obj = Some oid"
  proof -
    assume "ty \<noteq> 4" "ty \<noteq> 6"
    moreover have "unat ty < 7" using assms(6) by (simp add: word_less_nat_alt)
    then have "unat ty \<in> {0, 1, 2, 3, 4, 5, 6}" by auto
    then have "ty \<in> {0, 1, 2, 3, 4, 5, 6}" unfolding insert_iff word_unat_eq_iff by simp
    ultimately have "ty = 0 \<or> ty = 1 \<or> ty = 2 \<or> ty = 5" using assms(7) by auto
    then show ?thesis using l assms(3,5) by (auto simp: get_obj_id_def getw_Some)
  qed
  show ?thesis
  proof (cases "ty = 4 \<or> ty = 6")
    case True
    then show ?thesis using l assms(3,4) by (auto simp: gim_is_removable_def getw_Some)
  next
    case False
    then have r: "gim_is_removable bi b obj = (case table_map gn_id gim_bucket (bi_gim_hash bi) oid of
         None \<Rightarrow> Some False
       | Some gnode \<Rightarrow>
            if gn_sqnum gnode < sq then Some False
            else if ty = 5 then
              (if type_from_id oid = 2 then Some True
               else if type_from_id oid = 0 \<or> type_from_id oid = 1
               then gim_del_loop (Suc (gim_bucket_size bi oid)) bi sq (Some gnode) None
               else None)
            else Some True)"
      using l assms(1,3,4) id by (simp add: gim_is_removable_def getw_Some gim_search_map)
    show ?thesis
    proof (cases "table_map gn_id gim_bucket (bi_gim_hash bi) oid")
      case None
      with r False show ?thesis by (simp add: gim_map_def)
    next
      case (Some g)
      then have "gim_map bi oid = Some (gn_sqnum g, gn_count g)" by (simp add: gim_map_def)
      with r Some False assms(8) show ?thesis
        by (auto simp: del_loop_map [OF assms(1) Some])
    qed
  qed
qed

text \<open>A deletion object of id 1 (inode 0) with sequence number 40.\<close>

definition demo_del :: buf where
  "demo_del = [0, 0, 0, 0, 0, 0, 0, 0, 40, 0, 0, 0, 0, 0, 0, 0, 32, 0, 0, 0, 5, 5, 0, 0,
     1, 0, 0, 0, 0, 0, 0, 0]"

lemma demo_del_fields: "rd8 demo_del (0 + 20) = 5" "rd64 demo_del (0 + 8) = 40" "rd64 demo_del (0 + 24) = 1"
  "0 + 32 \<le> length demo_del" "type_from_id 1 = 0"
  by code_simp+

theorem gim_is_removable_correct_witness:
  "gim_is_removable gim_demo demo_del 0 = Some False"
proof -
  have "\<not> (\<forall>k s' c'. 1 \<le> k \<and> inum_from_id k = inum_from_id 1 \<and> gim_map gim_demo k = Some (s', c') \<longrightarrow>
      \<not> (s' \<le> 40 \<and> 1 < c'))"
    using gim_demo_ok(3) by force
  with gim_is_removable_correct [OF gim_demo_ok(1) demo_del_fields(4,1,2,3)] gim_demo_ok(3)
    demo_del_fields(5) show ?thesis by simp
qed

text \<open>
  After an erase-block was collected, each of its objects lowers the count of its id by
  one; the record disappears with the last obsolete version. Other ids are untouched.
\<close>

lemma gim_garbage_collected_counts:
  assumes "gim_ok bi" "get_obj_id b obj = Some oid" "obj + 24 \<le> length b"
  shows "case gim_map bi oid of
      None \<Rightarrow> gim_garbage_collected bi b obj = Some (Some ENOENT, bi)
    | Some (s, c) \<Rightarrow> (\<exists>bi'. gim_garbage_collected bi b obj = Some (None, bi') \<and> gim_ok bi' \<and>
        gim_map bi' = (gim_map bi)(oid := if c = 1 then None else Some (s, c - 1)))"
proof -
  obtain ty where ty: "get8 b (obj + 20) = Some ty" "ty \<noteq> 4" "ty \<noteq> 6"
    using assms(2,3) by (fastforce simp: get_obj_id_def getw_Some bilbyfs_assert_bind split: if_splits)
  show ?thesis
  proof (cases "table_map gn_id gim_bucket (bi_gim_hash bi) oid")
    case None
    with ty assms show ?thesis
      by (simp add: gim_garbage_collected_def gim_search_map gim_map_def)
  next
    case (Some g)
    from gim_update_ok [OF assms(1) Some, of "\<lambda>g. g\<lparr>gn_count := gn_count g - 1\<rparr>"] obtain b1 where
      b1: "gim_node_update bi oid (\<lambda>g. g\<lparr>gn_count := gn_count g - 1\<rparr>) = Some b1" "gim_ok b1"
      "table_map gn_id gim_bucket (bi_gim_hash b1) =
        (table_map gn_id gim_bucket (bi_gim_hash bi))(oid \<mapsto> g\<lparr>gn_count := gn_count g - 1\<rparr>)"
      by auto
    have m1: "gim_map b1 = (gim_map bi)(oid \<mapsto> (gn_sqnum g, gn_count g - 1))"
      using b1(3) by (simp add: gim_map_def fun_eq_iff)
    have "table_map gn_id gim_bucket (bi_gim_hash b1) oid = Some (g\<lparr>gn_count := gn_count g - 1\<rparr>)"
      using b1(3) by simp
    with b1(2) obtain l c r path where
      w: "gim_walk (bi_gim_hash b1 ! gim_bucket oid) oid [] = (Node l c (g\<lparr>gn_count := gn_count g - 1\<rparr>) r, path)"
      by (rule gim_walk_found)
    from gim.table_erase [OF gim_ok_table [OF b1(2)] w] obtain t' where
      t': "rbt_erase (Node l c (g\<lparr>gn_count := gn_count g - 1\<rparr>) r) path = Some t'"
      "table_ok gn_id gim_bucket 2048 ((bi_gim_hash b1)[gim_bucket oid := t'])"
      "table_map gn_id gim_bucket ((bi_gim_hash b1)[gim_bucket oid := t']) =
        (table_map gn_id gim_bucket (bi_gim_hash b1))(oid := None)"
      by blast
    have m2: "gim_map (b1\<lparr>bi_gim_hash := (bi_gim_hash b1)[gim_bucket oid := t']\<rparr>) = (gim_map bi)(oid := None)"
      using t'(3) b1(3) by (simp add: gim_map_def fun_eq_iff)
    have "gn_count g - 1 = 0 \<longleftrightarrow> gn_count g = 1" by simp
    then show ?thesis
      using ty assms(1,2) Some b1(1,2) m1 m2 w t'(1,2) gim_okD(1) [OF b1(2)]
      by (auto simp: gim_garbage_collected_def gim_search_map gim_map_def [of bi] gim_ok_def)
  qed
qed

lemma gim_garbage_collected_counts_example:
  "\<exists>bi'. gim_garbage_collected gim_demo demo_del 0 = Some (None, bi') \<and> gim_map bi' 1 = Some (40, 1)"
proof -
  have "get_obj_id demo_del 0 = Some 1" by code_simp
  from gim_garbage_collected_counts [OF gim_demo_ok(1) this] gim_demo_ok(3) demo_del_fields(4)
  show ?thesis by auto
qed

end
