(* ===== verification/Bilby_Fsm.thy ===== *)
theory Bilby_Fsm
  imports Bilby_Types
begin

text \<open>
  \<open>fsm.c\<close>: the free space manager. It knows which erase-blocks are in use and how many bytes of
  each are garbage, hands out free erase-blocks and picks the one to collect.
  \<open>fsm_alloc_eb\<close> may call the garbage collector, which writes objects and so allocates an
  erase-block itself; the collector is an argument here and is tied in when it is defined. A
  call on behalf of the collector (\<open>OSW_GC\<close>) never calls it again.
\<close>

definition fsm_init :: "'u bilbyfs_info \<Rightarrow> errno option \<times> 'u bilbyfs_info" where
  "fsm_init bi =
     (let nb_leb = su_leb_cnt (bi_super bi);
          (ok1, km1) = kmalloc_ok (bi_kmem bi)
      in if \<not> ok1 then (Some ENOMEM, bi\<lparr>bi_kmem := km1\<rparr>)
         else let (ok2, km2) = kmalloc_ok km1
              in if \<not> ok2 then (Some ENOMEM, bi\<lparr>bi_kmem := km2, bi_dirty_list := []\<rparr>)
                 else (None, bi\<lparr>bi_kmem := km2, bi_dirty_list := replicate (nat nb_leb) 0,
                        bi_used_leb_list := replicate (nat nb_leb) False,
                        bi_fsm_nb_free_eb := word_of_int nb_leb, bi_fsm_lnum := 0\<rparr>))"

definition fsm_check_free_space :: "'u bilbyfs_info \<Rightarrow> osw_flag \<Rightarrow> errno option" where
  "fsm_check_free_space bi osw_flag =
     (let n_gc = (word_of_int (su_nb_reserved_gc (bi_super bi)) :: u32);
          n_del = word_of_int (su_nb_reserved_del (bi_super bi));
          n_free = bi_fsm_nb_free_eb bi
      in if n_free < n_gc \<and> \<not> OSW_GC osw_flag then Some ENOSPC
         else if n_free < n_del + n_gc \<and> \<not> OSW_DEL osw_flag \<and> \<not> OSW_GC osw_flag then Some ENOSPC
         else None)"

definition fsm_clean :: "'u bilbyfs_info \<Rightarrow> 'u bilbyfs_info" where
  "fsm_clean bi = bi\<lparr>bi_dirty_list := [], bi_used_leb_list := []\<rparr>"

definition fsm_mark_used :: "'u bilbyfs_info \<Rightarrow> int \<Rightarrow> 'u bilbyfs_info option" where
  "fsm_mark_used bi lnum = do {
     bilbyfs_assert (BILBYFS_LOG_FST_LNUM \<le> lnum \<and> lnum < su_leb_cnt (bi_super bi));
     nth_opt (bi_used_leb_list bi) (nat lnum);
     Some (bi\<lparr>bi_used_leb_list := (bi_used_leb_list bi)[nat lnum := True],
              bi_fsm_nb_free_eb := bi_fsm_nb_free_eb bi - 1\<rparr>)
   }"

definition fsm_mark_dirty :: "'u bilbyfs_info \<Rightarrow> obj_addr \<Rightarrow> 'u bilbyfs_info option" where
  "fsm_mark_dirty bi addr = do {
     bilbyfs_assert (word_of_int BILBYFS_LOG_FST_LNUM \<le> oa_lnum addr \<and>
                     oa_lnum addr < word_of_int (su_leb_cnt (bi_super bi)));
     used \<leftarrow> nth_opt (bi_used_leb_list bi) (unat (oa_lnum addr));
     bilbyfs_assert used;
     dirty \<leftarrow> nth_opt (bi_dirty_list bi) (unat (oa_lnum addr));
     Some (bi\<lparr>bi_dirty_list := (bi_dirty_list bi)[unat (oa_lnum addr) := dirty + oa_len addr]\<rparr>)
   }"

definition fsm_mark_erased :: "'u bilbyfs_info \<Rightarrow> int \<Rightarrow> 'u bilbyfs_info option" where
  "fsm_mark_erased bi lnum = do {
     bilbyfs_assert (BILBYFS_LOG_FST_LNUM \<le> lnum \<and> lnum < su_leb_cnt (bi_super bi));
     used \<leftarrow> nth_opt (bi_used_leb_list bi) (nat lnum);
     bilbyfs_assert used;
     nth_opt (bi_dirty_list bi) (nat lnum);
     Some (bi\<lparr>bi_used_leb_list := (bi_used_leb_list bi)[nat lnum := False],
              bi_fsm_nb_free_eb := bi_fsm_nb_free_eb bi + 1,
              bi_dirty_list := (bi_dirty_list bi)[nat lnum := 0]\<rparr>)
   }"

text \<open>The search of \<open>fsm_alloc_eb\<close>: the first unused erase-block among the \<open>n\<close> from \<open>i\<close> on.\<close>

fun fsm_search :: "bool list \<Rightarrow> nat \<Rightarrow> nat \<Rightarrow> nat option option" where
  "fsm_search used 0 i = Some None"
| "fsm_search used (Suc n) i = do {
     u \<leftarrow> nth_opt used i;
     if \<not> u then Some (Some i) else fsm_search used n (Suc i)
   }"

definition fsm_alloc_eb ::
  "('u bilbyfs_info \<Rightarrow> (errno option \<times> 'u bilbyfs_info) option) \<Rightarrow>
   'u bilbyfs_info \<Rightarrow> osw_flag \<Rightarrow> (errno option \<times> 'u bilbyfs_info) option" where
  "fsm_alloc_eb gc_garbage_collect bi osw_flag = do {
     let bi = bi\<lparr>bi_fsm_lnum := 0\<rparr>;
     (err, bi) \<leftarrow>
       (case fsm_check_free_space bi osw_flag of
          None \<Rightarrow> Some (None, bi)
        | Some err \<Rightarrow>
            if err = ENOSPC \<and> \<not> OSW_GC osw_flag then do {
              (gc_err, bi) \<leftarrow> gc_garbage_collect bi;
              Some (if gc_err = None then fsm_check_free_space bi osw_flag else Some err, bi)
            }
            else Some (Some err, bi));
     (case err of
        Some e \<Rightarrow> Some (Some e, bi)
      | None \<Rightarrow> do {
          found \<leftarrow> fsm_search (bi_used_leb_list bi)
                    (nat (su_leb_cnt (bi_super bi) - BILBYFS_LOG_FST_LNUM)) (nat BILBYFS_LOG_FST_LNUM);
          (case found of
             None \<Rightarrow> Some (Some ENOSPC, bi)
           | Some i \<Rightarrow> do {
               bi \<leftarrow> fsm_mark_used bi (int i);
               Some (None, bi\<lparr>bi_fsm_lnum := of_nat i\<rparr>)
             })
        })
   }"

definition fsm_get_lnum :: "'u bilbyfs_info \<Rightarrow> u32" where
  "fsm_get_lnum bi = bi_fsm_lnum bi"

fun fsm_sum_free :: "bool list \<Rightarrow> u64 \<Rightarrow> nat \<Rightarrow> nat \<Rightarrow> u64 \<Rightarrow> u64 option" where
  "fsm_sum_free used leb_size 0 i freespace = Some freespace"
| "fsm_sum_free used leb_size (Suc n) i freespace = do {
     u \<leftarrow> nth_opt used i;
     fsm_sum_free used leb_size n (Suc i) (if \<not> u then freespace + leb_size else freespace)
   }"

definition fsm_get_free_space :: "'u bilbyfs_info \<Rightarrow> u64 option" where
  "fsm_get_free_space bi =
     fsm_sum_free (bi_used_leb_list bi) (word_of_int (su_leb_size (bi_super bi)))
       (nat (su_leb_cnt (bi_super bi) - BILBYFS_LOG_FST_LNUM)) (nat BILBYFS_LOG_FST_LNUM) 0"

definition fsm_get_available_space :: "'u bilbyfs_info \<Rightarrow> u64 option" where
  "fsm_get_available_space bi = do {
     let n_reserved = su_nb_reserved_gc (bi_super bi) + su_nb_reserved_del (bi_super bi);
     freespace \<leftarrow> fsm_get_free_space bi;
     let reserved = word_of_int (n_reserved * su_leb_size (bi_super bi));
     Some (if freespace < reserved then 0 else freespace - reserved)
   }"

text \<open>The loop of \<open>fsm_get_dirtiest_eb\<close>; \<open>garbage_size\<close> is compared as an unsigned value.\<close>

fun fsm_dirtiest_loop ::
  "'u bilbyfs_info \<Rightarrow> nat \<Rightarrow> nat \<Rightarrow> int \<Rightarrow> u32 \<Rightarrow> int option" where
  "fsm_dirtiest_loop bi 0 lnum dirtiest_lnum garbage_size = Some dirtiest_lnum"
| "fsm_dirtiest_loop bi (Suc n) lnum dirtiest_lnum garbage_size = do {
     u \<leftarrow> nth_opt (bi_used_leb_list bi) lnum;
     d \<leftarrow> nth_opt (bi_dirty_list bi) lnum;
     if u \<and> of_nat lnum \<noteq> fsm_get_lnum bi \<and> garbage_size < d
     then fsm_dirtiest_loop bi n (Suc lnum) (int lnum) d
     else fsm_dirtiest_loop bi n (Suc lnum) dirtiest_lnum garbage_size
   }"

definition fsm_get_dirtiest_eb :: "'u bilbyfs_info \<Rightarrow> int option" where
  "fsm_get_dirtiest_eb bi =
     fsm_dirtiest_loop bi (nat (su_leb_cnt (bi_super bi) - BILBYFS_LOG_FST_LNUM))
       (nat BILBYFS_LOG_FST_LNUM) (-1) 0"

section \<open>Invariant\<close>

text \<open>
  The lists cover all erase-blocks, the first three (superblock and reserved) are never marked
  as used, and \<open>fsm_nb_free_eb\<close> counts the unused ones, these three included.
\<close>

definition nb_used :: "bool list \<Rightarrow> nat" where
  "nb_used used = length (filter (\<lambda>u. u) used)"

definition fsm_ok :: "'u bilbyfs_info \<Rightarrow> bool" where
  "fsm_ok bi \<longleftrightarrow> 3 \<le> su_leb_cnt (bi_super bi) \<and> su_leb_cnt (bi_super bi) < 2 ^ 31 \<and>
     int (length (bi_used_leb_list bi)) = su_leb_cnt (bi_super bi) \<and>
     length (bi_dirty_list bi) = length (bi_used_leb_list bi) \<and>
     (\<forall>i < 3. \<not> bi_used_leb_list bi ! i) \<and>
     uint (bi_fsm_nb_free_eb bi) = int (length (bi_used_leb_list bi) - nb_used (bi_used_leb_list bi))"

lemma nb_used_le: "nb_used used \<le> length used"
  by (simp add: nb_used_def)

lemma nb_used_set: "i < length used \<Longrightarrow> \<not> used ! i \<Longrightarrow> nb_used (used[i := True]) = Suc (nb_used used)"
  by (induction used arbitrary: i) (auto simp: nb_used_def less_Suc_eq_0_disj)

lemma nb_used_clear: "i < length used \<Longrightarrow> used ! i \<Longrightarrow> Suc (nb_used (used[i := False])) = nb_used used"
  by (induction used arbitrary: i) (auto simp: nb_used_def less_Suc_eq_0_disj)

lemma nb_used_reserved:
  assumes "3 \<le> length used" "\<forall>i < 3. \<not> used ! i"
  shows "nb_used used + 3 \<le> length used"
proof -
  have "filter (\<lambda>u. u) (take 3 used) = []"
    using assms by (auto simp: filter_empty_conv in_set_conv_nth)
  then have "filter (\<lambda>u. u) used = filter (\<lambda>u. u) (drop 3 used)"
    by (metis append_take_drop_id filter_append self_append_conv2)
  then have "nb_used used \<le> length used - 3"
    by (metis nb_used_def length_filter_le length_drop)
  then show ?thesis using assms(1) by simp
qed

lemma fsm_ok_cnt: "fsm_ok bi \<Longrightarrow> su_leb_cnt (bi_super bi) < 2 ^ 31"
  by (simp add: fsm_ok_def)

lemma fsm_ok_free:
  assumes "fsm_ok bi"
  shows "int (nb_used (bi_used_leb_list bi)) + 3 \<le> su_leb_cnt (bi_super bi)"
    and "uint (bi_fsm_nb_free_eb bi) = su_leb_cnt (bi_super bi) - int (nb_used (bi_used_leb_list bi))"
  using assms nb_used_reserved [of "bi_used_leb_list bi"] nb_used_le [of "bi_used_leb_list bi"]
  by (auto simp: fsm_ok_def)

lemma fsm_init_ok:
  assumes "3 \<le> su_leb_cnt (bi_super bi)" "su_leb_cnt (bi_super bi) < 2 ^ 31"
    and "fsm_init bi = (None, bi')"
  shows "fsm_ok bi' \<and> bi_super bi' = bi_super bi"
  using assms by (auto simp: fsm_init_def fsm_ok_def nb_used_def Let_def split: prod.splits if_splits)

lemma uint_minus_1: "0 < uint (w :: u32) \<Longrightarrow> uint (w - 1) = uint w - 1"
  by (simp add: uint_sub_if' word_le_def)

lemma uint_plus_1: "uint (w :: u32) < 2 ^ 31 \<Longrightarrow> uint (w + 1) = uint w + 1"
  by (simp add: uint_word_ariths)

lemma fsm_mark_used_ok:
  assumes "fsm_ok bi" "3 \<le> lnum" "lnum < su_leb_cnt (bi_super bi)"
    and "\<not> bi_used_leb_list bi ! nat lnum"
  shows "\<exists>bi'. fsm_mark_used bi lnum = Some bi' \<and> fsm_ok bi' \<and>
    bi' = bi\<lparr>bi_used_leb_list := (bi_used_leb_list bi)[nat lnum := True],
      bi_fsm_nb_free_eb := bi_fsm_nb_free_eb bi - 1\<rparr>"
proof -
  have i: "nat lnum < length (bi_used_leb_list bi)" "3 \<le> nat lnum" using assms by (auto simp: fsm_ok_def)
  have n: "nb_used ((bi_used_leb_list bi)[nat lnum := True]) = Suc (nb_used (bi_used_leb_list bi))"
    using nb_used_set [OF i(1) assms(4)] .
  have "0 < uint (bi_fsm_nb_free_eb bi)" using fsm_ok_free [OF assms(1)] by linarith
  then have "uint (bi_fsm_nb_free_eb bi - 1) = uint (bi_fsm_nb_free_eb bi) - 1" by (rule uint_minus_1)
  with assms i n nb_used_le [of "(bi_used_leb_list bi)[nat lnum := True]"] show ?thesis
    by (auto simp: fsm_mark_used_def fsm_ok_def nth_list_update)
qed

lemma fsm_mark_dirty_ok:
  assumes "fsm_ok bi" "3 \<le> uint (oa_lnum addr)" "uint (oa_lnum addr) < su_leb_cnt (bi_super bi)"
    and "bi_used_leb_list bi ! unat (oa_lnum addr)"
  shows "\<exists>bi'. fsm_mark_dirty bi addr = Some bi' \<and> fsm_ok bi' \<and>
    bi' = bi\<lparr>bi_dirty_list := (bi_dirty_list bi)
      [unat (oa_lnum addr) := bi_dirty_list bi ! unat (oa_lnum addr) + oa_len addr]\<rparr>"
proof -
  have i: "unat (oa_lnum addr) < length (bi_used_leb_list bi)"
    using assms(1,3) by (simp add: unat_uint_less fsm_ok_def)
  have "(3 :: u32) \<le> oa_lnum addr" "oa_lnum addr < word_of_int (su_leb_cnt (bi_super bi))"
    using assms(1-3) by (auto simp: word_le_def word_less_def fsm_ok_def)
  with i assms(1,4) show ?thesis by (simp add: fsm_mark_dirty_def fsm_ok_def)
qed

lemma fsm_mark_erased_ok:
  assumes "fsm_ok bi" "3 \<le> lnum" "lnum < su_leb_cnt (bi_super bi)" "bi_used_leb_list bi ! nat lnum"
  shows "\<exists>bi'. fsm_mark_erased bi lnum = Some bi' \<and> fsm_ok bi' \<and> \<not> bi_used_leb_list bi' ! nat lnum \<and>
    bi_dirty_list bi' ! nat lnum = 0"
proof -
  have i: "nat lnum < length (bi_used_leb_list bi)" "3 \<le> nat lnum" using assms by (auto simp: fsm_ok_def)
  have n: "Suc (nb_used ((bi_used_leb_list bi)[nat lnum := False])) = nb_used (bi_used_leb_list bi)"
    using nb_used_clear [OF i(1) assms(4)] .
  have "uint (bi_fsm_nb_free_eb bi) < 2 ^ 31"
    using fsm_ok_cnt [OF assms(1)] fsm_ok_free(2) [OF assms(1)] by linarith
  then have "uint (bi_fsm_nb_free_eb bi + 1) = uint (bi_fsm_nb_free_eb bi) + 1" by (rule uint_plus_1)
  with assms i n nb_used_le [of "bi_used_leb_list bi"] show ?thesis
    by (auto simp: fsm_mark_erased_def fsm_ok_def nth_list_update)
qed

section \<open>Loops\<close>

lemma fsm_search_spec:
  assumes "i + n \<le> length used"
  shows "\<exists>r. fsm_search used n i = Some r \<and>
    (case r of None \<Rightarrow> \<forall>j. i \<le> j \<and> j < i + n \<longrightarrow> used ! j
     | Some k \<Rightarrow> i \<le> k \<and> k < i + n \<and> \<not> used ! k \<and> (\<forall>j. i \<le> j \<and> j < k \<longrightarrow> used ! j))"
  using assms
proof (induction n arbitrary: i)
  case (Suc n)
  from Suc.prems have i: "i < length used" by simp
  show ?case
  proof (cases "used ! i")
    case True
    from Suc.IH [of "Suc i"] Suc.prems obtain r where
      r: "fsm_search used n (Suc i) = Some r"
      "case r of None \<Rightarrow> \<forall>j. Suc i \<le> j \<and> j < Suc i + n \<longrightarrow> used ! j
        | Some k \<Rightarrow> Suc i \<le> k \<and> k < Suc i + n \<and> \<not> used ! k \<and> (\<forall>j. Suc i \<le> j \<and> j < k \<longrightarrow> used ! j)"
      by auto
    have "used ! j" if "\<forall>j. Suc i \<le> j \<and> j < m \<longrightarrow> used ! j" "i \<le> j" "j < m" for j m
      using that True by (cases "j = i") auto
    with r i True show ?thesis by (auto split: option.splits)
  qed (use i in auto)
qed auto

lemma fsm_sum_free_spec:
  "i + n \<le> length used \<Longrightarrow> fsm_sum_free used sz n i acc =
     Some (acc + of_nat (length (filter Not (take n (drop i used)))) * sz)"
proof (induction n arbitrary: i acc)
  case (Suc n)
  then have "take (Suc n) (drop i used) = used ! i # take n (drop (Suc i) used)"
    by (simp flip: Cons_nth_drop_Suc)
  with Suc show ?case by (simp add: algebra_simps)
qed simp

lemma filter_Not_used: "length (filter Not xs) + nb_used xs = length xs"
  by (induction xs) (auto simp: nb_used_def)

text \<open>What the dirtiest-block loop returns: a candidate with maximal garbage, the first such.\<close>

definition gc_candidate :: "'u bilbyfs_info \<Rightarrow> nat \<Rightarrow> bool" where
  "gc_candidate bi l \<longleftrightarrow> bi_used_leb_list bi ! l \<and> of_nat l \<noteq> bi_fsm_lnum bi \<and> 0 < bi_dirty_list bi ! l"

lemma fsm_dirtiest_spec:
  assumes "l + n \<le> length (bi_used_leb_list bi)" "length (bi_dirty_list bi) = length (bi_used_leb_list bi)"
    and "best = -1 \<and> g = 0 \<or> 0 \<le> best \<and> nat best < l \<and> gc_candidate bi (nat best) \<and> bi_dirty_list bi ! nat best = g"
    and "\<forall>j. L \<le> j \<and> j < l \<and> gc_candidate bi j \<longrightarrow> bi_dirty_list bi ! j \<le> g"
    and "best \<noteq> -1 \<longrightarrow> L \<le> nat best" "L \<le> l"
  shows "\<exists>r. fsm_dirtiest_loop bi n l best g = Some r \<and>
    (if r = -1 then \<forall>j. L \<le> j \<and> j < l + n \<longrightarrow> \<not> gc_candidate bi j
     else 0 \<le> r \<and> L \<le> nat r \<and> nat r < l + n \<and> gc_candidate bi (nat r) \<and>
       (\<forall>j. L \<le> j \<and> j < l + n \<and> gc_candidate bi j \<longrightarrow> bi_dirty_list bi ! j \<le> bi_dirty_list bi ! nat r))"
  using assms
proof (induction n arbitrary: l best g)
  case 0
  then show ?case by (auto simp: gc_candidate_def not_less [symmetric])
next
  case (Suc n)
  let ?d = "bi_dirty_list bi ! l"
  have l: "l < length (bi_used_leb_list bi)" "l < length (bi_dirty_list bi)" using Suc.prems by auto
  let ?c = "bi_used_leb_list bi ! l \<and> of_nat l \<noteq> bi_fsm_lnum bi \<and> g < ?d"
  let ?best = "if ?c then int l else best" and ?g = "if ?c then ?d else g"
  have step: "fsm_dirtiest_loop bi (Suc n) l best g = fsm_dirtiest_loop bi n (Suc l) ?best ?g"
    using l by (simp add: fsm_get_lnum_def)
  have cand: "?c \<Longrightarrow> gc_candidate bi l"
    using word_gt_0 [of ?d] by (auto simp: gc_candidate_def word_less_nat_alt)
  have p4: "\<forall>j. L \<le> j \<and> j < Suc l \<and> gc_candidate bi j \<longrightarrow> bi_dirty_list bi ! j \<le> ?g"
    using Suc.prems(4) by (auto simp: less_Suc_eq gc_candidate_def intro: order_trans less_imp_le)
  have p3: "?best = -1 \<and> ?g = 0 \<or>
      0 \<le> ?best \<and> nat ?best < Suc l \<and> gc_candidate bi (nat ?best) \<and> bi_dirty_list bi ! nat ?best = ?g"
    using Suc.prems(3) cand by auto
  have p5: "?best \<noteq> -1 \<longrightarrow> L \<le> nat ?best" using Suc.prems(5,6) by auto
  have p1: "Suc l + n \<le> length (bi_used_leb_list bi)" "L \<le> Suc l" using Suc.prems(1,6) by auto
  show ?case
    unfolding step add_Suc_right
    using Suc.IH [OF p1(1) Suc.prems(2) p3 p4 p5 p1(2)] unfolding add_Suc .
qed

section \<open>Properties\<close>

text \<open>Eight erase-blocks, the fourth and fifth in use.\<close>

definition fsm_demo :: "unit bilbyfs_info" where
  "fsm_demo = zero_info\<lparr>bi_super := zero_super\<lparr>su_leb_cnt := 8, su_leb_size := 4096,
       su_nb_reserved_gc := 3, su_nb_reserved_del := 3\<rparr>,
     bi_used_leb_list := [False, False, False, True, True, False, False, False],
     bi_dirty_list := [0, 0, 0, 100, 300, 0, 0, 0], bi_fsm_nb_free_eb := 6, bi_fsm_lnum := 3\<rparr>"

lemma all_less_3: "(\<forall>i < 3. P i) \<longleftrightarrow> P 0 \<and> P 1 \<and> P (2 :: nat)"
  by (auto simp: less_Suc_eq numeral_3_eq_3 numeral_2_eq_2)

lemma fsm_demo_ok: "fsm_ok fsm_demo"
  by (simp add: fsm_ok_def fsm_demo_def nb_used_def all_less_3)

lemma fsm_search_ok:
  assumes "fsm_ok bi"
  obtains r where
    "fsm_search (bi_used_leb_list bi) (nat (su_leb_cnt (bi_super bi) - 3)) 3 = Some r"
    "case r of None \<Rightarrow> \<forall>j. 3 \<le> j \<and> int j < su_leb_cnt (bi_super bi) \<longrightarrow> bi_used_leb_list bi ! j
     | Some k \<Rightarrow> 3 \<le> k \<and> int k < su_leb_cnt (bi_super bi) \<and> \<not> bi_used_leb_list bi ! k \<and>
         (\<forall>j. 3 \<le> j \<and> j < k \<longrightarrow> bi_used_leb_list bi ! j)"
proof -
  have n: "3 + nat (su_leb_cnt (bi_super bi) - 3) = length (bi_used_leb_list bi)"
    "int (length (bi_used_leb_list bi)) = su_leb_cnt (bi_super bi)"
    using assms by (auto simp: fsm_ok_def)
  from fsm_search_spec [of 3 "nat (su_leb_cnt (bi_super bi) - 3)" "bi_used_leb_list bi"]
  obtain r where r: "fsm_search (bi_used_leb_list bi) (nat (su_leb_cnt (bi_super bi) - 3)) 3 = Some r"
    "case r of None \<Rightarrow> \<forall>j. 3 \<le> j \<and> j < length (bi_used_leb_list bi) \<longrightarrow> bi_used_leb_list bi ! j
     | Some k \<Rightarrow> 3 \<le> k \<and> k < length (bi_used_leb_list bi) \<and> \<not> bi_used_leb_list bi ! k \<and>
         (\<forall>j. 3 \<le> j \<and> j < k \<longrightarrow> bi_used_leb_list bi ! j)"
    unfolding n by auto
  show ?thesis
    by (rule that [OF r(1)]) (use r(2) n(2) in \<open>auto split: option.splits\<close>)
qed

lemma fsm_alloc_no_gc:
  assumes "fsm_ok bi" "fsm_check_free_space bi osw = None"
  shows "\<exists>err bi'. fsm_alloc_eb gc bi osw = Some (err, bi') \<and> fsm_ok bi' \<and>
    (case err of
       None \<Rightarrow> (\<exists>l. bi_fsm_lnum bi' = of_nat l \<and> 3 \<le> l \<and> int l < su_leb_cnt (bi_super bi) \<and>
         \<not> bi_used_leb_list bi ! l \<and> bi_used_leb_list bi' = (bi_used_leb_list bi)[l := True])
     | Some e \<Rightarrow> e = ENOSPC \<and> bi_used_leb_list bi' = bi_used_leb_list bi \<and>
         (\<forall>l. 3 \<le> l \<and> int l < su_leb_cnt (bi_super bi) \<longrightarrow> bi_used_leb_list bi ! l))"
proof -
  let ?b = "bi\<lparr>bi_fsm_lnum := 0\<rparr>"
  have okb: "fsm_ok ?b" using assms(1) by (simp add: fsm_ok_def)
  have chk: "fsm_check_free_space ?b osw = None" using assms(2) by (simp add: fsm_check_free_space_def)
  from fsm_search_ok [OF okb] obtain r where
    r: "fsm_search (bi_used_leb_list ?b) (nat (su_leb_cnt (bi_super ?b) - 3)) 3 = Some r"
    "case r of None \<Rightarrow> \<forall>j. 3 \<le> j \<and> int j < su_leb_cnt (bi_super ?b) \<longrightarrow> bi_used_leb_list ?b ! j
     | Some k \<Rightarrow> 3 \<le> k \<and> int k < su_leb_cnt (bi_super ?b) \<and> \<not> bi_used_leb_list ?b ! k \<and>
         (\<forall>j. 3 \<le> j \<and> j < k \<longrightarrow> bi_used_leb_list ?b ! j)" .
  show ?thesis
  proof (cases r)
    case None
    with r chk okb show ?thesis by (simp add: fsm_alloc_eb_def)
  next
    case (Some k)
    with r(2) have k: "3 \<le> k" "int k < su_leb_cnt (bi_super bi)" "\<not> bi_used_leb_list bi ! k" by auto
    from fsm_mark_used_ok [OF okb, of "int k"] k obtain b' where
      b': "fsm_mark_used ?b (int k) = Some b'" "fsm_ok b'"
      "b' = ?b\<lparr>bi_used_leb_list := (bi_used_leb_list bi)[k := True],
        bi_fsm_nb_free_eb := bi_fsm_nb_free_eb bi - 1\<rparr>" by auto
    have "fsm_ok (b'\<lparr>bi_fsm_lnum := of_nat k\<rparr>)" using b'(2) by (simp add: fsm_ok_def)
    with Some r(1) chk b' k show ?thesis by (auto simp: fsm_alloc_eb_def)
  qed
qed



text \<open>
  The free space reported is the size of an erase-block times the number of unused
  erase-blocks of the log, which is \<open>fsm_nb_free_eb - 3\<close>.
\<close>

lemma fsm_get_free_space_correct:
  assumes "fsm_ok bi"
  shows "fsm_get_free_space bi =
    Some ((ucast (bi_fsm_nb_free_eb bi) - 3) * word_of_int (su_leb_size (bi_super bi)))"
proof -
  let ?u = "bi_used_leb_list bi"
  have n: "int (length ?u) = su_leb_cnt (bi_super bi)" "3 \<le> length ?u"
    using assms by (auto simp: fsm_ok_def)
  then have c: "nat (su_leb_cnt (bi_super bi) - 3) = length ?u - 3" by linarith
  have "filter (\<lambda>u. u) (take 3 ?u) = []"
    using assms n by (auto simp: fsm_ok_def filter_empty_conv in_set_conv_nth)
  then have "nb_used (drop 3 ?u) = nb_used ?u"
    by (metis append_take_drop_id filter_append self_append_conv2 nb_used_def)
  with filter_Not_used [of "drop 3 ?u"] have f: "length (filter Not (drop 3 ?u)) = length ?u - 3 - nb_used ?u"
    by simp
  have "uint (bi_fsm_nb_free_eb bi) = int (length ?u - nb_used ?u)"
    using assms by (simp only: fsm_ok_def)
  then have "unat (bi_fsm_nb_free_eb bi) = length ?u - nb_used ?u"
    unfolding unat_eq_nat_uint by (simp only: nat_int)
  then have "(ucast (bi_fsm_nb_free_eb bi) :: u64) = of_nat (length ?u - nb_used ?u)"
    by (metis of_nat_unat)
  moreover have "nb_used ?u + 3 \<le> length ?u" using assms n nb_used_reserved by (auto simp: fsm_ok_def)
  ultimately have "(ucast (bi_fsm_nb_free_eb bi) - 3 :: u64) = of_nat (length ?u - 3 - nb_used ?u)"
    by (simp add: of_nat_diff)
  then show ?thesis
    using c n f by (simp add: fsm_get_free_space_def fsm_sum_free_spec)
qed

text \<open>
  C26. \<open>fsm_get_dirtiest_eb\<close> returns a used erase-block other than the current one whose garbage
  is maximal, and -1 when no such erase-block has any garbage.
\<close>

theorem fsm_get_dirtiest_eb_correct:
  assumes "fsm_ok bi"
  shows "\<exists>r. fsm_get_dirtiest_eb bi = Some r \<and>
    (if r = -1 then \<forall>j. 3 \<le> j \<and> int j < su_leb_cnt (bi_super bi) \<longrightarrow> \<not> gc_candidate bi j
     else 3 \<le> r \<and> r < su_leb_cnt (bi_super bi) \<and> gc_candidate bi (nat r) \<and>
       (\<forall>j. 3 \<le> j \<and> int j < su_leb_cnt (bi_super bi) \<and> gc_candidate bi j \<longrightarrow>
          bi_dirty_list bi ! j \<le> bi_dirty_list bi ! nat r))"
proof -
  have n: "int (length (bi_used_leb_list bi)) = su_leb_cnt (bi_super bi)"
    "length (bi_dirty_list bi) = length (bi_used_leb_list bi)" "3 \<le> length (bi_used_leb_list bi)"
    using assms by (auto simp: fsm_ok_def)
  then have c: "nat (su_leb_cnt (bi_super bi) - 3) = length (bi_used_leb_list bi) - 3" by linarith
  have j: "int j < su_leb_cnt (bi_super bi) \<longleftrightarrow> j < length (bi_used_leb_list bi)" for j
    using n(1) by linarith
  have x: "3 + (length (bi_used_leb_list bi) - 3) = length (bi_used_leb_list bi)" using n(3) by simp
  obtain r where r: "fsm_dirtiest_loop bi (length (bi_used_leb_list bi) - 3) 3 (-1) 0 = Some r"
    "if r = -1 then \<forall>j. 3 \<le> j \<and> j < length (bi_used_leb_list bi) \<longrightarrow> \<not> gc_candidate bi j
     else 0 \<le> r \<and> 3 \<le> nat r \<and> nat r < length (bi_used_leb_list bi) \<and> gc_candidate bi (nat r) \<and>
       (\<forall>j. 3 \<le> j \<and> j < length (bi_used_leb_list bi) \<and> gc_candidate bi j \<longrightarrow>
          bi_dirty_list bi ! j \<le> bi_dirty_list bi ! nat r)"
    using fsm_dirtiest_spec [of 3 "length (bi_used_leb_list bi) - 3" bi "-1" 0 3, unfolded x] n(2)
    by fastforce
  have "r \<noteq> -1 \<Longrightarrow> 3 \<le> r \<and> r < su_leb_cnt (bi_super bi)" using r(2) n(1) by auto
  with r c show ?thesis by (auto simp: fsm_get_dirtiest_eb_def j)
qed

theorem fsm_get_dirtiest_eb_correct_witness:
  "fsm_get_dirtiest_eb fsm_demo = Some 4"
proof -
  have "gc_candidate fsm_demo 4" by (simp add: gc_candidate_def fsm_demo_def)
  moreover have "fsm_get_dirtiest_eb fsm_demo = Some 4" by code_simp
  ultimately show ?thesis using fsm_get_dirtiest_eb_correct [OF fsm_demo_ok] by auto
qed

text \<open>
  \<open>fsm_nb_free_eb\<close> also counts the three erase-blocks that are never allocated. With the
  default reserve of three erase-blocks for the garbage collector, a write that deletes data is
  therefore never refused by the reserve check, even when no erase-block of the log is free.
\<close>

lemma fsm_gc_reserve_never_refuses:
  assumes "fsm_ok bi" "su_nb_reserved_gc (bi_super bi) = BILBYFS_DEFAULT_NB_RESERVED_GC" "OSW_DEL osw"
  shows "fsm_check_free_space bi osw = None"
proof -
  have "3 \<le> uint (bi_fsm_nb_free_eb bi)" using fsm_ok_free [OF assms(1)] by linarith
  then have "\<not> bi_fsm_nb_free_eb bi < 3" by (simp add: word_less_def)
  with assms(2,3) show ?thesis by (simp add: fsm_check_free_space_def)
qed

text \<open>All five erase-blocks of the log are in use.\<close>

definition fsm_full :: "unit bilbyfs_info" where
  "fsm_full = fsm_demo\<lparr>bi_used_leb_list := [False, False, False, True, True, True, True, True],
     bi_fsm_nb_free_eb := 3\<rparr>"

lemma fsm_gc_reserve_never_refuses_example:
  "fsm_check_free_space fsm_full (OSW_NONE\<lparr>OSW_DEL := True\<rparr>) = None"
proof -
  have "fsm_ok fsm_full"
    by (simp add: fsm_ok_def fsm_full_def fsm_demo_def nb_used_def all_less_3)
  then show ?thesis
    by (rule fsm_gc_reserve_never_refuses) (simp_all add: fsm_full_def fsm_demo_def)
qed

end
