(* ===== verification/Bilby_Wbuf.thy ===== *)
theory Bilby_Wbuf
  imports Bilby_Packobj
begin

unbundle bit_operations_syntax

text \<open>
  \<open>wbuf.c\<close>: the write-buffer, which collects objects until they are written to an erase-block in
  units of the flash page, and the read-buffer, which holds the content of an erase-block for
  scanning. Operations on a buffer of the global state take and return the buffer; the caller
  stores it back.
  The lemmas: the bookkeeping of the write-buffer, padding to a page boundary, and scanning.
\<close>

definition zero_rbuf :: bilbyfs_rbuf where
  "zero_rbuf = \<lparr>rb_buf = [], rb_size = 0, rb_offs = 0\<rparr>"

definition wbuf_clean :: "'u bilbyfs_info \<Rightarrow> 'u bilbyfs_info" where
  "wbuf_clean bi = bi\<lparr>bi_rbuf := zero_rbuf\<rparr>"

definition wbuf_init :: "'u kernel \<Rightarrow> 'u bilbyfs_info \<Rightarrow> errno option \<times> 'u bilbyfs_info" where
  "wbuf_init K bi =
     (let (ok, km) = kmalloc_ok (bi_kmem bi);
          bi = bi\<lparr>bi_kmem := km\<rparr>;
          leb_size = su_leb_size (bi_super bi)
      in if ok then (None, bi\<lparr>bi_rbuf := (bi_rbuf bi)\<lparr>rb_buf := uninit K (nat leb_size), rb_size := leb_size\<rparr>\<rparr>)
         else (Some ENOMEM, wbuf_clean bi))"

definition wbuf_start :: "'u bilbyfs_info \<Rightarrow> bilbyfs_wbuf \<Rightarrow> bilbyfs_wbuf option" where
  "wbuf_start bi wbuf = do {
     bilbyfs_assert (su_leb_size (bi_super bi) = vi_usable_leb_size (bi_info bi));
     Some (wbuf\<lparr>wb_used := 0, wb_sync_offs := 0, wb_avail := su_leb_size (bi_super bi),
                wb_size := su_leb_size (bi_super bi)\<rparr>)
   }"

definition wbuf_write_obj :: "buf \<Rightarrow> int \<Rightarrow> bilbyfs_wbuf \<Rightarrow> (errno option \<times> bilbyfs_wbuf) option" where
  "wbuf_write_obj obj objlen wbuf = do {
     bilbyfs_assert (objlen mod BILBYFS_OBJ_PADDING = 0);
     if wb_avail wbuf < objlen then Some (Some EINVAL, wbuf)
     else do {
       bilbyfs_assert (0 \<le> wb_used wbuf \<and> 0 \<le> objlen);
       bytes \<leftarrow> buf_get obj 0 (nat objlen);
       b \<leftarrow> buf_put (wb_buf wbuf) (nat (wb_used wbuf)) bytes;
       Some (None, wbuf\<lparr>wb_buf := b, wb_avail := wb_avail wbuf - objlen, wb_used := wb_used wbuf + objlen\<rparr>)
     }
   }"

text \<open>
  Filling the rest of a page or of an erase-block: with pad bytes when it is too small for a
  header, otherwise with a padding object. Shared by \<open>wbuf_prepare_commit\<close> and
  \<open>ostore_write_summary\<close>.
\<close>

definition wbuf_pad :: "'u kernel \<Rightarrow> 'u bilbyfs_info \<Rightarrow> int \<Rightarrow> bilbyfs_wbuf \<Rightarrow>
  ('u bilbyfs_info \<times> bilbyfs_wbuf) option" where
  "wbuf_pad K bi pad_sz wbuf = do {
     bilbyfs_assert (0 \<le> wb_used wbuf \<and> 0 \<le> pad_sz);
     let pos = nat (wb_used wbuf);
     (bi, b) \<leftarrow>
       (if pad_sz < int BILBYFS_CH_SZ then do {
          b \<leftarrow> buf_fill (wb_buf wbuf) pos BILBYFS_PAD_BYTE (nat pad_sz);
          Some (bi, b)
        }
        else do {
          b \<leftarrow> pack_obj_pad (wb_buf wbuf) pos pad_sz;
          let (sqnum, bi) = next_sqnum bi;
          b \<leftarrow> pack_obj_header K b pos sqnum BILBYFS_TRANS_ATOM;
          Some (bi, b)
        });
     Some (bi, wbuf\<lparr>wb_buf := b, wb_avail := wb_avail wbuf - pad_sz, wb_used := wb_used wbuf + pad_sz\<rparr>)
   }"

text \<open>
  Returns the size of the padding, \<open>None\<close> when the function leaves \<open>*padding_sz\<close> alone.
\<close>

definition wbuf_prepare_commit ::
  "'u kernel \<Rightarrow> 'u bilbyfs_info \<Rightarrow> bilbyfs_wbuf \<Rightarrow> (int option \<times> 'u bilbyfs_info \<times> bilbyfs_wbuf) option" where
  "wbuf_prepare_commit K bi wbuf = do {
     bilbyfs_assert (0 < wb_used wbuf);
     if wb_avail wbuf = 0 then Some (None, bi, wbuf)
     else do {
       let pad_sz = ALIGN (wb_used wbuf) (su_min_io_size (bi_super bi)) - wb_used wbuf;
       (bi, wbuf) \<leftarrow> wbuf_pad K bi pad_sz wbuf;
       Some (Some pad_sz, bi, wbuf)
     }
   }"

definition wbuf_atom_leb_commit ::
  "'u kernel \<Rightarrow> 'u bilbyfs_info \<Rightarrow> int \<Rightarrow> bilbyfs_wbuf \<Rightarrow> (errno option \<times> 'u bilbyfs_info) option" where
  "wbuf_atom_leb_commit K bi lnum wbuf = do {
     bilbyfs_assert (wb_used wbuf \<le> su_leb_size (bi_super bi));
     bilbyfs_assert (0 < wb_used wbuf);
     bilbyfs_assert (wb_used wbuf = ALIGN (wb_used wbuf) (su_min_io_size (bi_super bi)));
     bytes \<leftarrow> buf_get (wb_buf wbuf) 0 (nat (wb_used wbuf));
     let (err, ubi) = k_ubi_leb_change K (bi_ubi bi) lnum bytes;
     Some (err, bi\<lparr>bi_ubi := ubi\<rparr>)
   }"

definition wbuf_commit ::
  "'u kernel \<Rightarrow> 'u bilbyfs_info \<Rightarrow> u32 \<Rightarrow> bilbyfs_wbuf \<Rightarrow>
   (errno option \<times> 'u bilbyfs_info \<times> bilbyfs_wbuf) option" where
  "wbuf_commit K bi lnum wbuf = do {
     bilbyfs_assert (wb_sync_offs wbuf < wb_used wbuf);
     bilbyfs_assert (wb_sync_offs wbuf = ALIGN (wb_sync_offs wbuf) (su_min_io_size (bi_super bi)));
     bilbyfs_assert (wb_used wbuf \<le> wb_size wbuf);
     bilbyfs_assert (wb_used wbuf = ALIGN (wb_used wbuf) (su_min_io_size (bi_super bi)));
     bilbyfs_assert (0 \<le> wb_sync_offs wbuf);
     bytes \<leftarrow> buf_get (wb_buf wbuf) (nat (wb_sync_offs wbuf)) (nat (wb_used wbuf - wb_sync_offs wbuf));
     let (err, ubi) = k_ubi_leb_write K (bi_ubi bi) (uint lnum) bytes (wb_sync_offs wbuf);
     Some (err, bi\<lparr>bi_ubi := ubi\<rparr>,
           if err = None then wbuf\<lparr>wb_sync_offs := wb_used wbuf\<rparr> else wbuf)
   }"

section \<open>Reading\<close>

text \<open>
  One \<open>ubi_read\<close> of \<open>n\<close> bytes at \<open>offs\<close> of an erase-block into \<open>buf + pos\<close>.
\<close>

definition ubi_read_at ::
  "'u kernel \<Rightarrow> 'u \<Rightarrow> int \<Rightarrow> buf \<Rightarrow> int \<Rightarrow> int \<Rightarrow> int \<Rightarrow> (errno + buf) option" where
  "ubi_read_at K ubi lnum b pos offs n =
     (case k_ubi_read K ubi lnum offs n of
        Inl e \<Rightarrow> Some (Inl e)
      | Inr bytes \<Rightarrow> do {
          bilbyfs_assert (0 \<le> pos);
          b \<leftarrow> buf_put b (nat pos) bytes;
          Some (Inr b)
        })"

text \<open>
  The two loops of \<open>wbuf_read_obj_pages\<close>: steps of \<open>io\<close> bytes while more than \<open>lim\<close> bytes are
  left (\<open>toread > max_io_size\<close>, then \<open>toread >= min_io_size\<close>). The fuel bounds the number of
  reads; with a positive \<open>io\<close> the number of bytes to read is enough.
\<close>

fun read_pages_loop ::
  "nat \<Rightarrow> 'u kernel \<Rightarrow> 'u \<Rightarrow> int \<Rightarrow> int \<Rightarrow> int \<Rightarrow> int \<Rightarrow> buf \<Rightarrow> int \<Rightarrow> int \<Rightarrow> (errno + (buf \<times> int \<times> int)) option" where
  "read_pages_loop fuel K ubi lnum aligned_offs io lim b offs toread =
     (if \<not> lim < toread then Some (Inr (b, offs, toread))
      else case fuel of 0 \<Rightarrow> None
      | Suc fuel \<Rightarrow> do {
          r \<leftarrow> ubi_read_at K ubi lnum b offs (aligned_offs + offs) io;
          (case r of
             Inl e \<Rightarrow> Some (Inl e)
           | Inr b \<Rightarrow> read_pages_loop fuel K ubi lnum aligned_offs io lim b (offs + io) (toread - io))
        })"

declare read_pages_loop.simps [simp del]

text \<open>
  Returns the offset in the page. \<open>addr->offs + addr->len\<close> is computed in 32 bits.
\<close>

definition wbuf_read_obj_pages ::
  "'u kernel \<Rightarrow> 'u bilbyfs_info \<Rightarrow> obj_addr \<Rightarrow> bilbyfs_rbuf \<Rightarrow> ((errno + int) \<times> bilbyfs_rbuf) option" where
  "wbuf_read_obj_pages K bi addr rbuf = do {
     let min_io_size = su_min_io_size (bi_super bi);
     let max_io_size = su_max_io_size (bi_super bi);
     let offs_in_page = uint (oa_offs addr) mod min_io_size;
     let aligned_offs = uint (oa_offs addr) - offs_in_page;
     let aligned_end = ALIGN (uint (oa_offs addr + oa_len addr)) min_io_size;
     let toread = aligned_end - aligned_offs;
     bilbyfs_assert (aligned_offs = ALIGN aligned_offs min_io_size);
     bilbyfs_assert (toread = ALIGN toread min_io_size);
     r \<leftarrow> read_pages_loop (nat toread) K (bi_ubi bi) (uint (oa_lnum addr)) aligned_offs
           max_io_size max_io_size (rb_buf rbuf) 0 toread;
     (case r of
        Inl e \<Rightarrow> Some (Inl e, rbuf)
      | Inr (b, offs, toread) \<Rightarrow> do {
          r \<leftarrow> read_pages_loop (nat toread) K (bi_ubi bi) (uint (oa_lnum addr)) aligned_offs
                min_io_size (min_io_size - 1) b offs toread;
          (case r of
             Inl e \<Rightarrow> Some (Inl e, rbuf\<lparr>rb_buf := b\<rparr>)
           | Inr (b, offs, toread) \<Rightarrow> do {
               bilbyfs_assert (toread \<le> 0);
               Some (Inr offs_in_page, rbuf\<lparr>rb_buf := b, rb_offs := aligned_offs\<rparr>)
             })
        })
   }"

definition wbuf_read_obj ::
  "'u kernel \<Rightarrow> 'u bilbyfs_info \<Rightarrow> buf \<Rightarrow> obj_addr \<Rightarrow> (errno option \<times> 'u bilbyfs_info \<times> buf) option" where
  "wbuf_read_obj K bi buf addr = do {
     (r, rbuf) \<leftarrow> wbuf_read_obj_pages K bi addr (bi_rbuf bi);
     let bi = bi\<lparr>bi_rbuf := rbuf\<rparr>;
     (case r of
        Inl e \<Rightarrow> Some (Some e, bi, buf)
      | Inr offs_in_page \<Rightarrow> do {
          bytes \<leftarrow> buf_get (rb_buf rbuf) (nat offs_in_page) (unat (oa_len addr));
          buf \<leftarrow> buf_put buf 0 bytes;
          Some (None, bi, buf)
        })
   }"

text \<open>\<open>nb_read\<close> reads of one page each, from \<open>offs\<close> on; \<open>stop\<close> ends the loop after a read.\<close>

fun read_leb_loop ::
  "nat \<Rightarrow> 'u kernel \<Rightarrow> 'u \<Rightarrow> int \<Rightarrow> int \<Rightarrow> (buf \<Rightarrow> int \<Rightarrow> bool option) \<Rightarrow> buf \<Rightarrow> int \<Rightarrow> (errno \<times> buf + buf) option" where
  "read_leb_loop 0 K ubi lnum io_sz stop b offs = Some (Inr b)"
| "read_leb_loop (Suc n) K ubi lnum io_sz stop b offs = do {
     r \<leftarrow> ubi_read_at K ubi lnum b offs offs io_sz;
     (case r of
        Inl e \<Rightarrow> Some (Inl (e, b))
      | Inr b \<Rightarrow> do {
          s \<leftarrow> stop b offs;
          if s then Some (Inr b) else read_leb_loop n K ubi lnum io_sz stop b (offs + io_sz)
        })
   }"

text \<open>C division truncates; both operands are not negative where it is used here.\<close>

definition wbuf_read_sum ::
  "'u kernel \<Rightarrow> 'u bilbyfs_info \<Rightarrow> int \<Rightarrow> bilbyfs_rbuf \<Rightarrow>
   ((errno + u32) \<times> 'u bilbyfs_info \<times> bilbyfs_rbuf) option" where
  "wbuf_read_sum K bi lnum rbuf = do {
     let io_sz = su_min_io_size (bi_super bi);
     let leb_size = su_leb_size (bi_super bi);
     let offs = leb_size - io_sz;
     bilbyfs_assert (rb_size rbuf = leb_size);
     let bi = bi\<lparr>bi_nb_pages := bi_nb_pages bi + 1\<rparr>;
     r \<leftarrow> ubi_read_at K (bi_ubi bi) lnum (rb_buf rbuf) offs offs io_sz;
     (case r of
        Inl e \<Rightarrow> Some (Inl e, bi, rbuf)
      | Inr b \<Rightarrow> do {
          let rbuf = rbuf\<lparr>rb_buf := b\<rparr>;
          w \<leftarrow> get32 b (nat (leb_size - int BILBYFS_OBJ_SUM_OFFS_SZ));
          let sum_offs = sint w;
          if leb_size - int BILBYFS_OBJ_SUM_OFFS_SZ \<le> sum_offs then Some (Inl ENOENT, bi, rbuf)
          else do {
            let offs = sum_offs - (sum_offs - sgn sum_offs * (\<bar>sum_offs\<bar> div io_sz) * io_sz);
            let nb_read = (leb_size - offs) div io_sz;
            let bi = bi\<lparr>bi_nb_extra_pages := bi_nb_extra_pages bi + (nb_read - 1)\<rparr>;
            r \<leftarrow> read_leb_loop (nat (nb_read - 1)) K (bi_ubi bi) lnum io_sz (\<lambda>b offs. Some False) b offs;
            (case r of
               Inl (e, b) \<Rightarrow> Some (Inl e, bi, rbuf\<lparr>rb_buf := b\<rparr>)
             | Inr b \<Rightarrow> Some (Inr (word_of_int sum_offs), bi, rbuf\<lparr>rb_buf := b, rb_offs := 0\<rparr>))
          }
        })
   }"

definition wbuf_read_leb_fast ::
  "'u kernel \<Rightarrow> 'u bilbyfs_info \<Rightarrow> int \<Rightarrow> bilbyfs_rbuf \<Rightarrow> (errno option \<times> bilbyfs_rbuf) option" where
  "wbuf_read_leb_fast K bi lnum rbuf = do {
     let io_sz = su_min_io_size (bi_super bi);
     let nb_read = su_leb_size (bi_super bi) div io_sz;
     bilbyfs_assert (rb_size rbuf = su_leb_size (bi_super bi));
     r \<leftarrow> read_leb_loop (nat nb_read) K (bi_ubi bi) lnum io_sz
           (\<lambda>b offs. do { w \<leftarrow> get64 b (nat offs); Some (w = 0xFFFFFFFFFFFFFFFF) }) (rb_buf rbuf) 0;
     (case r of
        Inl (e, b) \<Rightarrow> Some (Some e, rbuf\<lparr>rb_buf := b\<rparr>)
      | Inr b \<Rightarrow> Some (None, rbuf\<lparr>rb_buf := b, rb_offs := 0\<rparr>))
   }"

definition wbuf_read_leb ::
  "'u kernel \<Rightarrow> 'u bilbyfs_info \<Rightarrow> int \<Rightarrow> bilbyfs_rbuf \<Rightarrow> (errno option \<times> bilbyfs_rbuf) option" where
  "wbuf_read_leb K bi lnum rbuf = do {
     let io_sz = su_min_io_size (bi_super bi);
     let nb_read = su_leb_size (bi_super bi) div io_sz;
     bilbyfs_assert (rb_size rbuf = su_leb_size (bi_super bi));
     r \<leftarrow> read_leb_loop (nat nb_read) K (bi_ubi bi) lnum io_sz (\<lambda>b offs. Some False) (rb_buf rbuf) 0;
     (case r of
        Inl (e, b) \<Rightarrow> Some (Some e, rbuf\<lparr>rb_buf := b\<rparr>)
      | Inr b \<Rightarrow> Some (None, rbuf\<lparr>rb_buf := b, rb_offs := 0\<rparr>))
   }"

definition wbuf_erase :: "'u kernel \<Rightarrow> 'u bilbyfs_info \<Rightarrow> int \<Rightarrow> errno option \<times> 'u bilbyfs_info" where
  "wbuf_erase K bi lnum =
     (let (err, ubi) = k_ubi_leb_erase K (bi_ubi bi) lnum in (err, bi\<lparr>bi_ubi := ubi\<rparr>))"

text \<open>
  The recursion of \<open>wbuf_next_obj_addr\<close> over pad bytes. All offsets are unsigned 32-bit values.
  Every step moves eight bytes on; the fuel is the length of the buffer.
\<close>

fun next_obj_loop ::
  "nat \<Rightarrow> 'u kernel \<Rightarrow> obj_addr \<Rightarrow> bilbyfs_rbuf \<Rightarrow> ((errno + nat) \<times> obj_addr) option" where
  "next_obj_loop fuel K addr rbuf = do {
     bilbyfs_assert (word_of_int (rb_offs rbuf) \<le> oa_offs addr);
     let leb_offs = oa_offs addr + oa_len addr;
     if word_of_int (rb_offs rbuf + rb_size rbuf) \<le> leb_offs then Some (Inl ENOENT, addr)
     else do {
       let rbuf_offs = leb_offs - word_of_int (rb_offs rbuf);
       let obj = unat rbuf_offs;
       err \<leftarrow> check_obj_header K (rb_buf rbuf) obj (sint (word_of_int (rb_size rbuf) - rbuf_offs));
       (case err of
          None \<Rightarrow> do {
            len \<leftarrow> get32 (rb_buf rbuf) (obj + ch_len);
            sqnum \<leftarrow> get64 (rb_buf rbuf) (obj + ch_sqnum);
            Some (Inr obj, addr\<lparr>oa_offs := leb_offs, oa_len := len, oa_sqnum := sqnum\<rparr>)
          }
        | Some e \<Rightarrow>
            if e = ENOENT then do {
              pad \<leftarrow> get8 (rb_buf rbuf) obj;
              if pad = BILBYFS_PAD_BYTE then
                (case fuel of 0 \<Rightarrow> None
                 | Suc fuel \<Rightarrow> next_obj_loop fuel K (addr\<lparr>oa_offs := leb_offs, oa_len := 8\<rparr>) rbuf)
              else Some (Inl e, addr)
            }
            else Some (Inl e, addr))
     }
   }"

declare next_obj_loop.simps [simp del]

definition wbuf_next_obj_addr ::
  "'u kernel \<Rightarrow> obj_addr \<Rightarrow> bilbyfs_rbuf \<Rightarrow> ((errno + nat) \<times> obj_addr) option" where
  "wbuf_next_obj_addr K addr rbuf = next_obj_loop (length (rb_buf rbuf)) K addr rbuf"

section \<open>The write-buffer\<close>

text \<open>
  The invariant of a write-buffer: \<open>used\<close> and \<open>avail\<close> split the buffer, and what is
  synchronised has been written to it.
\<close>

definition wbuf_ok :: "bilbyfs_wbuf \<Rightarrow> bool" where
  "wbuf_ok w \<longleftrightarrow> wb_size w = int (length (wb_buf w)) \<and> wb_size w < 2 ^ 31 \<and>
     0 \<le> wb_sync_offs w \<and> wb_sync_offs w \<le> wb_used w \<and> 0 \<le> wb_avail w \<and>
     wb_used w + wb_avail w = wb_size w"

lemma take_splice_at: "n \<le> length b \<Longrightarrow> take (n + length bs) (splice b n bs) = take n b @ bs"
  by (simp add: splice_def)

lemma wbuf_start_ok:
  "su_leb_size (bi_super bi) = vi_usable_leb_size (bi_info bi) \<Longrightarrow>
   su_leb_size (bi_super bi) = int (length (wb_buf w)) \<Longrightarrow> su_leb_size (bi_super bi) < 2 ^ 31 \<Longrightarrow>
   \<exists>w'. wbuf_start bi w = Some w' \<and> wbuf_ok w' \<and> wb_used w' = 0 \<and> wb_buf w' = wb_buf w"
  by (simp add: wbuf_start_def wbuf_ok_def)

lemma wbuf_fit: "wbuf_ok w \<Longrightarrow> 0 \<le> n \<Longrightarrow> n \<le> wb_avail w \<Longrightarrow> nat (wb_used w) + nat n \<le> length (wb_buf w)"
  unfolding wbuf_ok_def by linarith

lemma wbuf_write_fits:
  assumes "wbuf_ok w" "0 \<le> objlen" "8 dvd objlen" "nat objlen \<le> length obj" "objlen \<le> wb_avail w"
  shows "\<exists>w'. wbuf_write_obj obj objlen w = Some (None, w') \<and> wbuf_ok w' \<and>
    wb_used w' = wb_used w + objlen \<and> wb_avail w' = wb_avail w - objlen \<and> wb_sync_offs w' = wb_sync_offs w \<and>
    wb_size w' = wb_size w \<and>
    take (nat (wb_used w')) (wb_buf w') = take (nat (wb_used w)) (wb_buf w) @ take (nat objlen) obj"
proof -
  let ?b = "splice (wb_buf w) (nat (wb_used w)) (take (nat objlen) obj)"
  have fit: "nat (wb_used w) + length (take (nat objlen) obj) \<le> length (wb_buf w)"
    using assms wbuf_fit [of w objlen] by simp
  have "take (nat (wb_used w + objlen)) ?b = take (nat (wb_used w)) (wb_buf w) @ take (nat objlen) obj"
    using take_splice_at [of "nat (wb_used w)" "wb_buf w" "take (nat objlen) obj"] assms fit
    by (simp add: wbuf_ok_def nat_add_distrib)
  moreover have "wbuf_write_obj obj objlen w =
      Some (None, w\<lparr>wb_buf := ?b, wb_avail := wb_avail w - objlen, wb_used := wb_used w + objlen\<rparr>)"
    using assms fit by (simp add: wbuf_write_obj_def wbuf_ok_def buf_get_Some buf_put_Some)
  ultimately show ?thesis using assms fit by (simp add: wbuf_ok_def)
qed

text \<open>
  Writing an object to a write-buffer fails with \<open>EINVAL\<close> and changes nothing exactly when
  the object does not fit in the free part; otherwise the bytes of the object follow what the
  buffer held, nothing before them changes, and the bookkeeping stays consistent.
\<close>

lemma wbuf_write_obj_correct:
  assumes "wbuf_ok w" "0 \<le> objlen" "8 dvd objlen" "nat objlen \<le> length obj"
  shows "if wb_avail w < objlen then wbuf_write_obj obj objlen w = Some (Some EINVAL, w)
    else \<exists>w'. wbuf_write_obj obj objlen w = Some (None, w') \<and> wbuf_ok w' \<and>
      wb_used w' = wb_used w + objlen \<and> wb_sync_offs w' = wb_sync_offs w \<and>
      take (nat (wb_used w')) (wb_buf w') = take (nat (wb_used w)) (wb_buf w) @ take (nat objlen) obj"
proof (cases "wb_avail w < objlen")
  case True
  with assms(3) show ?thesis by (simp add: wbuf_write_obj_def)
next
  case False
  then show ?thesis using wbuf_write_fits [OF assms] by auto
qed

definition demo_wbuf :: bilbyfs_wbuf where
  "demo_wbuf = \<lparr>wb_buf = replicate 64 0, wb_size = 64, wb_avail = 56, wb_used = 8, wb_sync_offs = 0\<rparr>"

lemma demo_wbuf_ok: "wbuf_ok demo_wbuf"
  by (simp add: wbuf_ok_def demo_wbuf_def)

lemma wbuf_write_obj_correct_example:
  "\<exists>w'. wbuf_write_obj (replicate 24 7) 24 demo_wbuf = Some (None, w') \<and> wbuf_ok w' \<and> wb_used w' = 32"
  using wbuf_write_obj_correct [OF demo_wbuf_ok, of 24 "replicate 24 7"]
  by (auto simp: demo_wbuf_def)

section \<open>Padding\<close>

lemma pad_obj_ok:
  assumes "24 \<le> sz" "sz < 2 ^ 31" "8 dvd sz" "pos + nat sz \<le> length b"
  shows "\<exists>b1 b2. pack_obj_pad b pos sz = Some b1 \<and> pack_obj_header K b1 pos sqnum tpos = Some b2 \<and>
    length b2 = length b \<and> take pos b2 = take pos b \<and> drop (pos + nat sz) b2 = drop (pos + nat sz) b \<and>
    rd8 b2 (pos + ch_type) = BILBYFS_PAD_OBJ \<and> unat (rd32 b2 (pos + ch_len)) = nat sz \<and>
    check_obj_header K b2 pos sz = Some None"
proof -
  let ?b = "stores b [(pos + 24, replicate (nat sz - 24) 0x42),
      (pos + 16, le_enc 4 (word_of_int sz :: u32)), (pos + 20, le_enc 1 (4 :: u8))]"
  have l: "pos + 24 \<le> length b" and fit: "pos + 24 + (nat sz - 24) \<le> length b" using assms by linarith+
  have "length (stores b [(pos + 16, le_enc 4 (word_of_int sz :: u32)), (pos + 20, le_enc 1 (4 :: u8))]) = length b"
    using l by simp
  then have p: "pack_obj_pad b pos sz = Some ?b"
    using assms
    by (simp add: pack_obj_pad_def len_to_le32_ok ALIGN_8_id put_stores(1)) (subst put_stores(3), simp_all)
  have lb: "length ?b = length b" using l fit by simp
  have rd: "rd8 ?b (pos + 20) = 4" "rd32 ?b (pos + 16) = word_of_int sz"
    using l fit by (simp_all add: store_reads)
  have u: "unat (rd32 ?b (pos + 16)) = nat sz" using rd assms by simp
  let ?h = "splice (header_bytes ?b pos sqnum tpos) (pos + 4) (le_enc 4 (header_crc K ?b pos sqnum tpos))"
  have h: "pack_obj_header K ?b pos sqnum tpos = Some ?h"
    using assms rd u lb by (intro pack_obj_header_eq) simp_all
  have c: "check_obj_header K ?h pos sz = Some None"
    using assms rd u lb by (intro check_after_pack [OF _ _ _ _ _ h]) simp_all
  have l': "pos + 24 \<le> length ?b" using l lb by simp
  note hb = header_bytes_outside [OF l', where sqnum = sqnum and tpos = tpos]
    rd_header_bytes [OF l', where sqnum = sqnum and tpos = tpos]
  have o: "take pos ?b = take pos b" "drop (pos + nat sz) ?b = drop (pos + nat sz) b"
    using l fit assms by (simp_all add: stores.simps take_splice_before drop_splice_after)
  have "drop (pos + nat sz) ?h = drop (pos + nat sz) ?b"
  proof -
    have "drop (pos + 24) ?h = drop (pos + 24) ?b" using l' hb by (simp add: drop_splice_after)
    then have "drop (nat sz - 24) (drop (pos + 24) ?h) = drop (nat sz - 24) (drop (pos + 24) ?b)" by simp
    then show ?thesis using assms by (simp add: add.commute)
  qed
  moreover have "take pos ?h = take pos ?b" "length ?h = length b"
    "rd8 ?h (pos + 20) = 4" "rd32 ?h (pos + 16) = rd32 ?b (pos + 16)"
    using l' hb rd lb by (simp_all add: buf_simps take_splice_before)
  ultimately show ?thesis using p h c o u by auto
qed

text \<open>
  The bytes from \<open>pos\<close> on are a valid padding object of \<open>sz\<close> bytes, or pad bytes only when there
  is no room for a header.
\<close>

definition padding_at :: "'u kernel \<Rightarrow> buf \<Rightarrow> nat \<Rightarrow> int \<Rightarrow> bool" where
  "padding_at K b pos sz \<longleftrightarrow>
     (if sz < int BILBYFS_CH_SZ then take (nat sz) (drop pos b) = replicate (nat sz) BILBYFS_PAD_BYTE
      else rd8 b (pos + ch_type) = BILBYFS_PAD_OBJ \<and> unat (rd32 b (pos + ch_len)) = nat sz \<and>
        check_obj_header K b pos sz = Some None)"

lemma wbuf_pad_ok:
  assumes "wbuf_ok w" "0 \<le> sz" "sz \<le> wb_avail w" "8 dvd sz"
  shows "\<exists>n w'. wbuf_pad K bi sz w = Some (bi\<lparr>bi_next_sqnum := n\<rparr>, w') \<and> wbuf_ok w' \<and>
    wb_used w' = wb_used w + sz \<and> wb_sync_offs w' = wb_sync_offs w \<and> wb_size w' = wb_size w \<and>
    take (nat (wb_used w)) (wb_buf w') = take (nat (wb_used w)) (wb_buf w) \<and>
    padding_at K (wb_buf w') (nat (wb_used w)) sz"
proof -
  let ?pos = "nat (wb_used w)"
  have fit: "?pos + nat sz \<le> length (wb_buf w)" and s: "sz < 2 ^ 31" and u: "0 \<le> wb_used w"
    using assms wbuf_fit [of w sz] by (simp_all add: wbuf_ok_def)
  show ?thesis
  proof (cases "sz < 24")
    case True
    let ?w = "w\<lparr>wb_buf := splice (wb_buf w) ?pos (replicate (nat sz) 0x42),
        wb_avail := wb_avail w - sz, wb_used := wb_used w + sz\<rparr>"
    have "wbuf_pad K bi sz w = Some (bi, ?w)"
      using True assms fit u by (simp add: wbuf_pad_def buf_fill_Some)
    moreover have "wbuf_ok ?w" using assms fit by (simp add: wbuf_ok_def)
    moreover have "padding_at K (wb_buf ?w) ?pos sz"
      using True fit by (simp add: padding_at_def take_drop_splice_eq)
    moreover have "take ?pos (wb_buf ?w) = take ?pos (wb_buf w)"
      using fit by (simp add: take_splice_before)
    moreover have "bi = bi\<lparr>bi_next_sqnum := bi_next_sqnum bi\<rparr>" by simp
    ultimately show ?thesis by (intro exI [of _ "bi_next_sqnum bi"] exI [of _ ?w]) simp
  next
    case False
    then obtain b1 b2 where b: "pack_obj_pad (wb_buf w) ?pos sz = Some b1"
      "pack_obj_header K b1 ?pos (bi_next_sqnum bi + 1) BILBYFS_TRANS_ATOM = Some b2"
      "length b2 = length (wb_buf w)" "take ?pos b2 = take ?pos (wb_buf w)"
      "padding_at K b2 ?pos sz"
      using pad_obj_ok [of sz ?pos "wb_buf w" K "bi_next_sqnum bi + 1" BILBYFS_TRANS_ATOM] s assms fit
      by (auto simp: padding_at_def)
    let ?w = "w\<lparr>wb_buf := b2, wb_avail := wb_avail w - sz, wb_used := wb_used w + sz\<rparr>"
    have "wbuf_pad K bi sz w = Some (bi\<lparr>bi_next_sqnum := bi_next_sqnum bi + 1\<rparr>, ?w)"
      using False assms b u by (simp add: wbuf_pad_def next_sqnum_def Let_def)
    moreover have "wbuf_ok ?w" using assms b by (simp add: wbuf_ok_def)
    ultimately show ?thesis
      using b by (intro exI [of _ "bi_next_sqnum bi + 1"] exI [of _ ?w]) simp
  qed
qed

text \<open>
  C33. \<open>wbuf_prepare_commit\<close> fills the write-buffer up to the next flash page: it never leaves the
  buffer, keeps everything that was written, and what it adds is a padding object that passes
  the header check, or pad bytes when there is no room for a header.
\<close>

theorem wbuf_prepare_commit_correct:
  assumes "wbuf_ok w" "0 < wb_used w" "8 dvd wb_used w"
    and "su_min_io_size (bi_super bi) = 2 ^ k" "3 \<le> k" "2 ^ k dvd wb_size w"
  shows "\<exists>pad n w'. wbuf_prepare_commit K bi w = Some (pad, bi\<lparr>bi_next_sqnum := n\<rparr>, w') \<and> wbuf_ok w' \<and>
    wb_used w' = ALIGN (wb_used w) (2 ^ k) \<and> wb_sync_offs w' = wb_sync_offs w \<and>
    take (nat (wb_used w)) (wb_buf w') = take (nat (wb_used w)) (wb_buf w) \<and>
    padding_at K (wb_buf w') (nat (wb_used w)) (wb_used w' - wb_used w)"
proof (cases "wb_avail w = 0")
  case True
  then have "ALIGN (wb_used w) (2 ^ k) = wb_used w" using assms(1,6) by (simp add: wbuf_ok_def ALIGN_id)
  then show ?thesis using assms True
    by (intro exI [of _ None] exI [of _ "bi_next_sqnum bi"] exI [of _ w])
      (simp add: wbuf_prepare_commit_def padding_at_def)
next
  case False
  let ?pad = "ALIGN (wb_used w) (2 ^ k) - wb_used w"
  have "(8 :: int) dvd 2 ^ k" using le_imp_power_dvd [OF assms(5), of "2 :: int"] by simp
  then have "8 dvd ?pad" using assms(3) ALIGN_dvd [of k "wb_used w"] by (metis dvd_diff dvd_trans)
  moreover have "0 \<le> ?pad" using ALIGN_ge [of "wb_used w" k] by simp
  moreover have "?pad \<le> wb_avail w"
    using ALIGN_le_dvd [of "wb_used w" "wb_size w" k] assms(1,6) by (simp add: wbuf_ok_def)
  ultimately obtain n w' where w': "wbuf_pad K bi ?pad w = Some (bi\<lparr>bi_next_sqnum := n\<rparr>, w')" "wbuf_ok w'"
    "wb_used w' = wb_used w + ?pad" "wb_sync_offs w' = wb_sync_offs w"
    "take (nat (wb_used w)) (wb_buf w') = take (nat (wb_used w)) (wb_buf w)"
    "padding_at K (wb_buf w') (nat (wb_used w)) ?pad"
    using wbuf_pad_ok [OF assms(1)] by blast
  then show ?thesis using False assms(2,4)
    by (intro exI [of _ "Some ?pad"] exI [of _ n] exI [of _ w']) (simp add: wbuf_prepare_commit_def)
qed

definition demo_geometry :: "unit bilbyfs_info" where
  "demo_geometry = zero_info\<lparr>bi_super := zero_super\<lparr>su_min_io_size := 32, su_max_io_size := 64, su_leb_size := 64\<rparr>\<rparr>"

theorem wbuf_prepare_commit_correct_witness:
  "\<exists>pad n w'. wbuf_prepare_commit demo_kernel demo_geometry demo_wbuf =
     Some (pad, demo_geometry\<lparr>bi_next_sqnum := n\<rparr>, w') \<and> wbuf_ok w' \<and> wb_used w' = 32"
proof -
  have "ALIGN 8 (2 ^ 5) = 32" unfolding ALIGN_pow2 by simp
  then show ?thesis
    using wbuf_prepare_commit_correct [of demo_wbuf demo_geometry 5 demo_kernel] demo_wbuf_ok
    by (auto simp: demo_wbuf_def demo_geometry_def)
qed

section \<open>Writing to the volume\<close>

text \<open>
  What BilbyFs expects of UBI, in terms of the bytes of an erase-block: a write that succeeds
  stores the bytes at the offset, and a read returns the bytes of the range.
\<close>

definition ubi_writes :: "'u kernel \<Rightarrow> ('u \<Rightarrow> int \<Rightarrow> buf) \<Rightarrow> bool" where
  "ubi_writes K content \<longleftrightarrow> (\<forall>u l bytes offs u'.
     0 \<le> offs \<and> nat offs + length bytes \<le> length (content u l) \<and>
     k_ubi_leb_write K u l bytes offs = (None, u') \<longrightarrow>
     content u' l = splice (content u l) (nat offs) bytes)"

definition ubi_reads :: "'u kernel \<Rightarrow> ('u \<Rightarrow> int \<Rightarrow> buf) \<Rightarrow> bool" where
  "ubi_reads K content \<longleftrightarrow> (\<forall>u l offs n.
     0 \<le> offs \<and> 0 \<le> n \<and> offs + n \<le> int (length (content u l)) \<longrightarrow>
     k_ubi_read K u l offs n = Inr (take (nat n) (drop (nat offs) (content u l))))"

text \<open>A volume in memory that does what is expected.\<close>

definition ram_kernel :: "(int \<Rightarrow> buf) kernel" where
  "ram_kernel = \<lparr>k_crc32 = (\<lambda>i bs. foldl (\<lambda>a x. a + ucast x) i bs),
     k_ubi_read = (\<lambda>u l off n. Inr (take (nat n) (drop (nat off) (u l)))),
     k_ubi_leb_write = (\<lambda>u l bs off. (None, u(l := splice (u l) (nat off) bs))),
     k_ubi_leb_change = (\<lambda>u l bs. (None, u(l := splice (u l) 0 bs))),
     k_ubi_leb_erase = (\<lambda>u l. (None, u(l := replicate (length (u l)) 255))),
     k_ubi_is_mapped = (\<lambda>u l. Inr (u l \<noteq> replicate (length (u l)) 255)), k_junk = (\<lambda>i. 0)\<rparr>"

lemma ram_kernel_ok: "ubi_writes ram_kernel (\<lambda>u. u)" "ubi_reads ram_kernel (\<lambda>u. u)"
  by (auto simp: ubi_writes_def ubi_reads_def ram_kernel_def)

text \<open>
  C27. A commit of a padded write-buffer does not stop the machine. When UBI reports success the
  erase-block holds everything the write-buffer holds, if it did so up to the synchronised
  offset before; the offset moves to the end of the buffer. When UBI reports an error the
  write-buffer is unchanged.
\<close>

theorem wbuf_commit_durable:
  assumes "wbuf_ok w" "su_min_io_size (bi_super bi) = 2 ^ k"
    and "2 ^ k dvd wb_sync_offs w" "2 ^ k dvd wb_used w" "wb_sync_offs w < wb_used w"
    and "ubi_writes K content" "int (length (content (bi_ubi bi) (uint lnum))) = wb_size w"
    and "take (nat (wb_sync_offs w)) (content (bi_ubi bi) (uint lnum)) = take (nat (wb_sync_offs w)) (wb_buf w)"
  shows "\<exists>err ubi w'. wbuf_commit K bi lnum w = Some (err, bi\<lparr>bi_ubi := ubi\<rparr>, w') \<and>
    (if err = None then w' = w\<lparr>wb_sync_offs := wb_used w\<rparr> \<and>
       take (nat (wb_used w)) (content ubi (uint lnum)) = take (nat (wb_used w)) (wb_buf w)
     else w' = w)"
proof -
  let ?s = "nat (wb_sync_offs w)" and ?n = "nat (wb_used w - wb_sync_offs w)"
  let ?bytes = "take ?n (drop ?s (wb_buf w))"
  obtain err ubi where u: "k_ubi_leb_write K (bi_ubi bi) (uint lnum) ?bytes (wb_sync_offs w) = (err, ubi)"
    by fastforce
  have sn: "?s + ?n = nat (wb_used w)" "?s + ?n \<le> length (wb_buf w)"
    using assms(1,5) unfolding wbuf_ok_def by linarith+
  have lb: "length ?bytes = ?n" using sn by simp
  have c: "wbuf_commit K bi lnum w =
      Some (err, bi\<lparr>bi_ubi := ubi\<rparr>, if err = None then w\<lparr>wb_sync_offs := wb_used w\<rparr> else w)"
    using assms(1-5) sn u by (simp add: wbuf_commit_def wbuf_ok_def ALIGN_id buf_get_Some)
  have "take (nat (wb_used w)) (content ubi (uint lnum)) = take (nat (wb_used w)) (wb_buf w)" if "err = None"
  proof -
    have "?s + length ?bytes \<le> length (content (bi_ubi bi) (uint lnum))"
      using sn lb assms(1,7) by (simp add: wbuf_ok_def)
    then have "content ubi (uint lnum) = splice (content (bi_ubi bi) (uint lnum)) ?s ?bytes"
      using assms(1,6) u that unfolding ubi_writes_def wbuf_ok_def by blast
    then have "take (?s + ?n) (content ubi (uint lnum)) = take ?s (wb_buf w) @ ?bytes"
      using take_splice_at [of ?s "content (bi_ubi bi) (uint lnum)" ?bytes] sn lb assms(1,7,8)
      by (simp add: wbuf_ok_def)
    then show ?thesis using sn by (simp add: take_add [symmetric])
  qed
  with c show ?thesis by (cases "err = None") auto
qed

definition demo_ram :: "(int \<Rightarrow> buf) bilbyfs_info" where
  "demo_ram = (info_on (\<lambda>l. replicate 64 255))\<lparr>bi_rbuf := \<lparr>rb_buf = replicate 64 0, rb_size = 64, rb_offs = 0\<rparr>,
     bi_super := zero_super\<lparr>su_min_io_size := 8, su_max_io_size := 16, su_leb_size := 64\<rparr>\<rparr>"

lemma demo_sel:
  "bi_ubi demo_ram = (\<lambda>l. replicate 64 255)" "su_min_io_size (bi_super demo_ram) = 2 ^ 3"
  "su_max_io_size (bi_super demo_ram) = 16" "length (rb_buf (bi_rbuf demo_ram)) = 64"
  "wb_used demo_wbuf = 8" "wb_sync_offs demo_wbuf = 0" "wb_size demo_wbuf = 64"
  by (simp_all add: demo_ram_def demo_wbuf_def info_on_def)

theorem wbuf_commit_durable_witness:
  "\<exists>err ubi w'. wbuf_commit ram_kernel demo_ram 5 demo_wbuf = Some (err, demo_ram\<lparr>bi_ubi := ubi\<rparr>, w') \<and>
    (if err = None then w' = demo_wbuf\<lparr>wb_sync_offs := 8\<rparr> \<and> take 8 (ubi 5) = take 8 (wb_buf demo_wbuf)
     else w' = demo_wbuf)"
  using wbuf_commit_durable [OF demo_wbuf_ok demo_sel(2) _ _ _ ram_kernel_ok(1), of 5]
  by (simp add: demo_sel cong: if_cong)

section \<open>Reading an object\<close>

lemma ubi_read_at_ok:
  assumes "ubi_reads K content" "0 \<le> offs" "0 \<le> n" "offs + n \<le> int (length (content u l))"
    and "0 \<le> pos" "pos + n \<le> int (length b)"
  shows "ubi_read_at K u l b pos offs n =
    Some (Inr (splice b (nat pos) (take (nat n) (drop (nat offs) (content u l)))))"
proof -
  have "nat pos + nat n \<le> length b" "nat n \<le> length (content u l) - nat offs" using assms by linarith+
  then show ?thesis using assms by (simp add: ubi_read_at_def ubi_reads_def buf_put_Some)
qed

text \<open>
  The page loops copy a prefix of the range and stop with less than one unit left; the number of
  bytes to read is enough fuel.
\<close>

lemma read_pages_loop_ok:
  assumes K: "ubi_reads K content" and io: "0 < io" "io \<le> lim + 1" and a: "0 \<le> a"
    and c_def: "c = drop (nat a) (content u l)"
  shows "0 \<le> offs \<Longrightarrow> 0 \<le> toread \<Longrightarrow> a + offs + toread \<le> int (length (content u l)) \<Longrightarrow>
    offs + toread \<le> int (length b) \<Longrightarrow> take (nat offs) b = take (nat offs) c \<Longrightarrow> nat toread \<le> fuel \<Longrightarrow>
    \<exists>b' offs' toread'. read_pages_loop fuel K u l a io lim b offs toread = Some (Inr (b', offs', toread')) \<and>
      length b' = length b \<and> offs' + toread' = offs + toread \<and> offs \<le> offs' \<and> 0 \<le> toread' \<and>
      toread' \<le> max lim 0 \<and> io dvd toread - toread' \<and> take (nat offs') b' = take (nat offs') c"
proof (induction fuel arbitrary: b offs toread)
  case 0
  then show ?case using io by (simp add: read_pages_loop.simps)
next
  case (Suc fuel)
  show ?case
  proof (cases "lim < toread")
    case False
    then show ?thesis using Suc.prems by (simp add: read_pages_loop.simps)
  next
    case True
    let ?bs = "take (nat io) (drop (nat (a + offs)) (content u l))"
    let ?b = "splice b (nat offs) ?bs"
    have r: "ubi_read_at K u l b offs (a + offs) io = Some (Inr ?b)"
      using K Suc.prems True io a by (intro ubi_read_at_ok) simp_all
    have fit: "nat offs + nat io \<le> length b" "nat offs + nat io \<le> length c" "nat (a + offs) = nat offs + nat a"
      using Suc.prems True io a unfolding c_def by simp_all
    have bs: "?bs = take (nat io) (drop (nat offs) c)" unfolding c_def fit by (simp add: add.commute)
    moreover have "nat io \<le> length (drop (nat offs) c)" using fit(2) unfolding length_drop by linarith
    ultimately have lbs: "length ?bs = nat io" by simp
    have "take (nat (offs + io)) ?b = take (nat offs) c @ ?bs"
      using take_splice_at [of "nat offs" b ?bs] Suc.prems fit lbs io by (simp add: nat_add_distrib)
    also have "\<dots> = take (nat (offs + io)) c"
      using Suc.prems io unfolding bs by (simp add: nat_add_distrib take_add)
    finally have t: "take (nat (offs + io)) ?b = take (nat (offs + io)) c" .
    have lb: "length ?b = length b" using lbs fit by simp
    have fuel: "nat (toread - io) \<le> fuel" using Suc.prems io by linarith
    obtain b' offs' toread' where IH:
      "read_pages_loop fuel K u l a io lim ?b (offs + io) (toread - io) = Some (Inr (b', offs', toread'))"
      "length b' = length b" "offs' + toread' = offs + toread" "offs + io \<le> offs'" "0 \<le> toread'"
      "toread' \<le> max lim 0" "io dvd toread - io - toread'" "take (nat offs') b' = take (nat offs') c"
      using Suc.IH [of "offs + io" "toread - io" ?b] Suc.prems True io t lb fuel by auto
    have "io dvd toread - toread'" using dvd_add [OF IH(7) dvd_refl] by (simp add: algebra_simps)
    then show ?thesis using IH True r io by (simp add: read_pages_loop.simps)
  qed
qed

lemma wbuf_read_obj_ok:
  assumes "ubi_reads K content" "su_min_io_size (bi_super bi) = 2 ^ k"
    and "0 < su_max_io_size (bi_super bi)" "2 ^ k dvd su_max_io_size (bi_super bi)"
    and "length (content (bi_ubi bi) (uint (oa_lnum addr))) = leb" "int leb < 2 ^ 31" "2 ^ k dvd int leb"
    and "length (rb_buf (bi_rbuf bi)) = leb" "uint (oa_offs addr) + uint (oa_len addr) \<le> int leb"
    and "unat (oa_len addr) \<le> length buf"
  shows "\<exists>rbuf. length (rb_buf rbuf) = leb \<and> wbuf_read_obj K bi buf addr = Some (None, bi\<lparr>bi_rbuf := rbuf\<rparr>,
    splice buf 0 (take (unat (oa_len addr))
      (drop (unat (oa_offs addr)) (content (bi_ubi bi) (uint (oa_lnum addr))))))"
proof -
  let ?C = "content (bi_ubi bi) (uint (oa_lnum addr))"
  let ?m = "2 ^ k :: int" and ?M = "su_max_io_size (bi_super bi)" and ?o = "uint (oa_offs addr)"
  define p where "p = ?o mod ?m"
  define a where "a = ?o - p"
  define e where "e = ALIGN (?o + uint (oa_len addr)) ?m"
  define b where "b = rb_buf (bi_rbuf bi)"
  have sum: "uint (oa_offs addr + oa_len addr) = ?o + uint (oa_len addr)"
    using assms(6,9) by (simp add: uint_word_ariths)
  have p: "0 \<le> p" "p < ?m" "0 \<le> a" "?m dvd a"
    unfolding a_def p_def using zmod_le_nonneg_dividend [of ?o ?m] by simp_all
  have e: "?o + uint (oa_len addr) \<le> e" "e \<le> int leb" "?m dvd e"
    unfolding e_def using assms(7,9) by (simp_all add: ALIGN_ge ALIGN_le_dvd ALIGN_dvd)
  have d: "?m dvd e - a" using p e by simp
  have ae: "0 \<le> e - a" using e p unfolding a_def by (smt (verit) uint_ge_0)
  obtain b1 o1 t1 where l1:
    "read_pages_loop (nat (e - a)) K (bi_ubi bi) (uint (oa_lnum addr)) a ?M ?M b 0 (e - a) = Some (Inr (b1, o1, t1))"
    "length b1 = length b" "o1 + t1 = e - a" "0 \<le> o1" "0 \<le> t1" "?M dvd e - a - t1"
    "take (nat o1) b1 = take (nat o1) (drop (nat a) ?C)"
    using read_pages_loop_ok [OF assms(1), where io = ?M and lim = ?M and a = a and offs = 0 and toread = "e - a"
        and b = b and u = "bi_ubi bi" and l = "uint (oa_lnum addr)" and fuel = "nat (e - a)"]
      assms(3,5,8) p e ae by (auto simp: b_def)
  have t1: "?m dvd t1" using dvd_diff [OF d dvd_trans [OF assms(4) l1(6)]] by simp
  obtain b2 o2 t2 where l2:
    "read_pages_loop (nat t1) K (bi_ubi bi) (uint (oa_lnum addr)) a ?m (?m - 1) b1 o1 t1 = Some (Inr (b2, o2, t2))"
    "length b2 = length b" "o2 + t2 = e - a" "0 \<le> t2" "t2 \<le> ?m - 1" "?m dvd t1 - t2"
    "take (nat o2) b2 = take (nat o2) (drop (nat a) ?C)"
    using read_pages_loop_ok [OF assms(1), where io = ?m and lim = "?m - 1" and a = a and offs = o1 and toread = t1
        and b = b1 and u = "bi_ubi bi" and l = "uint (oa_lnum addr)" and fuel = "nat t1"]
      assms(5,8) p e ae l1 by (auto simp: b_def)
  have "?m dvd t2" using dvd_diff [OF t1 l2(6)] by simp
  then have t2: "t2 = 0" using l2(4,5) by (metis zdvd_not_zless order_le_less zle_diff1_eq)
  let ?rb = "(bi_rbuf bi)\<lparr>rb_buf := b2, rb_offs := a\<rparr>"
  have pages: "wbuf_read_obj_pages K bi addr (bi_rbuf bi) = Some (Inr p, ?rb)"
    unfolding wbuf_read_obj_pages_def Let_def assms(2) sum
      p_def [symmetric] a_def [symmetric] e_def [symmetric] b_def [symmetric]
      ALIGN_id [OF d] ALIGN_id [OF p(4)]
    using l1(1) l2(1) t2 by simp
  have o: "nat o2 = nat (e - a)" using l2(3) t2 by simp
  have i: "int (unat (oa_len addr)) = uint (oa_len addr)" "int (unat (oa_offs addr)) = ?o" by simp_all
  have len: "nat p + unat (oa_len addr) \<le> nat (e - a)" "nat (e - a) \<le> length b2" "nat p + nat a = unat (oa_offs addr)"
    using i e p ae l2(2) assms(8) unfolding a_def b_def by linarith+
  have pl: "unat (oa_len addr) \<le> nat o2 - nat p" using len o by linarith
  have "take (unat (oa_len addr)) (drop (nat p) b2) = take (unat (oa_len addr)) (drop (nat p) (take (nat o2) b2))"
    using pl by (simp add: drop_take min_def)
  also have "\<dots> = take (unat (oa_len addr)) (drop (nat p) (drop (nat a) ?C))"
    unfolding l2(7) using pl by (simp add: drop_take min_def)
  also have "\<dots> = take (unat (oa_len addr)) (drop (unat (oa_offs addr)) ?C)"
    using len by simp
  finally have bytes: "buf_get b2 (nat p) (unat (oa_len addr)) = Some (take (unat (oa_len addr)) (drop (unat (oa_offs addr)) ?C))"
    using len by (simp add: buf_get_Some)
  show ?thesis
    using pages bytes assms(8,10) l2(2)
    by (intro exI [of _ ?rb]) (simp add: wbuf_read_obj_def buf_put_def min.coboundedI2 b_def)
qed

text \<open>
  C28. Reading an object through its pages gives exactly the bytes of its address range: the page
  loops terminate, never leave the read-buffer, and neither the rounding to pages nor the switch
  from large to small reads shifts or loses a byte.
\<close>

theorem wbuf_read_obj_correct:
  assumes "ubi_reads K content" "su_min_io_size (bi_super bi) = 2 ^ k"
    and "0 < su_max_io_size (bi_super bi)" "2 ^ k dvd su_max_io_size (bi_super bi)"
    and "length (content (bi_ubi bi) (uint (oa_lnum addr))) = leb" "int leb < 2 ^ 31" "2 ^ k dvd int leb"
    and "length (rb_buf (bi_rbuf bi)) = leb" "uint (oa_offs addr) + uint (oa_len addr) \<le> int leb"
    and "unat (oa_len addr) \<le> length buf"
  shows "\<exists>rbuf. wbuf_read_obj K bi buf addr = Some (None, bi\<lparr>bi_rbuf := rbuf\<rparr>,
    splice buf 0 (take (unat (oa_len addr))
      (drop (unat (oa_offs addr)) (content (bi_ubi bi) (uint (oa_lnum addr))))))"
  using wbuf_read_obj_ok [OF assms] by blast

theorem wbuf_read_obj_correct_witness:
  "\<exists>rbuf. wbuf_read_obj ram_kernel demo_ram (replicate 24 0) \<lparr>oa_lnum = 3, oa_offs = 13, oa_len = 24, oa_sqnum = 1\<rparr> =
     Some (None, demo_ram\<lparr>bi_rbuf := rbuf\<rparr>, replicate 24 255)"
  using wbuf_read_obj_correct [OF ram_kernel_ok(2) demo_sel(2), of
      "\<lparr>oa_lnum = 3, oa_offs = 13, oa_len = 24, oa_sqnum = 1\<rparr>" 64 "replicate 24 0"]
  by (simp add: demo_sel splice_def)

section \<open>Scanning\<close>

lemma check_obj_header_total:
  assumes "0 \<le> sz" "sz < 2 ^ 31" "obj + nat sz \<le> length b"
  shows "\<exists>r. check_obj_header K b obj sz = Some r \<and> r \<in> {None, Some ENOENT, Some EINVAL} \<and>
    (r = None \<longrightarrow> 24 \<le> uint (rd32 b (obj + ch_len)) \<and> uint (rd32 b (obj + ch_len)) \<le> sz)"
proof (cases "sz < 24")
  case True
  then show ?thesis using assms by (simp add: check_obj_header_def word_less_def)
next
  case False
  let ?len = "rd32 b (obj + 16)"
  have l: "obj + 24 \<le> length b" using False assms by linarith
  have c: "\<not> (word_of_int sz :: u64) < 24" using False assms by (simp add: word_less_def)
  show ?thesis
  proof (cases "?len < 24 \<or> word_of_int sz < ?len")
    case True
    then show ?thesis using c l by (simp add: check_obj_header_def access_simps)
  next
    case False
    then have b: "24 \<le> uint ?len" "uint ?len \<le> sz" using assms by (simp_all add: word_less_def not_less)
    have u: "24 \<le> unat ?len" "unat ?len \<le> nat sz"
      using b(1) nat_mono [OF b(2)] by (simp_all add: unat_uint_le)
    then have "unat (?len - 8) = unat ?len - 8" by (simp add: unat_sub word_le_nat_alt)
    then have "obj + 8 + unat (?len - 8) \<le> length b" using assms u by simp
    then have body: "buf_get b (obj + 8) (unat (?len - 8)) = Some (take (unat (?len - 8)) (drop (obj + 8) b))"
      by (simp add: buf_get_Some)
    show ?thesis using b c l False body
      by (cases "rd32 b obj = BILBYFS_OBJ_MAGIC"; cases "k_crc32 K BILBYFS_CRC32_INIT (take (unat (?len - 8)) (drop (obj + 8) b)) = rd32 b (obj + 4)")
        (simp_all add: check_obj_header_def getw_Some)
  qed
qed

text \<open>
  Every step over pad bytes moves on by eight bytes, so the size of what is left of the buffer is
  enough fuel.
\<close>

lemma next_obj_loop_total:
  assumes "rb_size r = int (length (rb_buf r))" "0 \<le> rb_offs r" "rb_offs r + rb_size r < 2 ^ 31"
    and ro: "uint (word_of_int (rb_offs r) :: u32) = rb_offs r"
      "uint (word_of_int (rb_offs r + rb_size r) :: u32) = rb_offs r + rb_size r"
  shows "rb_offs r \<le> uint (oa_offs a) \<Longrightarrow> uint (oa_offs a) + uint (oa_len a) < 2 ^ 32 \<Longrightarrow>
    nat (rb_offs r + rb_size r - (uint (oa_offs a) + uint (oa_len a))) \<le> fuel \<Longrightarrow>
    \<exists>res a'. next_obj_loop fuel K a r = Some (res, a') \<and> oa_lnum a' = oa_lnum a \<and>
      (case res of Inl e \<Rightarrow> e \<in> {ENOENT, EINVAL}
       | Inr obj \<Rightarrow> uint (oa_offs a') = rb_offs r + int obj \<and> uint (oa_offs a) + uint (oa_len a) \<le> uint (oa_offs a') \<and>
           24 \<le> uint (oa_len a') \<and> uint (oa_offs a') + uint (oa_len a') \<le> rb_offs r + rb_size r)"
proof (induction fuel arbitrary: a)
  case 0
  have "uint (oa_offs a + oa_len a) = uint (oa_offs a) + uint (oa_len a)" using 0 by (simp add: uint_word_ariths)
  then show ?case using 0 ro by (simp add: next_obj_loop.simps word_le_def)
next
  case (Suc fuel)
  let ?w = "oa_offs a + oa_len a"
  have a3: "rb_offs r + rb_size r < 2147483648" using assms(3) by simp
  have w: "uint ?w = uint (oa_offs a) + uint (oa_len a)" using Suc.prems by (simp add: uint_word_ariths)
  show ?case
  proof (cases "rb_offs r + rb_size r \<le> uint ?w")
    case True
    then show ?thesis using Suc.prems ro by (simp add: next_obj_loop.simps word_le_def)
  next
    case False
    let ?obj = "unat (?w - word_of_int (rb_offs r))"
    let ?sz = "rb_offs r + rb_size r - uint ?w"
    have wi: "word_of_int (rb_offs r) \<le> ?w" using Suc.prems(1) uint_ge_0 [of "oa_len a"]
      unfolding word_le_def ro w by linarith
    have o: "int ?obj = uint ?w - rb_offs r" using wi ro by (simp add: uint_minus_simple_alt)
    have szb: "0 \<le> ?sz" "?sz < 2147483648" "?obj + nat ?sz \<le> length (rb_buf r)" "?obj < length (rb_buf r)"
      using False assms(1,2) a3 o Suc.prems(1) uint_ge_0 [of "oa_len a"] w by linarith+
    have "word_of_int (rb_size r) - (?w - word_of_int (rb_offs r)) = word_of_int ?sz" by simp
    then have sz: "sint (word_of_int (rb_size r) - (?w - word_of_int (rb_offs r))) = ?sz"
      using int_words(3) [OF szb(1,2)] by (simp only:)
    from check_obj_header_total [of ?sz ?obj "rb_buf r" K] szb
    obtain c where c: "check_obj_header K (rb_buf r) ?obj ?sz = Some c"
      "c \<in> {None, Some ENOENT, Some EINVAL}"
      "c = None \<longrightarrow> 24 \<le> uint (rd32 (rb_buf r) (?obj + 16)) \<and> uint (rd32 (rb_buf r) (?obj + 16)) \<le> ?sz"
      by auto
    have nend: "\<not> word_of_int (rb_offs r + rb_size r) \<le> ?w" and st: "word_of_int (rb_offs r) \<le> oa_offs a"
      using False Suc.prems unfolding word_le_def ro by simp_all
    note step = next_obj_loop.simps [of "Suc fuel" K a r] c(1) sz nend st Let_def
    show ?thesis
    proof (cases c)
      case None
      then have "?obj + 24 \<le> length (rb_buf r)" using c(3) szb by linarith
      then have "next_obj_loop (Suc fuel) K a r = Some (Inr ?obj, a\<lparr>oa_offs := ?w,
          oa_len := rd32 (rb_buf r) (?obj + 16), oa_sqnum := rd64 (rb_buf r) (?obj + 8)\<rparr>)"
        using None by (simp add: step getw_Some del: of_int_add)
      then show ?thesis using None c(3) w o by simp
    next
      case (Some e)
      show ?thesis
      proof (cases "e = ENOENT \<and> rd8 (rb_buf r) ?obj = BILBYFS_PAD_BYTE")
        case True
        let ?a = "a\<lparr>oa_offs := ?w, oa_len := 8\<rparr>"
        have lo: "rb_offs r \<le> uint ?w" using w Suc.prems(1) uint_ge_0 [of "oa_len a"] by linarith
        have fu: "nat (rb_offs r + rb_size r - (uint (oa_offs a) + uint (oa_len a) + 8)) \<le> fuel"
          using Suc.prems(3) False w by linarith
        obtain res a' where "next_obj_loop fuel K ?a r = Some (res, a')" "oa_lnum a' = oa_lnum ?a"
          "case res of Inl e \<Rightarrow> e \<in> {ENOENT, EINVAL}
           | Inr obj \<Rightarrow> uint (oa_offs a') = rb_offs r + int obj \<and> uint (oa_offs ?a) + uint (oa_len ?a) \<le> uint (oa_offs a') \<and>
             24 \<le> uint (oa_len a') \<and> uint (oa_offs a') + uint (oa_len a') \<le> rb_offs r + rb_size r"
          using Suc.IH [of ?a] False Suc.prems w assms(1-3) lo fu by auto
        moreover have "next_obj_loop (Suc fuel) K a r = next_obj_loop fuel K ?a r"
          using True Some szb(4) by (simp add: step getw_Some del: of_int_add)
        ultimately show ?thesis using w by (cases res) auto
      next
        case no: False
        then show ?thesis using Some c(2) szb by (auto simp: step getw_Some simp del: of_int_add)
      qed
    qed
  qed
qed

text \<open>
  Looking for the next object in a read-buffer always ends and stays inside the buffer. An
  object that is found lies behind the previous one, has at least the size of a header and ends
  inside the buffer, so a scan of the buffer makes progress with every object; otherwise the
  answer is \<open>ENOENT\<close> or \<open>EINVAL\<close>.
\<close>

lemma wbuf_next_obj_addr_total:
  assumes "rb_size r = int (length (rb_buf r))" "0 \<le> rb_offs r" "rb_offs r + rb_size r < 2 ^ 31"
    and "rb_offs r \<le> uint (oa_offs a)" "uint (oa_offs a) + uint (oa_len a) < 2 ^ 32"
  shows "\<exists>res a'. wbuf_next_obj_addr K a r = Some (res, a') \<and> oa_lnum a' = oa_lnum a \<and>
      (case res of Inl e \<Rightarrow> e \<in> {ENOENT, EINVAL}
       | Inr obj \<Rightarrow> uint (oa_offs a') = rb_offs r + int obj \<and> uint (oa_offs a) + uint (oa_len a) \<le> uint (oa_offs a') \<and>
           24 \<le> uint (oa_len a') \<and> uint (oa_offs a') + uint (oa_len a') \<le> rb_offs r + rb_size r)"
proof -
  have a3: "rb_offs r + rb_size r < 2147483648" using assms(3) by simp
  have "uint (word_of_int (rb_offs r) :: u32) = rb_offs r"
    by (rule int_words(1)) (use assms(1,2) a3 in linarith)+
  moreover have "uint (word_of_int (rb_offs r + rb_size r) :: u32) = rb_offs r + rb_size r"
    by (rule int_words(1)) (use assms(1,2) a3 in linarith)+
  moreover have "nat (rb_offs r + rb_size r - (uint (oa_offs a) + uint (oa_len a))) \<le> length (rb_buf r)"
    using assms uint_ge_0 [of "oa_len a"] by linarith
  ultimately show ?thesis
    unfolding wbuf_next_obj_addr_def using assms by (intro next_obj_loop_total)
qed

lemma wbuf_next_obj_addr_total_example:
  "\<exists>res a'. wbuf_next_obj_addr demo_kernel \<lparr>oa_lnum = 3, oa_offs = 0, oa_len = 0, oa_sqnum = 0\<rparr>
      \<lparr>rb_buf = replicate 64 0x42, rb_size = 64, rb_offs = 0\<rparr> = Some (res, a') \<and> oa_lnum a' = 3"
  using wbuf_next_obj_addr_total [of "\<lparr>rb_buf = replicate 64 0x42, rb_size = 64, rb_offs = 0\<rparr>"
      "\<lparr>oa_lnum = 3, oa_offs = 0, oa_len = 0, oa_sqnum = 0\<rparr>" demo_kernel] by auto

end
