(* ===== verification/Bilby_Ostore.thy ===== *)
theory Bilby_Ostore
  imports Bilby_Idx Bilby_Gim Bilby_Fsm Bilby_Wbuf
begin

unbundle bit_operations_syntax

text \<open>
  \<open>ostore.c\<close>, first part: reading objects, the update of index, garbage information and free
  space for one object (\<open>proc_obj\<close>), the summary of an erase-block, and the write path of a
  transaction (\<open>ostore_write_obj_list\<close>) with synchronisation and erasure. Mounting is in the
  theory of the mount code. The garbage collector, which \<open>fsm_alloc_eb\<close> calls and which itself
  writes objects, is an argument of the write path.
  Integers of C that the code converts between signed and unsigned are converted here with
  \<open>word_of_int\<close>, \<open>uint\<close> and \<open>sint\<close> at the same places; a \<open>sizeof\<close> has 64 bits.
\<close>

section \<open>Reading\<close>

definition ostore_get_obj_size :: "'u bilbyfs_info \<Rightarrow> obj_id \<Rightarrow> (errno + int) option" where
  "ostore_get_obj_size bi oid = do {
     r \<leftarrow> idx_get_obj_addr bi oid;
     Some (case r of Inl e \<Rightarrow> Inl e | Inr addr \<Rightarrow> Inr (sint (oa_len addr)))
   }"

text \<open>
  The result carries the buffer after the call. The id of the object in the buffer is compared
  after a read from flash also when the read failed.
\<close>

definition ostore_read_obj ::
  "'u kernel \<Rightarrow> 'u bilbyfs_info \<Rightarrow> obj_id \<Rightarrow> buf \<Rightarrow> u32 \<Rightarrow>
   (errno option \<times> 'u bilbyfs_info \<times> buf) option" where
  "ostore_read_obj K bi oid buf len = do {
     r \<leftarrow> idx_get_obj_addr bi oid;
     (case r of
        Inl e \<Rightarrow> Some (Some e, bi, buf)
      | Inr addr \<Rightarrow>
          if len < oa_len addr then Some (Some EINVAL, bi, buf)
          else if oa_lnum addr = fsm_get_lnum bi then do {
            bytes \<leftarrow> buf_get (wb_buf (bi_wbuf bi)) (unat (oa_offs addr)) (unat (oa_len addr));
            buf \<leftarrow> buf_put buf 0 bytes;
            Some (None, bi, buf)
          }
          else do {
            (err, bi, buf) \<leftarrow> wbuf_read_obj K bi buf addr;
            x \<leftarrow> get_obj_id buf 0;
            bilbyfs_assert (x = oid);
            Some (err, bi, buf)
          })
   }"

definition ostore_next_obj_id :: "'u bilbyfs_info \<Rightarrow> obj_id \<Rightarrow> obj_id option" where
  "ostore_next_obj_id bi oid = do {
     nxt \<leftarrow> idx_next_obj_id bi oid;
     Some (if inum_from_id oid = inum_from_id nxt then nxt else NIL_ID)
   }"

section \<open>Processing one object\<close>

text \<open>
  An older object that a deletion object covers leaves the index; its index node becomes the
  garbage record.
\<close>

definition proc_del_one ::
  "'u bilbyfs_info \<Rightarrow> obj_id \<Rightarrow> obj_addr \<Rightarrow> 'u bilbyfs_info option" where
  "proc_del_one bi curr_id addr = do {
     r \<leftarrow> idx_get_obj_addr bi curr_id;
     (case r of
        Inl e \<Rightarrow> Some bi
      | Inr old_addr \<Rightarrow>
          if oa_sqnum old_addr < oa_sqnum addr then do {
            bi \<leftarrow> idx_del_obj_addr bi curr_id;
            bi \<leftarrow> gim_mark_garbage bi curr_id old_addr True;
            fsm_mark_dirty bi old_addr
          }
          else Some bi)
   }"

lemma idx_greater_gt: "idx_greater t oid g = Some x \<Longrightarrow> (\<And>y. g = Some y \<Longrightarrow> oid < xn_id y) \<Longrightarrow> oid < xn_id x"
  by (induction t oid g rule: idx_greater.induct) (auto split: if_splits)

lemma idx_next_obj_id_gt:
  assumes "idx_next_obj_id bi oid = Some nxt" "nxt \<noteq> NIL_ID"
  shows "oid < nxt"
  using assms idx_greater_gt [of _ oid None]
  by (auto simp: idx_next_obj_id_def bind_eq_Some_conv Let_def split: option.splits if_splits)

text \<open>
  The loop over the objects a deletion object covers. The ids increase, so it ends.
\<close>

lemma nil_id_max: "x \<noteq> NIL_ID \<Longrightarrow> x < NIL_ID"
proof -
  assume "x \<noteq> NIL_ID"
  moreover have "NIL_ID = - 1" by simp
  ultimately show ?thesis using max_word_max [of x] by (simp only: order_le_less) blast
qed

lemma id_measure:
  assumes "(x :: u64) < y"
  shows "2 ^ 64 - unat y < 2 ^ 64 - unat x"
proof -
  have "unat y < 2 ^ 64" using unsigned_less [of y] by simp
  then show ?thesis using assms unfolding word_less_nat_alt by linarith
qed

lemma proc_del_decreases:
  assumes "curr_id \<noteq> NIL_ID" "idx_next_obj_id bi curr_id = Some nxt"
  shows "2 ^ 64 - unat nxt < 2 ^ 64 - unat curr_id"
  by (rule id_measure) (metis assms idx_next_obj_id_gt nil_id_max)

function proc_del_loop :: "'u bilbyfs_info \<Rightarrow> obj_id \<Rightarrow> obj_addr \<Rightarrow> 'u bilbyfs_info option" where
  "proc_del_loop bi curr_id addr =
     (if curr_id = NIL_ID then Some bi
      else case proc_del_one bi curr_id addr of
        None \<Rightarrow> None
      | Some bi \<Rightarrow>
          (case idx_next_obj_id bi curr_id of
             None \<Rightarrow> None
           | Some nxt \<Rightarrow> proc_del_loop bi nxt addr))"
  by pat_completeness auto
termination
  by (relation "measure (\<lambda>(bi, curr_id, addr). 2 ^ 64 - unat curr_id)")
    (simp, simp only: in_measure split_conv, rule proc_del_decreases)

declare proc_del_loop.simps [simp del]

text \<open>
  \<open>proc_obj\<close> always returns 0. An index node that \<open>idx_get_or_create_obj_addr_node\<close> created has
  sequence number 0.
\<close>

definition proc_obj ::
  "'u bilbyfs_info \<Rightarrow> u8 \<Rightarrow> obj_id \<Rightarrow> obj_addr \<Rightarrow> (errno option \<times> 'u bilbyfs_info) option" where
  "proc_obj bi type oid addr =
     (if type = BILBYFS_PAD_OBJ then do {
        bi \<leftarrow> fsm_mark_dirty bi addr;
        Some (None, bi)
      }
      else if type = BILBYFS_INODE_OBJ \<or> type = BILBYFS_DENTARR_OBJ \<or> type = BILBYFS_DATA_OBJ then do {
        bi \<leftarrow> idx_get_or_create_obj_addr_node bi oid;
        node_addr \<leftarrow> idx_node_addr bi oid;
        if oa_sqnum node_addr = 0 then do {
          bi \<leftarrow> idx_node_set_addr bi oid addr;
          Some (None, bi)
        }
        else if oa_sqnum node_addr < oa_sqnum addr then do {
          bi \<leftarrow> idx_node_set_addr bi oid addr;
          node_addr \<leftarrow> idx_node_addr bi oid;
          bi \<leftarrow> gim_mark_garbage bi oid node_addr False;
          node_addr \<leftarrow> idx_node_addr bi oid;
          bi \<leftarrow> fsm_mark_dirty bi node_addr;
          Some (None, bi)
        }
        else do {
          bi \<leftarrow> gim_mark_garbage bi oid addr False;
          bi \<leftarrow> fsm_mark_dirty bi addr;
          Some (None, bi)
        }
      }
      else if type = BILBYFS_DEL_OBJ then do {
        bi \<leftarrow>
          (if type_from_id oid = BILBYFS_DENTARR_OBJ then proc_del_one bi oid addr
           else if type_from_id oid = BILBYFS_INODE_OBJ \<or> type_from_id oid = BILBYFS_DATA_OBJ
           then proc_del_loop bi oid addr
           else None);
        bi \<leftarrow> gim_mark_garbage bi oid addr False;
        bi \<leftarrow> fsm_mark_dirty bi addr;
        Some (None, bi)
      }
      else None)"

section \<open>The summary of an erase-block\<close>

definition get_obj_trans :: "int \<Rightarrow> int \<Rightarrow> u8" where
  "get_obj_trans count i =
     (if count = 1 then BILBYFS_TRANS_ATOM
      else if i = 0 then BILBYFS_TRANS_ST
      else if i = count - 1 then BILBYFS_TRANS_END
      else BILBYFS_TRANS_IN)"

definition obj_has_id :: "buf \<Rightarrow> nat \<Rightarrow> bool option" where
  "obj_has_id b obj = do {
     ty \<leftarrow> get8 b (obj + ch_type);
     Some (ty = BILBYFS_INODE_OBJ \<or> ty = BILBYFS_DENTARR_OBJ \<or> ty = BILBYFS_DATA_OBJ \<or> ty = BILBYFS_DEL_OBJ)
   }"

definition obj_sum_size_with_extra :: "buf \<Rightarrow> u32 \<Rightarrow> int option" where
  "obj_sum_size_with_extra osum nb_extra_entries = do {
     sz \<leftarrow> obj_sum_size osum;
     Some (sint (word_of_int
       (ALIGN (sz + uint nb_extra_entries * int BILBYFS_SUM_ENTRY_SZ) BILBYFS_OBJ_PADDING) :: u32))
   }"

text \<open>Returns the size of the padding in front of the summary.\<close>

definition ostore_write_summary ::
  "'u kernel \<Rightarrow> 'u bilbyfs_info \<Rightarrow> (errno option \<times> u32 \<times> 'u bilbyfs_info) option" where
  "ostore_write_summary K bi = do {
     let wbuf = bi_wbuf bi;
     sz \<leftarrow> obj_sum_size (bi_summary bi);
     let len = (word_of_int sz :: u32);
     bilbyfs_assert (len \<le> word_of_int (wb_avail wbuf));
     let pad_sz = word_of_int (wb_avail wbuf) - len;
     (bi, wbuf) \<leftarrow> wbuf_pad K bi (uint pad_sz) wbuf;
     osum \<leftarrow> pack_obj_sum (bi_summary bi) (word_of_int (wb_used wbuf));
     let (sqnum, bi) = next_sqnum bi;
     osum \<leftarrow> pack_obj_header K osum 0 sqnum BILBYFS_TRANS_ATOM;
     (err, wbuf) \<leftarrow> wbuf_write_obj osum (sint len) wbuf;
     osum \<leftarrow> (if err = None then put32 osum sum_nb_sum_entry 0 else Some osum);
     bilbyfs_assert (wb_avail wbuf = 0);
     Some (err, pad_sz, bi\<lparr>bi_summary := osum, bi_wbuf := wbuf\<rparr>)
   }"

text \<open>
  The two search loops of \<open>sum_obj\<close>, over the \<open>n\<close> entries from \<open>i\<close> on: \<open>Some None\<close> when the
  function returns without a new entry, otherwise the index of the entry to fill in.
\<close>

fun sum_find_del :: "buf \<Rightarrow> obj_id \<Rightarrow> u64 \<Rightarrow> nat \<Rightarrow> nat \<Rightarrow> nat option option" where
  "sum_find_del osum oid sqnum 0 i = Some (Some i)"
| "sum_find_del osum oid sqnum (Suc n) i = do {
     eoid \<leftarrow> get64 osum (sum_entry_offs i + se_id);
     esqnum \<leftarrow> get64 osum (sum_entry_offs i + se_sqnum);
     if type_from_id oid = BILBYFS_DENTARR_OBJ then
       (if eoid = oid then Some (if sqnum < esqnum then None else Some i)
        else sum_find_del osum oid sqnum n (Suc i))
     else if inum_from_id eoid = inum_from_id oid \<and> oid < eoid \<and> esqnum < sqnum then Some (Some i)
     else sum_find_del osum oid sqnum n (Suc i)
   }"

fun sum_find_obj :: "buf \<Rightarrow> obj_id \<Rightarrow> u64 \<Rightarrow> nat \<Rightarrow> nat \<Rightarrow> nat option option" where
  "sum_find_obj osum oid sqnum 0 i = Some (Some i)"
| "sum_find_obj osum oid sqnum (Suc n) i = do {
     is_del \<leftarrow> obj_sum_entry_is_del osum (sum_entry_offs i);
     if is_del \<and> type_from_id oid \<noteq> BILBYFS_DENTARR_OBJ then sum_find_obj osum oid sqnum n (Suc i)
     else do {
       eoid \<leftarrow> get64 osum (sum_entry_offs i + se_id);
       esqnum \<leftarrow> get64 osum (sum_entry_offs i + se_sqnum);
       if eoid = oid then Some (if sqnum < esqnum then None else Some i)
       else sum_find_obj osum oid sqnum n (Suc i)
     }
   }"

definition sum_obj :: "'u bilbyfs_info \<Rightarrow> buf \<Rightarrow> obj_addr \<Rightarrow> 'u bilbyfs_info option" where
  "sum_obj bi obj addr = do {
     let osum = bi_summary bi;
     nb_sum_entry \<leftarrow> get32 osum sum_nb_sum_entry;
     oid \<leftarrow> get_obj_id obj 0;
     type \<leftarrow> get8 obj ch_type;
     let is_del = (type = BILBYFS_DEL_OBJ);
     found \<leftarrow>
       (if is_del then sum_find_del osum oid (oa_sqnum addr) (unat nb_sum_entry) 0
        else sum_find_obj osum oid (oa_sqnum addr) (unat nb_sum_entry) 0);
     (case found of
        None \<Rightarrow> Some bi
      | Some i \<Rightarrow> do {
          let entry = sum_entry_offs i;
          osum \<leftarrow> put64 osum (entry + se_id) oid;
          osum \<leftarrow> put32 osum (entry + se_len) (oa_len addr);
          osum \<leftarrow> put64 osum (entry + se_sqnum) (oa_sqnum addr);
          osum \<leftarrow> put32 osum (entry + se_del_flag_and_offs)
                   (oa_offs addr OR (if is_del then BILBYFS_SUM_ENTRY_DEL_FLAG_MASK else 0));
          osum \<leftarrow>
            (if i = unat nb_sum_entry then do {
               osum \<leftarrow> put32 osum sum_nb_sum_entry (nb_sum_entry + 1);
               put16 osum (entry + se_count) 0
             }
             else do {
               count \<leftarrow> get16 osum (entry + se_count);
               put16 osum (entry + se_count) (count + 1)
             });
          Some (bi\<lparr>bi_summary := osum\<rparr>)
        })
   }"

section \<open>Synchronisation\<close>

text \<open>
  \<open>padding_size\<close> is not initialised when \<open>wbuf_prepare_commit\<close> leaves it alone, which it does
  only for a full buffer.
\<close>

definition ostore_sync ::
  "'u kernel \<Rightarrow> 'u bilbyfs_info \<Rightarrow> bool \<Rightarrow> (errno option \<times> 'u bilbyfs_info) option" where
  "ostore_sync K bi force_summary = do {
     let wbuf = bi_wbuf bi;
     let force_summary = (if bi_no_summary bi then False else force_summary);
     if wb_sync_offs wbuf = wb_used wbuf \<and> \<not> force_summary then Some (None, bi)
     else if wb_avail wbuf = 0 then Some (None, bi)
     else do {
       bilbyfs_assert (fsm_get_lnum bi \<noteq> 0);
       let curr_addr = \<lparr>oa_lnum = fsm_get_lnum bi, oa_offs = word_of_int (wb_used wbuf), oa_len = 0, oa_sqnum = 0\<rparr>;
       x \<leftarrow> obj_sum_size_with_extra (bi_summary bi) 1;
       let sum_sz = (word_of_int x :: u32);
       let used = (word_of_int (ALIGN (wb_used wbuf) (su_min_io_size (bi_super bi))) :: u32);
       let full = ((word_of_int (su_leb_size (bi_super bi)) :: u64) < ucast (used + sum_sz) + of_nat BILBYFS_CH_SZ);
       (err, padding_size, bi) \<leftarrow>
         (if \<not> bi_no_summary bi \<and> (force_summary \<or> full) then ostore_write_summary K bi
          else do {
            (pad, bi, wbuf) \<leftarrow> wbuf_prepare_commit K bi wbuf;
            pad_sz \<leftarrow> pad;
            Some (None, word_of_int pad_sz, bi\<lparr>bi_wbuf := wbuf\<rparr>)
          });
       (case err of
          Some e \<Rightarrow> Some (Some e, bi)
        | None \<Rightarrow> do {
            bi \<leftarrow> (if 0 < padding_size then fsm_mark_dirty bi (curr_addr\<lparr>oa_len := padding_size\<rparr>) else Some bi);
            (err, bi, wbuf) \<leftarrow> wbuf_commit K bi (fsm_get_lnum bi) (bi_wbuf bi);
            Some (err, bi\<lparr>bi_wbuf := wbuf\<rparr>)
          })
     }
   }"

section \<open>Writing a transaction\<close>

fun obj_list_serial_size :: "buf list \<Rightarrow> u32 \<Rightarrow> u32 option" where
  "obj_list_serial_size [] sz = Some sz"
| "obj_list_serial_size (obj # objs) sz = do {
     len \<leftarrow> get32 obj ch_len;
     obj_list_serial_size objs (sz + len)
   }"

text \<open>The loops of \<open>ostore_write_obj_list\<close>: headers, copies to the write-buffer, index update.\<close>

fun pack_headers ::
  "'u kernel \<Rightarrow> 'u bilbyfs_info \<Rightarrow> int \<Rightarrow> int \<Rightarrow> buf list \<Rightarrow> ('u bilbyfs_info \<times> buf list) option" where
  "pack_headers K bi count i [] = Some (bi, [])"
| "pack_headers K bi count i (obj # objs) = do {
     let (sqnum, bi) = next_sqnum bi;
     obj \<leftarrow> pack_obj_header K obj 0 sqnum (get_obj_trans count i);
     (bi, objs) \<leftarrow> pack_headers K bi count (i + 1) objs;
     Some (bi, obj # objs)
   }"

fun write_objs :: "buf list \<Rightarrow> bilbyfs_wbuf \<Rightarrow> (errno option \<times> bilbyfs_wbuf) option" where
  "write_objs [] wbuf = Some (None, wbuf)"
| "write_objs (obj # objs) wbuf = do {
     len \<leftarrow> get32 obj ch_len;
     (err, wbuf) \<leftarrow> wbuf_write_obj obj (sint len) wbuf;
     if err = None then write_objs objs wbuf else Some (err, wbuf)
   }"

fun proc_objs :: "'u bilbyfs_info \<Rightarrow> obj_addr \<Rightarrow> buf list \<Rightarrow> 'u bilbyfs_info option" where
  "proc_objs bi curr_addr [] = Some bi"
| "proc_objs bi curr_addr (obj # objs) = do {
     len \<leftarrow> get32 obj ch_len;
     sqnum \<leftarrow> get64 obj ch_sqnum;
     let curr_addr = curr_addr\<lparr>oa_offs := oa_offs curr_addr + oa_len curr_addr, oa_len := len, oa_sqnum := sqnum\<rparr>;
     type \<leftarrow> get8 obj ch_type;
     oid \<leftarrow> get_obj_id obj 0;
     (err, bi) \<leftarrow> proc_obj bi type oid curr_addr;
     bilbyfs_assert (err = None);
     bi \<leftarrow> (if bi_no_summary bi then Some bi else sum_obj bi obj curr_addr);
     proc_objs bi curr_addr objs
   }"

text \<open>\<open>NODE_SIZE\<close> on a 64-bit machine: three pointers, an address and an id.\<close>

definition NODE_SIZE :: int where [simp]: "NODE_SIZE = 56"

text \<open>A new erase-block and an empty write-buffer for it.\<close>

definition ostore_new_eb ::
  "('u bilbyfs_info \<Rightarrow> (errno option \<times> 'u bilbyfs_info) option) \<Rightarrow> 'u bilbyfs_info \<Rightarrow> osw_flag \<Rightarrow>
   (errno option \<times> 'u bilbyfs_info) option" where
  "ostore_new_eb gc bi osw_flag = do {
     (err, bi) \<leftarrow> fsm_alloc_eb gc bi osw_flag;
     if err = None then do {
       wbuf \<leftarrow> wbuf_start bi (bi_wbuf bi);
       Some (None, bi\<lparr>bi_wbuf := wbuf\<rparr>)
     }
     else Some (err, bi)
   }"

definition assert_summary_fits :: "'u bilbyfs_info \<Rightarrow> unit option" where
  "assert_summary_fits bi =
     (if bi_no_summary bi then Some ()
      else do {
        sz \<leftarrow> obj_sum_size (bi_summary bi);
        bilbyfs_assert (sz \<le> wb_avail (bi_wbuf bi))
      })"

text \<open>
  The objects are returned with the headers they were given; the caller's blocks are the same
  memory. The comparisons with \<open>leb_size\<close> and \<open>avail\<close> are unsigned.
\<close>

definition ostore_write_obj_list ::
  "('u bilbyfs_info \<Rightarrow> (errno option \<times> 'u bilbyfs_info) option) \<Rightarrow> 'u kernel \<Rightarrow> 'u bilbyfs_info \<Rightarrow>
   buf list \<Rightarrow> osw_flag \<Rightarrow> (errno option \<times> 'u bilbyfs_info \<times> buf list) option" where
  "ostore_write_obj_list gc K bi obj_list osw_flag = do {
     let count = int (length obj_list);
     (err, bi) \<leftarrow>
       (if fsm_get_lnum bi = 0 \<or> wb_avail (bi_wbuf bi) = 0 then ostore_new_eb gc bi osw_flag
        else Some (None, bi));
     if err \<noteq> None then Some (err, bi, obj_list)
     else do {
     assert_summary_fits bi;
     (err, bi) \<leftarrow> (if OSW_SYNC osw_flag then ostore_sync K bi False else Some (None, bi));
     if err \<noteq> None then Some (err, bi, obj_list)
     else do {
     assert_summary_fits bi;
     bilbyfs_assert (0 < count);
     (bi, obj_list) \<leftarrow> pack_headers K bi count 0 obj_list;
     serial_sz \<leftarrow> obj_list_serial_size obj_list 0;
     bilbyfs_assert (serial_sz \<le> word_of_int (su_leb_size (bi_super bi)));
     sum_sz \<leftarrow> (if bi_no_summary bi then Some 0
               else obj_sum_size_with_extra (bi_summary bi) (word_of_int count));
     (err, bi) \<leftarrow>
       (if word_of_int (wb_avail (bi_wbuf bi)) < serial_sz + word_of_int sum_sz then do {
          (err, bi) \<leftarrow> ostore_sync K bi True;
          if err \<noteq> None then Some (err, bi) else ostore_new_eb gc bi osw_flag
        }
        else Some (None, bi));
     if err \<noteq> None then Some (err, bi, obj_list)
     else do {
     let offs = (word_of_int (wb_used (bi_wbuf bi)) :: u32);
     (err, wbuf) \<leftarrow> write_objs obj_list (bi_wbuf bi);
     let bi = bi\<lparr>bi_wbuf := wbuf\<rparr>;
     if err \<noteq> None then Some (err, bi, obj_list)
     else do {
     (err, bi) \<leftarrow> (if OSW_SYNC osw_flag then ostore_sync K bi False else Some (None, bi));
     if err \<noteq> None then Some (err, bi, obj_list)
     else do {
     (err, pool, km) \<leftarrow> allocpool_alloc (bi_node_pool bi) (count * 2) NODE_SIZE (bi_kmem bi);
     let bi = bi\<lparr>bi_node_pool := pool, bi_kmem := km\<rparr>;
     if err \<noteq> None then Some (err, bi, obj_list)
     else do {
     bi \<leftarrow> proc_objs bi \<lparr>oa_lnum = fsm_get_lnum bi, oa_offs = offs, oa_len = 0, oa_sqnum = 0\<rparr> obj_list;
     pool \<leftarrow> allocpool_empty (bi_node_pool bi);
     Some (None, bi\<lparr>bi_node_pool := pool\<rparr>, obj_list)
     }}}}}}
   }"

definition ostore_erase ::
  "'u kernel \<Rightarrow> 'u bilbyfs_info \<Rightarrow> int \<Rightarrow> (errno option \<times> 'u bilbyfs_info) option" where
  "ostore_erase K bi lnum =
     (let (err, bi) = wbuf_erase K bi lnum
      in if err \<noteq> None then Some (err, bi)
         else do {
           bi \<leftarrow> fsm_mark_erased bi lnum;
           Some (None, bi)
         })"

section \<open>Scanning an erase-block\<close>

text \<open>
  The loop of \<open>ostore_scan_obj\<close>: returns the offsets of the objects. Every object has at least 24
  bytes; the fuel is the length of the buffer.
\<close>

fun scan_obj_loop ::
  "nat \<Rightarrow> 'u kernel \<Rightarrow> bilbyfs_rbuf \<Rightarrow> obj_addr \<Rightarrow> nat list \<Rightarrow> nat \<Rightarrow> (errno + nat list) option" where
  "scan_obj_loop fuel K rbuf addr objs max_count = do {
     (r, addr) \<leftarrow> wbuf_next_obj_addr K addr rbuf;
     (case r of
        Inl e \<Rightarrow> Some (if e = ENOENT \<and> objs \<noteq> [] then Inr objs else Inl e)
      | Inr obj \<Rightarrow>
          if max_count \<le> length objs then Some (Inl EOVERFLOW)
          else (case fuel of 0 \<Rightarrow> None
                | Suc fuel \<Rightarrow> scan_obj_loop fuel K rbuf addr (objs @ [obj]) max_count))
   }"

declare scan_obj_loop.simps [simp del]

definition ostore_scan_obj ::
  "'u kernel \<Rightarrow> bilbyfs_rbuf \<Rightarrow> int \<Rightarrow> nat \<Rightarrow> (errno + nat list) option" where
  "ostore_scan_obj K rbuf lnum max_count =
     scan_obj_loop (length (rb_buf rbuf)) K rbuf
       \<lparr>oa_lnum = word_of_int lnum, oa_offs = 0, oa_len = 0, oa_sqnum = 0\<rparr> [] max_count"

definition ostore_scan_leb_obj ::
  "'u kernel \<Rightarrow> 'u bilbyfs_info \<Rightarrow> bilbyfs_rbuf \<Rightarrow> int \<Rightarrow> nat \<Rightarrow> ((errno + nat list) \<times> bilbyfs_rbuf) option" where
  "ostore_scan_leb_obj K bi rbuf lnum max_count = do {
     (err, rbuf) \<leftarrow> wbuf_read_leb K bi lnum (rbuf\<lparr>rb_offs := 0\<rparr>);
     (case err of
        Some e \<Rightarrow> Some (Inl e, rbuf)
      | None \<Rightarrow> do {
          r \<leftarrow> ostore_scan_obj K rbuf lnum max_count;
          Some (r, rbuf)
        })
   }"

definition ostore_get_free_space :: "'u bilbyfs_info \<Rightarrow> u64 option" where
  "ostore_get_free_space bi = fsm_get_free_space bi"

definition ostore_get_available_space :: "'u bilbyfs_info \<Rightarrow> u64 option" where
  "ostore_get_available_space bi = fsm_get_available_space bi"

end
