(* ===== verification/Bilby_Gc.thy ===== *)
theory Bilby_Gc
  imports Bilby_Ostore
begin

text \<open>
  \<open>gc.c\<close>: the garbage collector moves the objects of the dirtiest erase-block that are still
  needed to another erase-block and erases it. It writes with the flag \<open>OSW_GC\<close>, for which
  \<open>fsm_alloc_eb\<close> never calls the collector, so the collector is an argument of the write path
  that is not used at this level. \<open>ostore_write\<close> is the write path with the collector.
  The objects are part of \<open>gc_buf\<close>: the headers the write path gives them are stored back there.
\<close>

definition gc_init :: "'u kernel \<Rightarrow> 'u bilbyfs_info \<Rightarrow> errno option \<times> 'u bilbyfs_info" where
  "gc_init K bi =
     (let (ok, km) = kmalloc_ok (bi_kmem bi); bi = bi\<lparr>bi_kmem := km\<rparr>;
          leb_size = su_leb_size (bi_super bi)
      in if ok then (None, bi\<lparr>bi_gc_buf := (bi_gc_buf bi)\<lparr>rb_buf := uninit K (nat leb_size), rb_size := leb_size\<rparr>\<rparr>)
         else (Some ENOMEM, bi))"

definition gc_clean :: "'u bilbyfs_info \<Rightarrow> 'u bilbyfs_info" where
  "gc_clean bi = bi\<lparr>bi_gc_buf := (bi_gc_buf bi)\<lparr>rb_buf := []\<rparr>\<rparr>"

text \<open>The objects that are not removable, in the order of the erase-block.\<close>

fun gc_valid :: "'u bilbyfs_info \<Rightarrow> buf \<Rightarrow> nat list \<Rightarrow> nat list option" where
  "gc_valid bi b [] = Some []"
| "gc_valid bi b (obj # list) = do {
     removable \<leftarrow> gim_is_removable bi b obj;
     valid_list \<leftarrow> gc_valid bi b list;
     Some (if removable then valid_list else obj # valid_list)
   }"

text \<open>The blocks of the objects, and the buffer with the blocks stored back.\<close>

fun get_blocks :: "buf \<Rightarrow> nat list \<Rightarrow> buf list option" where
  "get_blocks b [] = Some []"
| "get_blocks b (obj # list) = do {
     len \<leftarrow> get32 b (obj + ch_len);
     block \<leftarrow> buf_get b obj (unat len);
     blocks \<leftarrow> get_blocks b list;
     Some (block # blocks)
   }"

fun put_blocks :: "buf \<Rightarrow> nat list \<Rightarrow> buf list \<Rightarrow> buf option" where
  "put_blocks b (obj # list) (block # blocks) = do {
     b \<leftarrow> buf_put b obj block;
     put_blocks b list blocks
   }"
| "put_blocks b _ _ = Some b"

fun gc_collected :: "'u bilbyfs_info \<Rightarrow> buf \<Rightarrow> nat list \<Rightarrow> 'u bilbyfs_info option" where
  "gc_collected bi b [] = Some bi"
| "gc_collected bi b (obj # list) = do {
     (err, bi) \<leftarrow> gim_garbage_collected bi b obj;
     gc_collected bi b list
   }"

text \<open>Copies the valid objects to another erase-block.\<close>

definition gc_copy ::
  "'u kernel \<Rightarrow> 'u bilbyfs_info \<Rightarrow> nat list \<Rightarrow> (errno option \<times> 'u bilbyfs_info) option" where
  "gc_copy K bi valid_list =
     (if valid_list = [] then Some (None, bi)
      else do {
        blocks \<leftarrow> get_blocks (rb_buf (bi_gc_buf bi)) valid_list;
        (err, bi, blocks) \<leftarrow> ostore_write_obj_list (\<lambda>bi. None) K bi blocks
                             \<lparr>OSW_DEL = False, OSW_GC = True, OSW_SYNC = True\<rparr>;
        b \<leftarrow> put_blocks (rb_buf (bi_gc_buf bi)) valid_list blocks;
        Some (err, bi\<lparr>bi_gc_buf := (bi_gc_buf bi)\<lparr>rb_buf := b\<rparr>\<rparr>)
      })"

text \<open>
  When the erasure fails, \<open>valid_list\<close> is freed for the second time if there were valid objects;
  freeing a block twice is a fault.
\<close>

definition gc_garbage_collect ::
  "'u kernel \<Rightarrow> 'u bilbyfs_info \<Rightarrow> (errno option \<times> 'u bilbyfs_info) option" where
  "gc_garbage_collect K bi = do {
     lnum \<leftarrow> fsm_get_dirtiest_eb bi;
     if lnum < 0 then Some (Some ENOENT, bi)
     else do {
     let (ok, km) = kmalloc_ok (bi_kmem bi);
     let bi = bi\<lparr>bi_kmem := km\<rparr>;
     if \<not> ok then Some (Some ENOMEM, bi)
     else do {
     (r, rbuf) \<leftarrow> ostore_scan_leb_obj K bi (bi_gc_buf bi) lnum BILBYFS_MAX_OBJ_PER_TRANS;
     let bi = bi\<lparr>bi_gc_buf := rbuf\<rparr>;
     (case r of
        Inl e \<Rightarrow> Some (Some e, bi)
      | Inr list \<Rightarrow> do {
          let (ok, km) = kmalloc_ok (bi_kmem bi);
          let bi = bi\<lparr>bi_kmem := km\<rparr>;
          if \<not> ok then Some (Some ENOMEM, bi)
          else do {
          valid_list \<leftarrow> gc_valid bi (rb_buf (bi_gc_buf bi)) list;
          (err, bi) \<leftarrow> gc_copy K bi valid_list;
          if err \<noteq> None then Some (err, bi)
          else do {
          (err, bi) \<leftarrow> ostore_erase K bi lnum;
          if err \<noteq> None then do {
            bilbyfs_assert (valid_list = []);
            Some (err, bi)
          }
          else do {
            bi \<leftarrow> gc_collected bi (rb_buf (bi_gc_buf bi)) list;
            Some (None, bi)
          }}}
        })
     }}
   }"

definition ostore_write ::
  "'u kernel \<Rightarrow> 'u bilbyfs_info \<Rightarrow> buf list \<Rightarrow> osw_flag \<Rightarrow> (errno option \<times> 'u bilbyfs_info \<times> buf list) option" where
  "ostore_write K = ostore_write_obj_list (gc_garbage_collect K) K"

end
