(* ===== verification/Bilby_Mount.thy ===== *)
theory Bilby_Mount
  imports Bilby_Gc
begin

unbundle bit_operations_syntax

text \<open>
  \<open>ostore.c\<close>, second part: setting up and tearing down the object store, the superblock, and
  the reconstruction of index, garbage information and free space at mount time, from the
  summaries or by scanning the erase-blocks. Freed buffers are empty: an access to them faults.
\<close>

section \<open>Setting up\<close>

definition zero_wbuf :: bilbyfs_wbuf where
  "zero_wbuf = \<lparr>wb_buf = [], wb_size = 0, wb_avail = 0, wb_used = 0, wb_sync_offs = 0\<rparr>"

definition free_bufs :: "'u bilbyfs_info \<Rightarrow> 'u bilbyfs_info" where
  "free_bufs bi = bi\<lparr>bi_wbuf := (bi_wbuf bi)\<lparr>wb_buf := []\<rparr>, bi_sup_wbuf := (bi_sup_wbuf bi)\<lparr>wb_buf := []\<rparr>,
     bi_summary := []\<rparr>"

text \<open>The nested initialisations, each undone when a later one fails.\<close>

definition ostore_init_parts ::
  "'u kernel \<Rightarrow> 'u bilbyfs_info \<Rightarrow> (errno option \<times> 'u bilbyfs_info) option" where
  "ostore_init_parts K bi =
     (let (err, pool, km) = allocpool_init (bi_node_pool bi) (bi_kmem bi);
          bi = bi\<lparr>bi_node_pool := pool, bi_kmem := km\<rparr>
      in if err \<noteq> None then Some (err, bi)
      else do {
        (err, bi) \<leftarrow>
          (let (err, bi) = idx_init bi
           in if err \<noteq> None then Some (err, bi)
           else do {
             (err, bi) \<leftarrow>
               (let (err, bi) = fsm_init bi
                in if err \<noteq> None then Some (err, bi)
                else do {
                  (err, bi) \<leftarrow>
                    (let (err, bi) = wbuf_init K bi
                     in if err \<noteq> None then Some (err, bi)
                     else do {
                       (err, bi) \<leftarrow>
                         (let (err, bi) = gim_init bi
                          in if err \<noteq> None then Some (err, bi)
                          else let (err, bi) = gc_init K bi
                          in if err = None then Some (None, bi)
                          else do { bi \<leftarrow> gim_clean bi; Some (err, bi) });
                       if err = None then Some (None, bi) else Some (err, wbuf_clean bi)
                     });
                  if err = None then Some (None, bi) else Some (err, fsm_clean bi)
                });
             if err = None then Some (None, bi) else do { bi \<leftarrow> idx_clean bi; Some (err, bi) }
           });
        if err = None then Some (None, bi)
        else Some (err, bi\<lparr>bi_node_pool := allocpool_destroy (bi_node_pool bi)\<rparr>)
      })"

definition ostore_init ::
  "'u kernel \<Rightarrow> 'u bilbyfs_info \<Rightarrow> (errno option \<times> 'u bilbyfs_info) option" where
  "ostore_init K bi =
     (let leb_size = su_leb_size (bi_super bi);
          (ok, km) = kmalloc_ok (bi_kmem bi);
          bi = bi\<lparr>bi_kmem := km\<rparr>
      in if \<not> ok then Some (Some ENOMEM, bi)
      else let bi = bi\<lparr>bi_wbuf := (bi_wbuf bi)\<lparr>wb_buf := uninit K (nat leb_size)\<rparr>\<rparr>;
               (ok, km) = kmalloc_ok (bi_kmem bi);
               bi = bi\<lparr>bi_kmem := km\<rparr>
      in if \<not> ok then Some (Some ENOMEM, bi\<lparr>bi_wbuf := (bi_wbuf bi)\<lparr>wb_buf := []\<rparr>\<rparr>)
      else let bi = bi\<lparr>bi_sup_wbuf := (bi_sup_wbuf bi)\<lparr>wb_buf := uninit K (nat leb_size)\<rparr>\<rparr>;
               (ok, km) = kmalloc_ok (bi_kmem bi);
               bi = bi\<lparr>bi_kmem := km\<rparr>
      in if \<not> ok then Some (Some ENOMEM, free_bufs bi)
      else do {
        osum \<leftarrow> put32 (uninit K (nat leb_size)) sum_nb_sum_entry 0;
        let bi = bi\<lparr>bi_summary := osum, bi_wbuf := (bi_wbuf bi)\<lparr>wb_size := leb_size\<rparr>,
                    bi_sup_wbuf := (bi_sup_wbuf bi)\<lparr>wb_size := leb_size\<rparr>\<rparr>;
        (err, bi) \<leftarrow> ostore_init_parts K bi;
        if err = None then Some (None, bi) else Some (err, free_bufs bi)
      })"

definition ostore_clean :: "'u bilbyfs_info \<Rightarrow> 'u bilbyfs_info option" where
  "ostore_clean bi = do {
     let bi = bi\<lparr>bi_wbuf := zero_wbuf, bi_sup_wbuf := zero_wbuf, bi_summary := []\<rparr>;
     bi \<leftarrow> idx_clean bi;
     let bi = wbuf_clean (fsm_clean bi);
     bi \<leftarrow> gim_clean bi;
     let bi = gc_clean bi;
     Some (bi\<lparr>bi_node_pool := allocpool_destroy (bi_node_pool bi)\<rparr>)
   }"

section \<open>The superblock\<close>

text \<open>Both loops move on by at least 24 bytes per object; the fuel is the length of the buffer.\<close>

fun next_super_addr ::
  "nat \<Rightarrow> 'u kernel \<Rightarrow> obj_addr \<Rightarrow> bilbyfs_rbuf \<Rightarrow> ((errno + nat) \<times> obj_addr) option" where
  "next_super_addr fuel K addr rbuf = do {
     (r, addr) \<leftarrow> wbuf_next_obj_addr K addr rbuf;
     (case r of
        Inl e \<Rightarrow> Some (Inl e, addr)
      | Inr obj \<Rightarrow> do {
          ty \<leftarrow> get8 (rb_buf rbuf) (obj + ch_type);
          if ty = BILBYFS_SUP_OBJ then Some (Inr obj, addr)
          else (case fuel of 0 \<Rightarrow> None | Suc fuel \<Rightarrow> next_super_addr fuel K addr rbuf)
        })
   }"

declare next_super_addr.simps [simp del]

fun last_super_loop ::
  "nat \<Rightarrow> 'u kernel \<Rightarrow> bilbyfs_rbuf \<Rightarrow> (errno + nat) \<Rightarrow> (errno + nat) \<times> obj_addr \<Rightarrow> ((errno + nat) \<times> obj_addr) option" where
  "last_super_loop fuel K rbuf super (Inl e, addr) = Some (super, addr)"
| "last_super_loop 0 K rbuf super (Inr obj, addr) = None"
| "last_super_loop (Suc fuel) K rbuf super (Inr obj, addr) = do {
     nxt \<leftarrow> next_super_addr (length (rb_buf rbuf)) K addr rbuf;
     last_super_loop fuel K rbuf (Inr obj) nxt
   }"

fun last_obj_loop :: "nat \<Rightarrow> 'u kernel \<Rightarrow> bilbyfs_rbuf \<Rightarrow> obj_addr \<Rightarrow> obj_addr option" where
  "last_obj_loop fuel K rbuf addr = do {
     (r, addr) \<leftarrow> wbuf_next_obj_addr K addr rbuf;
     (case r of
        Inl e \<Rightarrow> Some addr
      | Inr obj \<Rightarrow> (case fuel of 0 \<Rightarrow> None | Suc fuel \<Rightarrow> last_obj_loop fuel K rbuf addr))
   }"

declare last_obj_loop.simps [simp del]

definition mount_read_super ::
  "'u kernel \<Rightarrow> 'u bilbyfs_info \<Rightarrow> (errno option \<times> 'u bilbyfs_info) option" where
  "mount_read_super K bi = do {
     (err, rbuf) \<leftarrow> wbuf_read_leb_fast K bi BILBYFS_SUP_LNUM (bi_rbuf bi);
     let bi = bi\<lparr>bi_rbuf := rbuf\<rparr>;
     if err \<noteq> None then Some (err, bi)
     else do {
       let fuel = length (rb_buf rbuf);
       let addr = \<lparr>oa_lnum = word_of_int BILBYFS_SUP_LNUM, oa_offs = 0, oa_len = 0, oa_sqnum = 0\<rparr>;
       perr \<leftarrow> next_super_addr fuel K addr rbuf;
       (super, addr) \<leftarrow> last_super_loop fuel K rbuf (fst perr) perr;
       (case super of
          Inl e \<Rightarrow> Some (Some e, bi)
        | Inr super \<Rightarrow> do {
            ty \<leftarrow> get8 (rb_buf rbuf) (super + ch_type);
            len \<leftarrow> get32 (rb_buf rbuf) (super + ch_len);
            if ty \<noteq> BILBYFS_SUP_OBJ \<or> len \<noteq> of_nat BILBYFS_SUPER_SZ then Some (Some EINVAL, bi)
            else do {
              sup \<leftarrow> unpack_obj_super (bi_super bi) (rb_buf rbuf) super;
              let sup = sup\<lparr>su_min_io_size := di_min_io_size (bi_info bi),
                            su_max_io_size := di_max_write_size (bi_info bi)\<rparr>;
              addr \<leftarrow> last_obj_loop fuel K rbuf addr;
              let bi = bi\<lparr>bi_super := sup, bi_super_offs := sint (oa_offs addr + oa_len addr)\<rparr>;
              let bi = (if bi_next_sqnum bi < su_sqnum sup then bi\<lparr>bi_next_sqnum := su_sqnum sup + 1\<rparr> else bi);
              let bi = (if ucast (bi_next_inum bi) < su_last_inum sup
                        then bi\<lparr>bi_next_inum := ucast (su_last_inum sup + 1)\<rparr> else bi);
              Some (None, bi)
            }
          })
     }
   }"

definition ostore_write_super ::
  "'u kernel \<Rightarrow> 'u bilbyfs_info \<Rightarrow> (errno option \<times> 'u bilbyfs_info) option" where
  "ostore_write_super K bi = do {
     let sup = (bi_super bi)\<lparr>su_log_lnum := fsm_get_lnum bi,
                 su_log_offs := word_of_int (wb_sync_offs (bi_wbuf bi)),
                 su_last_inum := ucast (bi_next_inum bi - 1)\<rparr>;
     let bi = bi\<lparr>bi_super := sup\<rparr>;
     wbuf \<leftarrow> wbuf_start bi (bi_sup_wbuf bi);
     let wbuf = wbuf\<lparr>wb_used := bi_super_offs bi, wb_sync_offs := bi_super_offs bi\<rparr>;
     obj \<leftarrow> pack_obj_super (replicate BILBYFS_SUPER_SZ 0) (bi_super bi);
     let (sqnum, bi) = next_sqnum bi;
     obj \<leftarrow> pack_obj_header K obj 0 sqnum BILBYFS_TRANS_ATOM;
     (err, wbuf) \<leftarrow> wbuf_write_obj obj (int BILBYFS_SUPER_SZ) wbuf;
     if err = None then do {
       (pad, bi, wbuf) \<leftarrow> wbuf_prepare_commit K bi wbuf;
       (err, bi, wbuf) \<leftarrow> wbuf_commit K bi (word_of_int BILBYFS_SUP_LNUM) wbuf;
       let bi = bi\<lparr>bi_sup_wbuf := wbuf\<rparr>;
       Some (err, if err = None then bi\<lparr>bi_super_offs := wb_used wbuf\<rparr> else bi)
     }
     else do {
       wbuf \<leftarrow> wbuf_start bi wbuf;
       (err, wbuf) \<leftarrow> wbuf_write_obj obj (int BILBYFS_SUPER_SZ) wbuf;
       if err = None then do {
         (pad, bi, wbuf) \<leftarrow> wbuf_prepare_commit K bi wbuf;
         (err, bi) \<leftarrow> wbuf_atom_leb_commit K bi BILBYFS_SUP_LNUM wbuf;
         let bi = bi\<lparr>bi_sup_wbuf := wbuf\<rparr>;
         Some (err, if err = None then bi\<lparr>bi_super_offs := wb_used wbuf\<rparr> else bi)
       }
       else Some (err, bi\<lparr>bi_sup_wbuf := wbuf\<rparr>)
     }
   }"

text \<open>The remainders are computed only when the comparisons before them fail; a zero divisor traps.\<close>

definition mount_check_super :: "'u bilbyfs_info \<Rightarrow> errno option option" where
  "mount_check_super bi =
     (let sup = bi_super bi; leb_size = su_leb_size sup; min_io = su_min_io_size sup; max_io = su_max_io_size sup
      in if leb_size \<noteq> vi_usable_leb_size (bi_info bi) then Some (Some EINVAL)
      else if leb_size < min_io \<or> leb_size < max_io \<or> max_io < min_io then Some (Some EINVAL)
      else do {
        bilbyfs_assert (min_io \<noteq> 0);
        if max_io mod min_io \<noteq> 0 \<or> leb_size mod min_io \<noteq> 0 then Some (Some EINVAL)
        else do {
          bilbyfs_assert (max_io \<noteq> 0);
          if leb_size mod max_io \<noteq> 0 then Some (Some EINVAL)
          else if su_leb_cnt sup < su_nb_reserved_gc sup + su_nb_reserved_del sup + BILBYFS_MIN_USABLE_LOG_SZ
          then Some (Some EINVAL)
          else Some None
        }
      })"

section \<open>Scanning the log\<close>

text \<open>The list of deletion objects that mounting collects, newest first.\<close>

type_synonym list_obj_del = "(obj_id \<times> obj_addr) list"

definition add_to_del_list :: "kmem \<Rightarrow> list_obj_del \<Rightarrow> obj_id \<Rightarrow> obj_addr \<Rightarrow> errno option \<times> list_obj_del \<times> kmem" where
  "add_to_del_list km del_list oid addr =
     (let (ok, km) = kmalloc_ok km
      in if ok then (None, (oid, addr) # del_list, km) else (Some ENOMEM, del_list, km))"

text \<open>\<open>Inr True\<close> for the last object of a transaction, \<open>Inr False\<close> when more objects follow.\<close>

definition check_trans_pos :: "nat \<Rightarrow> u8 \<Rightarrow> errno + bool" where
  "check_trans_pos trans_nb_obj pos =
     (if pos = BILBYFS_TRANS_ATOM then (if trans_nb_obj \<noteq> 0 then Inl EINVAL else Inr True)
      else if pos = BILBYFS_TRANS_ST then (if trans_nb_obj \<noteq> 0 then Inl EINVAL else Inr False)
      else if pos = BILBYFS_TRANS_IN then (if trans_nb_obj = 0 then Inl EINVAL else Inr False)
      else if pos = BILBYFS_TRANS_END then (if trans_nb_obj = 0 then Inl EINVAL else Inr True)
      else Inl EINVAL)"

text \<open>
  The objects of a complete transaction, in order. \<open>err\<close> is the outcome of the previous step; an
  object of another type leaves it alone.
\<close>

fun mount_proc_trans ::
  "'u bilbyfs_info \<Rightarrow> bilbyfs_rbuf \<Rightarrow> list_obj_del \<Rightarrow> obj_addr list \<Rightarrow>
   (errno option \<times> 'u bilbyfs_info \<times> list_obj_del) option" where
  "mount_proc_trans bi rbuf del_list [] = Some (None, bi, del_list)"
| "mount_proc_trans bi rbuf del_list (addr # addrs) = do {
     let obj = unat (oa_offs addr);
     ty \<leftarrow> get8 (rb_buf rbuf) (obj + ch_type);
     (err, bi, del_list) \<leftarrow>
       (if ty = BILBYFS_DEL_OBJ then do {
          oid \<leftarrow> get_obj_id (rb_buf rbuf) obj;
          let (err, del_list, km) = add_to_del_list (bi_kmem bi) del_list oid addr;
          Some (err, bi\<lparr>bi_kmem := km\<rparr>, del_list)
        }
        else if ty = BILBYFS_PAD_OBJ then do {
          (err, bi) \<leftarrow> proc_obj bi ty 0 addr;
          Some (err, bi, del_list)
        }
        else if ty \<noteq> BILBYFS_SUM_OBJ then do {
          oid \<leftarrow> get_obj_id (rb_buf rbuf) obj;
          (err, bi) \<leftarrow> proc_obj bi ty oid addr;
          Some (err, bi, del_list)
        }
        else Some (None, bi, del_list));
     if err = None then mount_proc_trans bi rbuf del_list addrs
     else do {
       pool \<leftarrow> allocpool_empty (bi_node_pool bi);
       Some (err, bi\<lparr>bi_node_pool := pool\<rparr>, del_list)
     }
   }"

text \<open>
  \<open>addrs\<close> are the addresses of the objects of the current transaction. Every object has at least
  24 bytes; the fuel is the length of the buffer.
\<close>

fun scan_rbuf_loop ::
  "nat \<Rightarrow> 'u kernel \<Rightarrow> 'u bilbyfs_info \<Rightarrow> obj_addr \<Rightarrow> bilbyfs_rbuf \<Rightarrow> list_obj_del \<Rightarrow> obj_addr list \<Rightarrow>
   (errno \<times> 'u bilbyfs_info \<times> obj_addr \<times> list_obj_del) option" where
  "scan_rbuf_loop fuel K bi addr rbuf del_list addrs = do {
     (r, addr) \<leftarrow> wbuf_next_obj_addr K addr rbuf;
     (case r of
        Inl e \<Rightarrow> Some (e, bi, addr, del_list)
      | Inr obj \<Rightarrow>
          (case fuel of 0 \<Rightarrow> None
           | Suc fuel \<Rightarrow> do {
               trans \<leftarrow> get8 (rb_buf rbuf) (obj + ch_trans);
               (case check_trans_pos (length addrs) trans of
                  Inl e \<Rightarrow> scan_rbuf_loop fuel K bi addr rbuf del_list []
                | Inr False \<Rightarrow>
                    scan_rbuf_loop fuel K bi addr rbuf del_list
                      (if length addrs + 1 = BILBYFS_MAX_OBJ_PER_TRANS then [] else addrs @ [addr])
                | Inr True \<Rightarrow> do {
                    let addrs = addrs @ [addr];
                    (err, pool, km) \<leftarrow> allocpool_alloc (bi_node_pool bi) (int (length addrs) * 2) NODE_SIZE (bi_kmem bi);
                    let bi = bi\<lparr>bi_node_pool := pool, bi_kmem := km\<rparr>;
                    (case err of
                       Some e \<Rightarrow> Some (e, bi, addr, del_list)
                     | None \<Rightarrow> do {
                         (err, bi, del_list) \<leftarrow> mount_proc_trans bi rbuf del_list addrs;
                         (case err of
                            Some e \<Rightarrow> Some (e, bi, addr, del_list)
                          | None \<Rightarrow> do {
                              pool \<leftarrow> allocpool_empty (bi_node_pool bi);
                              scan_rbuf_loop fuel K (bi\<lparr>bi_node_pool := pool\<rparr>) addr rbuf del_list []
                            })
                       })
                  })
             }))
   }"

declare scan_rbuf_loop.simps [simp del]

definition mount_scan_rbuf ::
  "'u kernel \<Rightarrow> 'u bilbyfs_info \<Rightarrow> obj_addr \<Rightarrow> bilbyfs_rbuf \<Rightarrow> list_obj_del \<Rightarrow>
   (errno \<times> 'u bilbyfs_info \<times> obj_addr \<times> list_obj_del) option" where
  "mount_scan_rbuf K bi addr rbuf del_list = do {
     bilbyfs_assert (oa_len addr = 0);
     if \<not> bi_addrs bi then Some (ENOMEM, bi, addr, del_list)
     else scan_rbuf_loop (length (rb_buf rbuf)) K bi addr rbuf del_list []
   }"

text \<open>The entries of a summary from \<open>i\<close> on; \<open>tot_used\<close> adds up their lengths.\<close>

fun proc_sum_loop ::
  "nat \<Rightarrow> nat \<Rightarrow> 'u bilbyfs_info \<Rightarrow> u32 \<Rightarrow> buf \<Rightarrow> nat \<Rightarrow> list_obj_del \<Rightarrow> u32 \<Rightarrow>
   (errno option \<times> 'u bilbyfs_info \<times> list_obj_del \<times> u32) option" where
  "proc_sum_loop 0 i bi lnum b osum del_list tot_used = Some (None, bi, del_list, tot_used)"
| "proc_sum_loop (Suc n) i bi lnum b osum del_list tot_used = do {
     let entry = osum + sum_entry_offs i;
     offs \<leftarrow> obj_sum_entry_offs b entry;
     len \<leftarrow> get32 b (entry + se_len);
     sqnum \<leftarrow> get64 b (entry + se_sqnum);
     oid \<leftarrow> get64 b (entry + se_id);
     is_del \<leftarrow> obj_sum_entry_is_del b entry;
     count \<leftarrow> get16 b (entry + se_count);
     let addr = \<lparr>oa_lnum = lnum, oa_offs = offs, oa_len = len, oa_sqnum = sqnum\<rparr>;
     (err, bi, del_list) \<leftarrow>
       (if is_del
        then let (err, del_list, km) = add_to_del_list (bi_kmem bi) del_list oid addr
             in Some (err, bi\<lparr>bi_kmem := km\<rparr>, del_list)
        else do {
          (err, bi) \<leftarrow> proc_obj bi (ucast (type_from_id oid)) oid addr;
          Some (err, bi, del_list)
        });
     if err \<noteq> None then Some (err, bi, del_list, tot_used + len)
     else do {
       bi \<leftarrow> gim_mark_garbage_cnt bi oid addr (ucast count) False;
       proc_sum_loop n (Suc i) bi lnum b osum del_list (tot_used + len)
     }
   }"

definition mount_proc_sum ::
  "'u kernel \<Rightarrow> 'u bilbyfs_info \<Rightarrow> u32 \<Rightarrow> buf \<Rightarrow> nat \<Rightarrow> u32 \<Rightarrow> list_obj_del \<Rightarrow>
   (errno option \<times> 'u bilbyfs_info \<times> list_obj_del) option" where
  "mount_proc_sum K bi lnum b osum maxsz del_list = do {
     err \<leftarrow> check_obj_header K b osum (sint maxsz);
     if err \<noteq> None then Some (err, bi, del_list)
     else do {
       ty \<leftarrow> get8 b (osum + ch_type);
       if ty \<noteq> BILBYFS_SUM_OBJ then Some (Some EINVAL, bi, del_list)
       else do {
         nb \<leftarrow> get32 b (osum + sum_nb_sum_entry);
         (err, bi, del_list, tot_used) \<leftarrow> proc_sum_loop (unat nb) 0 bi lnum b osum del_list 0;
         if err \<noteq> None then Some (err, bi, del_list)
         else do {
           bi \<leftarrow> fsm_mark_dirty bi \<lparr>oa_lnum = lnum, oa_offs = 0,
                  oa_len = word_of_int (su_leb_size (bi_super bi)) - tot_used, oa_sqnum = 0\<rparr>;
           Some (None, bi, del_list)
         }
       }
     }
   }"

text \<open>
  One erase-block: through its summary, or object by object when there is none. A negative
  result of \<open>ubi_is_mapped\<close> counts as mapped.
\<close>

definition mount_scan_leb ::
  "'u kernel \<Rightarrow> 'u bilbyfs_info \<Rightarrow> u32 \<Rightarrow> list_obj_del \<Rightarrow> (errno option \<times> 'u bilbyfs_info \<times> list_obj_del) option" where
  "mount_scan_leb K bi lnum del_list =
     (if k_ubi_is_mapped K (bi_ubi bi) (uint lnum) = Inr False then Some (None, bi, del_list)
      else do {
        bi \<leftarrow> fsm_mark_used bi (uint lnum);
        (r, bi) \<leftarrow>
          (if bi_no_summary bi then Some (Inl ENOENT, bi)
           else do {
             (r, bi, rbuf) \<leftarrow> wbuf_read_sum K bi (uint lnum) (bi_rbuf bi);
             Some (r, bi\<lparr>bi_rbuf := rbuf\<rparr>)
           });
        (case r of
           Inr sum_offs \<Rightarrow>
             mount_proc_sum K bi lnum (rb_buf (bi_rbuf bi)) (unat sum_offs)
               (word_of_int (su_leb_size (bi_super bi)) - sum_offs) del_list
         | Inl e \<Rightarrow>
             if e \<noteq> ENOENT then Some (Some e, bi, del_list)
             else do {
               (err, rbuf) \<leftarrow> wbuf_read_leb K bi (uint lnum) (bi_rbuf bi);
               let bi = bi\<lparr>bi_rbuf := rbuf\<rparr>;
               if err \<noteq> None then Some (err, bi, del_list)
               else do {
                 (e, bi, addr, del_list) \<leftarrow>
                   mount_scan_rbuf K bi \<lparr>oa_lnum = lnum, oa_offs = 0, oa_len = 0, oa_sqnum = 0\<rparr> (bi_rbuf bi) del_list;
                 if e \<noteq> ENOENT then Some (Some e, bi, del_list)
                 else do {
                   let offs = oa_offs addr + oa_len addr;
                   bi \<leftarrow> fsm_mark_dirty bi (addr\<lparr>oa_offs := offs,
                          oa_len := word_of_int (su_leb_size (bi_super bi)) - offs\<rparr>);
                   Some (None, bi, del_list)
                 }
               }
             })
      })"

fun mount_scan_lebs ::
  "nat \<Rightarrow> 'u kernel \<Rightarrow> 'u bilbyfs_info \<Rightarrow> u32 \<Rightarrow> list_obj_del \<Rightarrow> (errno option \<times> 'u bilbyfs_info \<times> list_obj_del) option" where
  "mount_scan_lebs 0 K bi lnum del_list = Some (None, bi, del_list)"
| "mount_scan_lebs (Suc n) K bi lnum del_list = do {
     (err, bi, del_list) \<leftarrow> mount_scan_leb K bi lnum del_list;
     if err = None then mount_scan_lebs n K bi (lnum + 1) del_list else Some (err, bi, del_list)
   }"

fun mount_proc_dels :: "'u bilbyfs_info \<Rightarrow> list_obj_del \<Rightarrow> (errno option \<times> 'u bilbyfs_info) option" where
  "mount_proc_dels bi [] = Some (None, bi)"
| "mount_proc_dels bi ((oid, addr) # dels) = do {
     (err, bi) \<leftarrow> proc_obj bi BILBYFS_DEL_OBJ oid addr;
     if err = None then mount_proc_dels bi dels else Some (err, bi)
   }"

text \<open>
  \<open>addr.lnum < leb_cnt\<close> compares unsigned values; the number of turns is the difference.
\<close>

definition mount_scan :: "'u kernel \<Rightarrow> 'u bilbyfs_info \<Rightarrow> (errno option \<times> 'u bilbyfs_info) option" where
  "mount_scan K bi = do {
     let bi = bi\<lparr>bi_nb_pages := 0, bi_nb_extra_pages := 0,
                 bi_node_pool := (bi_node_pool bi)\<lparr>ap_tot_nodes_needed := 0\<rparr>\<rparr>;
     (err, bi, del_list) \<leftarrow>
       mount_scan_lebs (unat (word_of_int (su_leb_cnt (bi_super bi)) :: u32) - nat BILBYFS_LOG_FST_LNUM) K bi
         (word_of_int BILBYFS_LOG_FST_LNUM) [];
     if err \<noteq> None then Some (err, bi) else mount_proc_dels bi del_list
   }"

text \<open>The number of erase-blocks from \<open>lnum\<close> on that are left to look at is \<open>n\<close>.\<close>

fun flash_empty_loop :: "nat \<Rightarrow> 'u kernel \<Rightarrow> 'u \<Rightarrow> int \<Rightarrow> errno + bool" where
  "flash_empty_loop 0 K ubi lnum = Inr True"
| "flash_empty_loop (Suc n) K ubi lnum =
     (case k_ubi_is_mapped K ubi lnum of
        Inl e \<Rightarrow> Inl e
      | Inr True \<Rightarrow> Inr False
      | Inr False \<Rightarrow> flash_empty_loop n K ubi (lnum + 1))"

definition check_flash_empty :: "'u kernel \<Rightarrow> 'u bilbyfs_info \<Rightarrow> errno + bool" where
  "check_flash_empty K bi = flash_empty_loop (nat (su_leb_cnt (bi_super bi))) K (bi_ubi bi) 0"

section \<open>Mounting and unmounting\<close>

definition ostore_unmount :: "'u kernel \<Rightarrow> 'u bilbyfs_info \<Rightarrow> 'u bilbyfs_info option" where
  "ostore_unmount K bi =
     (if su_sqnum (bi_super bi) + 1 < bi_next_sqnum bi then do {
        (err, bi) \<leftarrow> ostore_sync K bi True;
        (err, bi) \<leftarrow> ostore_write_super K bi;
        Some bi
      }
      else Some bi)"

definition ostore_mount :: "'u kernel \<Rightarrow> 'u bilbyfs_info \<Rightarrow> (errno option \<times> 'u bilbyfs_info) option" where
  "ostore_mount K bi = do {
     let fail = (\<lambda>e bi. do { bi \<leftarrow> ostore_unmount K bi; Some (Some e, bi) });
     (case check_flash_empty K bi of
        Inl e \<Rightarrow> fail e bi
      | Inr True \<Rightarrow> Some (Some ENODATA, bi)
      | Inr False \<Rightarrow> do {
          (err, bi) \<leftarrow> mount_read_super K bi;
          (case err of
             Some e \<Rightarrow> fail e bi
           | None \<Rightarrow> do {
               err \<leftarrow> mount_check_super bi;
               (case err of
                  Some e \<Rightarrow> fail e bi
                | None \<Rightarrow> do {
                    let (ok, km) = kmalloc_ok (bi_kmem bi);
                    let bi = bi\<lparr>bi_is_mounting := True, bi_addrs := ok, bi_kmem := km\<rparr>;
                    if \<not> ok then Some (Some ENOMEM, bi)
                    else do {
                      (err, pool, km) \<leftarrow> allocpool_alloc (bi_node_pool bi) 10000 NODE_SIZE (bi_kmem bi);
                      let bi = bi\<lparr>bi_node_pool := pool, bi_kmem := km\<rparr>;
                      if err \<noteq> None then Some (err, bi)
                      else do {
                        (err, bi) \<leftarrow> mount_scan K bi;
                        pool \<leftarrow> allocpool_empty (bi_node_pool bi);
                        let bi = bi\<lparr>bi_node_pool := pool, bi_is_mounting := False\<rparr>;
                        (case err of None \<Rightarrow> Some (None, bi) | Some e \<Rightarrow> fail e bi)
                      }
                    }
                  })
             })
        })
   }"

section \<open>Transaction markers\<close>

text \<open>
  A sequence of positions the scan takes for a complete transaction, when it has \<open>n\<close> objects of
  it already: no error, and only the last object ends it.
\<close>

fun trans_complete :: "nat \<Rightarrow> u8 list \<Rightarrow> bool" where
  "trans_complete n [] = False"
| "trans_complete n [pos] = (check_trans_pos n pos = Inr True)"
| "trans_complete n (pos # pos' # ps) = (check_trans_pos n pos = Inr False \<and> trans_complete (Suc n) (pos' # ps))"

lemma trans_complete_in:
  "0 < n \<Longrightarrow> trans_complete n ps \<longleftrightarrow> (\<exists>k. ps = replicate k BILBYFS_TRANS_IN @ [BILBYFS_TRANS_END])"
proof (induction n ps rule: trans_complete.induct)
  case (2 n pos)
  have "(\<exists>k. [pos] = replicate k BILBYFS_TRANS_IN @ [BILBYFS_TRANS_END]) \<longleftrightarrow> pos = BILBYFS_TRANS_END"
    by (auto simp: Cons_replicate_eq Cons_eq_append_conv intro: exI [of _ 0])
  then show ?case using 2 by (auto simp: check_trans_pos_def)
next
  case (3 n pos pos' ps)
  have "(\<exists>k. pos # pos' # ps = replicate k BILBYFS_TRANS_IN @ [BILBYFS_TRANS_END]) \<longleftrightarrow>
      pos = BILBYFS_TRANS_IN \<and> (\<exists>k. pos' # ps = replicate k BILBYFS_TRANS_IN @ [BILBYFS_TRANS_END])"
    (is "?l \<longleftrightarrow> ?r")
  proof
    assume ?l
    then obtain k where k: "pos # pos' # ps = replicate k BILBYFS_TRANS_IN @ [BILBYFS_TRANS_END]" by blast
    then show ?r by (cases k) auto
  next
    assume ?r
    then obtain k where "pos # pos' # ps = replicate (Suc k) BILBYFS_TRANS_IN @ [BILBYFS_TRANS_END]" by auto
    then show ?l by blast
  qed
  then show ?case using 3 by (auto simp: check_trans_pos_def)
qed simp

text \<open>The positions \<open>ostore_write_obj_list\<close> gives to the objects of a transaction.\<close>

definition trans_positions :: "nat \<Rightarrow> u8 list" where
  "trans_positions n = map (\<lambda>i. get_obj_trans (int n) (int i)) [0..<n]"

lemma trans_positions_many:
  "trans_positions (Suc (Suc k)) = BILBYFS_TRANS_ST # replicate k BILBYFS_TRANS_IN @ [BILBYFS_TRANS_END]"
proof (rule nth_equalityI)
  fix i assume "i < length (trans_positions (Suc (Suc k)))"
  then show "trans_positions (Suc (Suc k)) ! i = (BILBYFS_TRANS_ST # replicate k BILBYFS_TRANS_IN @ [BILBYFS_TRANS_END]) ! i"
    by (auto simp: trans_positions_def get_obj_trans_def nth_append nth_Cons' simp del: upt_Suc)
qed (simp add: trans_positions_def)

lemma trans_complete_start:
  "trans_complete 0 ps \<longleftrightarrow> ps = [BILBYFS_TRANS_ATOM] \<or>
     (\<exists>k. ps = BILBYFS_TRANS_ST # replicate k BILBYFS_TRANS_IN @ [BILBYFS_TRANS_END])"
proof (cases "(0 :: nat, ps)" rule: trans_complete.cases)
  case (3 n pos pos' qs)
  then show ?thesis using trans_complete_in [of 1 "pos' # qs"] by (auto simp: check_trans_pos_def)
qed (auto simp: check_trans_pos_def)

text \<open>
  C17. The scan of the log takes a sequence of objects for a complete transaction exactly when
  their positions are the ones \<open>ostore_write_obj_list\<close> writes for a transaction of that length.
  In particular a transaction of which only a first part reached the flash is never applied.
\<close>

theorem trans_markers_match:
  "trans_complete 0 ps \<longleftrightarrow> ps \<noteq> [] \<and> ps = trans_positions (length ps)"
proof -
  consider "ps = []" | p where "ps = [p]" | p q qs where "ps = p # q # qs"
    by (cases "(0 :: nat, ps)" rule: trans_complete.cases) auto
  then show ?thesis
  proof cases
    case 3
    then have l: "length ps = Suc (Suc (length qs))" by simp
    have "(\<exists>k. ps = BILBYFS_TRANS_ST # replicate k BILBYFS_TRANS_IN @ [BILBYFS_TRANS_END]) \<longleftrightarrow>
        ps = BILBYFS_TRANS_ST # replicate (length qs) BILBYFS_TRANS_IN @ [BILBYFS_TRANS_END]"
    proof -
      have "k = length qs" if "ps = BILBYFS_TRANS_ST # replicate k BILBYFS_TRANS_IN @ [BILBYFS_TRANS_END]" for k
        using arg_cong [OF that, of length] l by simp
      then show ?thesis by blast
    qed
    then show ?thesis unfolding l trans_positions_many trans_complete_start using 3 by auto
  qed (auto simp: trans_complete_start trans_positions_def get_obj_trans_def check_trans_pos_def)
qed

section \<open>Termination of the scans\<close>

text \<open>A read-buffer whose content is in place, and an address in it.\<close>

definition rbuf_ok :: "bilbyfs_rbuf \<Rightarrow> bool" where
  "rbuf_ok r \<longleftrightarrow> rb_size r = int (length (rb_buf r)) \<and> 0 \<le> rb_offs r \<and> rb_offs r + rb_size r < 2 ^ 31"

definition addr_in :: "bilbyfs_rbuf \<Rightarrow> obj_addr \<Rightarrow> bool" where
  "addr_in r a \<longleftrightarrow> rb_offs r \<le> uint (oa_offs a) \<and> uint (oa_offs a) + uint (oa_len a) < 2 ^ 31 + 8"

definition left_of :: "bilbyfs_rbuf \<Rightarrow> obj_addr \<Rightarrow> nat" where
  "left_of r a = nat (rb_offs r + rb_size r - (uint (oa_offs a) + uint (oa_len a)))"

text \<open>A search that finds nothing leaves an address from which the next search can start.\<close>

lemma next_obj_loop_addr:
  assumes "rbuf_ok r"
  shows "addr_in r a \<Longrightarrow> next_obj_loop fuel K a r = Some (Inl e, a') \<Longrightarrow> addr_in r a'"
proof (induction fuel arbitrary: a)
  case (Suc fuel)
  let ?w = "oa_offs a + oa_len a"
  have w: "uint ?w = uint (oa_offs a) + uint (oa_len a)"
    using Suc.prems(1) by (simp add: addr_in_def uint_word_ariths)
  have e: "uint (word_of_int (rb_offs r + rb_size r) :: u32) = rb_offs r + rb_size r"
    by (rule int_words(1)) (use assms in \<open>simp_all add: rbuf_ok_def\<close>)
  show ?case
  proof (cases "word_of_int (rb_offs r + rb_size r) \<le> ?w")
    case True
    then show ?thesis using Suc.prems by (auto simp: next_obj_loop.simps Let_def bilbyfs_assert_bind split: if_splits)
  next
    case False
    then have "uint ?w < rb_offs r + rb_size r" unfolding word_le_def e by simp
    then have "uint ?w + 8 < 2 ^ 31 + 8" using assms by (simp add: rbuf_ok_def)
    moreover have "rb_offs r \<le> uint ?w"
      using Suc.prems(1) uint_ge_0 [of "oa_len a"] unfolding w addr_in_def by linarith
    ultimately have "addr_in r (a\<lparr>oa_offs := ?w, oa_len := 8\<rparr>)" by (simp add: addr_in_def)
    from Suc.IH [OF this] Suc.prems False show ?thesis
      by (subst (asm) (2) next_obj_loop.simps)
        (auto simp: Let_def bind_eq_Some_conv bilbyfs_assert_bind split: if_splits option.splits)
  qed
qed (auto simp: next_obj_loop.simps Let_def bind_eq_Some_conv bilbyfs_assert_bind split: if_splits option.splits)

lemma next_obj_ok:
  assumes "rbuf_ok r" "addr_in r a"
  obtains (none) e a' where "wbuf_next_obj_addr K a r = Some (Inl e, a')" "e \<in> {ENOENT, EINVAL}" "addr_in r a'"
      "oa_lnum a' = oa_lnum a"
  | (found) obj a' where "wbuf_next_obj_addr K a r = Some (Inr obj, a')" "addr_in r a'" "left_of r a' + 24 \<le> left_of r a"
      "uint (oa_offs a') = rb_offs r + int obj" "obj + unat (oa_len a') \<le> length (rb_buf r)" "24 \<le> unat (oa_len a')"
      "oa_lnum a' = oa_lnum a" "uint (oa_offs a) + uint (oa_len a) \<le> uint (oa_offs a')"
proof -
  have r: "rb_size r = int (length (rb_buf r))" "0 \<le> rb_offs r" "rb_offs r + rb_size r < 2147483648"
    using assms(1) by (simp_all add: rbuf_ok_def)
  have a: "rb_offs r \<le> uint (oa_offs a)" "uint (oa_offs a) + uint (oa_len a) < 2 ^ 32"
    using assms(2) by (simp_all add: addr_in_def)
  have w: "uint (word_of_int (rb_offs r) :: u32) = rb_offs r"
    "uint (word_of_int (rb_offs r + rb_size r) :: u32) = rb_offs r + rb_size r"
    by (rule int_words(1); use r in linarith)+
  have "nat (rb_offs r + rb_size r - (uint (oa_offs a) + uint (oa_len a))) \<le> length (rb_buf r)"
    using a(1) uint_ge_0 [of "oa_len a"] r(1) by linarith
  from next_obj_loop_total [OF r(1,2) _ w a this, of K] r(3) obtain res a' where
    n: "wbuf_next_obj_addr K a r = Some (res, a')" "oa_lnum a' = oa_lnum a"
    "case res of Inl e \<Rightarrow> e \<in> {ENOENT, EINVAL}
       | Inr obj \<Rightarrow> uint (oa_offs a') = rb_offs r + int obj \<and> uint (oa_offs a) + uint (oa_len a) \<le> uint (oa_offs a') \<and>
           24 \<le> uint (oa_len a') \<and> uint (oa_offs a') + uint (oa_len a') \<le> rb_offs r + rb_size r"
    unfolding wbuf_next_obj_addr_def by auto
  show ?thesis
  proof (cases res)
    case (Inl e)
    then show ?thesis using none [of e a'] n next_obj_loop_addr [OF assms, of _ K e a']
      by (simp add: wbuf_next_obj_addr_def)
  next
    case (Inr obj)
    then have o: "uint (oa_offs a') = rb_offs r + int obj" "uint (oa_offs a) + uint (oa_len a) \<le> uint (oa_offs a')"
      "24 \<le> uint (oa_len a')" "uint (oa_offs a') + uint (oa_len a') \<le> rb_offs r + rb_size r" using n(3) by auto
    have "addr_in r a'" using o r by (simp add: addr_in_def)
    moreover have "left_of r a' + 24 \<le> left_of r a" using o unfolding left_of_def by linarith
    moreover have "int (unat (oa_len a')) = uint (oa_len a')" by simp
    then have "obj + unat (oa_len a') \<le> length (rb_buf r)" "24 \<le> unat (oa_len a')"
      using o r(1) by linarith+
    ultimately show ?thesis using found [of obj a'] n Inr o by simp
  qed
qed


lemma left_of_le: "rbuf_ok r \<Longrightarrow> addr_in r a \<Longrightarrow> left_of r a \<le> length (rb_buf r)"
  using uint_ge_0 [of "oa_len a"] unfolding rbuf_ok_def addr_in_def left_of_def by linarith

lemma next_obj_len:
  "next_obj_loop fuel K a r = Some (Inr obj, a') \<Longrightarrow> get32 (rb_buf r) (obj + 16) = Some (oa_len a')"
proof (induction fuel arbitrary: a)
  case (Suc fuel)
  then show ?case
    by (subst (asm) (2) next_obj_loop.simps)
      (auto simp: Let_def bind_eq_Some_conv bilbyfs_assert_bind split: if_splits option.splits)
qed (auto simp: next_obj_loop.simps Let_def bind_eq_Some_conv bilbyfs_assert_bind split: if_splits option.splits)

lemma scan_obj_total:
  assumes "rbuf_ok r" "addr_in r a" "left_of r a \<le> fuel" "sorted_wrt (<) objs"
    and "\<forall>obj \<in> set objs. rb_offs r + int obj < uint (oa_offs a) + uint (oa_len a)"
    and "\<forall>obj \<in> set objs. obj + 24 \<le> length (rb_buf r)" "length objs \<le> max_count"
  shows "\<exists>res. scan_obj_loop fuel K r a objs max_count = Some res \<and>
    (case res of Inl e \<Rightarrow> e \<in> {ENOENT, EINVAL, EOVERFLOW}
     | Inr objs' \<Rightarrow> sorted_wrt (<) objs' \<and> objs' \<noteq> [] \<and> length objs' \<le> max_count \<and>
         (\<forall>obj \<in> set objs'. obj + 24 \<le> length (rb_buf r)))"
  using assms
proof (induction fuel arbitrary: a objs)
  case (0 a objs)
  show ?case
    by (rule next_obj_ok [OF 0(1,2), of K]) (use 0 in \<open>auto simp: scan_obj_loop.simps\<close>)
next
  case (Suc fuel a objs)
  show ?case
  proof (rule next_obj_ok [OF Suc.prems(1,2), of K])
    fix obj a'
    assume n: "wbuf_next_obj_addr K a r = Some (Inr obj, a')" "addr_in r a'" "left_of r a' + 24 \<le> left_of r a"
      "uint (oa_offs a') = rb_offs r + int obj" "obj + unat (oa_len a') \<le> length (rb_buf r)" "24 \<le> unat (oa_len a')"
      "uint (oa_offs a) + uint (oa_len a) \<le> uint (oa_offs a')"
    have "24 \<le> uint (oa_len a')" using n(6) unat_uint_le [of 24 "oa_len a'"] by simp
    then have b: "\<forall>x \<in> set (objs @ [obj]). rb_offs r + int x < uint (oa_offs a') + uint (oa_len a')"
      using Suc.prems(5) n(4,7) by fastforce
    have s: "sorted_wrt (<) (objs @ [obj])" using Suc.prems(4,5) n(4,7) by (fastforce simp: sorted_wrt_append)
    show ?thesis
    proof (cases "max_count \<le> length objs")
      case True
      then show ?thesis using n(1) by (simp add: scan_obj_loop.simps)
    next
      case False
      then have "scan_obj_loop (Suc fuel) K r a objs max_count = scan_obj_loop fuel K r a' (objs @ [obj]) max_count"
        using n(1) by (simp add: scan_obj_loop.simps)
      moreover have "left_of r a' \<le> fuel" "\<forall>x \<in> set (objs @ [obj]). x + 24 \<le> length (rb_buf r)"
        using Suc.prems(3,6) n(3,5,6) by auto
      ultimately show ?thesis using Suc.IH [OF Suc.prems(1) n(2) _ s b] False by simp
    qed
  next
    fix e a' assume "wbuf_next_obj_addr K a r = Some (Inl e, a')" "e \<in> {ENOENT, EINVAL}"
    then show ?thesis using Suc.prems by (auto simp: scan_obj_loop.simps)
  qed
qed

text \<open>
  C34. Scanning an erase-block for its objects always ends: it returns the offsets of at most
  \<open>max_count\<close> objects, each once and in increasing order, all inside the buffer, or one of three
  errors.
\<close>

theorem ostore_scan_obj_total:
  assumes "rb_size r = int (length (rb_buf r))" "rb_offs r = 0" "rb_size r < 2 ^ 31"
  shows "\<exists>res. ostore_scan_obj K r lnum max_count = Some res \<and>
    (case res of Inl e \<Rightarrow> e \<in> {ENOENT, EINVAL, EOVERFLOW}
     | Inr objs \<Rightarrow> sorted_wrt (<) objs \<and> objs \<noteq> [] \<and> length objs \<le> max_count \<and>
         (\<forall>obj \<in> set objs. obj + 24 \<le> length (rb_buf r)))"
proof -
  let ?a = "\<lparr>oa_lnum = word_of_int lnum, oa_offs = 0, oa_len = 0, oa_sqnum = 0\<rparr>"
  have r: "rbuf_ok r" "addr_in r ?a" using assms by (simp_all add: rbuf_ok_def addr_in_def)
  then show ?thesis
    unfolding ostore_scan_obj_def by (intro scan_obj_total left_of_le) simp_all
qed

theorem ostore_scan_obj_total_witness:
  "\<exists>res. ostore_scan_obj demo_kernel \<lparr>rb_buf = replicate 64 0x42, rb_size = 64, rb_offs = 0\<rparr> 3 5 = Some res \<and>
    (case res of Inl e \<Rightarrow> e \<in> {ENOENT, EINVAL, EOVERFLOW} | Inr objs \<Rightarrow> length objs \<le> 5)"
  using ostore_scan_obj_total [of "\<lparr>rb_buf = replicate 64 0x42, rb_size = 64, rb_offs = 0\<rparr>" demo_kernel 3 5]
  by (auto split: sum.splits)

section \<open>Reading and writing the superblock\<close>

definition super_found :: "bilbyfs_rbuf \<Rightarrow> errno + nat \<Rightarrow> bool" where
  "super_found r super = (case super of Inl e \<Rightarrow> True
     | Inr obj \<Rightarrow> obj + unat (rd32 (rb_buf r) (obj + 16)) \<le> length (rb_buf r) \<and> 24 \<le> unat (rd32 (rb_buf r) (obj + 16)))"

lemma next_super_ok:
  assumes "rbuf_ok r" "addr_in r a" "left_of r a \<le> fuel"
  shows "\<exists>res a'. next_super_addr fuel K a r = Some (res, a') \<and> addr_in r a' \<and>
    super_found r res \<and> (\<forall>obj. res = Inr obj \<longrightarrow> left_of r a' < left_of r a)"
  using assms
proof (induction fuel arbitrary: a)
  case (0 a)
  show ?case
    by (rule next_obj_ok [OF 0(1,2), of K]) (use 0 in \<open>auto simp: next_super_addr.simps super_found_def\<close>)
next
  case (Suc fuel a)
  show ?case
  proof (rule next_obj_ok [OF Suc.prems(1,2), of K])
    fix obj a'
    assume n: "wbuf_next_obj_addr K a r = Some (Inr obj, a')" "addr_in r a'" "left_of r a' + 24 \<le> left_of r a"
      "obj + unat (oa_len a') \<le> length (rb_buf r)" "24 \<le> unat (oa_len a')"
    have g: "obj + 24 \<le> length (rb_buf r)" using n(4,5) by simp
    have len: "rd32 (rb_buf r) (obj + 16) = oa_len a'"
      using next_obj_len [OF n(1) [unfolded wbuf_next_obj_addr_def]] g by (simp add: getw_Some)
    show ?thesis
    proof (cases "rd8 (rb_buf r) (obj + 20) = BILBYFS_SUP_OBJ")
      case True
      then show ?thesis using n g len by (simp add: next_super_addr.simps getw_Some super_found_def)
    next
      case False
      then have "next_super_addr (Suc fuel) K a r = next_super_addr fuel K a' r"
        using n(1) g by (simp add: next_super_addr.simps [of "Suc fuel"] getw_Some)
      moreover have "left_of r a' \<le> fuel" using n(3) Suc.prems(3) by simp
      ultimately show ?thesis using Suc.IH [OF Suc.prems(1) n(2)] n(3)
        by fastforce
    qed
  next
    fix e a' assume "wbuf_next_obj_addr K a r = Some (Inl e, a')" "addr_in r a'"
    then show ?thesis by (simp add: next_super_addr.simps super_found_def)
  qed
qed

lemma last_super_ok:
  assumes "rbuf_ok r" "addr_in r a" "left_of r a < fuel" "super_found r super" "super_found r nxt"
  shows "\<exists>super' a'. last_super_loop fuel K r super (nxt, a) = Some (super', a') \<and> addr_in r a' \<and> super_found r super'"
  using assms
proof (induction fuel arbitrary: a super nxt)
  case (Suc fuel)
  show ?case
  proof (cases nxt)
    case (Inr obj)
    obtain res a' where n: "next_super_addr (length (rb_buf r)) K a r = Some (res, a')" "addr_in r a'"
      "super_found r res" "\<forall>obj. res = Inr obj \<longrightarrow> left_of r a' < left_of r a"
      using next_super_ok [OF Suc.prems(1,2) left_of_le [OF Suc.prems(1,2)], of K] by blast
    show ?thesis
    proof (cases res)
      case (Inl e)
      then show ?thesis using n Inr Suc.prems(5) by (simp add: super_found_def)
    next
      case r: (Inr obj')
      then show ?thesis using n Inr Suc.prems Suc.IH [OF Suc.prems(1) n(2), of "Inr obj" "Inr obj'"] by auto
    qed
  qed (use Suc.prems in simp)
qed simp

lemma last_obj_ok:
  assumes "rbuf_ok r" "addr_in r a" "left_of r a \<le> fuel"
  shows "\<exists>a'. last_obj_loop fuel K r a = Some a'"
  using assms
proof (induction fuel arbitrary: a)
  case (0 a)
  show ?case
    by (rule next_obj_ok [OF 0(1,2), of K]) (use 0 in \<open>auto simp: last_obj_loop.simps\<close>)
next
  case (Suc fuel a)
  show ?case
  proof (rule next_obj_ok [OF Suc.prems(1,2), of K])
    fix obj a' assume n: "wbuf_next_obj_addr K a r = Some (Inr obj, a')" "addr_in r a'" "left_of r a' + 24 \<le> left_of r a"
    then show ?thesis using Suc.IH [OF Suc.prems(1) n(2)] Suc.prems(3)
      by (simp add: last_obj_loop.simps [of "Suc fuel"])
  qed (simp add: last_obj_loop.simps)
qed

text \<open>UBI returns as many bytes as were asked for, or an error.\<close>

definition ubi_reads_all :: "'u kernel \<Rightarrow> bool" where
  "ubi_reads_all K \<longleftrightarrow> (\<forall>u l offs n bytes. k_ubi_read K u l offs n = Inr bytes \<longrightarrow> int (length bytes) = n)"

lemma read_leb_loop_total:
  assumes "ubi_reads_all K" "0 < io" "0 \<le> offs" "offs + int n * io \<le> int (length b)"
    and "\<And>b' offs'. length b' = length b \<Longrightarrow> 0 \<le> offs' \<Longrightarrow> offs' + io \<le> int (length b) \<Longrightarrow> stop b' offs' \<noteq> None"
  shows "\<exists>res. read_leb_loop n K u l io stop b offs = Some res \<and> (\<forall>b'. res = Inr b' \<longrightarrow> length b' = length b)"
  using assms(3-5)
proof (induction n arbitrary: b offs)
  case (Suc n)
  have io: "offs + io \<le> int (length b)" "offs + io + int n * io \<le> int (length b)"
  proof -
    have "0 \<le> int n * io" using assms(2) by simp
    then show "offs + io \<le> int (length b)" "offs + io + int n * io \<le> int (length b)"
      using Suc.prems(2) by (simp_all add: distrib_right)
  qed
  show ?case
  proof (cases "k_ubi_read K u l offs io")
    case (Inl e)
    then show ?thesis by (simp add: ubi_read_at_def)
  next
    case (Inr bytes)
    then have "int (length bytes) = io" using assms(1) by (auto simp: ubi_reads_all_def)
    then have fit: "nat offs + length bytes \<le> length b" using io(1) Suc.prems(1) by linarith
    let ?b = "splice b (nat offs) bytes"
    have lb: "length ?b = length b" using fit by simp
    obtain s where s: "stop ?b offs = Some s" using Suc.prems(3) [OF lb Suc.prems(1) io(1)] by auto
    have r: "ubi_read_at K u l b offs offs io = Some (Inr ?b)"
      using Inr fit Suc.prems(1) by (simp add: ubi_read_at_def buf_put_Some)
    have "\<exists>res. read_leb_loop n K u l io stop ?b (offs + io) = Some res \<and> (\<forall>b'. res = Inr b' \<longrightarrow> length b' = length ?b)"
      by (rule Suc.IH) (use Suc.prems assms(2) io(2) lb in \<open>auto\<close>)
    then show ?thesis using r s lb by (cases s) auto
  qed
qed simp


lemma read_leb_fast_total:
  assumes "ubi_reads_all K" "8 \<le> su_min_io_size (bi_super bi)" "rb_size r = su_leb_size (bi_super bi)"
    and "rb_size r = int (length (rb_buf r))"
  shows "\<exists>err r'. wbuf_read_leb_fast K bi lnum r = Some (err, r') \<and>
    (err = None \<longrightarrow> rb_size r' = rb_size r \<and> length (rb_buf r') = length (rb_buf r) \<and> rb_offs r' = 0)"
proof -
  let ?io = "su_min_io_size (bi_super bi)" and ?leb = "su_leb_size (bi_super bi)"
  let ?stop = "\<lambda>b offs. do { w \<leftarrow> get64 b (nat offs); Some (w = 0xFFFFFFFFFFFFFFFF) }"
  have "?leb div ?io * ?io \<le> ?leb"
    using div_mult_mod_eq [of ?leb ?io] pos_mod_sign [of ?io ?leb] assms(2) by linarith
  then have "int (nat (?leb div ?io)) * ?io \<le> int (length (rb_buf r))"
    using assms by (simp add: pos_imp_zdiv_nonneg_iff)
  moreover have "?stop b offs \<noteq> None"
    if "length b = length (rb_buf r)" "0 \<le> offs" "offs + ?io \<le> int (length (rb_buf r))" for b offs
  proof -
    have "nat offs + 8 \<le> length b" using that assms(2) by linarith
    then show ?thesis by (simp add: getw_Some)
  qed
  ultimately obtain res where res: "read_leb_loop (nat (?leb div ?io)) K (bi_ubi bi) lnum ?io ?stop (rb_buf r) 0 = Some res"
    "\<forall>b'. res = Inr b' \<longrightarrow> length b' = length (rb_buf r)"
    using read_leb_loop_total [OF assms(1), of ?io 0 "nat (?leb div ?io)" "rb_buf r" ?stop "bi_ubi bi" lnum] assms(2)
    by auto
  show ?thesis
  proof (cases res)
    case (Inl p)
    then show ?thesis using res(1) assms(3) by (cases p) (simp add: wbuf_read_leb_fast_def Let_def)
  next
    case (Inr b)
    then show ?thesis using res assms(3) by (simp add: wbuf_read_leb_fast_def Let_def)
  qed
qed

lemma unpack_super_total: "super + 120 \<le> length b \<Longrightarrow> unpack_obj_super bsuper b super \<noteq> None"
  by (simp add: unpack_obj_super_def getw_Some)

text \<open>
  C35. Reading the superblock at mount time always ends and never leaves the read-buffer, whatever
  the erase-block holds: each of the three nested searches for objects makes progress, and the
  object that is unpacked has the size of a superblock.
\<close>

theorem mount_read_super_total:
  assumes "ubi_reads_all K" "8 \<le> su_min_io_size (bi_super bi)"
    and "rb_size (bi_rbuf bi) = su_leb_size (bi_super bi)" "rb_size (bi_rbuf bi) = int (length (rb_buf (bi_rbuf bi)))"
    and "rb_size (bi_rbuf bi) < 2 ^ 31"
  shows "\<exists>err bi'. mount_read_super K bi = Some (err, bi')"
proof -
  obtain err r where r: "wbuf_read_leb_fast K bi 0 (bi_rbuf bi) = Some (err, r)"
    "err = None \<longrightarrow> rb_size r = rb_size (bi_rbuf bi) \<and> length (rb_buf r) = length (rb_buf (bi_rbuf bi)) \<and> rb_offs r = 0"
    using read_leb_fast_total [OF assms(1-4), of 0] by blast
  show ?thesis
  proof (cases err)
    case (Some e)
    then show ?thesis using r(1) by (simp add: mount_read_super_def)
  next
    case None
    let ?a = "\<lparr>oa_lnum = 0, oa_offs = 0, oa_len = 0, oa_sqnum = 0\<rparr>" and ?n = "length (rb_buf r)"
    have ok: "rbuf_ok r" "addr_in r ?a" using r(2) None assms(4,5) by (simp_all add: rbuf_ok_def addr_in_def)
    obtain p a1 where p: "next_super_addr ?n K ?a r = Some (p, a1)" "addr_in r a1" "super_found r p"
      "\<forall>obj. p = Inr obj \<longrightarrow> left_of r a1 < left_of r ?a"
      using next_super_ok [OF ok left_of_le [OF ok], of K] by blast
    obtain s a2 where s: "last_super_loop ?n K r p (p, a1) = Some (s, a2)" "addr_in r a2" "super_found r s"
    proof (cases p)
      case (Inl e)
      then show ?thesis using that [of p a1] p by (cases ?n) auto
    next
      case (Inr obj)
      then have "left_of r a1 < ?n" using p(4) left_of_le [OF ok] by simp
      from last_super_ok [OF ok(1) p(2) this p(3) p(3), of K] that show ?thesis by blast
    qed
    obtain a3 where a3: "last_obj_loop ?n K r a2 = Some a3"
      using last_obj_ok [OF ok(1) s(2) left_of_le [OF ok(1) s(2)]] by blast
    show ?thesis
    proof (cases s)
      case (Inl e)
      then show ?thesis using r(1) None p(1) s(1) by (simp add: mount_read_super_def)
    next
      case (Inr obj)
      then have f: "obj + 24 \<le> ?n" "obj + unat (rd32 (rb_buf r) (obj + 16)) \<le> ?n" using s(3) by (auto simp: super_found_def)
      show ?thesis
      proof (cases "rd32 (rb_buf r) (obj + 16) = 120")
        case True
        then have "unpack_obj_super (bi_super bi) (rb_buf r) obj \<noteq> None" using f(2) unpack_super_total by simp
        then show ?thesis using r(1) None p(1) s(1) a3 Inr f(1) by (auto simp: mount_read_super_def getw_Some Let_def)
      next
        case False
        then show ?thesis using r(1) None p(1) s(1) Inr f(1) by (simp add: mount_read_super_def getw_Some Let_def)
      qed
    qed
  qed
qed

definition strict_ram :: "(int \<Rightarrow> buf) kernel" where
  "strict_ram = ram_kernel\<lparr>k_ubi_read := \<lambda>u l offs n.
     if 0 \<le> offs \<and> 0 \<le> n \<and> offs + n \<le> int (length (u l)) then Inr (take (nat n) (drop (nat offs) (u l)))
     else Inl EINVAL\<rparr>"

lemma strict_ram_ok: "ubi_reads_all strict_ram"
  by (auto simp: ubi_reads_all_def strict_ram_def split: if_splits)

theorem mount_read_super_total_witness: "\<exists>err bi'. mount_read_super strict_ram demo_ram = Some (err, bi')"
  using mount_read_super_total [OF strict_ram_ok, of demo_ram] by (simp add: demo_ram_def)

lemma write_obj_overrun:
  assumes "0 \<le> wb_used w" "objlen \<le> wb_avail w" "int (length (wb_buf w)) < wb_used w + objlen"
  shows "wbuf_write_obj obj objlen w = None"
proof (cases "objlen mod 8 = 0 \<and> 0 \<le> objlen \<and> nat objlen \<le> length obj")
  case True
  then have "buf_get obj 0 (nat objlen) = Some (take (nat objlen) obj)" by (simp add: buf_get_Some)
  moreover have "\<not> nat (wb_used w) + nat objlen \<le> length (wb_buf w)" using assms True by linarith
  ultimately show ?thesis using True assms by (simp add: wbuf_write_obj_def buf_put_def)
next
  case False
  then show ?thesis using assms(2) by (auto simp: wbuf_write_obj_def buf_get_def bilbyfs_assert_bind)
qed

text \<open>
  C39. \<open>ostore_write_super\<close> means to start the superblock erase-block again, by an atomic change,
  when the next superblock does not fit behind the last one. It sets the fill level of the buffer
  without reducing the free space that \<open>wbuf_start\<close> announced, so the object always seems to fit:
  with less than 120 bytes left it is copied past the end of the buffer.
\<close>

theorem ostore_write_super_overruns:
  assumes "su_leb_size (bi_super bi) = vi_usable_leb_size (bi_info bi)" "120 \<le> su_leb_size (bi_super bi)"
    and "int (length (wb_buf (bi_sup_wbuf bi))) = su_leb_size (bi_super bi)"
    and "0 \<le> bi_super_offs bi" "su_leb_size (bi_super bi) < bi_super_offs bi + 120"
  shows "ostore_write_super K bi = None"
proof -
  have over: "wbuf_write_obj obj 120 ((bi_sup_wbuf bi)\<lparr>wb_avail := su_leb_size (bi_super bi),
      wb_size := su_leb_size (bi_super bi), wb_used := bi_super_offs bi, wb_sync_offs := bi_super_offs bi\<rparr>) = None" for obj
    by (rule write_obj_overrun) (use assms in simp_all)
  show ?thesis
    using assms(1) over
    by (auto simp: ostore_write_super_def wbuf_start_def Let_def next_sqnum_def intro!: bind_eq_None_conv [THEN iffD2])
qed


definition demo_super :: "unit bilbyfs_info" where
  "demo_super = zero_info\<lparr>bi_super := zero_super\<lparr>su_leb_size := 128\<rparr>,
     bi_info := (bi_info zero_info)\<lparr>vi_usable_leb_size := 128\<rparr>,
     bi_sup_wbuf := zero_wbuf\<lparr>wb_buf := replicate 128 0\<rparr>, bi_super_offs := 128\<rparr>"

theorem ostore_write_super_overruns_witness: "ostore_write_super demo_kernel demo_super = None"
  by (rule ostore_write_super_overruns) (simp_all add: demo_super_def)

end
