(* ===== verification/Bilby_Dentarr.thy ===== *)
theory Bilby_Dentarr
  imports Bilby_Packobj
begin

text \<open>
  \<open>dentarr.c\<close>: directory entry arrays, the objects that hold all entries of a directory whose
  names have the same hash. An entry pointer is an offset into the object; a null pointer is
  \<open>None\<close>. Reading an array from flash is in the theory of the object store.
  The abstract view of an array is the list of its entries: the lemmas show that adding
  appends, that lookup finds the entry with a name, and what deletion does.
\<close>

definition dentarr_first_dentry :: "buf \<Rightarrow> nat option option" where
  "dentarr_first_dentry dentarr = do {
     nb \<leftarrow> get32 dentarr dentarr_nb_dentry;
     Some (if nb = 0 then None else Some BILBYFS_DENTARR_SZ)
   }"

definition dentarr_end :: "buf \<Rightarrow> int option" where
  "dentarr_end dentarr = obj_dentarr_size dentarr"

definition dentarr_next_dentry :: "buf \<Rightarrow> nat \<Rightarrow> nat option option" where
  "dentarr_next_dentry dentarr dentry = do {
     sz \<leftarrow> obj_dentry_size dentarr dentry;
     let next_de = dentry + sz;
     e \<leftarrow> dentarr_end dentarr;
     Some (if int next_de = e then None else Some next_de)
   }"

definition dentarr_check_empty :: "buf \<Rightarrow> errno option option" where
  "dentarr_check_empty dentarr = do {
     de \<leftarrow> dentarr_first_dentry dentarr;
     Some (if de = None then None else Some ENOTEMPTY)
   }"

definition dentarr_add_dentry :: "buf \<Rightarrow> inode \<Rightarrow> name \<Rightarrow> (int \<times> buf) option" where
  "dentarr_add_dentry dentarr inode name = do {
     let sz_change = obj_dentry_size_from_nm name;
     oid \<leftarrow> get64 dentarr dentarr_id;
     nb \<leftarrow> get32 dentarr dentarr_nb_dentry;
     let nb_dentry = uint nb + 1;
     len \<leftarrow> obj_dentarr_size dentarr;
     de \<leftarrow> dentarr_end dentarr;
     bilbyfs_assert (0 \<le> de);
     dentarr \<leftarrow> pack_obj_dentry dentarr (nat de) inode name;
     dentarr \<leftarrow> pack_obj_dentarr dentarr oid nb_dentry (len + sz_change);
     Some (sz_change, dentarr)
   }"

text \<open>\<open>strcmp(s, name) == 0\<close> for the bytes \<open>s\<close> of a block; \<open>None\<close> when it reads past the block.\<close>

fun strcmp_eq :: "buf \<Rightarrow> name \<Rightarrow> bool option" where
  "strcmp_eq [] name = None"
| "strcmp_eq (x # xs) [] = Some (x = 0)"
| "strcmp_eq (x # xs) (c # cs) = (if x = c then strcmp_eq xs cs else Some False)"

lemma dentarr_next_greater: "dentarr_next_dentry d de = Some (Some nde) \<Longrightarrow> de < nde \<and> de < length d"
  by (auto simp: dentarr_next_dentry_def obj_dentry_size_def getw_def bind_eq_Some_conv
      split: if_splits)

function dentarr_lookup_loop :: "buf \<Rightarrow> name \<Rightarrow> nat option \<Rightarrow> (errno + nat) option" where
  "dentarr_lookup_loop dentarr name None = Some (Inl ENOENT)"
| "dentarr_lookup_loop dentarr name (Some de) =
     (case strcmp_eq (drop (de + de_name) dentarr) name of
        None \<Rightarrow> None
      | Some True \<Rightarrow> Some (Inr de)
      | Some False \<Rightarrow>
          (case dentarr_next_dentry dentarr de of
             None \<Rightarrow> None
           | Some nde \<Rightarrow> dentarr_lookup_loop dentarr name nde))"
  by pat_completeness auto
termination
  by (relation "measure (\<lambda>(d, name, de). case de of None \<Rightarrow> 0 | Some x \<Rightarrow> Suc (length d - x))")
     (auto split: option.splits dest: dentarr_next_greater)

definition dentarr_lookup_nm :: "buf \<Rightarrow> name \<Rightarrow> (errno + nat) option" where
  "dentarr_lookup_nm dentarr name = do {
     de \<leftarrow> dentarr_first_dentry dentarr;
     dentarr_lookup_loop dentarr name de
   }"

text \<open>
  The loop of \<open>dentarr_del_dentry\<close>: \<open>delen\<close> is the size of the entry that is overwritten, not
  of the one that is copied.
\<close>

function dentarr_del_loop :: "buf \<Rightarrow> buf \<Rightarrow> nat \<Rightarrow> nat option \<Rightarrow> buf option" where
  "dentarr_del_loop copy_dentarr dentarr de None = Some dentarr"
| "dentarr_del_loop copy_dentarr dentarr de (Some copy_de) =
     (case obj_dentry_size dentarr de of
        None \<Rightarrow> None
      | Some delen \<Rightarrow>
          (case buf_get copy_dentarr copy_de delen of
             None \<Rightarrow> None
           | Some bytes \<Rightarrow>
               (case buf_put dentarr de bytes of
                  None \<Rightarrow> None
                | Some dentarr' \<Rightarrow>
                    (case dentarr_next_dentry copy_dentarr copy_de of
                       None \<Rightarrow> None
                     | Some nxt \<Rightarrow> dentarr_del_loop copy_dentarr dentarr' (de + delen) nxt))))"
  by pat_completeness auto
termination
proof (relation "measure (\<lambda>(c, d, de, cde). case cde of None \<Rightarrow> 0 | Some x \<Rightarrow> Suc (length c - x))", goal_cases)
  case (2 copy_dentarr dentarr de copy_de delen bytes dentarr' nxt)
  then show ?case by (auto split: option.splits dest: dentarr_next_greater)
qed simp

text \<open>
  An error pointer is not a null pointer: when the name is not found, the test \<open>!copy_de\<close> does
  not hold and \<open>dentarr_next_dentry\<close> dereferences the error pointer.
\<close>

definition dentarr_del_dentry :: "kmem \<Rightarrow> buf \<Rightarrow> name \<Rightarrow> ((errno + int) \<times> buf \<times> kmem) option" where
  "dentarr_del_dentry km dentarr name = do {
     let sz_change = obj_dentry_size_from_nm name;
     oid \<leftarrow> get64 dentarr dentarr_id;
     nb \<leftarrow> get32 dentarr dentarr_nb_dentry;
     let nb_dentry = sint nb;
     len \<leftarrow> obj_dentarr_size dentarr;
     let (ok, km) = kmalloc_ok km;
     if \<not> ok then Some (Inl ENOMEM, dentarr, km)
     else do {
       bilbyfs_assert (0 \<le> len);
       copy_dentarr \<leftarrow> buf_get dentarr 0 (nat len);
       copy_de \<leftarrow> dentarr_lookup_nm copy_dentarr name;
       de \<leftarrow> dentarr_lookup_nm dentarr name;
       if nb_dentry \<le> 0 then Some (Inr 0, dentarr, km)
       else do {
         copy_de \<leftarrow> (case copy_de of Inl _ \<Rightarrow> None | Inr p \<Rightarrow> Some p);
         de \<leftarrow> (case de of Inl _ \<Rightarrow> None | Inr p \<Rightarrow> Some p);
         nxt \<leftarrow> dentarr_next_dentry copy_dentarr copy_de;
         dentarr \<leftarrow> dentarr_del_loop copy_dentarr dentarr de nxt;
         let nb_dentry = nb_dentry - 1;
         dentarr \<leftarrow>
           (if nb_dentry = 0 then do {
              dentarr \<leftarrow> buf_fill dentarr 0 0 (nat len);
              pack_obj_del dentarr oid
            }
            else pack_obj_dentarr dentarr oid nb_dentry (len - sz_change));
         Some (Inr sz_change, dentarr, km)
       }
     }
   }"

section \<open>The abstract array\<close>

record dent =
  dent_ino :: u32
  dent_type :: u8
  dent_name :: name

definition enc_dent :: "dent \<Rightarrow> buf" where
  "enc_dent e = le_enc 4 (dent_ino e) @ le_enc 1 (dent_type e) @
     le_enc 2 (of_nat (length (dent_name e)) :: u16) @ dent_name e @ [0]"

definition name_ok :: "name \<Rightarrow> bool" where
  "name_ok nm \<longleftrightarrow> 0 \<notin> set nm \<and> length nm \<le> BILBYFS_MAX_NLEN"

definition dents_size :: "dent list \<Rightarrow> nat" where
  "dents_size es = sum_list (map (\<lambda>e. 8 + length (dent_name e)) es)"

text \<open>\<open>dentarr_rep d es\<close>: the object \<open>d\<close> holds the entries \<open>es\<close>.\<close>

definition dentarr_rep :: "buf \<Rightarrow> dent list \<Rightarrow> bool" where
  "dentarr_rep d es \<longleftrightarrow> 40 + dents_size es \<le> length d \<and> 40 + dents_size es < 2 ^ 31 \<and>
     rd32 d 32 = of_nat (length es) \<and> rd32 d 36 = of_nat (40 + dents_size es) \<and>
     length es < 2 ^ 31 \<and>
     take (dents_size es) (drop 40 d) = concat (map enc_dent es) \<and> (\<forall>e \<in> set es. name_ok (dent_name e))"

lemma length_enc_dent [simp]: "length (enc_dent e) = 8 + length (dent_name e)"
  by (simp add: enc_dent_def)

lemma length_enc_dents: "length (concat (map enc_dent es)) = dents_size es"
  by (induction es) (auto simp: dents_size_def)

lemma dents_size_simps [simp]:
  "dents_size [] = 0" "dents_size (e # es) = 8 + length (dent_name e) + dents_size es"
  "dents_size (es @ fs) = dents_size es + dents_size fs"
  by (simp_all add: dents_size_def)

lemma strcmp_eq_dent:
  "0 \<notin> set nm \<Longrightarrow> 0 \<notin> set name \<Longrightarrow> strcmp_eq (nm @ 0 # r) name = Some (nm = name)"
proof (induction nm arbitrary: name)
  case Nil
  then show ?case by (cases name) auto
next
  case (Cons x nm)
  then show ?case by (cases name) auto
qed

text \<open>Reading one entry of a block.\<close>

lemma dent_at:
  assumes "drop de d = enc_dent e @ r" "name_ok (dent_name e)"
  shows "obj_dentry_size d de = Some (8 + length (dent_name e))"
    and "0 \<notin> set name \<Longrightarrow> strcmp_eq (drop (de + 7) d) name = Some (dent_name e = name)"
    and "drop (de + (8 + length (dent_name e))) d = r"
proof -
  have l: "length d - de = 8 + length (dent_name e) + length r"
    using arg_cong [OF assms(1), of length] by simp
  have "take 2 (drop 5 (enc_dent e @ r)) = le_enc 2 (of_nat (length (dent_name e)) :: u16)"
    by (simp add: enc_dent_def)
  moreover have "drop (de + 5) d = drop 5 (enc_dent e @ r)"
    using assms(1) by (metis drop_drop add.commute)
  ultimately have "rd16 d (de + 5) = of_nat (length (dent_name e))"
    by (simp add: rdw_def le_dec_enc_full)
  moreover have "unat (of_nat (length (dent_name e)) :: u16) = length (dent_name e)"
    using assms(2) by (simp add: name_ok_def unsigned_of_nat take_bit_nat_eq_self)
  ultimately show "obj_dentry_size d de = Some (8 + length (dent_name e))"
    using l by (simp add: obj_dentry_size_def getw_Some)
  have "drop (de + 7) d = drop 7 (drop de d)" by (simp add: add.commute)
  also have "\<dots> = dent_name e @ 0 # r" unfolding assms(1) by (simp add: enc_dent_def)
  finally show "0 \<notin> set name \<Longrightarrow> strcmp_eq (drop (de + 7) d) name = Some (dent_name e = name)"
    using assms(2) by (simp add: strcmp_eq_dent name_ok_def)
  have "drop (de + (8 + length (dent_name e))) d = drop (8 + length (dent_name e)) (drop de d)"
    by (simp add: add.commute)
  then show "drop (de + (8 + length (dent_name e))) d = r" unfolding assms(1) by simp
qed

fun dent_offs :: "name \<Rightarrow> dent list \<Rightarrow> nat \<Rightarrow> errno + nat" where
  "dent_offs name [] de = Inl ENOENT"
| "dent_offs name (e # es) de =
     (if dent_name e = name then Inr de else dent_offs name es (de + (8 + length (dent_name e))))"

lemma dent_offs_Inl: "dent_offs name es de = Inl x \<longleftrightarrow> x = ENOENT \<and> name \<notin> dent_name ` set es"
  by (induction es arbitrary: de) auto

lemma dent_offs_Inr:
  "dent_offs name es de = Inr p \<Longrightarrow> \<exists>xs e ys. es = xs @ e # ys \<and> dent_name e = name \<and>
     name \<notin> dent_name ` set xs \<and> p = de + dents_size xs"
proof (induction es arbitrary: de)
  case (Cons e es)
  show ?case
  proof (cases "dent_name e = name")
    case True
    with Cons.prems show ?thesis by (intro exI [of _ "[]"]) auto
  next
    case False
    with Cons.prems have "dent_offs name es (de + (8 + length (dent_name e))) = Inr p" by simp
    from Cons.IH [OF this] obtain xs f ys where "es = xs @ f # ys" "dent_name f = name"
      "name \<notin> dent_name ` set xs" "p = de + (8 + length (dent_name e)) + dents_size xs"
      by blast
    with False show ?thesis by (intro exI [of _ "e # xs"]) auto
  qed
qed simp

lemma lookup_loop_spec:
  assumes "es \<noteq> []" "drop de d = concat (map enc_dent es) @ r" "\<forall>e \<in> set es. name_ok (dent_name e)"
    and "dentarr_end d = Some (int (de + dents_size es))" "0 \<notin> set name"
  shows "dentarr_lookup_loop d name (Some de) = Some (dent_offs name es de)"
  using assms
proof (induction es arbitrary: de)
  case (Cons e es)
  have at: "drop de d = enc_dent e @ (concat (map enc_dent es) @ r)" "name_ok (dent_name e)"
    using Cons.prems by auto
  note da = dent_at [OF at]
  have nxt: "dentarr_next_dentry d de =
      Some (if es = [] then None else Some (de + (8 + length (dent_name e))))"
    using da(1) Cons.prems(4) by (cases es) (auto simp: dentarr_next_dentry_def)
  show ?case
  proof (cases "es = []")
    case True
    then show ?thesis using da(2) [OF Cons.prems(5)] nxt by (simp split: bool.split)
  next
    case False
    have "dentarr_lookup_loop d name (Some (de + (8 + length (dent_name e)))) =
        Some (dent_offs name es (de + (8 + length (dent_name e))))"
      using Cons.prems da(3) False by (intro Cons.IH) (simp_all add: add.assoc)
    then show ?thesis using da(2) [OF Cons.prems(5)] nxt False by (simp split: bool.split)
  qed
qed simp

lemma rep_end: "dentarr_rep d es \<Longrightarrow> dentarr_end d = Some (int (40 + dents_size es))"
proof -
  assume a: "dentarr_rep d es"
  then have "uint (of_nat (40 + dents_size es) :: u32) = int (40 + dents_size es)"
    "sint (of_nat (40 + dents_size es) :: u32) = int (40 + dents_size es)"
    using int_words(1,3) [of "int (40 + dents_size es)"] by (auto simp: dentarr_rep_def)
  moreover have "rd32 d 36 \<noteq> 0" using a calculation(1) by (auto simp: dentarr_rep_def)
  ultimately show ?thesis
    using a by (simp add: dentarr_rep_def dentarr_end_def obj_dentarr_size_def getw_Some)
qed

lemma rep_first: "dentarr_rep d es \<Longrightarrow>
  dentarr_first_dentry d = Some (if es = [] then None else Some 40)"
proof -
  assume a: "dentarr_rep d es"
  then have "uint (of_nat (length es) :: u32) = int (length es)"
    using int_words(1) [of "int (length es)"] by (auto simp: dentarr_rep_def)
  then have "(of_nat (length es) :: u32) = 0 \<longleftrightarrow> es = []" by auto
  with a show ?thesis by (simp add: dentarr_rep_def dentarr_first_dentry_def getw_Some)
qed

lemma rep_drop:
  "dentarr_rep d es \<Longrightarrow> drop 40 d = concat (map enc_dent es) @ drop (40 + dents_size es) d"
  unfolding dentarr_rep_def by (metis append_take_drop_id drop_drop add.commute)

lemma lookup_spec:
  assumes "dentarr_rep d es" "0 \<notin> set name"
  shows "dentarr_lookup_nm d name = Some (dent_offs name es 40)"
proof (cases "es = []")
  case True
  then show ?thesis using rep_first [OF assms(1)] by (simp add: dentarr_lookup_nm_def)
next
  case False
  have "dentarr_lookup_loop d name (Some 40) = Some (dent_offs name es 40)"
    using False rep_drop [OF assms(1)] rep_end [OF assms(1)] assms
    by (intro lookup_loop_spec) (auto simp: dentarr_rep_def)
  then show ?thesis using False rep_first [OF assms(1)] by (simp add: dentarr_lookup_nm_def)
qed

section \<open>Adding an entry\<close>

lemma stores_outside:
  "stores_fit (length b) fs \<Longrightarrow> \<forall>(off, bs) \<in> set fs. off + length bs \<le> k \<Longrightarrow>
   drop k (stores b fs) = drop k b"
  by (induction fs rule: stores_fit.induct) (auto simp: stores.simps drop_splice_after)

lemma pack_obj_dentry_eq:
  assumes "inode_mode_to_dent_type (i_mode inode) = Some ty" "de + (8 + length name) \<le> length b"
  shows "pack_obj_dentry b de inode name = Some (splice b de
    (enc_dent \<lparr>dent_ino = ucast (i_ino inode), dent_type = ty, dent_name = name\<rparr>))"
proof -
  let ?i = "le_enc 4 (ucast (i_ino inode) :: u32)" and ?t = "le_enc 1 ty"
    and ?l = "le_enc 2 (of_nat (length name) :: u16)"
  have s2: "splice (splice b k xs) (k + length xs) ys = splice b k (xs @ ys)"
    if "k + length xs + length ys \<le> length b" for k xs ys
    using that by (simp add: splice_def add_ac)
  have "splice (splice (splice (splice b de ?i) (de + 4) ?t) (de + 5) ?l) (de + 7) (name @ [0]) =
      splice b de (?i @ ?t @ ?l @ name @ [0])"
    using assms(2) s2 [of de ?i ?t] s2 [of de "?i @ ?t" ?l] s2 [of de "?i @ ?t @ ?l" "name @ [0]"]
    by (simp add: add.assoc)
  then show ?thesis
    using assms by (simp add: pack_obj_dentry_def access_simps enc_dent_def)
qed

lemma pack_obj_dentarr_stores:
  assumes "40 \<le> length d" "40 \<le> sz" "sz < 2 ^ 31"
  shows "pack_obj_dentarr d oid nb sz = Some (stores d
    [(36, le_enc 4 (word_of_int sz :: u32)), (32, le_enc 4 (word_of_int nb :: u32)), (24, le_enc 8 oid),
     (16, le_enc 4 (word_of_int (ALIGN sz 8) :: u32)), (20, le_enc 1 (2 :: u8))])"
  using assms by (simp add: pack_obj_dentarr_def len_to_le32_ok put_stores)

lemma add_dentry_ok:
  assumes "dentarr_rep d es" "inode_mode_to_dent_type (i_mode inode) = Some ty" "name_ok name"
    and "40 + dents_size es + (8 + length name) \<le> length d" "length d < 2 ^ 31" "length es + 1 < 2 ^ 31"
  defines "e \<equiv> \<lparr>dent_ino = ucast (i_ino inode), dent_type = ty, dent_name = name\<rparr>"
  shows "\<exists>d'. dentarr_add_dentry d inode name = Some (8 + int (length name), d') \<and>
    dentarr_rep d' (es @ [e]) \<and> length d' = length d \<and> rd64 d' 24 = rd64 d 24 \<and> rd8 d' 20 = BILBYFS_DENTARR_OBJ \<and>
    rd32 d' 16 = word_of_int (ALIGN (int (40 + dents_size (es @ [e]))) 8)"
proof -
  let ?n = "40 + dents_size es"
  let ?d1 = "splice d ?n (enc_dent e)"
  let ?sz = "int ?n + (8 + int (length name))"
  let ?fs = "[(36, le_enc 4 (word_of_int ?sz :: u32)), (32, le_enc 4 (word_of_int (int (length es) + 1) :: u32)),
     (24, le_enc 8 (rd64 d 24)), (16, le_enc 4 (word_of_int (ALIGN ?sz 8) :: u32)), (20, le_enc 1 (2 :: u8))]"
  let ?d2 = "stores ?d1 ?fs"
  have le: "length (enc_dent e) = 8 + length name" by (simp add: e_def)
  have l1: "length ?d1 = length d" using assms(4) le by simp
  have nb: "uint (rd32 d 32) = int (length es)"
    using assms(1) int_words(1) [of "int (length es)"] by (auto simp: dentarr_rep_def)
  have p1: "pack_obj_dentry d ?n inode name = Some ?d1"
    unfolding e_def using assms(4) by (intro pack_obj_dentry_eq [OF assms(2)]) simp
  have p2: "pack_obj_dentarr ?d1 (rd64 d 24) (int (length es) + 1) ?sz = Some ?d2"
    using assms(4,5) l1 by (intro pack_obj_dentarr_stores) auto
  have add: "dentarr_add_dentry d inode name = Some (8 + int (length name), ?d2)"
    using rep_end [OF assms(1)] assms(4) nb p1 p2 nat_int [of ?n]
    by (simp add: dentarr_add_dentry_def dentarr_end_def getw_Some obj_dentry_size_from_nm_def add.assoc)
  have fit: "stores_fit (length ?d1) ?fs" using l1 assms(4) by simp
  have len2: "length ?d2 = length d" using fit l1 by simp
  have "drop 40 ?d2 = drop 40 ?d1" by (rule stores_outside [OF fit]) simp
  also have "\<dots> = concat (map enc_dent es) @ enc_dent e @ drop (?n + (8 + length name)) d"
    using rep_drop [OF assms(1)] assms(4) le
    by (simp add: splice_def drop_take length_enc_dents take_add)
  finally have "take (dents_size (es @ [e])) (drop 40 ?d2) = concat (map enc_dent (es @ [e]))"
    by (simp add: length_enc_dents e_def)
  moreover have "rd32 ?d2 32 = word_of_int (int (length es) + 1)" "rd32 ?d2 36 = word_of_int ?sz"
    "rd64 ?d2 24 = rd64 d 24"
    using l1 assms(4) by (simp_all add: store_reads)
  ultimately have "dentarr_rep ?d2 (es @ [e])"
    using assms(1,3-6) len2 by (simp add: dentarr_rep_def e_def)
  moreover have "rd8 ?d2 20 = BILBYFS_DENTARR_OBJ" "rd32 ?d2 16 = word_of_int (ALIGN ?sz 8)"
    using l1 assms(4) by (simp_all add: store_reads)
  moreover have "?sz = int (40 + dents_size (es @ [e]))" by (simp add: e_def)
  ultimately show ?thesis using add len2 \<open>rd64 ?d2 24 = rd64 d 24\<close> by metis
qed

section \<open>Deleting an entry\<close>

lemma rep_copy:
  assumes "dentarr_rep d es"
  shows "dentarr_rep (take (40 + dents_size es) d) es"
proof -
  have l: "40 + dents_size es \<le> length d" using assms by (simp add: dentarr_rep_def)
  have "rd32 (take (40 + dents_size es) d) 32 = rd32 d 32" "rd32 (take (40 + dents_size es) d) 36 = rd32 d 36"
    by (simp_all add: rdw_def drop_take min_def)
  moreover have "take (dents_size es) (drop 40 (take (40 + dents_size es) d)) = take (dents_size es) (drop 40 d)"
    by (simp add: drop_take)
  ultimately show ?thesis using assms l by (simp add: dentarr_rep_def length_enc_dents)
qed

lemma rep_nb: "dentarr_rep d es \<Longrightarrow> get32 d 32 = Some (of_nat (length es)) \<and>
  sint (of_nat (length es) :: u32) = int (length es)"
  using int_words(3) [of "int (length es)"] by (auto simp: dentarr_rep_def getw_Some)

text \<open>The part of \<open>dentarr_del_dentry\<close> before the loop, on a well-formed array.\<close>

lemma del_dentry_found:
  assumes "dentarr_rep d es" "0 \<notin> set name" "es \<noteq> []" "kmalloc_ok km = (True, km')"
  shows "dentarr_del_dentry km d name = (case dent_offs name es 40 of Inl _ \<Rightarrow> None
    | Inr de \<Rightarrow> do {
         nxt \<leftarrow> dentarr_next_dentry (take (40 + dents_size es) d) de;
         d' \<leftarrow> dentarr_del_loop (take (40 + dents_size es) d) d de nxt;
         d' \<leftarrow> (if length es = 1 then do {
                d' \<leftarrow> buf_fill d' 0 0 (40 + dents_size es);
                pack_obj_del d' (rd64 d 24)
              }
              else pack_obj_dentarr d' (rd64 d 24) (int (length es) - 1)
                (int (40 + dents_size es) - (8 + int (length name))));
         Some (Inr (8 + int (length name)), d', km')
       })"
proof -
  have l: "40 + dents_size es \<le> length d" using assms(1) by (simp add: dentarr_rep_def)
  have sz: "obj_dentarr_size d = Some (int (40 + dents_size es))"
    using rep_end [OF assms(1)] by (simp add: dentarr_end_def)
  have n1: "int (length es) - 1 = 0 \<longleftrightarrow> length es = 1" using assms(3) by linarith
  have cp: "buf_get d 0 (40 + dents_size es) = Some (take (40 + dents_size es) d)"
    using l by (simp add: buf_get_Some)
  show ?thesis
    unfolding dentarr_del_dentry_def Let_def
    using rep_nb [OF assms(1)] sz l cp lookup_spec [OF assms(1,2)] lookup_spec [OF rep_copy [OF assms(1)] assms(2)]
      assms(3,4) n1 nat_int [of "40 + dents_size es"]
    by (cases "length es = 1") (simp_all add: getw_Some obj_dentry_size_from_nm_def split: sum.split)
qed

text \<open>
  Lookup in a directory entry array returns the first entry with the given name, and
  \<open>ENOENT\<close> exactly when no entry has it; it never reads outside the object.
\<close>

lemma dentarr_lookup_nm_correct:
  assumes "dentarr_rep d es" "0 \<notin> set name"
  shows "if name \<in> dent_name ` set es
    then \<exists>xs e ys. es = xs @ e # ys \<and> dent_name e = name \<and> name \<notin> dent_name ` set xs \<and>
      dentarr_lookup_nm d name = Some (Inr (40 + dents_size xs)) \<and>
      rd32 d (40 + dents_size xs) = dent_ino e
    else dentarr_lookup_nm d name = Some (Inl ENOENT)"
proof (cases "dent_offs name es 40")
  case (Inl a)
  with lookup_spec [OF assms] show ?thesis by (simp add: dent_offs_Inl)
next
  case (Inr p)
  then obtain xs e ys where x: "es = xs @ e # ys" "dent_name e = name"
    "name \<notin> dent_name ` set xs" "p = 40 + dents_size xs"
    using dent_offs_Inr by blast
  have "drop (40 + dents_size xs) d = drop (dents_size xs) (drop 40 d)" by (simp add: add.commute)
  also have "\<dots> = enc_dent e @ concat (map enc_dent ys) @ drop (40 + dents_size es) d"
    using rep_drop [OF assms(1)] x(1) by (simp add: length_enc_dents)
  finally have "take 4 (drop (40 + dents_size xs) d) = le_enc 4 (dent_ino e)" by (simp add: enc_dent_def)
  then have "rd32 d (40 + dents_size xs) = dent_ino e" by (simp add: rdw_def le_dec_enc_full)
  with x Inr lookup_spec [OF assms] show ?thesis by auto
qed

text \<open>
  \<open>dentarr_add_dentry\<close> appends one entry with the inode number, type and name it was given
  to an array that has room for it, keeps the other entries and the id, and returns the number
  of bytes added.
\<close>

lemma dentarr_add_dentry_correct:
  assumes "dentarr_rep d es" "inode_mode_to_dent_type (i_mode inode) = Some ty" "name_ok name"
    and "40 + dents_size es + (8 + length name) \<le> length d" "length d < 2 ^ 31" "length es + 1 < 2 ^ 31"
  shows "\<exists>d'. dentarr_add_dentry d inode name = Some (8 + int (length name), d') \<and>
    dentarr_rep d' (es @ [\<lparr>dent_ino = ucast (i_ino inode), dent_type = ty, dent_name = name\<rparr>]) \<and>
    length d' = length d \<and> rd64 d' 24 = rd64 d 24"
  using add_dentry_ok [OF assms] by blast

text \<open>
  Deleting the only entry of an array turns the object into a deletion object for the
  array's id.
\<close>

lemma dentarr_del_only_entry:
  assumes "dentarr_rep d [e]" "kmalloc_ok km = (True, km')"
  shows "\<exists>d'. dentarr_del_dentry km d (dent_name e) = Some (Inr (8 + int (length (dent_name e))), d', km') \<and>
    length d' = length d \<and> get_obj_id d' 0 = Some (rd64 d 24) \<and> rd8 d' 20 = BILBYFS_DEL_OBJ \<and>
    rd32 d' 16 = of_nat BILBYFS_DEL_SZ"
proof -
  let ?n = "40 + dents_size [e]"
  let ?c = "take ?n d"
  have ok: "name_ok (dent_name e)" "?n \<le> length d" using assms(1) by (auto simp: dentarr_rep_def)
  have z: "0 \<notin> set (dent_name e)" using ok(1) by (simp add: name_ok_def)
  have "drop 40 ?c = enc_dent e @ []"
    using rep_drop [OF rep_copy [OF assms(1)]] by simp
  from dent_at(1) [OF this ok(1)] have "dentarr_next_dentry ?c 40 = Some None"
    using rep_end [OF rep_copy [OF assms(1)]] by (simp add: dentarr_next_dentry_def)
  then have "dentarr_del_dentry km d (dent_name e) = do {
      d' \<leftarrow> buf_fill d 0 0 ?n;
      d' \<leftarrow> pack_obj_del d' (rd64 d 24);
      Some (Inr (8 + int (length (dent_name e))), d', km') }"
    using del_dentry_found [OF assms(1) z _ assms(2)] by simp
  then show ?thesis
    using ok(2) by (simp add: pack_obj_del_def put_stores get_obj_id_def store_reads)
qed

text \<open>
  Deleting a name that is not in a non-empty array does not return 0, as the code means to
  do, but dereferences the error pointer that \<open>dentarr_lookup_nm\<close> returns.
\<close>

lemma dentarr_del_missing_faults:
  assumes "dentarr_rep d es" "es \<noteq> []" "name \<notin> dent_name ` set es" "0 \<notin> set name"
    and "kmalloc_ok km = (True, km')"
  shows "dentarr_del_dentry km d name = None"
proof -
  have "dent_offs name es 40 = Inl ENOENT" using assms(3) by (simp add: dent_offs_Inl)
  then show ?thesis using del_dentry_found [OF assms(1,4,2,5)] by simp
qed

section \<open>Examples\<close>

text \<open>An array with the entries \<open>a\<close> and \<open>bcd\<close>.\<close>

definition demo_dents :: "dent list" where
  "demo_dents = [\<lparr>dent_ino = 30, dent_type = 0, dent_name = [97]\<rparr>,
     \<lparr>dent_ino = 31, dent_type = 0, dent_name = [98, 99, 100]\<rparr>]"

definition demo_dentarr :: buf where
  "demo_dentarr = replicate 20 0 @ [2, 0, 0, 0] @ replicate 8 0 @ [2, 0, 0, 0, 60, 0, 0, 0] @
     concat (map enc_dent demo_dents) @ replicate 40 0"

lemma demo_dentarr_rep: "dentarr_rep demo_dentarr demo_dents"
proof -
  have "take (dents_size demo_dents) (drop 40 demo_dentarr) = concat (map enc_dent demo_dents)"
    "rd32 demo_dentarr 32 = 2" "rd32 demo_dentarr 36 = 60" "length demo_dentarr = 100"
    "dents_size demo_dents = 20" "length demo_dents = 2"
    by code_simp+
  moreover have "\<forall>e \<in> set demo_dents. name_ok (dent_name e)" by (simp add: demo_dents_def name_ok_def)
  ultimately show ?thesis by (simp add: dentarr_rep_def)
qed

lemma dentarr_lookup_nm_correct_example:
  "(\<exists>p. dentarr_lookup_nm demo_dentarr [98, 99, 100] = Some (Inr p) \<and> rd32 demo_dentarr p = 31) \<and>
   dentarr_lookup_nm demo_dentarr [120] = Some (Inl ENOENT)"
  using dentarr_lookup_nm_correct [OF demo_dentarr_rep, of "[98, 99, 100]"]
    dentarr_lookup_nm_correct [OF demo_dentarr_rep, of "[120]"]
  by (fastforce simp: demo_dents_def Cons_eq_append_conv append_eq_Cons_conv)

lemma dentarr_add_dentry_correct_example:
  "\<exists>d'. dentarr_add_dentry demo_dentarr \<lparr>i_ino = 32, i_mode = 0x81A4, i_nlink = 1, i_uid = 0, i_gid = 0,
      i_size = 0, i_atime = 0, i_mtime = 0, i_ctime = 0, i_flags = 0, bi_creat_sqnum = 0, bi_flags = 0\<rparr> [122]
      = Some (9, d') \<and>
    dentarr_rep d' (demo_dents @ [\<lparr>dent_ino = 32, dent_type = 0, dent_name = [122]\<rparr>])"
proof -
  have "length demo_dentarr = 100" "dents_size demo_dents = 20" "length demo_dents = 2"
    "inode_mode_to_dent_type 0x81A4 = Some 0" by code_simp+
  with dentarr_add_dentry_correct [OF demo_dentarr_rep, of "\<lparr>i_ino = 32, i_mode = 0x81A4, i_nlink = 1,
      i_uid = 0, i_gid = 0, i_size = 0, i_atime = 0, i_mtime = 0, i_ctime = 0, i_flags = 0,
      bi_creat_sqnum = 0, bi_flags = 0\<rparr>" 0 "[122]"]
  show ?thesis by (auto simp: name_ok_def)
qed

definition demo_dentarr1 :: buf where
  "demo_dentarr1 = replicate 20 0 @ [2, 0, 0, 0] @ replicate 8 0 @ [1, 0, 0, 0, 49, 0, 0, 0] @
     concat (map enc_dent [hd demo_dents]) @ replicate 40 0"

lemma demo_dentarr1_rep: "dentarr_rep demo_dentarr1 [hd demo_dents]"
proof -
  have "take (dents_size [hd demo_dents]) (drop 40 demo_dentarr1) = concat (map enc_dent [hd demo_dents])"
    "rd32 demo_dentarr1 32 = 1" "rd32 demo_dentarr1 36 = 49" "length demo_dentarr1 = 89"
    "dents_size [hd demo_dents] = 9"
    by code_simp+
  moreover have "name_ok (dent_name (hd demo_dents))" by (simp add: demo_dents_def name_ok_def)
  ultimately show ?thesis by (simp add: dentarr_rep_def)
qed

lemma dentarr_del_missing_faults_example:
  "dentarr_del_dentry [] demo_dentarr [120] = None"
  by (rule dentarr_del_missing_faults [OF demo_dentarr_rep]) (auto simp: demo_dents_def)

text \<open>
  Deleting an entry that is shorter than the one behind it damages the array: after
  deleting \<open>a\<close> from the array with \<open>a\<close> and \<open>bcd\<close>, looking up \<open>bcd\<close> no longer finds it, although
  the array still counts one entry.
\<close>

lemma dentarr_del_shorter_corrupts:
  "\<exists>d'. dentarr_del_dentry [] demo_dentarr [97] = Some (Inr 9, d', []) \<and> rd32 d' 32 = 1 \<and>
     dentarr_lookup_nm d' [98, 99, 100] \<noteq> Some (Inr 40)"
proof -
  have "(case dentarr_del_dentry [] demo_dentarr [97] of None \<Rightarrow> False
     | Some (r, d', km) \<Rightarrow> r = Inr 9 \<and> km = [] \<and> rd32 d' 32 = 1 \<and>
         dentarr_lookup_nm d' [98, 99, 100] \<noteq> Some (Inr 40))"
    by code_simp
  then show ?thesis by (auto split: option.splits prod.splits)
qed

end
