(* ===== verification/Bilby_Rdx.thy ===== *)
theory Bilby_Rdx
  imports Bilby_Dentarr Bilby_Mount
begin

text \<open>
  The operations of \<open>dentarr.c\<close> that read directory entry arrays from the object store, and
  \<open>rdx.c\<close>, the iteration over all entries of a directory.
\<close>

section \<open>Reading a directory entry array\<close>

text \<open>
  An array that fails the sanity check is freed and then read for the error message; an access
  to freed memory is a fault.
\<close>

definition dentarr_read ::
  "'u kernel \<Rightarrow> 'u bilbyfs_info \<Rightarrow> obj_id \<Rightarrow> ((errno + buf) \<times> 'u bilbyfs_info) option" where
  "dentarr_read K bi oid = do {
     let (ok, km) = kmalloc_ok (bi_kmem bi);
     let bi = bi\<lparr>bi_kmem := km\<rparr>;
     if \<not> ok then Some (Inl ENOMEM, bi)
     else do {
       (err, bi, dentarr) \<leftarrow> ostore_read_obj K bi oid (uninit K BILBYFS_MAX_DENTARR_SZ)
                             (of_nat BILBYFS_MAX_DENTARR_SZ);
       (case err of
          Some e \<Rightarrow> Some (Inl e, bi)
        | None \<Rightarrow> do {
            nb \<leftarrow> get32 dentarr dentarr_nb_dentry;
            size \<leftarrow> get32 dentarr dentarr_size;
            if BILBYFS_MAX_DENTARR_ENTRIES < nb \<or> of_nat BILBYFS_MAX_DENTARR_SZ < size then None
            else Some (Inr dentarr, bi)
          })
     }
   }"

definition dentarr_read_or_create ::
  "'u kernel \<Rightarrow> 'u bilbyfs_info \<Rightarrow> obj_id \<Rightarrow> ((errno + buf) \<times> 'u bilbyfs_info) option" where
  "dentarr_read_or_create K bi oid = do {
     (r, bi) \<leftarrow> dentarr_read K bi oid;
     (case r of
        Inr dentarr \<Rightarrow> Some (Inr dentarr, bi)
      | Inl e \<Rightarrow>
          if e \<noteq> ENOENT then Some (Inl e, bi)
          else do {
            let (ok, km) = kmalloc_ok (bi_kmem bi);
            let bi = bi\<lparr>bi_kmem := km\<rparr>;
            if \<not> ok then Some (Inl ENOMEM, bi)
            else do {
              dentarr \<leftarrow> pack_obj_dentarr (uninit K (BILBYFS_DENTARR_SZ + BILBYFS_MAX_DENTRY_SZ)) oid 0
                         (int BILBYFS_DENTARR_SZ);
              Some (Inr dentarr, bi)
            }
          })
   }"

section \<open>Directory iteration\<close>

record fsop_readdir_ctx =
  rdx_dentarr :: "buf option"
  rdx_de :: "nat option"
  rdx_id :: obj_id

definition rdx_init :: "u64 \<Rightarrow> fsop_readdir_ctx" where
  "rdx_init ino = \<lparr>rdx_dentarr = None, rdx_de = None, rdx_id = inode_id_init ino\<rparr>"

definition rdx_clean :: "fsop_readdir_ctx \<Rightarrow> fsop_readdir_ctx" where
  "rdx_clean rdx = rdx\<lparr>rdx_id := NIL_ID, rdx_dentarr := None, rdx_de := None\<rparr>"

lemma not_dentarr_nil: "\<not> is_dentarr_id NIL_ID"
  by (simp add: is_dentarr_id_def type_from_id_def)

lemma ostore_next_gt:
  assumes "ostore_next_obj_id bi oid = Some nxt" "is_dentarr_id nxt"
  shows "oid < nxt"
proof -
  have "nxt \<noteq> NIL_ID" using assms(2) not_dentarr_nil by auto
  then show ?thesis using assms(1) idx_next_obj_id_gt
    by (auto simp: ostore_next_obj_id_def bind_eq_Some_conv split: if_splits)
qed

text \<open>
  The ids of the arrays increase, so the search for an array that is not empty ends.
\<close>

function next_dentarr_dentry ::
  "'u kernel \<Rightarrow> 'u bilbyfs_info \<Rightarrow> fsop_readdir_ctx \<Rightarrow> ((errno + nat) \<times> 'u bilbyfs_info \<times> fsop_readdir_ctx) option" where
  "next_dentarr_dentry K bi rdx =
     (case ostore_next_obj_id bi (rdx_id rdx) of
        None \<Rightarrow> None
      | Some nxt \<Rightarrow>
          (let rdx' = rdx\<lparr>rdx_dentarr := None, rdx_id := nxt\<rparr>
           in if \<not> is_dentarr_id nxt \<or> nxt = NIL_ID then Some (Inl ENOENT, bi, rdx')
              else case dentarr_read K bi nxt of
                None \<Rightarrow> None
              | Some (Inl e, bi') \<Rightarrow> Some (Inl e, bi', rdx')
              | Some (Inr dentarr, bi') \<Rightarrow>
                  (case dentarr_first_dentry dentarr of
                     None \<Rightarrow> None
                   | Some None \<Rightarrow> next_dentarr_dentry K bi' (rdx'\<lparr>rdx_dentarr := Some dentarr\<rparr>)
                   | Some (Some de) \<Rightarrow> Some (Inr de, bi', rdx'\<lparr>rdx_dentarr := Some dentarr\<rparr>))))"
  by pat_completeness auto

termination
  by (relation "measure (\<lambda>(K, bi, rdx). 2 ^ 64 - unat (rdx_id rdx))")
    (auto intro: id_measure [simplified] dest: ostore_next_gt)

declare next_dentarr_dentry.simps [simp del]

definition rdx_advance ::
  "'u kernel \<Rightarrow> 'u bilbyfs_info \<Rightarrow> fsop_readdir_ctx \<Rightarrow> ((errno + nat) \<times> 'u bilbyfs_info \<times> fsop_readdir_ctx) option" where
  "rdx_advance K bi rdx = do {
     (r, bi, rdx) \<leftarrow> next_dentarr_dentry K bi rdx;
     Some (r, bi, rdx\<lparr>rdx_de := (case r of Inl _ \<Rightarrow> None | Inr de \<Rightarrow> Some de)\<rparr>)
   }"

definition rdx_next_dentry ::
  "'u kernel \<Rightarrow> 'u bilbyfs_info \<Rightarrow> fsop_readdir_ctx \<Rightarrow> ((errno + nat) \<times> 'u bilbyfs_info \<times> fsop_readdir_ctx) option" where
  "rdx_next_dentry K bi rdx =
     (case rdx_dentarr rdx of
        None \<Rightarrow> rdx_advance K bi rdx
      | Some dentarr \<Rightarrow> do {
          de \<leftarrow> (case rdx_de rdx of None \<Rightarrow> Some None | Some de \<Rightarrow> dentarr_next_dentry dentarr de);
          let rdx = rdx\<lparr>rdx_de := de\<rparr>;
          (case de of
             None \<Rightarrow> rdx_advance K bi rdx
           | Some de \<Rightarrow> Some (Inr de, bi, rdx))
        })"

text \<open>
  The position of a directory iteration: the id of the current array and the place in it. Every
  entry that is returned moves it forward, so a listing of a directory ends.
\<close>

definition rdx_measure :: "fsop_readdir_ctx \<Rightarrow> nat \<times> nat" where
  "rdx_measure rdx = (2 ^ 64 - unat (rdx_id rdx),
     case (rdx_dentarr rdx, rdx_de rdx) of (Some d, Some de) \<Rightarrow> Suc (length d - de) | _ \<Rightarrow> 0)"

lemma next_dentarr_gt:
  "next_dentarr_dentry K bi rdx = Some (Inr de, bi', rdx') \<Longrightarrow> rdx_id rdx < rdx_id rdx'"
proof (induction K bi rdx rule: next_dentarr_dentry.induct)
  case (1 K bi rdx)
  from 1(2) obtain nxt where n: "ostore_next_obj_id bi (rdx_id rdx) = Some nxt" "is_dentarr_id nxt" "nxt \<noteq> NIL_ID"
    by (subst (asm) next_dentarr_dentry.simps) (auto simp: Let_def split: option.splits if_splits)
  from n(1,2) have gt: "rdx_id rdx < nxt" by (rule ostore_next_gt)
  from 1(2) n obtain dentarr bi1 f where d: "dentarr_read K bi nxt = Some (Inr dentarr, bi1)"
    "dentarr_first_dentry dentarr = Some f"
    by (subst (asm) next_dentarr_dentry.simps) (auto simp: Let_def split: option.splits sum.splits prod.splits)
  show ?case
  proof (cases f)
    case None
    then have "next_dentarr_dentry K bi1 (rdx\<lparr>rdx_dentarr := None, rdx_id := nxt\<rparr>\<lparr>rdx_dentarr := Some dentarr\<rparr>) =
        Some (Inr de, bi', rdx')"
      using 1(2) n d by (subst (asm) next_dentarr_dentry.simps) simp
    then have "nxt < rdx_id rdx'" using 1(1) n d None by fastforce
    then show ?thesis using gt by simp
  next
    case (Some x)
    then show ?thesis using 1(2) n d gt by (subst (asm) next_dentarr_dentry.simps) auto
  qed
qed

lemma rdx_next_decreases:
  assumes "rdx_next_dentry K bi rdx = Some (Inr de, bi', rdx')"
  shows "(rdx_measure rdx', rdx_measure rdx) \<in> less_than <*lex*> less_than"
proof -
  have adv: "(rdx_measure r', rdx_measure r) \<in> less_than <*lex*> less_than"
    if "rdx_advance K bi r = Some (Inr de, bi', r')" for r r'
    using that by (auto simp: rdx_advance_def rdx_measure_def bind_eq_Some_conv
        intro!: id_measure [simplified] dest!: next_dentarr_gt)
  show ?thesis
  proof (cases "\<exists>d x nde. rdx_dentarr rdx = Some d \<and> rdx_de rdx = Some x \<and> dentarr_next_dentry d x = Some (Some nde)")
    case True
    then obtain d x where d: "rdx_dentarr rdx = Some d" "rdx_de rdx = Some x"
      "dentarr_next_dentry d x = Some (Some de)" "rdx' = rdx\<lparr>rdx_de := Some de\<rparr>"
      using assms by (auto simp: rdx_next_dentry_def)
    moreover have "length d - de < length d - x"
      using dentarr_next_greater [OF d(3)] by (simp add: diff_less_mono2)
    ultimately show ?thesis by (simp add: rdx_measure_def)
  next
    case False
    then obtain r where "rdx_advance K bi r = Some (Inr de, bi', rdx')"
      "rdx_id r = rdx_id rdx"
      using assms by (auto simp: rdx_next_dentry_def bind_eq_Some_conv split: option.splits)
    then show ?thesis
      by (auto simp: rdx_advance_def rdx_measure_def bind_eq_Some_conv
        intro!: id_measure [simplified] dest!: next_dentarr_gt)
  qed
qed

end
