(* ===== verification/Bilby_Fsop.thy ===== *)
theory Bilby_Fsop
  imports Bilby_Rdx
begin

unbundle bit_operations_syntax

text \<open>
  \<open>fsop.c\<close>: the file system operations. A VFS inode with its BilbyFs part is the record \<open>inode\<close>;
  operations take the inodes they change and return them. \<open>fsop_rename\<close>, whose directory
  arguments may be the same inode, works on a store of inodes indexed by pointers. The clock and
  the credentials of the caller are the record \<open>fsop_env\<close>; every operation reads the clock once.
  Objects on the stack start with arbitrary content (\<open>uninit\<close>).
\<close>

record fsop_env =
  env_now :: u64
  env_fsuid :: u32
  env_fsgid :: u32

definition S_ISGID :: u16 where [simp]: "S_ISGID = 0x400"
definition S_APPEND :: u32 where [simp]: "S_APPEND = 4"
definition S_IMMUTABLE :: u32 where [simp]: "S_IMMUTABLE = 8"
definition S_IRWXUGO :: u16 where [simp]: "S_IRWXUGO = 0x1FF"

definition S_ISDIR :: "u16 \<Rightarrow> bool" where
  "S_ISDIR mode \<longleftrightarrow> mode AND S_IFMT = S_IFDIR"

definition S_ISREG :: "u16 \<Rightarrow> bool" where
  "S_ISREG mode \<longleftrightarrow> mode AND S_IFMT = S_IFREG"

text \<open>The VFS functions that change the link count.\<close>

definition set_nlink :: "u32 \<Rightarrow> inode \<Rightarrow> inode" where "set_nlink n inode = inode\<lparr>i_nlink := n\<rparr>"
definition inc_nlink :: "inode \<Rightarrow> inode" where "inc_nlink inode = inode\<lparr>i_nlink := i_nlink inode + 1\<rparr>"
definition drop_nlink :: "inode \<Rightarrow> inode" where "drop_nlink inode = inode\<lparr>i_nlink := i_nlink inode - 1\<rparr>"
definition clear_nlink :: "inode \<Rightarrow> inode" where "clear_nlink inode = inode\<lparr>i_nlink := 0\<rparr>"

section \<open>Inodes\<close>

definition bilbyfs_set_inode_flags :: "inode \<Rightarrow> inode" where
  "bilbyfs_set_inode_flags inode =
     (let flags = bi_flags inode;
          fl = i_flags inode AND NOT (S_APPEND OR S_IMMUTABLE);
          fl = (if flags AND BILBYFS_APPEND_FL \<noteq> 0 then fl OR S_APPEND else fl);
          fl = (if flags AND BILBYFS_IMMUTABLE_FL \<noteq> 0 then fl OR S_IMMUTABLE else fl)
      in inode\<lparr>i_flags := fl\<rparr>)"

definition bilbyfs_ro_mode :: "'u bilbyfs_info \<Rightarrow> 'u bilbyfs_info" where
  "bilbyfs_ro_mode bi = bi\<lparr>bi_is_ro := True\<rparr>"

text \<open>The size is compared as an unsigned value.\<close>

definition validate_inode :: "inode \<Rightarrow> errno option" where
  "validate_inode inode = (if word_of_int BILBYFS_MAX_FILE_SZ < i_size inode then Some EINVAL else None)"

definition fsop_iget ::
  "'u kernel \<Rightarrow> 'u bilbyfs_info \<Rightarrow> u64 \<Rightarrow> inode \<Rightarrow> (errno option \<times> 'u bilbyfs_info \<times> inode) option" where
  "fsop_iget K bi inum inode = do {
     (err, bi, ino) \<leftarrow> ostore_read_obj K bi (inode_id_init inum) (uninit K BILBYFS_INODE_SZ) (of_nat BILBYFS_INODE_SZ);
     if err = None then do {
       inode \<leftarrow> unpack_obj_inode inode ino;
       (case validate_inode inode of
          None \<Rightarrow> Some (None, bi, bilbyfs_set_inode_flags inode)
        | Some e \<Rightarrow> Some (Some e, bi, inode))
     }
     else Some (err, bilbyfs_ro_mode bi, inode)
   }"

definition dir_lookup_nm ::
  "'u kernel \<Rightarrow> 'u bilbyfs_info \<Rightarrow> inode \<Rightarrow> name \<Rightarrow> buf \<Rightarrow> (errno option \<times> 'u bilbyfs_info \<times> buf) option" where
  "dir_lookup_nm K bi dir name dent = do {
     (r, bi) \<leftarrow> dentarr_read K bi (dentarr_id_init (i_ino dir) name);
     (case r of
        Inl e \<Rightarrow> Some (Some e, bi, dent)
      | Inr dentarr \<Rightarrow> do {
          de \<leftarrow> dentarr_lookup_nm dentarr name;
          (case de of
             Inl e \<Rightarrow> Some (Some e, bi, dent)
           | Inr de \<Rightarrow> do {
               sz \<leftarrow> obj_dentry_size dentarr de;
               bytes \<leftarrow> buf_get dentarr de sz;
               dent \<leftarrow> buf_put dent 0 bytes;
               Some (None, bi, dent)
             })
        })
   }"

definition fsop_lookup ::
  "'u kernel \<Rightarrow> 'u bilbyfs_info \<Rightarrow> inode \<Rightarrow> name \<Rightarrow> ((errno + u32) \<times> 'u bilbyfs_info) option" where
  "fsop_lookup K bi dir name =
     (if BILBYFS_MAX_NLEN < length name then Some (Inl ENAMETOOLONG, bi)
      else do {
        let (ok, km) = kmalloc_ok (bi_kmem bi);
        let bi = bi\<lparr>bi_kmem := km\<rparr>;
        if \<not> ok then Some (Inl ENOMEM, bi)
        else do {
          (err, bi, dent) \<leftarrow> dir_lookup_nm K bi dir name (uninit K BILBYFS_MAX_DENTRY_SZ);
          (case err of
             Some e \<Rightarrow> Some (Inl e, bi)
           | None \<Rightarrow> do {
               ino \<leftarrow> get32 dent de_ino;
               Some (Inr ino, bi)
             })
        }
      })"

definition trans_commit_inodes ::
  "'u kernel \<Rightarrow> 'u bilbyfs_info \<Rightarrow> inode \<Rightarrow> inode \<Rightarrow> buf list \<Rightarrow> osw_flag \<Rightarrow> (errno option \<times> 'u bilbyfs_info) option" where
  "trans_commit_inodes K bi dir inode obj_list osw_flag = do {
     inode_obj \<leftarrow> pack_obj_inode (uninit K BILBYFS_INODE_SZ) inode;
     dir_obj \<leftarrow> pack_obj_inode (uninit K BILBYFS_INODE_SZ) dir;
     (err, bi, objs) \<leftarrow> ostore_write K bi (obj_list @ [inode_obj, dir_obj]) osw_flag;
     Some (err, bi)
   }"

section \<open>Directories\<close>

definition fsop_link ::
  "'u kernel \<Rightarrow> fsop_env \<Rightarrow> 'u bilbyfs_info \<Rightarrow> inode \<Rightarrow> inode \<Rightarrow> name \<Rightarrow>
   (errno option \<times> 'u bilbyfs_info \<times> inode \<times> inode) option" where
  "fsop_link K env bi inode dir name =
     (if bi_is_ro bi then Some (Some EROFS, bi, inode, dir)
      else do {
        (r, bi) \<leftarrow> dentarr_read_or_create K bi (dentarr_id_init (i_ino dir) name);
        (case r of
           Inl e \<Rightarrow> Some (Some e, bi, inode, dir)
         | Inr dentarr \<Rightarrow> do {
             (sz_change, dentarr) \<leftarrow> dentarr_add_dentry dentarr inode name;
             let inode = (inc_nlink inode)\<lparr>i_ctime := env_now env\<rparr>;
             let mtime = i_mtime dir;
             let ctime = i_ctime dir;
             let dir = dir\<lparr>i_size := i_size dir + word_of_int sz_change, i_ctime := i_ctime inode,
                           i_mtime := i_ctime inode\<rparr>;
             (err, bi) \<leftarrow> trans_commit_inodes K bi dir inode [dentarr] OSW_NONE;
             Some (if err = None then (None, bi, inode, dir)
                   else (err, bi, drop_nlink inode,
                         dir\<lparr>i_size := i_size dir - word_of_int sz_change, i_mtime := mtime, i_ctime := ctime\<rparr>))
           })
      })"

definition inode_init_perm :: "fsop_env \<Rightarrow> inode \<Rightarrow> inode option \<Rightarrow> u16 \<Rightarrow> inode" where
  "inode_init_perm env inode dir mode =
     (let inode = inode\<lparr>i_uid := env_fsuid env\<rparr>
      in case dir of
           Some d \<Rightarrow>
             if i_mode d AND S_ISGID \<noteq> 0
             then inode\<lparr>i_gid := i_gid d, i_mode := (if S_ISDIR mode then mode OR S_ISGID else mode)\<rparr>
             else inode\<lparr>i_gid := env_fsgid env, i_mode := mode\<rparr>
         | None \<Rightarrow> inode\<lparr>i_gid := env_fsgid env, i_mode := mode\<rparr>)"

text \<open>No directory stands for \<open>NULL\<close>, which makes the inode the root.\<close>

definition init_inode ::
  "fsop_env \<Rightarrow> 'u bilbyfs_info \<Rightarrow> inode option \<Rightarrow> inode \<Rightarrow> u16 \<Rightarrow> errno option \<times> 'u bilbyfs_info \<times> inode" where
  "init_inode env bi dir inode mode =
     (let inode = inode\<lparr>bi_flags := 0, i_flags := i_flags inode OR S_NOCMTIME\<rparr>;
          inode = inode_init_perm env inode dir mode;
          inode = inode\<lparr>i_ctime := env_now env, i_atime := env_now env, i_mtime := env_now env\<rparr>;
          inode = bilbyfs_set_inode_flags (set_nlink 1 inode)
      in if dir = None then
           let (sqnum, bi) = next_sqnum bi
           in (None, bi, set_nlink 2 (inode\<lparr>i_ino := BILBYFS_ROOT_INO, bi_creat_sqnum := sqnum\<rparr>))
         else if bi_next_inum bi < BILBYFS_LAST_INUM then
           let (inum, bi) = next_inum bi; (sqnum, bi) = next_sqnum bi
           in (None, bi, inode\<lparr>i_ino := ucast inum, bi_creat_sqnum := sqnum\<rparr>)
         else (Some ENFILE, bi, inode))"

text \<open>
  The part that \<open>fsop_create\<close> and \<open>fsop_mkdir\<close> share: a new entry and a transaction with the
  array and both inodes. A new directory gets a link of its own and one of its parent; when the
  transaction fails only the link of the parent is taken back.
\<close>

definition add_new_inode ::
  "'u kernel \<Rightarrow> 'u bilbyfs_info \<Rightarrow> inode \<Rightarrow> inode \<Rightarrow> name \<Rightarrow> bool \<Rightarrow>
   (errno option \<times> 'u bilbyfs_info \<times> inode \<times> inode) option" where
  "add_new_inode K bi dir inode name is_mkdir = do {
     (r, bi) \<leftarrow> dentarr_read_or_create K bi (dentarr_id_init (i_ino dir) name);
     (case r of
        Inl e \<Rightarrow> Some (Some e, bi, dir, inode)
      | Inr dentarr \<Rightarrow> do {
          (sz_change, dentarr) \<leftarrow> dentarr_add_dentry dentarr inode name;
          let (inode, dir) = (if is_mkdir then (inc_nlink inode, inc_nlink dir) else (inode, dir));
          let mtime = i_mtime dir;
          let ctime = i_ctime dir;
          let dir = dir\<lparr>i_size := i_size dir + word_of_int sz_change, i_mtime := i_ctime inode,
                        i_ctime := i_ctime inode\<rparr>;
          (err, bi) \<leftarrow> trans_commit_inodes K bi dir inode [dentarr] OSW_NONE;
          Some (if err = None then (None, bi, dir, inode)
                else let dir = dir\<lparr>i_size := i_size dir - word_of_int sz_change, i_mtime := mtime, i_ctime := ctime\<rparr>
                     in (err, bi, if is_mkdir then drop_nlink dir else dir, inode))
        })
   }"

definition fsop_create ::
  "'u kernel \<Rightarrow> fsop_env \<Rightarrow> 'u bilbyfs_info \<Rightarrow> inode \<Rightarrow> name \<Rightarrow> u16 \<Rightarrow> inode \<Rightarrow>
   (errno option \<times> 'u bilbyfs_info \<times> inode \<times> inode) option" where
  "fsop_create K env bi dir name mode inode =
     (if bi_is_ro bi then Some (Some EROFS, bi, dir, inode)
      else let (err, bi, inode) = init_inode env bi (Some dir) inode (S_IFREG OR mode)
           in if err \<noteq> None then Some (err, bi, dir, inode)
              else add_new_inode K bi dir inode name False)"

definition fsop_mkdir ::
  "'u kernel \<Rightarrow> fsop_env \<Rightarrow> 'u bilbyfs_info \<Rightarrow> inode \<Rightarrow> name \<Rightarrow> u16 \<Rightarrow> inode \<Rightarrow>
   (errno option \<times> 'u bilbyfs_info \<times> inode \<times> inode) option" where
  "fsop_mkdir K env bi dir name mode inode =
     (if bi_is_ro bi then Some (Some EROFS, bi, dir, inode)
      else let (err, bi, inode) = init_inode env bi (Some dir) inode (S_IFDIR OR mode)
           in if err \<noteq> None then Some (err, bi, dir, inode)
              else add_new_inode K bi dir inode name True)"

text \<open>\<open>dentarr_del_dentry\<close> allocates memory of its own.\<close>

definition fsop_del_dentry ::
  "'u bilbyfs_info \<Rightarrow> buf \<Rightarrow> name \<Rightarrow> ((errno + int) \<times> 'u bilbyfs_info \<times> buf) option" where
  "fsop_del_dentry bi dentarr name = do {
     (r, dentarr, km) \<leftarrow> dentarr_del_dentry (bi_kmem bi) dentarr name;
     Some (r, bi\<lparr>bi_kmem := km\<rparr>, dentarr)
   }"

definition fsop_unlink ::
  "'u kernel \<Rightarrow> fsop_env \<Rightarrow> 'u bilbyfs_info \<Rightarrow> inode \<Rightarrow> name \<Rightarrow> inode \<Rightarrow>
   (errno option \<times> 'u bilbyfs_info \<times> inode \<times> inode) option" where
  "fsop_unlink K env bi dir name inode =
     (if bi_is_ro bi then Some (Some EROFS, bi, dir, inode)
      else do {
        let saved_nlink = i_nlink inode;
        (r, bi) \<leftarrow> dentarr_read K bi (dentarr_id_init (i_ino dir) name);
        (case r of
           Inl e \<Rightarrow> Some (Some e, bi, dir, inode)
         | Inr dentarr \<Rightarrow> do {
             (r, bi, dentarr) \<leftarrow> fsop_del_dentry bi dentarr name;
             (case r of
                Inl e \<Rightarrow> Some (Some e, bi, dir, inode)
              | Inr sz_change \<Rightarrow> do {
                  let inode = drop_nlink (inode\<lparr>i_ctime := env_now env\<rparr>);
                  let inode = (if i_nlink inode = 0
                               then inode\<lparr>bi_flags := bi_flags inode OR BILBYFS_ORPHAN_FL\<rparr> else inode);
                  let dir = dir\<lparr>i_size := i_size dir - word_of_int sz_change, i_ctime := i_ctime inode,
                                i_mtime := i_ctime inode\<rparr>;
                  (err, bi) \<leftarrow> trans_commit_inodes K bi dir inode [dentarr] (OSW_NONE\<lparr>OSW_DEL := True\<rparr>);
                  Some (if err = None then (None, bi, dir, inode)
                        else (err, bi, dir\<lparr>i_size := i_size dir + word_of_int sz_change\<rparr>,
                              set_nlink saved_nlink inode))
                })
           })
      })"

text \<open>Every answer other than \<open>ENOENT\<close> counts as an entry.\<close>

definition check_dir_empty ::
  "'u kernel \<Rightarrow> 'u bilbyfs_info \<Rightarrow> inode \<Rightarrow> (errno option \<times> 'u bilbyfs_info) option" where
  "check_dir_empty K bi dir = do {
     (r, bi, rdx) \<leftarrow> rdx_next_dentry K bi (rdx_init (i_ino dir));
     Some (if r \<noteq> Inl ENOENT then Some ENOTEMPTY else None, bi)
   }"

definition fsop_rmdir ::
  "'u kernel \<Rightarrow> fsop_env \<Rightarrow> 'u bilbyfs_info \<Rightarrow> inode \<Rightarrow> name \<Rightarrow> inode \<Rightarrow>
   (errno option \<times> 'u bilbyfs_info \<times> inode \<times> inode) option" where
  "fsop_rmdir K env bi dir name inode =
     (if bi_is_ro bi then Some (Some EROFS, bi, dir, inode)
      else do {
        (err, bi) \<leftarrow> check_dir_empty K bi inode;
        if err \<noteq> None then Some (err, bi, dir, inode)
        else do {
          (r, bi) \<leftarrow> dentarr_read K bi (dentarr_id_init (i_ino dir) name);
          (case r of
             Inl e \<Rightarrow> Some (Some e, bi, dir, inode)
           | Inr dentarr \<Rightarrow> do {
               (r, bi, dentarr) \<leftarrow> fsop_del_dentry bi dentarr name;
               (case r of
                  Inl e \<Rightarrow> Some (Some e, bi, dir, inode)
                | Inr sz_change \<Rightarrow> do {
                    let inode = (clear_nlink (inode\<lparr>i_ctime := env_now env\<rparr>));
                    let inode = inode\<lparr>bi_flags := bi_flags inode OR BILBYFS_ORPHAN_FL\<rparr>;
                    let dir = drop_nlink dir;
                    let mtime = i_mtime dir;
                    let ctime = i_ctime dir;
                    let dir = dir\<lparr>i_size := i_size dir - word_of_int sz_change, i_ctime := i_ctime inode,
                                  i_mtime := i_ctime inode\<rparr>;
                    (err, bi) \<leftarrow> trans_commit_inodes K bi dir inode [dentarr] (OSW_NONE\<lparr>OSW_DEL := True\<rparr>);
                    Some (if err = None then (None, bi, dir, inode)
                          else (err, bi,
                                inc_nlink (dir\<lparr>i_size := i_size dir + word_of_int sz_change, i_mtime := mtime,
                                               i_ctime := ctime\<rparr>),
                                set_nlink 2 inode))
                  })
             })
        }
      })"

definition vfs_dent_type :: "u8 \<Rightarrow> u32 option" where
  "vfs_dent_type type =
     (if type = BILBYFS_ITYPE_REG then Some 8
      else if type = BILBYFS_ITYPE_DIR then Some 4
      else if type = BILBYFS_ITYPE_LNK then Some 10
      else if type = BILBYFS_ITYPE_BLK then Some 6
      else if type = BILBYFS_ITYPE_CHR then Some 2
      else if type = BILBYFS_ITYPE_FIFO then Some 1
      else if type = BILBYFS_ITYPE_SOCK then Some 12
      else None)"

text \<open>
  The loop of \<open>fsop_readdir\<close>. \<open>dir_emit\<close> is the callback of the VFS: it takes its own state, the
  name, its length, the inode number and the type, and answers whether there is room for more.
  The inode number of an entry has 32 bits.
\<close>

function readdir_loop ::
  "('c \<Rightarrow> name \<Rightarrow> int \<Rightarrow> u64 \<Rightarrow> u32 \<Rightarrow> bool \<times> 'c) \<Rightarrow> 'u kernel \<Rightarrow> 'u bilbyfs_info \<Rightarrow> 'c \<Rightarrow> u64 \<Rightarrow> fsop_readdir_ctx \<Rightarrow>
   (errno option \<times> 'u bilbyfs_info \<times> 'c \<times> u64 \<times> fsop_readdir_ctx) option" where
  "readdir_loop dir_emit K bi ctx pos rdx =
     (case rdx_next_dentry K bi rdx of
        None \<Rightarrow> None
      | Some (Inl e, bi, rdx) \<Rightarrow>
          Some (if e = ENOENT then (None, bi, ctx, 2, rdx) else (Some e, bi, ctx, pos, rdx))
      | Some (Inr de, bi, rdx) \<Rightarrow>
          (case do {
             dentarr \<leftarrow> rdx_dentarr rdx;
             nlen \<leftarrow> get16 dentarr (de + de_nlen);
             nm \<leftarrow> buf_get dentarr (de + de_name) (unat nlen);
             ino \<leftarrow> get32 dentarr (de + de_ino);
             ty \<leftarrow> get8 dentarr (de + de_type);
             dt \<leftarrow> vfs_dent_type ty;
             Some (dir_emit ctx nm (uint nlen) (ucast ino) dt)
           } of
             None \<Rightarrow> None
           | Some (room, ctx) \<Rightarrow>
               if \<not> room then Some (None, bi, ctx, pos + 1, rdx)
               else readdir_loop dir_emit K bi ctx (pos + 1) rdx))"
  by pat_completeness auto
termination
proof (relation "inv_image (less_than <*lex*> less_than) (\<lambda>(dir_emit, K, bi, ctx, pos, rdx). rdx_measure rdx)", goal_cases)
  case 1
  show ?case by (intro wf_inv_image wf_lex_prod wf_less_than)
next
  case 2
  then show ?case by (auto simp only: in_inv_image split_conv intro!: rdx_next_decreases)
qed

declare readdir_loop.simps [simp del]

definition fsop_readdir ::
  "('c \<Rightarrow> name \<Rightarrow> int \<Rightarrow> u64 \<Rightarrow> u32 \<Rightarrow> bool \<times> 'c) \<Rightarrow> 'u kernel \<Rightarrow> 'u bilbyfs_info \<Rightarrow> inode \<Rightarrow> 'c \<Rightarrow> u64 \<Rightarrow>
   fsop_readdir_ctx option \<Rightarrow> (errno option \<times> 'u bilbyfs_info \<times> 'c \<times> u64 \<times> fsop_readdir_ctx option) option" where
  "fsop_readdir dir_emit K bi dir ctx pos rdx = do {
     let (bi, rdx) =
       (case rdx of
          Some x \<Rightarrow> (bi, rdx)
        | None \<Rightarrow>
            let (ok, km) = kmalloc_ok (bi_kmem bi)
            in (bi\<lparr>bi_kmem := km\<rparr>, if ok then Some (rdx_init (i_ino dir)) else None));
     (case rdx of
        None \<Rightarrow> Some (Some ENOMEM, bi, ctx, pos, None)
      | Some rdx \<Rightarrow> do {
          (err, bi, ctx, pos, rdx) \<leftarrow> readdir_loop dir_emit K bi ctx pos rdx;
          Some (err, bi, ctx, pos, Some rdx)
        })
   }"

text \<open>The context is cleaned and freed; nothing of it is left.\<close>

definition fsop_dir_release :: "fsop_readdir_ctx option \<Rightarrow> fsop_readdir_ctx option" where
  "fsop_dir_release rdx = Option.bind (map_option rdx_clean rdx) (\<lambda>_. None)"

definition fsop_symlink ::
  "'u kernel \<Rightarrow> fsop_env \<Rightarrow> 'u bilbyfs_info \<Rightarrow> inode \<Rightarrow> name \<Rightarrow> name \<Rightarrow> inode \<Rightarrow>
   (errno option \<times> 'u bilbyfs_info \<times> inode \<times> inode) option" where
  "fsop_symlink K env bi dir name symname inode =
     (let sz_data = int (length symname);
          sz_obj_data = obj_data_size_with_data sz_data
      in if bi_is_ro bi then Some (Some EROFS, bi, dir, inode)
      else if int BILBYFS_MAX_DATA_SZ < sz_obj_data then Some (Some ENAMETOOLONG, bi, dir, inode)
      else let (err, bi, inode) = init_inode env bi (Some dir) inode (S_IFLNK OR S_IRWXUGO)
      in if err \<noteq> None then Some (err, bi, dir, inode)
      else do {
        (r, bi) \<leftarrow> dentarr_read_or_create K bi (dentarr_id_init (i_ino dir) name);
        (case r of
           Inl e \<Rightarrow> Some (Some e, bi, dir, inode)
         | Inr dentarr \<Rightarrow> do {
             (sz_change, dentarr) \<leftarrow> dentarr_add_dentry dentarr inode name;
             let (ok, km) = kmalloc_ok (bi_kmem bi);
             let bi = bi\<lparr>bi_kmem := km\<rparr>;
             if \<not> ok then Some (Some ENOMEM, bi, dir, inode)
             else do {
               data \<leftarrow> pack_obj_data (uninit K BILBYFS_MAX_DATA_SZ) (data_id_init (i_ino inode) 0) sz_data symname;
               let inode = inode\<lparr>i_size := word_of_int sz_obj_data\<rparr>;
               let mtime = i_mtime dir;
               let ctime = i_ctime dir;
               let dir = dir\<lparr>i_size := i_size dir + word_of_int sz_change, i_mtime := i_ctime inode,
                             i_ctime := i_ctime inode\<rparr>;
               (err, bi) \<leftarrow> trans_commit_inodes K bi dir inode [dentarr, data] OSW_NONE;
               Some (if err = None then (None, bi, dir, inode)
                     else (err, bi, dir\<lparr>i_size := i_size dir - word_of_int sz_change, i_mtime := mtime,
                                        i_ctime := ctime\<rparr>, inode))
             }
           })
      })"

section \<open>Renaming\<close>

text \<open>
  The cache of two arrays: an entry is a null pointer (\<open>None\<close>), an array or an error pointer. An
  error pointer is dereferenced by the search for an id and freed by \<open>free_dentarr_cache\<close>; both
  are faults. An array is named by its index in the cache, so that both names of a renaming can
  refer to the same array.
\<close>

type_synonym dentarr_cache = "(errno + buf) option list"

fun dentarr_cache_find :: "dentarr_cache \<Rightarrow> obj_id \<Rightarrow> nat \<Rightarrow> nat option option" where
  "dentarr_cache_find [] oid i = Some None"
| "dentarr_cache_find (None # cs) oid i = dentarr_cache_find cs oid (Suc i)"
| "dentarr_cache_find (Some (Inl e) # cs) oid i = None"
| "dentarr_cache_find (Some (Inr d) # cs) oid i = do {
     x \<leftarrow> get64 d dentarr_id;
     if x = oid then Some (Some i) else dentarr_cache_find cs oid (Suc i)
   }"

fun dentarr_cache_free :: "dentarr_cache \<Rightarrow> nat \<Rightarrow> nat option" where
  "dentarr_cache_free [] i = None"
| "dentarr_cache_free (None # cs) i = Some i"
| "dentarr_cache_free (Some x # cs) i = dentarr_cache_free cs (Suc i)"

definition get_dentarr_cache ::
  "'u kernel \<Rightarrow> 'u bilbyfs_info \<Rightarrow> obj_id \<Rightarrow> dentarr_cache \<Rightarrow> (nat \<times> 'u bilbyfs_info \<times> dentarr_cache) option" where
  "get_dentarr_cache K bi oid cache = do {
     found \<leftarrow> dentarr_cache_find cache oid 0;
     (case found of
        Some i \<Rightarrow> Some (i, bi, cache)
      | None \<Rightarrow> do {
          i \<leftarrow> dentarr_cache_free cache 0;
          (r, bi) \<leftarrow> dentarr_read_or_create K bi oid;
          Some (i, bi, cache[i := Some r])
        })
   }"

fun free_dentarr_cache :: "dentarr_cache \<Rightarrow> unit option" where
  "free_dentarr_cache [] = Some ()"
| "free_dentarr_cache (Some (Inl e) # cs) = None"
| "free_dentarr_cache (_ # cs) = free_dentarr_cache cs"

definition cache_entry :: "dentarr_cache \<Rightarrow> nat \<Rightarrow> (errno + buf) option" where
  "cache_entry cache i = do { x \<leftarrow> nth_opt cache i; x }"

text \<open>The inodes the VFS holds, by pointer.\<close>

type_synonym inode_store = "nat \<Rightarrow> inode"

text \<open>The objects of the transaction, in the order the code writes them.\<close>

definition rename_objs ::
  "'u kernel \<Rightarrow> inode_store \<Rightarrow> buf \<Rightarrow> buf \<Rightarrow> nat \<Rightarrow> nat \<Rightarrow> nat \<Rightarrow> nat option \<Rightarrow> buf list option" where
  "rename_objs K ist old_dentarr new_dentarr old_dir old_inode new_dir new_inode = do {
     oid1 \<leftarrow> get64 old_dentarr dentarr_id;
     oid2 \<leftarrow> get64 new_dentarr dentarr_id;
     old_dir_obj \<leftarrow> pack_obj_inode (uninit K BILBYFS_INODE_SZ) (ist old_dir);
     new_inode_objs \<leftarrow>
       (case new_inode of
          None \<Rightarrow> Some []
        | Some p \<Rightarrow> do { b \<leftarrow> pack_obj_inode (uninit K BILBYFS_INODE_SZ) (ist p); Some [b] });
     new_dir_obj \<leftarrow> pack_obj_inode (uninit K BILBYFS_INODE_SZ) (ist new_dir);
     old_inode_obj \<leftarrow> pack_obj_inode (uninit K BILBYFS_INODE_SZ) (ist old_inode);
     Some ([old_dentarr] @ (if oid1 \<noteq> oid2 then [new_dentarr] else []) @ [old_dir_obj] @ new_inode_objs @
           [new_dir_obj, old_inode_obj])
   }"

definition bilbyfs_do_rename ::
  "'u kernel \<Rightarrow> 'u bilbyfs_info \<Rightarrow> inode_store \<Rightarrow> nat \<Rightarrow> name \<Rightarrow> nat \<Rightarrow> nat \<Rightarrow> name \<Rightarrow> nat option \<Rightarrow>
   (errno option \<times> 'u bilbyfs_info \<times> inode_store) option" where
  "bilbyfs_do_rename K bi ist old_dir old_name old_inode new_dir new_name new_inode = do {
     let old_dentarr_id = dentarr_id_init (i_ino (ist old_dir)) old_name;
     let new_dentarr_id = dentarr_id_init (i_ino (ist new_dir)) new_name;
     (oi, bi, cache) \<leftarrow> get_dentarr_cache K bi old_dentarr_id [None, None];
     (ni, bi, cache) \<leftarrow> get_dentarr_cache K bi new_dentarr_id cache;
     old_r \<leftarrow> cache_entry cache oi;
     new_r \<leftarrow> cache_entry cache ni;
     (case (old_r, new_r) of
        (Inl e, _) \<Rightarrow> do { free_dentarr_cache cache; Some (Some e, bi, ist) }
      | (Inr _, Inl e) \<Rightarrow> do { free_dentarr_cache cache; Some (Some e, bi, ist) }
      | (Inr old_dentarr, Inr _) \<Rightarrow> do {
          (old_sz_change, bi, old_dentarr) \<leftarrow> fsop_del_dentry bi old_dentarr old_name;
          let cache = cache[oi := Some (Inr old_dentarr)];
          (new_sz_change, bi, cache) \<leftarrow>
            (if new_inode = None then Some (Inr 0, bi, cache)
             else do {
               r \<leftarrow> cache_entry cache ni;
               d \<leftarrow> (case r of Inl e \<Rightarrow> None | Inr d \<Rightarrow> Some d);
               (sz, bi, d) \<leftarrow> fsop_del_dentry bi d new_name;
               Some (sz, bi, cache[ni := Some (Inr d)])
             });
          r \<leftarrow> cache_entry cache ni;
          d \<leftarrow> (case r of Inl e \<Rightarrow> None | Inr d \<Rightarrow> Some d);
          (add_sz, new_dentarr) \<leftarrow> dentarr_add_dentry d (ist old_inode) new_name;
          let cache = cache[ni := Some (Inr new_dentarr)];
          (case (old_sz_change, new_sz_change) of
             (Inl e, _) \<Rightarrow> do { free_dentarr_cache cache; Some (Some e, bi, ist) }
           | (Inr _, Inl e) \<Rightarrow> do { free_dentarr_cache cache; Some (Some e, bi, ist) }
           | (Inr old_sz, Inr new_sz) \<Rightarrow> do {
               let ist = ist(old_dir := (ist old_dir)\<lparr>i_size := i_size (ist old_dir) - word_of_int old_sz\<rparr>);
               let ist = ist(new_dir := (ist new_dir)\<lparr>i_size := i_size (ist new_dir) + word_of_int (add_sz - new_sz)\<rparr>);
               let ist = (case new_inode of None \<Rightarrow> ist
                          | Some p \<Rightarrow> ist(p := (ist p)\<lparr>bi_flags := bi_flags (ist p) OR BILBYFS_ORPHAN_FL\<rparr>));
               r \<leftarrow> cache_entry cache oi;
               old_dentarr \<leftarrow> (case r of Inl e \<Rightarrow> None | Inr d \<Rightarrow> Some d);
               objs \<leftarrow> rename_objs K ist old_dentarr new_dentarr old_dir old_inode new_dir new_inode;
               (err, bi, objs) \<leftarrow> ostore_write K bi objs OSW_NONE;
               free_dentarr_cache cache;
               Some (err, bi, ist)
             })
        })
   }"

text \<open>
  The backup covers \<open>struct inode\<close>, not the BilbyFs part that follows it in memory.
\<close>

definition restore_vfs_inode :: "inode \<Rightarrow> inode \<Rightarrow> inode" where
  "restore_vfs_inode bak inode = bak\<lparr>bi_creat_sqnum := bi_creat_sqnum inode, bi_flags := bi_flags inode\<rparr>"

definition fsop_rename ::
  "'u kernel \<Rightarrow> fsop_env \<Rightarrow> 'u bilbyfs_info \<Rightarrow> inode_store \<Rightarrow> nat \<Rightarrow> name \<Rightarrow> nat \<Rightarrow> nat \<Rightarrow> name \<Rightarrow> nat option \<Rightarrow>
   (errno option \<times> 'u bilbyfs_info \<times> inode_store) option" where
  "fsop_rename K env bi ist old_dir old_name old_inode new_dir new_name new_inode = do {
     let old_inode_is_dir = S_ISDIR (i_mode (ist old_inode));
     let new_inode_is_dir = (case new_inode of None \<Rightarrow> False | Some p \<Rightarrow> S_ISDIR (i_mode (ist p)));
     if bi_is_ro bi then Some (Some EROFS, bi, ist)
     else do {
       (err, bi) \<leftarrow>
         (case new_inode of
            Some p \<Rightarrow> if new_inode_is_dir then check_dir_empty K bi (ist p) else Some (None, bi)
          | None \<Rightarrow> Some (None, bi));
       if err \<noteq> None then Some (err, bi, ist)
       else do {
         let (ok, km) = kmalloc_ok (bi_kmem bi);
         let bi = bi\<lparr>bi_kmem := km\<rparr>;
         if \<not> ok then Some (Some ENOMEM, bi, ist)
         else do {
           let bak = ist;
           let ist = (case new_inode of None \<Rightarrow> ist
              | Some p \<Rightarrow>
                  if new_inode_is_dir
                  then (let ist = ist(p := clear_nlink (ist p)) in ist(new_dir := drop_nlink (ist new_dir)))
                  else ist(p := drop_nlink (ist p)));
           let ist = (if old_inode_is_dir
              then (let ist = ist(old_dir := drop_nlink (ist old_dir)) in ist(new_dir := inc_nlink (ist new_dir)))
              else ist);
           let ist = ist(old_inode := (ist old_inode)\<lparr>i_ctime := env_now env\<rparr>);
           let ist = ist(old_dir := (ist old_dir)\<lparr>i_mtime := i_ctime (ist old_inode), i_ctime := i_ctime (ist old_inode)\<rparr>);
           (err, bi, ist) \<leftarrow> bilbyfs_do_rename K bi ist old_dir old_name old_inode new_dir new_name new_inode;
           let restore = (\<lambda>p ist. ist(p := restore_vfs_inode (bak p) (ist p)));
           Some (err, bi,
                 if err = None then ist
                 else (let ist = restore new_dir (restore old_inode (restore old_dir ist))
                       in case new_inode of None \<Rightarrow> ist | Some p \<Rightarrow> restore p ist))
         }
       }
     }
   }"

section \<open>Data\<close>

text \<open>\<open>addr\<close> is the page that is filled. The object is read into \<open>bi->odata\<close>.\<close>

definition read_block ::
  "'u kernel \<Rightarrow> 'u bilbyfs_info \<Rightarrow> inode \<Rightarrow> buf \<Rightarrow> int \<Rightarrow> (errno option \<times> 'u bilbyfs_info \<times> buf) option" where
  "read_block K bi inode addr block = do {
     (err, bi, odata) \<leftarrow> ostore_read_obj K bi (data_id_init (i_ino inode) (word_of_int block)) (bi_odata bi)
                         (of_nat BILBYFS_MAX_DATA_SZ);
     let bi = bi\<lparr>bi_odata := odata\<rparr>;
     (case err of
        Some e \<Rightarrow>
          if e \<noteq> ENOENT then Some (Some e, bi, addr)
          else do {
            addr \<leftarrow> buf_fill addr 0 0 (nat BILBYFS_BLOCK_SIZE);
            Some (None, bi, addr)
          }
      | None \<Rightarrow> do {
          w \<leftarrow> get32 odata odata_size;
          let size = sint w;
          if size < 0 \<or> BILBYFS_BLOCK_SIZE < size then Some (Some EINVAL, bi, addr)
          else do {
            bytes \<leftarrow> buf_get odata odata_data (nat size);
            addr \<leftarrow> buf_put addr 0 bytes;
            addr \<leftarrow> buf_fill addr (nat size) 0 (nat (BILBYFS_BLOCK_SIZE - size));
            Some (None, bi, addr)
          }
        })
   }"

text \<open>\<open>limit\<close> is the block of the end of the file, as an unsigned 64-bit value.\<close>

definition fsop_readpage ::
  "'u kernel \<Rightarrow> 'u bilbyfs_info \<Rightarrow> inode \<Rightarrow> u64 \<Rightarrow> buf \<Rightarrow> (errno option \<times> 'u bilbyfs_info \<times> buf) option" where
  "fsop_readpage K bi inode block addr =
     (let limit = signed_drop_bit BILBYFS_BLOCK_SHIFT (i_size inode)
      in if limit < block then do {
           addr \<leftarrow> buf_fill addr 0 0 (nat BILBYFS_BLOCK_SIZE);
           Some (Some ENOENT, bi, addr)
         }
         else if block = limit \<and> sint (i_size inode) mod BILBYFS_BLOCK_SIZE = 0 then Some (None, bi, addr)
         else read_block K bi inode addr (sint (ucast block :: u32)))"

definition fsop_write_begin ::
  "'u kernel \<Rightarrow> 'u bilbyfs_info \<Rightarrow> inode \<Rightarrow> int \<Rightarrow> int \<Rightarrow> buf \<Rightarrow> (errno option \<times> 'u bilbyfs_info \<times> buf) option" where
  "fsop_write_begin K bi inode pos len addr =
     (if bi_is_ro bi then Some (Some EROFS, bi, addr)
      else do {
        bilbyfs_assert ((word_of_int len :: u64) \<le> word_of_int BILBYFS_BLOCK_SIZE);
        (err, bi, addr) \<leftarrow> fsop_readpage K bi inode (word_of_int (pos div 2 ^ BILBYFS_BLOCK_SHIFT)) addr;
        Some (if err = Some ENOENT then None else err, bi, addr)
      })"

text \<open>
  The object gets the first \<open>end\<close> bytes of the page. \<open>inode_size\<close> and \<open>end\<close> have 32 bits.
\<close>

definition fsop_write_end ::
  "'u kernel \<Rightarrow> fsop_env \<Rightarrow> 'u bilbyfs_info \<Rightarrow> inode \<Rightarrow> int \<Rightarrow> int \<Rightarrow> buf \<Rightarrow>
   (errno option \<times> 'u bilbyfs_info \<times> inode) option" where
  "fsop_write_end K env bi inode pos len addr =
     (if bi_is_ro bi then Some (Some EROFS, bi, inode)
      else do {
        let block = (word_of_int (pos div 2 ^ BILBYFS_BLOCK_SHIFT) :: u64);
        let start = (word_of_int pos AND 0xFFF :: u32);
        let endw = start + word_of_int len;
        let inode_size = (ucast (i_size inode) :: u32);
        let inode = (if inode_size < word_of_int (pos + len) then inode\<lparr>i_size := word_of_int (pos + len)\<rparr> else inode);
        let mtime = i_mtime inode;
        let inode = inode\<lparr>i_mtime := env_now env\<rparr>;
        ino \<leftarrow> pack_obj_inode (uninit K BILBYFS_INODE_SZ) inode;
        odata \<leftarrow> pack_obj_data (bi_odata bi) (data_id_init (i_ino inode) (ucast block)) (sint endw) addr;
        (err, bi, objs) \<leftarrow> ostore_write K bi [ino, odata] OSW_NONE;
        let bi = bi\<lparr>bi_odata := objs ! 1\<rparr>;
        Some (err, bi, if err = None then inode else inode\<lparr>i_mtime := mtime, i_size := ucast inode_size\<rparr>)
      })"

definition fsop_follow_link ::
  "'u kernel \<Rightarrow> 'u bilbyfs_info \<Rightarrow> inode \<Rightarrow> buf \<Rightarrow> (errno option \<times> 'u bilbyfs_info \<times> buf) option" where
  "fsop_follow_link K bi inode path = read_block K bi inode path 0"

section \<open>Attributes\<close>

definition ATTR_MODE :: u32 where [simp]: "ATTR_MODE = 1"
definition ATTR_UID :: u32 where [simp]: "ATTR_UID = 2"
definition ATTR_GID :: u32 where [simp]: "ATTR_GID = 4"
definition ATTR_SIZE :: u32 where [simp]: "ATTR_SIZE = 8"
definition ATTR_ATIME :: u32 where [simp]: "ATTR_ATIME = 16"
definition ATTR_MTIME :: u32 where [simp]: "ATTR_MTIME = 32"
definition ATTR_CTIME :: u32 where [simp]: "ATTR_CTIME = 64"

record iattr =
  ia_valid :: u32
  ia_mode :: u16
  ia_uid :: u32
  ia_gid :: u32
  ia_size :: u64
  ia_atime :: u64
  ia_mtime :: u64
  ia_ctime :: u64

definition fsop_write_inode ::
  "'u kernel \<Rightarrow> 'u bilbyfs_info \<Rightarrow> inode \<Rightarrow> (errno option \<times> 'u bilbyfs_info) option" where
  "fsop_write_inode K bi inode = do {
     ino \<leftarrow> pack_obj_inode (uninit K BILBYFS_INODE_SZ) inode;
     (err, bi, objs) \<leftarrow> ostore_write K bi [ino] OSW_NONE;
     Some (err, bi)
   }"

text \<open>
  Rewrites the block that the new end of the file cuts, when there is one: the new object for
  it, \<open>Inl\<close> when the truncation has to give up.
\<close>

definition truncate_last_block ::
  "'u kernel \<Rightarrow> 'u bilbyfs_info \<Rightarrow> inode \<Rightarrow> int \<Rightarrow> int \<Rightarrow> ((errno + buf list) \<times> 'u bilbyfs_info) option" where
  "truncate_last_block K bi inode old_size new_size = do {
     let new_aligned_size = ALIGN new_size BILBYFS_BLOCK_SIZE;
     if new_size \<noteq> new_aligned_size \<and> new_size < old_size then do {
       let (ok, km) = kmalloc_ok (bi_kmem bi);
       let bi = bi\<lparr>bi_kmem := km\<rparr>;
       if \<not> ok then Some (Inl ENOMEM, bi)
       else do {
         let block = (word_of_int (new_size div 2 ^ BILBYFS_BLOCK_SHIFT) :: u64);
         (err, bi, data) \<leftarrow> fsop_readpage K bi inode block (uninit K (nat BILBYFS_BLOCK_SIZE));
         (case err of
            Some e \<Rightarrow> Some (Inl e, bi)
          | None \<Rightarrow> do {
              odata \<leftarrow> pack_obj_data (bi_odata bi) (data_id_init (i_ino inode) (ucast block))
                       (new_size - (new_aligned_size - BILBYFS_BLOCK_SIZE)) data;
              Some (Inr [odata], bi\<lparr>bi_odata := odata\<rparr>)
            })
       }
     }
     else Some (Inr [], bi)
   }"

text \<open>When the last block cannot be rewritten, the new size and times stay in the inode.\<close>

definition fsop_truncate ::
  "'u kernel \<Rightarrow> fsop_env \<Rightarrow> 'u bilbyfs_info \<Rightarrow> inode \<Rightarrow> iattr \<Rightarrow>
   (errno option \<times> 'u bilbyfs_info \<times> inode) option" where
  "fsop_truncate K env bi inode attr = do {
     let old_size = i_size inode;
     let new_size = ia_size attr;
     let mtime = i_mtime inode;
     let ctime = i_ctime inode;
     let inode = inode\<lparr>i_ctime := env_now env, i_mtime := env_now env, i_size := new_size\<rparr>;
     let new_aligned_size = ALIGN (sint new_size) BILBYFS_BLOCK_SIZE;
     (r, bi) \<leftarrow> truncate_last_block K bi inode (sint old_size) (sint new_size);
     (case r of
        Inl e \<Rightarrow> Some (Some e, bi, inode)
      | Inr datas \<Rightarrow> do {
          let has_del = (new_aligned_size < sint old_size);
          dels \<leftarrow>
            (if has_del then do {
               del \<leftarrow> pack_obj_del (uninit K BILBYFS_DEL_SZ)
                      (data_id_init (i_ino inode) (word_of_int (new_aligned_size div 2 ^ BILBYFS_BLOCK_SHIFT)));
               Some [del]
             }
             else Some []);
          ino \<leftarrow> pack_obj_inode (uninit K BILBYFS_INODE_SZ) inode;
          (err, bi, objs) \<leftarrow> ostore_write K bi (datas @ dels @ [ino]) (OSW_NONE\<lparr>OSW_DEL := has_del\<rparr>);
          let bi = (if datas = [] then bi else bi\<lparr>bi_odata := objs ! 0\<rparr>);
          Some (err, bi,
                if err = None then inode
                else inode\<lparr>i_size := old_size, i_mtime := mtime, i_ctime := ctime\<rparr>)
        })
   }"

definition fsop_do_setattr ::
  "'u kernel \<Rightarrow> 'u bilbyfs_info \<Rightarrow> inode \<Rightarrow> iattr \<Rightarrow> (errno option \<times> 'u bilbyfs_info \<times> inode) option" where
  "fsop_do_setattr K bi inode attr = do {
     let ibackup = inode;
     let has = (\<lambda>fl. ia_valid attr AND fl \<noteq> 0);
     let inode = (if has ATTR_UID then inode\<lparr>i_uid := ia_uid attr\<rparr> else inode);
     let inode = (if has ATTR_GID then inode\<lparr>i_gid := ia_gid attr\<rparr> else inode);
     let inode = (if has ATTR_ATIME then inode\<lparr>i_atime := ia_atime attr\<rparr> else inode);
     let inode = (if has ATTR_MTIME then inode\<lparr>i_mtime := ia_mtime attr\<rparr> else inode);
     let inode = (if has ATTR_CTIME then inode\<lparr>i_ctime := ia_ctime attr\<rparr> else inode);
     let inode = (if has ATTR_MODE then inode\<lparr>i_mode := ia_mode attr\<rparr> else inode);
     (err, bi) \<leftarrow> fsop_write_inode K bi inode;
     Some (err, bi, if err = None then inode else restore_vfs_inode ibackup inode)
   }"

definition fsop_setattr ::
  "'u kernel \<Rightarrow> fsop_env \<Rightarrow> 'u bilbyfs_info \<Rightarrow> inode \<Rightarrow> iattr \<Rightarrow>
   (errno option \<times> 'u bilbyfs_info \<times> inode) option" where
  "fsop_setattr K env bi inode attr =
     (if bi_is_ro bi then Some (Some EROFS, bi, inode)
      else if ia_valid attr AND ATTR_SIZE \<noteq> 0 then fsop_truncate K env bi inode attr
      else fsop_do_setattr K bi inode attr)"

record kstat =
  st_ino :: u64
  st_mode :: u16
  st_nlink :: u32
  st_uid :: u32
  st_gid :: u32
  st_size :: u64
  st_atime :: u64
  st_mtime :: u64
  st_ctime :: u64
  st_blksize :: int
  st_blocks :: u64

text \<open>A C division truncates; the size of a file is not negative.\<close>

definition fsop_getattr :: "inode \<Rightarrow> kstat" where
  "fsop_getattr inode =
     \<lparr>st_ino = i_ino inode, st_mode = i_mode inode, st_nlink = i_nlink inode, st_uid = i_uid inode,
      st_gid = i_gid inode, st_size = i_size inode, st_atime = i_atime inode, st_mtime = i_mtime inode,
      st_ctime = i_ctime inode, st_blksize = BILBYFS_BLOCK_SIZE,
      st_blocks = (if S_ISREG (i_mode inode) then word_of_int (ALIGN (sint (i_size inode)) BILBYFS_BLOCK_SIZE div 512)
                   else 0)\<rparr>"

definition fsop_evict_inode :: "'u kernel \<Rightarrow> 'u bilbyfs_info \<Rightarrow> inode \<Rightarrow> 'u bilbyfs_info option" where
  "fsop_evict_inode K bi inode =
     (if bi_is_ro bi then Some bi
      else if i_nlink inode = 0 then do {
        del \<leftarrow> pack_obj_del (uninit K BILBYFS_DEL_SZ) (inode_id_init (i_ino inode));
        (err, bi, objs) \<leftarrow> ostore_write K bi [del] OSW_NONE;
        Some bi
      }
      else Some bi)"

section \<open>The file system as a whole\<close>

record kstatfs =
  f_type :: u64
  f_bsize :: int
  f_blocks :: u64
  f_bfree :: u64
  f_bavail :: u64
  f_files :: u64
  f_ffree :: u64
  f_namelen :: nat
  f_fsid0 :: u32
  f_fsid1 :: u32

text \<open>The product of the size and the number of the erase-blocks is computed in 32 bits.\<close>

definition fsop_statfs :: "'u bilbyfs_info \<Rightarrow> kstatfs option" where
  "fsop_statfs bi = do {
     free \<leftarrow> ostore_get_free_space bi;
     avail \<leftarrow> ostore_get_available_space bi;
     let bytes = (word_of_int (su_leb_size (bi_super bi) * su_leb_cnt (bi_super bi)) :: u32);
     let blocks = (word_of_int (sint bytes) :: u64) div 4096;
     let bfree = drop_bit BILBYFS_BLOCK_SHIFT free;
     let bavail = drop_bit BILBYFS_BLOCK_SHIFT avail;
     u0 \<leftarrow> get32 (su_uuid (bi_super bi)) 0;
     u1 \<leftarrow> get32 (su_uuid (bi_super bi)) 4;
     u2 \<leftarrow> get32 (su_uuid (bi_super bi)) 8;
     u3 \<leftarrow> get32 (su_uuid (bi_super bi)) 12;
     bilbyfs_assert (bfree \<le> blocks);
     bilbyfs_assert (bavail \<le> bfree);
     Some \<lparr>f_type = 0x0b17b9f5, f_bsize = BILBYFS_BLOCK_SIZE, f_blocks = blocks, f_bfree = bfree,
           f_bavail = bavail, f_files = 0, f_ffree = 0, f_namelen = BILBYFS_MAX_NLEN,
           f_fsid0 = u0 XOR u2, f_fsid1 = u1 XOR u3\<rparr>
   }"

text \<open>The last argument is the result of \<open>ubi_sync\<close>.\<close>

definition fsop_sync_fs ::
  "'u kernel \<Rightarrow> 'u bilbyfs_info \<Rightarrow> bool \<Rightarrow> errno option \<Rightarrow> (errno option \<times> 'u bilbyfs_info) option" where
  "fsop_sync_fs K bi wait ubi_sync =
     (if \<not> wait then Some (None, bi)
      else do {
        (err, bi) \<leftarrow> ostore_sync K bi False;
        Some (if err \<noteq> None then err else ubi_sync, bi)
      })"

definition fsop_format_default ::
  "'u kernel \<Rightarrow> fsop_env \<Rightarrow> 'u bilbyfs_info \<Rightarrow> inode \<Rightarrow> (errno option \<times> 'u bilbyfs_info \<times> inode) option" where
  "fsop_format_default K env bi root =
     (if bi_is_ro bi then Some (Some EROFS, bi, root)
      else let (err, bi, root) = init_inode env bi None root (S_IFDIR OR 0x1ED)
           in if err \<noteq> None then Some (err, bi, root)
              else do {
                (err, bi) \<leftarrow> ostore_write_super K bi;
                if err \<noteq> None then Some (err, bi, root)
                else do {
                  (err, bi) \<leftarrow> fsop_write_inode K bi root;
                  Some (err, bi, root)
                }
              })"

text \<open>
  \<open>ubi\<close> is the result of \<open>ubi_open_volume\<close>, \<open>rdonly\<close> the flag of the mount. The result has the number
  of the root inode when the call succeeds. The constants of the VFS superblock are not modelled.
\<close>

definition fsop_fill_super ::
  "'u kernel \<Rightarrow> fsop_env \<Rightarrow> (errno + 'u) \<Rightarrow> bool \<Rightarrow> 'u bilbyfs_info \<Rightarrow> inode \<Rightarrow>
   ((errno + u64) \<times> 'u bilbyfs_info \<times> inode) option" where
  "fsop_fill_super K env ubi rdonly bi root =
     (case ubi of
        Inl e \<Rightarrow> Some (Inl e, bi, root)
      | Inr u \<Rightarrow> do {
          let sup = (bi_super bi)\<lparr>su_leb_cnt := vi_size (bi_info bi),
                su_nb_reserved_gc := BILBYFS_DEFAULT_NB_RESERVED_GC,
                su_nb_reserved_del := BILBYFS_DEFAULT_NB_RESERVED_DEL,
                su_leb_size := vi_usable_leb_size (bi_info bi),
                su_min_io_size := di_min_io_size (bi_info bi),
                su_max_io_size := di_max_write_size (bi_info bi), su_sqnum := 0, su_lowest_sqnum := 0\<rparr>;
          let bi = bi\<lparr>bi_ubi := u, bi_super := sup, bi_is_ro := rdonly, bi_super_offs := 0\<rparr>;
          (err, bi) \<leftarrow> ostore_init K bi;
          (case err of
             Some e \<Rightarrow> Some (Inl e, bi, root)
           | None \<Rightarrow> do {
               (err, bi) \<leftarrow> ostore_mount K bi;
               (err, bi, root) \<leftarrow>
                 (if err = Some ENODATA then fsop_format_default K env bi root else Some (err, bi, root));
               (case err of
                  Some e \<Rightarrow> Some (Inl e, bi, root)
                | None \<Rightarrow> Some (Inr BILBYFS_ROOT_INO, bi, root))
             })
        })"

definition fsop_test_is_mount :: "'u bilbyfs_info \<Rightarrow> 'u bilbyfs_info \<Rightarrow> bool" where
  "fsop_test_is_mount bi1 bi2 \<longleftrightarrow> vi_cdev (bi_info bi1) = vi_cdev (bi_info bi2)"

text \<open>The decimal digits of a number, as \<open>snprintf\<close> writes them.\<close>

fun decimal :: "nat \<Rightarrow> string" where
  "decimal n = (if n < 10 then [char_of (48 + n)] else decimal (n div 10) @ [char_of (48 + n mod 10)])"

text \<open>
  \<open>open_res\<close> is the outcome of \<open>open_ubi\<close>, \<open>info\<close> what UBI reports about the volume. The result has the
  name of the backing device, which has to fit into 16 bytes.
\<close>

definition fsop_init ::
  "'u kernel \<Rightarrow> errno option \<Rightarrow> ubi_info \<Rightarrow> nat \<Rightarrow> nat \<Rightarrow> 'u bilbyfs_info \<Rightarrow> (errno + string) \<times> 'u bilbyfs_info" where
  "fsop_init K open_res info ubi_num vol_id bi =
     (let (ok, km) = kmalloc_ok (bi_kmem bi);
          bi = bi\<lparr>bi_kmem := km\<rparr>
      in if \<not> ok then (Inl ENOMEM, bi)
         else case open_res of
           Some e \<Rightarrow> (Inl e, bi\<lparr>bi_odata := []\<rparr>)
         | None \<Rightarrow>
             let bi = bi\<lparr>bi_odata := uninit K BILBYFS_MAX_DATA_SZ, bi_next_sqnum := BILBYFS_FIRST_SQNUM,
                         bi_next_inum := BILBYFS_FIRST_INO, bi_is_ro := True, bi_info := info\<rparr>;
                 bd_name = ''bilbyfs_'' @ decimal ubi_num @ ''_'' @ decimal vol_id
             in if length bd_name < 16 then (Inr bd_name, bi) else (Inl EINVAL, bi\<lparr>bi_odata := []\<rparr>))"

definition fsop_unmount :: "'u kernel \<Rightarrow> 'u bilbyfs_info \<Rightarrow> 'u bilbyfs_info option" where
  "fsop_unmount K bi = do {
     bi \<leftarrow> (if bi_is_ro bi then Some bi else ostore_unmount K bi);
     bi \<leftarrow> ostore_clean bi;
     Some (bi\<lparr>bi_is_ro := True, bi_odata := []\<rparr>)
   }"

end
