(* ===== verification/Bilby_Wrapper.thy ===== *)
theory Bilby_Wrapper
  imports Bilby_Fsop
begin

unbundle bit_operations_syntax

text \<open>
  \<open>os/linux/wrapper.c\<close>: the entry points that the VFS calls. They take the semaphore of the file
  system around the calls of \<open>fsop.c\<close> and keep the protocols of the inode cache, the dentries and
  the page cache.
  \<^item> The state \<open>wrap\<close> has the file system, the counter of the semaphore \<open>bi->wd.lock\<close>, the inodes
    in memory by pointer, and the calls made so far to the kernel (\<open>vcall\<close>).
  \<^item> The kernel is the record \<open>vfs\<close>: what a call answers is an arbitrary function of the calls made
    before it. \<open>LINUX_VERSION_CODE\<close> is a field, so both sides of the \<open>#if\<close> directives are there.
  \<^item> \<open>None\<close> is also the outcome of a \<open>down\<close> that waits forever: the counter is the one the calling
    thread finds when no other thread is inside the file system.
  \<^item> A page is a record of its content, flags and counts; the page functions used here set one of
    them. Messages to the kernel log are left out.
\<close>

section \<open>The kernel around the file system\<close>

definition KERNEL_VERSION :: "nat \<Rightarrow> nat \<Rightarrow> nat \<Rightarrow> nat" where
  "KERNEL_VERSION a b c = a * 65536 + b * 256 + c"

datatype vcall =
    Iget_locked u64 "nat option"
  | New_inode "nat option"
  | Ihold nat
  | Iput nat
  | Iget_failed nat
  | Unlock_new_inode nat
  | Make_bad_inode nat
  | Insert_inode_hash nat
  | D_add nat
  | D_instantiate nat
  | D_make_root nat bool
  | Mark_inode_dirty nat
  | Truncate_setsize nat u64
  | Truncate_inode_pages nat
  | Clear_inode nat
  | Call_rcu nat
  | Bdi_init
  | Bdi_register
  | Bdi_destroy
  | Ubi_close_volume
  | Kzalloc_info
  | Kfree_info
  | Dget_root
  | Kill_anon_super
  | Slab_create
  | Slab_destroy
  | Register_filesystem
  | Unregister_filesystem

datatype opt = BilbyFs_Opt_no_summary | BilbyFs_Opt_compr | BilbyFs_Opt_end

record page =
  pg_index :: u64
  pg_data :: buf
  pg_uptodate :: bool
  pg_error :: bool
  pg_checked :: bool
  pg_dirty :: bool
  pg_locked :: bool
  pg_writeback :: bool
  pg_maps :: int
  pg_refs :: int

text \<open>
  What the kernel answers. \<open>v_iget_locked\<close> gives the inode and whether it is new, \<open>v_freed\<close> says
  whether the memory of an inode has been given back, \<open>v_sget\<close> whether a superblock that was found
  has a root, \<open>v_time_trunc\<close> is \<open>timespec64_trunc\<close> with the granularity of the file system.
\<close>

record 'u vfs =
  linux_version :: nat
  v_iget_locked :: "vcall list \<Rightarrow> u64 \<Rightarrow> (nat \<times> bool) option"
  v_new_inode :: "vcall list \<Rightarrow> nat option"
  v_freed :: "vcall list \<Rightarrow> nat \<Rightarrow> bool"
  v_is_bad_inode :: "vcall list \<Rightarrow> nat \<Rightarrow> bool"
  v_d_make_root :: "vcall list \<Rightarrow> nat \<Rightarrow> bool"
  v_filemap_write_and_wait :: "vcall list \<Rightarrow> errno option"
  v_grab_page :: "vcall list \<Rightarrow> u64 \<Rightarrow> page option"
  v_setattr_prepare :: "vcall list \<Rightarrow> inode \<Rightarrow> iattr \<Rightarrow> errno option"
  v_in_group_p :: "u32 \<Rightarrow> bool"
  v_capable_fsetid :: bool
  v_time_trunc :: "u64 \<Rightarrow> u64"
  v_ubi_sync :: "vcall list \<Rightarrow> errno option"
  v_ubi_open_volume_path :: "string \<Rightarrow> int \<Rightarrow> errno + 'u"
  v_ubi_open_volume :: "int \<Rightarrow> int \<Rightarrow> int \<Rightarrow> errno + 'u"
  v_ubi_open_volume_nm :: "int \<Rightarrow> string \<Rightarrow> int \<Rightarrow> errno + 'u"
  v_volume_info :: "'u \<Rightarrow> ubi_info"
  v_ubi_num :: "'u \<Rightarrow> nat"
  v_vol_id :: "'u \<Rightarrow> nat"
  v_match_token :: "string \<Rightarrow> opt"
  v_bdi_init :: "errno option"
  v_bdi_register :: "string \<Rightarrow> errno option"
  v_sget :: "vcall list \<Rightarrow> errno + bool"
  v_slab_create :: bool
  v_register_filesystem :: "errno option"

text \<open>
  The tables of operations of an inode, and the pointers it has to the target of a symbolic link,
  which may be left dangling.
\<close>

datatype optable =
    bilbyfs_file_inode_operations | bilbyfs_file_operations
  | bilbyfs_dir_inode_operations | bilbyfs_dir_operations | bilbyfs_symlink_inode_operations
  | bilbyfs_file_address_operations | default_operations

record inode_tables =
  i_op :: optable
  i_fop :: optable
  a_ops :: optable

datatype path_ptr = Null | Path buf | Dangling

record 'u wrap =
  w_bi :: "'u bilbyfs_info"
  w_sem :: nat
  w_inode :: "nat \<Rightarrow> inode"
  w_tables :: "nat \<Rightarrow> inode_tables"
  w_link :: "nat \<Rightarrow> path_ptr"
  w_private :: "nat \<Rightarrow> path_ptr"
  w_calls :: "vcall list"

definition call :: "vcall \<Rightarrow> 'u wrap \<Rightarrow> 'u wrap" where
  "call c w = w\<lparr>w_calls := w_calls w @ [c]\<rparr>"

definition put_inode :: "nat \<Rightarrow> inode \<Rightarrow> 'u wrap \<Rightarrow> 'u wrap" where
  "put_inode a inode w = w\<lparr>w_inode := (w_inode w)(a := inode)\<rparr>"

definition put_tables :: "nat \<Rightarrow> inode_tables \<Rightarrow> 'u wrap \<Rightarrow> 'u wrap" where
  "put_tables a t w = w\<lparr>w_tables := (w_tables w)(a := t)\<rparr>"

definition put_bi :: "'u bilbyfs_info \<Rightarrow> 'u wrap \<Rightarrow> 'u wrap" where
  "put_bi bi w = w\<lparr>w_bi := bi\<rparr>"

text \<open>\<open>wrapper_init\<close> sets the counter of the semaphore to one.\<close>

definition wrapper_init :: "'u wrap \<Rightarrow> 'u wrap" where
  "wrapper_init w = w\<lparr>w_sem := 1\<rparr>"

definition down :: "'u wrap \<Rightarrow> 'u wrap option" where
  "down w = (if w_sem w = 0 then None else Some (w\<lparr>w_sem := w_sem w - 1\<rparr>))"

definition up :: "'u wrap \<Rightarrow> 'u wrap" where
  "up w = w\<lparr>w_sem := w_sem w + 1\<rparr>"

section \<open>Inodes\<close>

text \<open>
  The inode and its tables. Inodes of the other types are refused; an error leaves the tables as
  they were.
\<close>

definition init_inode_by_type ::
  "'u vfs \<Rightarrow> nat \<Rightarrow> 'u wrap \<Rightarrow> errno option \<times> 'u wrap" where
  "init_inode_by_type V a w =
     (let inode = w_inode w a; t = w_tables w a; ty = i_mode inode AND S_IFMT
      in if ty = S_IFREG then
           (None, put_tables a (t\<lparr>a_ops := bilbyfs_file_address_operations,
                    i_op := bilbyfs_file_inode_operations, i_fop := bilbyfs_file_operations\<rparr>) w)
         else if ty = S_IFDIR then
           (None, put_inode a (inode\<lparr>i_size := of_nat BILBYFS_INODE_SZ\<rparr>)
                   (put_tables a (t\<lparr>i_op := bilbyfs_dir_inode_operations, i_fop := bilbyfs_dir_operations\<rparr>) w))
         else if ty = S_IFLNK then
           (None, (put_tables a (t\<lparr>i_op := bilbyfs_symlink_inode_operations\<rparr>) w)
                    \<lparr>w_link := (w_link w)(a := Null)\<rparr>)
         else if ty = S_IFBLK \<or> ty = S_IFCHR \<or> ty = S_IFSOCK \<or> ty = S_IFIFO then (Some EINVAL, w)
         else (Some EINVAL, w))"

text \<open>The answer of \<open>init_inode_by_type\<close> is not looked at.\<close>

definition bilbyfs_iget ::
  "'u vfs \<Rightarrow> 'u kernel \<Rightarrow> 'u wrap \<Rightarrow> u64 \<Rightarrow> ((errno + nat) \<times> 'u wrap) option" where
  "bilbyfs_iget V K w inum = do {
     let r = v_iget_locked V (w_calls w) inum;
     let w = call (Iget_locked inum (map_option fst r)) w;
     (case r of
        None \<Rightarrow> Some (Inl ENOMEM, w)
      | Some (a, is_new) \<Rightarrow>
          if \<not> is_new then Some (Inr a, w)
          else do {
            w \<leftarrow> down w;
            (err, bi, inode) \<leftarrow> fsop_iget K (w_bi w) inum (w_inode w a);
            let w = up (put_inode a inode (put_bi bi w));
            (case err of
               None \<Rightarrow> Some (Inr a, call (Unlock_new_inode a) (snd (init_inode_by_type V a w)))
             | Some e \<Rightarrow> Some (Inl e, call (Iget_failed a) w))
          })
   }"

definition bilbyfs_lookup ::
  "'u vfs \<Rightarrow> 'u kernel \<Rightarrow> 'u wrap \<Rightarrow> nat \<Rightarrow> name \<Rightarrow> (errno option \<times> 'u wrap) option" where
  "bilbyfs_lookup V K w dir d_name = do {
     w \<leftarrow> down w;
     (r, bi) \<leftarrow> fsop_lookup K (w_bi w) (w_inode w dir) d_name;
     let w = up (put_bi bi w);
     (case r of
        Inl e \<Rightarrow> Some (if e = ENOENT then None else Some e, w)
      | Inr inum \<Rightarrow> do {
          (r, w) \<leftarrow> bilbyfs_iget V K w (ucast inum);
          (case r of
             Inr a \<Rightarrow> Some (None, call (D_add a) w)
           | Inl e \<Rightarrow> Some (Some e, w))
        })
   }"

text \<open>No directory stands for \<open>NULL\<close>.\<close>

definition bilbyfs_new_inode ::
  "'u vfs \<Rightarrow> fsop_env \<Rightarrow> 'u wrap \<Rightarrow> nat option \<Rightarrow> u16 \<Rightarrow> (errno + nat) \<times> 'u wrap" where
  "bilbyfs_new_inode V env w dir mode =
     (let r = v_new_inode V (w_calls w);
          w = call (New_inode r) w
      in case r of
           None \<Rightarrow> (Inl ENOMEM, w)
         | Some a \<Rightarrow>
             let w = put_inode a (inode_init_perm env (w_inode w a) (map_option (w_inode w) dir) mode) w;
                 (err, w) = init_inode_by_type V a w
             in case err of
                  None \<Rightarrow> (Inr a, w)
                | Some e \<Rightarrow> (Inl e, call (Iput a) (call (Make_bad_inode a) w)))"

section \<open>Operations on directories\<close>

definition bilbyfs_link ::
  "'u kernel \<Rightarrow> fsop_env \<Rightarrow> 'u wrap \<Rightarrow> nat \<Rightarrow> nat \<Rightarrow> name \<Rightarrow> (errno option \<times> 'u wrap) option" where
  "bilbyfs_link K env w old dir d_name = do {
     w \<leftarrow> down w;
     (err, bi, inode, d) \<leftarrow> fsop_link K env (w_bi w) (w_inode w old) (w_inode w dir) d_name;
     let w = up (put_inode old inode (put_inode dir d (put_bi bi w)));
     Some (err, if err = None then call (D_instantiate old) (call (Ihold old) w) else w)
   }"

text \<open>
  The end of \<open>bilbyfs_create\<close>, \<open>bilbyfs_mkdir\<close> and \<open>bilbyfs_symlink\<close>: a new inode is hashed and
  given to the dentry, or made bad and dropped.
\<close>

definition finish_new ::
  "errno option \<Rightarrow> nat \<Rightarrow> 'u wrap \<Rightarrow> errno option \<times> 'u wrap" where
  "finish_new err a w =
     (if err = None then (None, call (D_instantiate a) (call (Insert_inode_hash a) w))
      else (err, call (Iput a) (call (Make_bad_inode a) w)))"

definition bilbyfs_create ::
  "'u vfs \<Rightarrow> 'u kernel \<Rightarrow> fsop_env \<Rightarrow> 'u wrap \<Rightarrow> nat \<Rightarrow> name \<Rightarrow> u16 \<Rightarrow> (errno option \<times> 'u wrap) option" where
  "bilbyfs_create V K env w dir d_name mode =
     (case bilbyfs_new_inode V env w (Some dir) (S_IFREG OR mode) of
        (Inl e, w) \<Rightarrow> Some (Some e, w)
      | (Inr a, w) \<Rightarrow> do {
          w \<leftarrow> down w;
          (err, bi, d, inode) \<leftarrow> fsop_create K env (w_bi w) (w_inode w dir) d_name mode (w_inode w a);
          let w = up (put_inode a inode (put_inode dir d (put_bi bi w)));
          Some (finish_new err a w)
        })"

definition bilbyfs_unlink ::
  "'u kernel \<Rightarrow> fsop_env \<Rightarrow> 'u wrap \<Rightarrow> nat \<Rightarrow> name \<Rightarrow> nat \<Rightarrow> (errno option \<times> 'u wrap) option" where
  "bilbyfs_unlink K env w dir d_name a = do {
     w \<leftarrow> down w;
     (err, bi, d, inode) \<leftarrow> fsop_unlink K env (w_bi w) (w_inode w dir) d_name (w_inode w a);
     let w = up (put_inode a inode (put_inode dir d (put_bi bi w)));
     Some (err, w)
   }"

definition bilbyfs_rmdir ::
  "'u kernel \<Rightarrow> fsop_env \<Rightarrow> 'u wrap \<Rightarrow> nat \<Rightarrow> name \<Rightarrow> nat \<Rightarrow> (errno option \<times> 'u wrap) option" where
  "bilbyfs_rmdir K env w dir d_name a = do {
     w \<leftarrow> down w;
     (err, bi, d, inode) \<leftarrow> fsop_rmdir K env (w_bi w) (w_inode w dir) d_name (w_inode w a);
     let w = up (put_inode a inode (put_inode dir d (put_bi bi w)));
     Some (err, w)
   }"

definition bilbyfs_mkdir ::
  "'u vfs \<Rightarrow> 'u kernel \<Rightarrow> fsop_env \<Rightarrow> 'u wrap \<Rightarrow> nat \<Rightarrow> name \<Rightarrow> u16 \<Rightarrow> (errno option \<times> 'u wrap) option" where
  "bilbyfs_mkdir V K env w dir d_name mode =
     (case bilbyfs_new_inode V env w (Some dir) (S_IFDIR OR mode) of
        (Inl e, w) \<Rightarrow> Some (Some e, w)
      | (Inr a, w) \<Rightarrow> do {
          w \<leftarrow> down w;
          (err, bi, d, inode) \<leftarrow> fsop_mkdir K env (w_bi w) (w_inode w dir) d_name mode (w_inode w a);
          let w = up (put_inode a inode (put_inode dir d (put_bi bi w)));
          Some (finish_new err a w)
        })"

text \<open>
  A position of two means that an error occurred or that the end was reached. \<open>dots\<close> is
  \<open>dir_emit_dots\<close> with the state of the caller; \<open>rdx\<close> is \<open>file->private_data\<close>.
\<close>

definition bilbyfs_readdir ::
  "('c \<Rightarrow> u64 \<Rightarrow> bool \<times> 'c \<times> u64) \<Rightarrow> ('c \<Rightarrow> name \<Rightarrow> int \<Rightarrow> u64 \<Rightarrow> u32 \<Rightarrow> bool \<times> 'c) \<Rightarrow> 'u kernel \<Rightarrow> 'u wrap \<Rightarrow>
   nat \<Rightarrow> 'c \<Rightarrow> u64 \<Rightarrow> fsop_readdir_ctx option \<Rightarrow>
   (errno option \<times> 'u wrap \<times> 'c \<times> u64 \<times> fsop_readdir_ctx option) option" where
  "bilbyfs_readdir dots dir_emit K w dir ctx pos rdx =
     (if pos = 2 then Some (None, w, ctx, pos, rdx)
      else
        let (go, ctx, pos) =
          (if sint pos < 2 then
             let (ok, ctx, pos) = dots ctx pos in if ok then (True, ctx, 3) else (False, ctx, pos)
           else (True, ctx, pos))
        in if \<not> go then Some (None, w, ctx, pos, rdx)
        else do {
          w \<leftarrow> down w;
          (err, bi, ctx, pos, rdx) \<leftarrow> fsop_readdir dir_emit K (w_bi w) (w_inode w dir) ctx pos rdx;
          let w = up (put_bi bi w);
          Some (err, w, ctx, if err = None then pos else 2, rdx)
        })"

definition bilbyfs_dir_release ::
  "'u wrap \<Rightarrow> fsop_readdir_ctx option \<Rightarrow> (errno option \<times> 'u wrap \<times> fsop_readdir_ctx option) option" where
  "bilbyfs_dir_release w rdx = do {
     w \<leftarrow> down w;
     let rdx = fsop_dir_release rdx;
     let w = up w;
     Some (None, w, None)
   }"

text \<open>The semaphore is taken and then again by \<open>bilbyfs_dir_release\<close>.\<close>

definition bilbyfs_dir_llseek ::
  "'u wrap \<Rightarrow> fsop_readdir_ctx option \<Rightarrow> (errno option \<times> 'u wrap \<times> fsop_readdir_ctx option) option" where
  "bilbyfs_dir_llseek w rdx = do {
     w \<leftarrow> down w;
     (err, w, rdx) \<leftarrow> bilbyfs_dir_release w rdx;
     let w = up w;
     Some (err, w, rdx)
   }"

definition bilbyfs_symlink ::
  "'u vfs \<Rightarrow> 'u kernel \<Rightarrow> fsop_env \<Rightarrow> 'u wrap \<Rightarrow> nat \<Rightarrow> name \<Rightarrow> name \<Rightarrow> (errno option \<times> 'u wrap) option" where
  "bilbyfs_symlink V K env w dir d_name symname =
     (case bilbyfs_new_inode V env w (Some dir) (S_IFLNK OR S_IRWXUGO) of
        (Inl e, w) \<Rightarrow> Some (Some e, w)
      | (Inr a, w) \<Rightarrow> do {
          w \<leftarrow> down w;
          (err, bi, d, inode) \<leftarrow> fsop_symlink K env (w_bi w) (w_inode w dir) d_name symname (w_inode w a);
          let w = up (put_inode a inode (put_inode dir d (put_bi bi w)));
          Some (finish_new err a w)
        })"

definition RENAME_NOREPLACE :: u32 where [simp]: "RENAME_NOREPLACE = 1"

definition bilbyfs_rename ::
  "'u vfs \<Rightarrow> 'u kernel \<Rightarrow> fsop_env \<Rightarrow> 'u wrap \<Rightarrow> nat \<Rightarrow> name \<Rightarrow> nat \<Rightarrow> nat \<Rightarrow> name \<Rightarrow> nat option \<Rightarrow> u32 \<Rightarrow>
   (errno option \<times> 'u wrap) option" where
  "bilbyfs_rename V K env w old_dir old_name old_inode new_dir new_name new_inode flags =
     (if KERNEL_VERSION 4 8 0 \<le> linux_version V \<and> flags AND NOT RENAME_NOREPLACE \<noteq> 0 then Some (Some EINVAL, w)
      else do {
        w \<leftarrow> down w;
        (err, bi, ist) \<leftarrow> fsop_rename K env (w_bi w) (w_inode w) old_dir old_name old_inode new_dir new_name new_inode;
        let w = up ((put_bi bi w)\<lparr>w_inode := ist\<rparr>);
        Some (err, w)
      })"

definition bilbyfs_fsync :: "'u vfs \<Rightarrow> 'u kernel \<Rightarrow> 'u wrap \<Rightarrow> (errno option \<times> 'u wrap) option" where
  "bilbyfs_fsync V K w =
     (case v_filemap_write_and_wait V (w_calls w) of
        None \<Rightarrow> do {
          w \<leftarrow> down w;
          (err, bi) \<leftarrow> fsop_sync_fs K (w_bi w) True (v_ubi_sync V (w_calls w));
          let w = up (put_bi bi w);
          Some (err, w)
        }
      | Some e \<Rightarrow> Some (Some e, w))"

section \<open>Pages\<close>

text \<open>A \<open>loff_t\<close> that is passed to a parameter of type \<open>int\<close>.\<close>

definition c_int :: "u64 \<Rightarrow> int" where
  "c_int x = sint (ucast x :: u32)"

definition kmap :: "page \<Rightarrow> page" where "kmap page = page\<lparr>pg_maps := pg_maps page + 1\<rparr>"
definition kunmap :: "page \<Rightarrow> page" where "kunmap page = page\<lparr>pg_maps := pg_maps page - 1\<rparr>"
definition put_page :: "page \<Rightarrow> page" where "put_page page = page\<lparr>pg_refs := pg_refs page - 1\<rparr>"
definition unlock_page :: "page \<Rightarrow> page option" where
  "unlock_page page = do { bilbyfs_assert (pg_locked page); Some (page\<lparr>pg_locked := False\<rparr>) }"

definition bilbyfs_readpage ::
  "'u kernel \<Rightarrow> 'u wrap \<Rightarrow> nat \<Rightarrow> page \<Rightarrow> (errno option \<times> 'u wrap \<times> page) option" where
  "bilbyfs_readpage K w a page = do {
     let page = kmap page;
     w \<leftarrow> down w;
     (err, bi, addr) \<leftarrow> fsop_readpage K (w_bi w) (w_inode w a) (pg_index page) (pg_data page);
     let w = up (put_bi bi w);
     let page = page\<lparr>pg_data := addr\<rparr>;
     let (err, page) = (if err = Some ENOENT then (None, page\<lparr>pg_checked := True\<rparr>) else (err, page));
     if err \<noteq> None then do {
       let page = kunmap (page\<lparr>pg_uptodate := False, pg_error := True\<rparr>);
       page \<leftarrow> unlock_page page;
       Some (err, w, page)
     }
     else do {
       let page = kunmap (page\<lparr>pg_uptodate := True, pg_error := False\<rparr>);
       page \<leftarrow> unlock_page page;
       Some (None, w, page)
     }
   }"

text \<open>The page that is handed to the VFS, or the error and the page as it was left.\<close>

definition bilbyfs_write_begin ::
  "'u vfs \<Rightarrow> 'u kernel \<Rightarrow> 'u wrap \<Rightarrow> nat \<Rightarrow> u64 \<Rightarrow> u32 \<Rightarrow> (errno option \<times> 'u wrap \<times> page option) option" where
  "bilbyfs_write_begin V K w a pos len =
     (case v_grab_page V (w_calls w) (signed_drop_bit BILBYFS_BLOCK_SHIFT pos) of
        None \<Rightarrow> Some (Some ENOMEM, w, None)
      | Some page \<Rightarrow> do {
          let page = kmap page;
          (err, w, page) \<leftarrow>
            (if \<not> pg_uptodate page then do {
               w \<leftarrow> down w;
               (err, bi, addr) \<leftarrow> fsop_write_begin K (w_bi w) (w_inode w a) (c_int pos) (sint len) (pg_data page);
               let w = up (put_bi bi w);
               Some (err, w, page\<lparr>pg_data := addr\<rparr>)
             }
             else Some (None, w, page));
          if err \<noteq> None then do {
            let page = kunmap (page\<lparr>pg_uptodate := False, pg_error := True\<rparr>);
            page \<leftarrow> unlock_page page;
            Some (err, w, Some (put_page page))
          }
          else Some (None, w, Some (kunmap (page\<lparr>pg_uptodate := True, pg_error := False\<rparr>)))
        })"

text \<open>The number of bytes taken, which is what the VFS has copied, or an error.\<close>

definition bilbyfs_write_end ::
  "'u kernel \<Rightarrow> fsop_env \<Rightarrow> 'u wrap \<Rightarrow> nat \<Rightarrow> u64 \<Rightarrow> u32 \<Rightarrow> page \<Rightarrow> ((errno + u32) \<times> 'u wrap \<times> page) option" where
  "bilbyfs_write_end K env w a pos copied page = do {
     bilbyfs_assert (pg_uptodate page);
     let page = kmap page;
     w \<leftarrow> down w;
     (err, bi, inode) \<leftarrow> fsop_write_end K env (w_bi w) (w_inode w a) (c_int pos) (sint copied) (pg_data page);
     let w = up (put_inode a inode (put_bi bi w));
     (case err of
        None \<Rightarrow> do {
          page \<leftarrow> unlock_page (kunmap page);
          Some (Inr copied, w, put_page page)
        }
      | Some e \<Rightarrow> do {
          page \<leftarrow> unlock_page (kunmap (page\<lparr>pg_error := True\<rparr>));
          Some (Inl e, w, put_page page)
        })
   }"

definition bilbyfs_write_end_writeback ::
  "'u wrap \<Rightarrow> nat \<Rightarrow> u64 \<Rightarrow> u32 \<Rightarrow> u32 \<Rightarrow> page \<Rightarrow> (u32 \<times> 'u wrap \<times> page) option" where
  "bilbyfs_write_end_writeback w a pos len copied page = do {
     let end_pos = pos + ucast len;
     let appending = (sint (i_size (w_inode w a)) < sint end_pos);
     bilbyfs_assert (pg_uptodate page);
     bilbyfs_assert (len \<le> word_of_int BILBYFS_BLOCK_SIZE);
     let page = page\<lparr>pg_dirty := True\<rparr>;
     let w = (if appending
              then call (Mark_inode_dirty a) (put_inode a ((w_inode w a)\<lparr>i_size := end_pos\<rparr>) w) else w);
     page \<leftarrow> unlock_page page;
     Some (copied, w, put_page page)
   }"

text \<open>
  Pages behind the end of the file are dropped. The part of the last page that is behind the end
  is cleared. \<open>page->index << PAGE_SHIFT\<close> wraps at 64 bits.
\<close>

definition bilbyfs_writepage ::
  "'u kernel \<Rightarrow> fsop_env \<Rightarrow> 'u wrap \<Rightarrow> nat \<Rightarrow> page \<Rightarrow> (errno option \<times> 'u wrap \<times> page) option" where
  "bilbyfs_writepage K env w a page = do {
     let size = i_size (w_inode w a);
     let end_index = signed_drop_bit BILBYFS_BLOCK_SHIFT size;
     let pos = push_bit BILBYFS_BLOCK_SHIFT (pg_index page);
     let len = uint (size AND 0xFFF);
     if end_index < pg_index page \<or> pg_index page = end_index \<and> len = 0 then do {
       page \<leftarrow> unlock_page page;
       Some (None, w, page)
     }
     else do {
       let len = (if pg_index page \<noteq> end_index then BILBYFS_BLOCK_SIZE else len);
       let page = kmap (page\<lparr>pg_writeback := True\<rparr>);
       addr \<leftarrow> buf_fill (pg_data page) (nat len) 0 (nat (BILBYFS_BLOCK_SIZE - len));
       let page = kmap (kunmap (page\<lparr>pg_data := addr\<rparr>));
       w \<leftarrow> down w;
       (err, bi, inode) \<leftarrow> fsop_write_end K env (w_bi w) (w_inode w a) (c_int pos) len (pg_data page);
       let w = up (put_inode a inode (put_bi bi w));
       page \<leftarrow> unlock_page (kunmap page);
       Some (err, w, page\<lparr>pg_writeback := False\<rparr>)
     }
   }"

section \<open>Symbolic links\<close>

definition PATH_MAX :: nat where [simp]: "PATH_MAX = 4096"

text \<open>The kernels before 4.5. When the target cannot be read, the pointer stays in the inode.\<close>

definition bilbyfs_follow_link ::
  "'u kernel \<Rightarrow> 'u wrap \<Rightarrow> nat \<Rightarrow> (errno option \<times> 'u wrap) option" where
  "bilbyfs_follow_link K w a =
     (if w_private w a = Null then do {
        let (ok, km) = kmalloc_ok (bi_kmem (w_bi w));
        let w = put_bi ((w_bi w)\<lparr>bi_kmem := km\<rparr>) w;
        if \<not> ok then Some (Some ENOMEM, w)
        else do {
          w \<leftarrow> down w;
          (err, bi, path) \<leftarrow> fsop_follow_link K (w_bi w) (w_inode w a) (uninit K PATH_MAX);
          let w = up (put_bi bi w);
          let w = w\<lparr>w_private := (w_private w)(a := if err = None then Path path else Dangling)\<rparr>;
          Some (err, w)
        }
      }
      else Some (None, w))"

definition bilbyfs_get_link ::
  "'u kernel \<Rightarrow> 'u wrap \<Rightarrow> nat \<Rightarrow> ((errno + path_ptr) \<times> 'u wrap) option" where
  "bilbyfs_get_link K w a =
     (if w_link w a = Null then do {
        let (ok, km) = kmalloc_ok (bi_kmem (w_bi w));
        let w = put_bi ((w_bi w)\<lparr>bi_kmem := km\<rparr>) w;
        if \<not> ok then Some (Inl ENOMEM, w)
        else do {
          w \<leftarrow> down w;
          (err, bi, path) \<leftarrow> fsop_follow_link K (w_bi w) (w_inode w a) (uninit K PATH_MAX);
          let w = up (put_bi bi w);
          (case err of
             Some e \<Rightarrow> Some (Inl e, w\<lparr>w_link := (w_link w)(a := Null)\<rparr>)
           | None \<Rightarrow> Some (Inr (Path path), w\<lparr>w_link := (w_link w)(a := Path path)\<rparr>))
        }
      }
      else Some (Inr (w_link w a), w))"

section \<open>Attributes\<close>

text \<open>
  \<open>attr\<close> is changed through its pointer: a caller outside the group of the file loses the
  set-group-id bit.
\<close>

definition bilbyfs_setattr ::
  "'u vfs \<Rightarrow> 'u kernel \<Rightarrow> fsop_env \<Rightarrow> 'u wrap \<Rightarrow> nat \<Rightarrow> iattr \<Rightarrow> (errno option \<times> 'u wrap \<times> iattr) option" where
  "bilbyfs_setattr V K env w a attr =
     (case v_setattr_prepare V (w_calls w) (w_inode w a) attr of
        Some e \<Rightarrow> Some (Some e, w, attr)
      | None \<Rightarrow> do {
          let has = (\<lambda>fl. ia_valid attr AND fl \<noteq> 0);
          let attr = (if has ATTR_MODE \<and> \<not> v_in_group_p V (i_gid (w_inode w a)) \<and> \<not> v_capable_fsetid V
                      then attr\<lparr>ia_mode := ia_mode attr AND NOT S_ISGID\<rparr> else attr);
          w \<leftarrow> down w;
          (err, bi, inode) \<leftarrow> fsop_setattr K env (w_bi w) (w_inode w a) attr;
          let w = up (put_inode a inode (put_bi bi w));
          if err \<noteq> None then Some (err, w, attr)
          else do {
            let w = (if has ATTR_SIZE then call (Truncate_setsize a (i_size inode)) w else w);
            let inode = (if has ATTR_ATIME then inode\<lparr>i_atime := v_time_trunc V (i_atime inode)\<rparr> else inode);
            let inode = (if has ATTR_MTIME then inode\<lparr>i_mtime := v_time_trunc V (i_mtime inode)\<rparr> else inode);
            let inode = (if has ATTR_CTIME then inode\<lparr>i_ctime := v_time_trunc V (i_ctime inode)\<rparr> else inode);
            Some (None, put_inode a inode w, attr)
          }
        })"

text \<open>The two numbers are \<open>stat->dev\<close> and \<open>stat->rdev\<close>. \<open>fsop_getattr\<close> always succeeds.\<close>

definition bilbyfs_getattr ::
  "'u wrap \<Rightarrow> nat \<Rightarrow> nat \<Rightarrow> nat \<Rightarrow> (errno option \<times> 'u wrap \<times> kstat \<times> nat \<times> nat) option" where
  "bilbyfs_getattr w a s_dev i_rdev = do {
     w \<leftarrow> down w;
     let stat = fsop_getattr (w_inode w a);
     let w = up w;
     Some (None, w, stat, s_dev, i_rdev)
   }"

section \<open>The superblock\<close>

definition bilbyfs_statfs :: "'u wrap \<Rightarrow> (errno option \<times> 'u wrap \<times> kstatfs) option" where
  "bilbyfs_statfs w = do {
     w \<leftarrow> down w;
     kstat \<leftarrow> fsop_statfs (w_bi w);
     let w = up w;
     Some (None, w, kstat)
   }"

definition bilbyfs_sync_fs :: "'u vfs \<Rightarrow> 'u kernel \<Rightarrow> 'u wrap \<Rightarrow> bool \<Rightarrow> (errno option \<times> 'u wrap) option" where
  "bilbyfs_sync_fs V K w wait = do {
     w \<leftarrow> down w;
     (err, bi) \<leftarrow> fsop_sync_fs K (w_bi w) wait (v_ubi_sync V (w_calls w));
     let w = up (put_bi bi w);
     Some (err, w)
   }"

definition bilbyfs_unmount :: "'u kernel \<Rightarrow> 'u wrap \<Rightarrow> 'u wrap option" where
  "bilbyfs_unmount K w = do {
     w \<leftarrow> down w;
     bi \<leftarrow> fsop_unmount K (w_bi w);
     Some (up (put_bi bi w))
   }"

definition bilbyfs_put_super :: "'u vfs \<Rightarrow> 'u kernel \<Rightarrow> 'u wrap \<Rightarrow> 'u wrap option" where
  "bilbyfs_put_super V K w = do {
     w \<leftarrow> bilbyfs_unmount K w;
     let w = (if linux_version V < KERNEL_VERSION 4 4 0 then call Bdi_destroy w else w);
     Some (call Ubi_close_volume w)
   }"

section \<open>Names of volumes\<close>

text \<open>
  A C string is a list of characters other than \<open>NUL\<close>; reading it past its terminator is a fault.
  A pointer into it is the rest of the string.
\<close>

definition NUL :: char where "NUL = CHR 0x00"

definition cstr_at :: "string \<Rightarrow> nat \<Rightarrow> char option" where
  "cstr_at s i = (if i < length s then Some (s ! i) else if i = length s then Some NUL else None)"

definition is_digit :: "char \<Rightarrow> bool" where
  "is_digit c \<longleftrightarrow> 48 \<le> (of_char c :: nat) \<and> (of_char c :: nat) \<le> 57"

text \<open>The value of a hexadecimal digit.\<close>

definition digit_val :: "char \<Rightarrow> nat option" where
  "digit_val c =
     (let n = (of_char c :: nat)
      in if is_digit c then Some (n - 48)
         else if 97 \<le> n \<and> n \<le> 102 then Some (n - 87)
         else if 65 \<le> n \<and> n \<le> 70 then Some (n - 55)
         else None)"

text \<open>
  \<open>simple_strtoul\<close> with base 0: a prefix \<open>0x\<close> that a hexadecimal digit follows selects base 16, another
  leading zero base 8. The value wraps at 64 bits. The second component is the end pointer.
\<close>

fun strtoul_digits :: "nat \<Rightarrow> u64 \<Rightarrow> string \<Rightarrow> u64 \<times> string" where
  "strtoul_digits base acc [] = (acc, [])"
| "strtoul_digits base acc (c # cs) =
     (case digit_val c of
        Some v \<Rightarrow> if v < base then strtoul_digits base (acc * of_nat base + of_nat v) cs else (acc, c # cs)
      | None \<Rightarrow> (acc, c # cs))"

definition simple_strtoul :: "string \<Rightarrow> u64 \<times> string" where
  "simple_strtoul s =
     (if s \<noteq> [] \<and> s ! 0 = CHR ''0''
      then if 3 \<le> length s \<and> (s ! 1 = CHR ''x'' \<or> s ! 1 = CHR ''X'') \<and> digit_val (s ! 2) \<noteq> None
           then strtoul_digits 16 0 (drop 2 s) else strtoul_digits 8 0 s
      else strtoul_digits 10 0 s)"

text \<open>An \<open>unsigned long\<close> that is assigned to an \<open>int\<close> is \<open>c_int\<close> of it.\<close>

definition open_ubi :: "'u vfs \<Rightarrow> string \<Rightarrow> int \<Rightarrow> (errno + 'u) option" where
  "open_ubi V name mode =
     (case v_ubi_open_volume_path V name mode of
        Inr u \<Rightarrow> Some (Inr u)
      | Inl _ \<Rightarrow> do {
          c0 \<leftarrow> cstr_at name 0;
          if c0 \<noteq> CHR ''u'' then Some (Inl EINVAL) else do {
          c1 \<leftarrow> cstr_at name 1;
          if c1 \<noteq> CHR ''b'' then Some (Inl EINVAL) else do {
          c2 \<leftarrow> cstr_at name 2;
          if c2 \<noteq> CHR ''i'' then Some (Inl EINVAL) else do {
          c3 \<leftarrow> cstr_at name 3;
          named \<leftarrow> (if c3 = CHR '':'' \<or> c3 = CHR ''!''
                    then do { c4 \<leftarrow> cstr_at name 4; Some (c4 \<noteq> NUL) } else Some False);
          if named then Some (v_ubi_open_volume_nm V 0 (drop 4 name) mode)
          else if \<not> is_digit c3 then Some (Inl EINVAL)
          else do {
            let (n, endptr) = simple_strtoul (drop 3 name);
            let dev = c_int n;
            e0 \<leftarrow> cstr_at endptr 0;
            if e0 = NUL then Some (v_ubi_open_volume V 0 dev mode)
            else do {
              e1 \<leftarrow> cstr_at endptr 1;
              if e0 = CHR ''_'' \<and> is_digit e1 then do {
                let (n, endptr) = simple_strtoul (drop 1 endptr);
                let vol = c_int n;
                e0 \<leftarrow> cstr_at endptr 0;
                if e0 \<noteq> NUL then Some (Inl EINVAL) else Some (v_ubi_open_volume V dev vol mode)
              }
              else if (e0 = CHR '':'' \<or> e0 = CHR ''!'') \<and> e1 \<noteq> NUL
              then Some (v_ubi_open_volume_nm V dev (drop 1 endptr) mode)
              else Some (Inl EINVAL)
            }
          } } } }
        })"

section \<open>Mounting\<close>

text \<open>\<open>strsep\<close> with a comma: the token and the rest, no rest after the last token.\<close>

fun strsep :: "string \<Rightarrow> string \<times> string option" where
  "strsep [] = ([], None)"
| "strsep (c # cs) = (if c = CHR '','' then ([], Some cs) else (let (t, r) = strsep cs in (c # t, r)))"

lemma strsep_shorter: "strsep s = (t, Some r) \<Longrightarrow> length r < length s"
  by (induction s arbitrary: t) (auto split: if_splits prod.splits)

text \<open>The loop stops at the first empty token.\<close>

function bilbyfs_parse_options ::
  "'u vfs \<Rightarrow> 'u bilbyfs_info \<Rightarrow> string option \<Rightarrow> errno option \<times> 'u bilbyfs_info" where
  "bilbyfs_parse_options V bi options =
     (case options of
        None \<Rightarrow> (None, bi)
      | Some opts \<Rightarrow>
          case strsep opts of (s, rest) \<Rightarrow>
            if s = [] then (None, bi)
            else case v_match_token V s of
                   BilbyFs_Opt_no_summary \<Rightarrow> bilbyfs_parse_options V (bi\<lparr>bi_no_summary := True\<rparr>) rest
                 | BilbyFs_Opt_compr \<Rightarrow> bilbyfs_parse_options V bi rest
                 | BilbyFs_Opt_end \<Rightarrow> (Some EINVAL, bi))"
  by pat_completeness auto
termination
  by (relation "measure (\<lambda>(V, bi, options). case options of None \<Rightarrow> 0 | Some s \<Rightarrow> Suc (length s))")
     (auto split: option.splits dest: strsep_shorter[OF sym])

declare bilbyfs_parse_options.simps [simp del]

definition UBI_READONLY :: int where [simp]: "UBI_READONLY = 1"
definition UBI_READWRITE :: int where [simp]: "UBI_READWRITE = 2"
definition MS_RDONLY :: u32 where [simp]: "MS_RDONLY = 1"

text \<open>
  The part of \<open>bilbyfs_fill_super\<close> that fills the file system with a new root inode. The test for
  \<open>NULL\<close> never fails, as \<open>bilbyfs_new_inode\<close> returns an error pointer, which \<open>set_nlink\<close> dereferences.
  The semaphore is taken in the branch for the older kernels only (\<open>lock\<close>). \<open>dev\<close> and \<open>vol\<close> are
  \<open>bi->vi.ubi_num\<close> and \<open>bi->vi.vol_id\<close>.
\<close>

definition fill_super_root ::
  "'u vfs \<Rightarrow> 'u kernel \<Rightarrow> fsop_env \<Rightarrow> bool \<Rightarrow> 'u wrap \<Rightarrow> nat \<Rightarrow> nat \<Rightarrow> bool \<Rightarrow> (nat \<times> (errno + u64) \<times> 'u wrap) option" where
  "fill_super_root V K env lock w dev vol rdonly =
     (case bilbyfs_new_inode V env w None (S_IFDIR OR 0x1ED) of
        (Inl e, w) \<Rightarrow> None
      | (Inr root, w) \<Rightarrow> do {
          let w = put_inode root (set_nlink 2 (w_inode w root)) w;
          w \<leftarrow> (if lock then down w else Some w);
          (r, bi, inode) \<leftarrow> fsop_fill_super K env (v_ubi_open_volume V (int dev) (int vol) UBI_READWRITE) rdonly
                            (w_bi w) (w_inode w root);
          let w = put_inode root inode (put_bi bi w);
          let w = (if lock then up w else w);
          Some (root, r, call (Iput root) w)
        })"

text \<open>The part that reads the root inode and makes it the root of the tree.\<close>

definition fill_super_read_root ::
  "'u vfs \<Rightarrow> 'u kernel \<Rightarrow> 'u wrap \<Rightarrow> u64 \<Rightarrow> (errno option \<times> 'u wrap) option" where
  "fill_super_read_root V K w rootino = do {
     (r, w) \<leftarrow> bilbyfs_iget V K w rootino;
     (case r of
        Inr a \<Rightarrow>
          (let ok = v_d_make_root V (w_calls w) a;
               w = call (D_make_root a ok) w
           in if ok then Some (None, w)
              else do { w \<leftarrow> bilbyfs_unmount K w; Some (Some EINVAL, w) })
      | Inl e \<Rightarrow> do { w \<leftarrow> bilbyfs_unmount K w; Some (Some e, w) })
   }"

text \<open>
  Kernels before 4.0 read the root with the number that \<open>fsop_fill_super\<close> gives. The branch for
  later kernels reads the number from the inode it has dropped.
\<close>

definition bilbyfs_fill_super ::
  "'u vfs \<Rightarrow> 'u kernel \<Rightarrow> fsop_env \<Rightarrow> 'u wrap \<Rightarrow> string option \<Rightarrow> nat \<Rightarrow> nat \<Rightarrow> bool \<Rightarrow> string \<Rightarrow>
   (errno option \<times> 'u wrap) option" where
  "bilbyfs_fill_super V K env w options dev vol rdonly bd_name =
     (let (err, bi) = bilbyfs_parse_options V (w_bi w) options; w = put_bi bi w
      in if err \<noteq> None then Some (err, w)
      else if linux_version V < KERNEL_VERSION 4 0 0 then
        let w = call Bdi_init w
        in if v_bdi_init V \<noteq> None then Some (v_bdi_init V, w)
        else
          let w = call Bdi_register w
          in if v_bdi_register V bd_name \<noteq> None then Some (v_bdi_register V bd_name, w)
          else do {
            (root, r, w) \<leftarrow> fill_super_root V K env True w dev vol rdonly;
            (err, w) \<leftarrow> (case r of Inr rootino \<Rightarrow> fill_super_read_root V K w rootino | Inl e \<Rightarrow> Some (Some e, w));
            Some (err, if err = None then w else call Bdi_destroy w)
          }
      else do {
        (root, r, w) \<leftarrow> fill_super_root V K env False w dev vol rdonly;
        (case r of
           Inr rootino \<Rightarrow>
             if v_freed V (w_calls w) root then None
             else fill_super_read_root V K w (i_ino (w_inode w root))
         | Inl e \<Rightarrow> Some (Some e, w))
      })"

definition sb_test :: "'u wrap \<Rightarrow> 'u bilbyfs_info \<Rightarrow> (bool \<times> 'u wrap) option" where
  "sb_test w data = do {
     w \<leftarrow> down w;
     let err = fsop_test_is_mount data (w_bi w);
     let w = up w;
     Some (err, w)
   }"

text \<open>\<open>kill_anon_super\<close> shuts the superblock down; it is a function on the state.\<close>

definition bilbyfs_kill_super :: "('u wrap \<Rightarrow> 'u wrap option) \<Rightarrow> 'u wrap \<Rightarrow> 'u wrap option" where
  "bilbyfs_kill_super kill_anon_super w = do {
     w \<leftarrow> kill_anon_super (call Kill_anon_super w);
     w \<leftarrow> down w;
     let w = up w;
     Some (call Kfree_info w)
   }"

text \<open>
  \<open>fsop_init\<close> with the call of \<open>open_ubi\<close> it makes: the name of the backing device and the numbers
  of the UBI device and the volume.
\<close>

definition init_volume ::
  "'u vfs \<Rightarrow> 'u kernel \<Rightarrow> string \<Rightarrow> 'u bilbyfs_info \<Rightarrow> ((errno + string \<times> nat \<times> nat) \<times> 'u bilbyfs_info) option" where
  "init_volume V K name bi = do {
     opened \<leftarrow> open_ubi V name UBI_READONLY;
     Some (case opened of
             Inl e \<Rightarrow> (case fsop_init K (Some e) (bi_info bi) 0 0 bi of
                          (Inl e, bi) \<Rightarrow> (Inl e, bi) | (Inr nm, bi) \<Rightarrow> (Inl e, bi))
           | Inr u \<Rightarrow> (case fsop_init K None (v_volume_info V u) (v_ubi_num V u) (v_vol_id V u) bi of
                          (Inl e, bi) \<Rightarrow> (Inl e, bi)
                        | (Inr nm, bi) \<Rightarrow> (Inr (nm, v_ubi_num V u, v_vol_id V u), bi)))
   }"

text \<open>
  \<open>sget\<close> answers with an error, a superblock in use (which has a root) or a new one. When it is in
  use the private data of this mount are freed. \<open>deactivate_locked_super\<close> on a new superblock, which
  has no root, calls \<open>bilbyfs_kill_super\<close>, and \<open>kill_anon_super\<close> then has nothing to shut down.
\<close>

definition bilbyfs_mount ::
  "'u vfs \<Rightarrow> 'u kernel \<Rightarrow> fsop_env \<Rightarrow> 'u wrap \<Rightarrow> u32 \<Rightarrow> string \<Rightarrow> string option \<Rightarrow> (errno option \<times> 'u wrap) option" where
  "bilbyfs_mount V K env w flags name data =
     (let (ok, km) = kmalloc_ok (bi_kmem (w_bi w));
          w = put_bi ((w_bi w)\<lparr>bi_kmem := km\<rparr>) w
      in if \<not> ok then Some (Some ENOMEM, w)
      else do {
        let w = wrapper_init (call Kzalloc_info (put_bi ((info_on (bi_ubi (w_bi w)))\<lparr>bi_kmem := km\<rparr>) w));
        w \<leftarrow> down w;
        (r, bi) \<leftarrow> init_volume V K name (w_bi w);
        let w = up (put_bi bi w);
        (case r of
           Inl e \<Rightarrow> Some (Some e, w)
         | Inr (bd_name, dev, vol) \<Rightarrow>
             (case v_sget V (w_calls w) of
                Inl e \<Rightarrow> Some (Some e, call Kfree_info w)
              | Inr True \<Rightarrow> Some (None, call Dget_root (call Kfree_info w))
              | Inr False \<Rightarrow> do {
                  (err, w) \<leftarrow> bilbyfs_fill_super V K env w data dev vol
                                (flags AND MS_RDONLY \<noteq> 0) bd_name;
                  if err = None then Some (None, call Dget_root w)
                  else do { w \<leftarrow> bilbyfs_kill_super Some w; Some (err, w) }
                }))
      })"

section \<open>Life of an inode in memory, the module\<close>

definition kfree :: "path_ptr \<Rightarrow> path_ptr option" where
  "kfree p = (case p of Null \<Rightarrow> Some Null | Path b \<Rightarrow> Some Dangling | Dangling \<Rightarrow> None)"

text \<open>\<open>mem\<close> is what the slab has at the address; the part behind \<open>struct inode\<close> is cleared.\<close>

definition bilbyfs_alloc_inode :: "kmem \<Rightarrow> inode \<Rightarrow> inode option \<times> kmem" where
  "bilbyfs_alloc_inode km mem =
     (let (ok, km) = kmalloc_ok km
      in (if ok then Some (mem\<lparr>bi_creat_sqnum := 0, bi_flags := 0\<rparr>) else None, km))"

definition bilbyfs_free_inode :: "nat \<Rightarrow> 'u wrap \<Rightarrow> 'u wrap option" where
  "bilbyfs_free_inode a w = do {
     p \<leftarrow> kfree (w_link w a);
     Some (w\<lparr>w_link := (w_link w)(a := p)\<rparr>)
   }"

definition bilbyfs_destroy_inode :: "nat \<Rightarrow> 'u wrap \<Rightarrow> 'u wrap option" where
  "bilbyfs_destroy_inode a w = do {
     p \<leftarrow> kfree (w_private w a);
     Some (call (Call_rcu a) (w\<lparr>w_private := (w_private w)(a := Null)\<rparr>))
   }"

definition bilbyfs_evict_inode :: "'u vfs \<Rightarrow> 'u kernel \<Rightarrow> 'u wrap \<Rightarrow> nat \<Rightarrow> nat \<Rightarrow> 'u wrap option" where
  "bilbyfs_evict_inode V K w a i_count = do {
     bilbyfs_assert (i_count = 0);
     let w = call (Truncate_inode_pages a) w;
     w \<leftarrow> (if \<not> v_is_bad_inode V (w_calls w) a then do {
            w \<leftarrow> down w;
            bi \<leftarrow> fsop_evict_inode K (w_bi w) (w_inode w a);
            Some (up (put_bi bi w))
          }
          else Some w);
     Some (call (Clear_inode a) w)
   }"

definition bilbyfs_init :: "'u vfs \<Rightarrow> vcall list \<Rightarrow> errno option \<times> vcall list" where
  "bilbyfs_init V cs =
     (let cs = cs @ [Slab_create]
      in if \<not> v_slab_create V then (Some ENOMEM, cs)
      else
        let cs = cs @ [Register_filesystem]
        in case v_register_filesystem V of
             Some e \<Rightarrow> (Some e, cs @ [Slab_destroy])
           | None \<Rightarrow> (None, cs))"

definition bilbyfs_exit :: "vcall list \<Rightarrow> vcall list" where
  "bilbyfs_exit cs = cs @ [Slab_destroy, Unregister_filesystem]"

section \<open>An example\<close>

text \<open>
  A kernel 4.19 without failures, whose inode and page cache are empty. Device nodes are not found,
  volumes are.
\<close>

definition demo_page :: "u64 \<Rightarrow> page" where
  "demo_page i = \<lparr>pg_index = i, pg_data = replicate 4096 7, pg_uptodate = False, pg_error = False, pg_checked = False,
     pg_dirty = False, pg_locked = True, pg_writeback = False, pg_maps = 0, pg_refs = 1\<rparr>"

definition demo_vfs :: "unit vfs" where
  "demo_vfs = \<lparr>linux_version = KERNEL_VERSION 4 19 0, v_iget_locked = (\<lambda>cs inum. Some (unat inum, True)),
     v_new_inode = (\<lambda>cs. Some (100 + length cs)), v_freed = (\<lambda>cs a. Iput a \<in> set cs), v_is_bad_inode = (\<lambda>cs a. False),
     v_d_make_root = (\<lambda>cs a. True), v_filemap_write_and_wait = (\<lambda>cs. None), v_grab_page = (\<lambda>cs i. Some (demo_page i)),
     v_setattr_prepare = (\<lambda>cs inode attr. None), v_in_group_p = (\<lambda>gid. True), v_capable_fsetid = True, v_time_trunc = id,
     v_ubi_sync = (\<lambda>cs. None), v_ubi_open_volume_path = (\<lambda>nm mode. Inl ENOENT),
     v_ubi_open_volume = (\<lambda>dev vol mode. Inr ()), v_ubi_open_volume_nm = (\<lambda>dev nm mode. Inr ()),
     v_volume_info = (\<lambda>u. \<lparr>vi_usable_leb_size = 4096, vi_size = 8, vi_cdev = 0, di_min_io_size = 8, di_max_write_size = 16\<rparr>),
     v_ubi_num = (\<lambda>u. 0), v_vol_id = (\<lambda>u. 0),
     v_match_token = (\<lambda>s. if s = ''no_summary'' then BilbyFs_Opt_no_summary
       else if take 6 s = ''compr='' then BilbyFs_Opt_compr else BilbyFs_Opt_end),
     v_bdi_init = None, v_bdi_register = (\<lambda>nm. None), v_sget = (\<lambda>cs. Inr False), v_slab_create = True,
     v_register_filesystem = None\<rparr>"

end
