(* ===== verification/Bilby_Procobj.thy ===== *)
theory Bilby_Procobj
  imports Bilby_Ostore
begin

unbundle bit_operations_syntax

text \<open>
  What \<open>proc_obj\<close> of \<open>ostore.c\<close> does to the index, the garbage information and the free space
  manager, in terms of an abstract store: a finite map from ids to addresses and one of garbage
  records (\<open>spec_obj\<close>). The invariant \<open>store_ok\<close> ties the three components together.
\<close>

section \<open>The state of the object store\<close>

text \<open>
  Every object of the index lies in an erase-block that is in use; its sequence number is not 0,
  which \<open>proc_obj\<close> takes for a node that was just created; and no object has the id \<open>NIL_ID\<close>,
  which the loops over ids take for the end.
\<close>

definition addr_ok :: "'u bilbyfs_info \<Rightarrow> obj_addr \<Rightarrow> bool" where
  "addr_ok bi addr \<longleftrightarrow> oa_sqnum addr \<noteq> 0 \<and> 3 \<le> uint (oa_lnum addr) \<and>
     uint (oa_lnum addr) < su_leb_cnt (bi_super bi) \<and> bi_used_leb_list bi ! unat (oa_lnum addr)"

definition store_ok :: "'u bilbyfs_info \<Rightarrow> bool" where
  "store_ok bi \<longleftrightarrow> idx_ok bi \<and> gim_ok bi \<and> fsm_ok bi \<and> idx_map bi NIL_ID = None \<and>
     (\<forall>addr \<in> ran (idx_map bi). addr_ok bi addr)"

text \<open>What processing objects leaves alone.\<close>

definition store_frame :: "'u bilbyfs_info \<Rightarrow> 'u bilbyfs_info \<Rightarrow> bool" where
  "store_frame bi bi' \<longleftrightarrow>
     bi'\<lparr>bi_idx_hash := [], bi_gim_hash := [], bi_dirty_list := [], bi_node_pool := empty_pool, bi_kmem := []\<rparr> =
     bi\<lparr>bi_idx_hash := [], bi_gim_hash := [], bi_dirty_list := [], bi_node_pool := empty_pool, bi_kmem := []\<rparr> \<and>
     set (bi_kmem bi') \<subseteq> set (bi_kmem bi)"

text \<open>The pool has \<open>n\<close> nodes left.\<close>

definition pool_room :: "nat \<Rightarrow> 'u bilbyfs_info \<Rightarrow> bool" where
  "pool_room n bi \<longleftrightarrow> pool_ok (bi_node_pool bi) \<and>
     ap_i (bi_node_pool bi) + int n \<le> ap_len (bi_node_pool bi)"

lemma pool_room_mono: "pool_room n bi \<Longrightarrow> m \<le> n \<Longrightarrow> pool_room m bi"
  by (auto simp: pool_room_def)

lemma pool_room_pop:
  assumes "pool_room (Suc n) bi"
  shows "can_pop bi" "pop_ok bi bi' \<Longrightarrow> pool_room n bi'"
  using assms allocpool_pop_ok [of "bi_node_pool bi" "bi_kmem bi"]
  by (auto simp: pool_room_def can_pop_def pop_ok_def)

lemma pool_room_same: "same_pool bi bi' \<Longrightarrow> pool_room n bi' \<longleftrightarrow> pool_room n bi"
  by (simp add: same_pool_def pool_room_def)

lemma pool_room_step:
  assumes "pool_room (Suc n) bi" "if P then same_pool bi bi' else pop_ok bi bi'"
  shows "pool_room n bi'"
  using assms pool_room_pop pool_room_same [of bi bi'] pool_room_mono [of "Suc n" bi n]
  by (auto split: if_splits)

lemma store_frame_trans [trans]: "store_frame a b \<Longrightarrow> store_frame b c \<Longrightarrow> store_frame a c"
  by (auto simp: store_frame_def)

lemma store_frame_refl [simp]: "store_frame a a"
  by (auto simp: store_frame_def)

lemma store_frameD:
  assumes "store_frame bi bi'"
  shows "bi_super bi' = bi_super bi" "bi_used_leb_list bi' = bi_used_leb_list bi"
    "bi_fsm_nb_free_eb bi' = bi_fsm_nb_free_eb bi"
    "bi_wbuf bi' = bi_wbuf bi" "bi_summary bi' = bi_summary bi" "bi_no_summary bi' = bi_no_summary bi"
    "bi_fsm_lnum bi' = bi_fsm_lnum bi" "bi_ubi bi' = bi_ubi bi" "bi_rbuf bi' = bi_rbuf bi"
    "bi_next_sqnum bi' = bi_next_sqnum bi" "bi_next_inum bi' = bi_next_inum bi" "bi_is_ro bi' = bi_is_ro bi"
    "bi_odata bi' = bi_odata bi" "set (bi_kmem bi') \<subseteq> set (bi_kmem bi)"
proof -
  note eq = assms [unfolded store_frame_def, THEN conjunct1]
  show "bi_super bi' = bi_super bi" using arg_cong [OF eq, of bi_super] by simp
  show "bi_used_leb_list bi' = bi_used_leb_list bi" using arg_cong [OF eq, of bi_used_leb_list] by simp
  show "bi_fsm_nb_free_eb bi' = bi_fsm_nb_free_eb bi" using arg_cong [OF eq, of bi_fsm_nb_free_eb] by simp
  show "bi_wbuf bi' = bi_wbuf bi" using arg_cong [OF eq, of bi_wbuf] by simp
  show "bi_summary bi' = bi_summary bi" using arg_cong [OF eq, of bi_summary] by simp
  show "bi_no_summary bi' = bi_no_summary bi" using arg_cong [OF eq, of bi_no_summary] by simp
  show "bi_fsm_lnum bi' = bi_fsm_lnum bi" using arg_cong [OF eq, of bi_fsm_lnum] by simp
  show "bi_ubi bi' = bi_ubi bi" using arg_cong [OF eq, of bi_ubi] by simp
  show "bi_rbuf bi' = bi_rbuf bi" using arg_cong [OF eq, of bi_rbuf] by simp
  show "bi_next_sqnum bi' = bi_next_sqnum bi" using arg_cong [OF eq, of bi_next_sqnum] by simp
  show "bi_next_inum bi' = bi_next_inum bi" using arg_cong [OF eq, of bi_next_inum] by simp
  show "bi_is_ro bi' = bi_is_ro bi" using arg_cong [OF eq, of bi_is_ro] by simp
  show "bi_odata bi' = bi_odata bi" using arg_cong [OF eq, of bi_odata] by simp
  show "set (bi_kmem bi') \<subseteq> set (bi_kmem bi)" using assms by (simp add: store_frame_def)
qed

lemma idx_frameD:
  assumes "idx_frame bi bi'"
  shows "store_frame bi bi'" "bi_gim_hash bi' = bi_gim_hash bi" "bi_dirty_list bi' = bi_dirty_list bi"
    "gim_map bi' = gim_map bi" "gim_ok bi' = gim_ok bi" "fsm_ok bi' = fsm_ok bi"
proof -
  note eq = assms [unfolded idx_frame_def, THEN conjunct1]
  show 1: "store_frame bi bi'"
    using assms by (cases bi; cases bi') (simp add: store_frame_def idx_frame_def)
  show 2: "bi_gim_hash bi' = bi_gim_hash bi" using arg_cong [OF eq, of bi_gim_hash] by simp
  show 3: "bi_dirty_list bi' = bi_dirty_list bi" using arg_cong [OF eq, of bi_dirty_list] by simp
  show "gim_map bi' = gim_map bi" using 2 by (simp add: gim_map_def fun_eq_iff)
  show "gim_ok bi' = gim_ok bi" using 2 by (simp add: gim_ok_def)
  show "fsm_ok bi' = fsm_ok bi" using 1 3 by (simp add: fsm_ok_def store_frameD)
qed

lemma gim_frameD:
  assumes "gim_frame bi bi'"
  shows "store_frame bi bi'" "bi_idx_hash bi' = bi_idx_hash bi" "bi_dirty_list bi' = bi_dirty_list bi"
    "idx_map bi' = idx_map bi" "idx_ok bi' = idx_ok bi" "fsm_ok bi' = fsm_ok bi"
proof -
  note eq = assms [unfolded gim_frame_def, THEN conjunct1]
  show 1: "store_frame bi bi'"
    using assms by (cases bi; cases bi') (simp add: store_frame_def gim_frame_def)
  show 2: "bi_idx_hash bi' = bi_idx_hash bi" using arg_cong [OF eq, of bi_idx_hash] by simp
  show 3: "bi_dirty_list bi' = bi_dirty_list bi" using arg_cong [OF eq, of bi_dirty_list] by simp
  show "idx_map bi' = idx_map bi" using 2 by (simp add: idx_map_def fun_eq_iff)
  show "idx_ok bi' = idx_ok bi" using 2 by (simp add: idx_ok_def)
  show "fsm_ok bi' = fsm_ok bi" using 1 3 by (simp add: fsm_ok_def store_frameD)
qed

lemma addr_ok_frame: "store_frame bi bi' \<Longrightarrow> addr_ok bi' = addr_ok bi"
  by (auto simp: fun_eq_iff addr_ok_def store_frameD)

lemma addr_ok_unat: "fsm_ok bi \<Longrightarrow> addr_ok bi addr \<Longrightarrow> unat (oa_lnum addr) < length (bi_dirty_list bi)"
  by (simp add: addr_ok_def fsm_ok_def unat_uint_less)

text \<open>The abstract index after one object.\<close>

definition older :: "obj_addr option \<Rightarrow> obj_addr \<Rightarrow> bool" where
  "older old addr \<longleftrightarrow> (case old of None \<Rightarrow> False | Some a \<Rightarrow> oa_sqnum a < oa_sqnum addr)"

definition newest_put :: "(obj_id \<rightharpoonup> obj_addr) \<Rightarrow> obj_id \<Rightarrow> obj_addr \<Rightarrow> (obj_id \<rightharpoonup> obj_addr)" where
  "newest_put m oid addr = (if m oid = None \<or> older (m oid) addr then m(oid \<mapsto> addr) else m)"

definition older_del :: "(obj_id \<rightharpoonup> obj_addr) \<Rightarrow> obj_id set \<Rightarrow> obj_addr \<Rightarrow> (obj_id \<rightharpoonup> obj_addr)" where
  "older_del m S addr = (\<lambda>k. if k \<in> S \<and> older (m k) addr then None else m k)"

definition del_range :: "obj_id \<Rightarrow> obj_id set" where
  "del_range oid =
     (if type_from_id oid = BILBYFS_DENTARR_OBJ then {oid}
      else {k. oid \<le> k \<and> inum_from_id k = inum_from_id oid})"

text \<open>One more garbage object with id \<open>oid\<close> and the sequence number of \<open>addr\<close>.\<close>

definition bump :: "(u64 \<times> u32) option \<Rightarrow> obj_addr \<Rightarrow> u64 \<times> u32" where
  "bump g addr = (case g of None \<Rightarrow> (oa_sqnum addr, 1) | Some (s, c) \<Rightarrow> (max s (oa_sqnum addr), c + 1))"

definition older_garbage ::
  "(obj_id \<rightharpoonup> obj_addr) \<Rightarrow> (obj_id \<rightharpoonup> u64 \<times> u32) \<Rightarrow> obj_id set \<Rightarrow> obj_addr \<Rightarrow> (obj_id \<rightharpoonup> u64 \<times> u32)" where
  "older_garbage m g S addr = (\<lambda>k. if k \<in> S \<and> older (m k) addr then Some (bump (g k) (the (m k))) else g k)"

text \<open>Charging the size of an object to its erase-block.\<close>

definition charge :: "obj_addr \<Rightarrow> u32 list \<Rightarrow> u32 list" where
  "charge addr dirty = dirty[unat (oa_lnum addr) := dirty ! unat (oa_lnum addr) + oa_len addr]"

lemma older_del_dom:
  "S \<inter> dom m = T \<inter> dom m \<Longrightarrow> older_del m S addr = older_del m T addr"
  "S \<inter> dom m = T \<inter> dom m \<Longrightarrow> older_garbage m g S addr = older_garbage m g T addr"
  by (auto simp: older_del_def older_garbage_def older_def fun_eq_iff set_eq_iff split: option.splits)

lemma older_del_split:
  assumes "S \<inter> T = {}"
  shows "older_del (older_del m S addr) T addr = older_del m (S \<union> T) addr"
    and "older_garbage (older_del m S addr) (older_garbage m g S addr) T addr = older_garbage m g (S \<union> T) addr"
  using assms by (auto simp: older_del_def older_garbage_def fun_eq_iff)

lemma store_okD:
  assumes "store_ok bi"
  shows "idx_ok bi" "gim_ok bi" "fsm_ok bi" "idx_map bi NIL_ID = None"
    "idx_map bi oid = Some addr \<Longrightarrow> addr_ok bi addr"
  using assms by (auto simp: store_ok_def ran_def)

lemma store_okI:
  assumes "idx_ok bi" "gim_ok bi" "fsm_ok bi" "idx_map bi NIL_ID = None"
    "\<And>oid addr. idx_map bi oid = Some addr \<Longrightarrow> addr_ok bi addr"
  shows "store_ok bi"
  using assms by (auto simp: store_ok_def ran_def)

lemma fsm_dirty_step:
  assumes "store_ok bi" "addr_ok bi addr"
  shows "\<exists>bi'. fsm_mark_dirty bi addr = Some bi' \<and> store_ok bi' \<and> store_frame bi bi' \<and>
    idx_map bi' = idx_map bi \<and> gim_map bi' = gim_map bi \<and> same_pool bi bi' \<and>
    bi_dirty_list bi' = charge addr (bi_dirty_list bi)"
proof -
  obtain b where b: "fsm_mark_dirty bi addr = Some b" "fsm_ok b"
    "b = bi\<lparr>bi_dirty_list := charge addr (bi_dirty_list bi)\<rparr>"
    using fsm_mark_dirty_ok [of bi addr] assms by (auto simp: addr_ok_def charge_def store_ok_def)
  have fr: "store_frame bi b" using b(3) by (simp add: store_frame_def)
  have m: "idx_map b = idx_map bi" "idx_ok b = idx_ok bi" "gim_ok b = gim_ok bi" "gim_map b = gim_map bi"
    using b(3) by (simp_all add: idx_map_def fun_eq_iff idx_ok_def gim_ok_def gim_map_def)
  have "store_ok b" using assms(1) b(2) m addr_ok_frame [OF fr] by (simp add: store_ok_def)
  then show ?thesis using b m fr by (simp add: same_pool_def)
qed

lemma gim_step:
  assumes "store_ok bi" "allocated \<or> pool_room (Suc n) bi" "pool_room n bi"
  shows "\<exists>bi'. gim_mark_garbage bi oid addr allocated = Some bi' \<and> store_ok bi' \<and> store_frame bi bi' \<and>
    idx_map bi' = idx_map bi \<and> gim_map bi' = (gim_map bi)(oid \<mapsto> bump (gim_map bi oid) addr) \<and>
    pool_room n bi' \<and> bi_dirty_list bi' = bi_dirty_list bi"
proof -
  note ok = store_okD [OF assms(1)]
  have "allocated \<or> gim_map bi oid \<noteq> None \<or> can_pop bi" using pool_room_pop assms(2) by blast
  from gim_mark_ok [OF ok(2) this, of addr 1] obtain b where
    b: "gim_mark_garbage bi oid addr allocated = Some b" "gim_ok b" "gim_frame bi b"
    "if allocated \<or> gim_map bi oid \<noteq> None then same_pool bi b else pop_ok bi b"
    "gim_map b = (gim_map bi)(oid \<mapsto> bump (gim_map bi oid) addr)"
    by (auto simp: gim_mark_garbage_def bump_def)
  note f = gim_frameD [OF b(3)]
  have "pool_room n b"
    using assms(2,3) pool_room_step [of n bi _ b] b(4) pool_room_same [of bi b n] by (cases allocated) auto
  moreover have "store_ok b"
    using assms(1) b(2) f addr_ok_frame [OF f(1)] by (simp add: store_ok_def)
  ultimately show ?thesis using b f by simp
qed

lemma mark_garbage_dirty:
  assumes "store_ok bi" "addr_ok bi addr" "allocated \<or> pool_room (Suc n) bi" "pool_room n bi"
  shows "\<exists>bi'. do { bi \<leftarrow> gim_mark_garbage bi oid addr allocated; fsm_mark_dirty bi addr } = Some bi' \<and>
    store_ok bi' \<and> store_frame bi bi' \<and> idx_map bi' = idx_map bi \<and> pool_room n bi' \<and>
    gim_map bi' = (gim_map bi)(oid \<mapsto> bump (gim_map bi oid) addr) \<and>
    bi_dirty_list bi' = charge addr (bi_dirty_list bi)"
proof -
  from gim_step [OF assms(1,3,4), of oid addr] obtain b where
    b: "gim_mark_garbage bi oid addr allocated = Some b" "store_ok b" "store_frame bi b"
    "idx_map b = idx_map bi" "gim_map b = (gim_map bi)(oid \<mapsto> bump (gim_map bi oid) addr)"
    "pool_room n b" "bi_dirty_list b = bi_dirty_list bi" by blast
  have "addr_ok b addr" using assms(2) addr_ok_frame [OF b(3)] by simp
  from fsm_dirty_step [OF b(2) this] obtain b' where
    b': "fsm_mark_dirty b addr = Some b'" "store_ok b'" "store_frame b b'" "idx_map b' = idx_map b"
    "gim_map b' = gim_map b" "same_pool b b'" "bi_dirty_list b' = charge addr (bi_dirty_list b)" by blast
  then show ?thesis using b store_frame_trans [OF b(3) b'(3)] pool_room_same [OF b'(6)] by simp
qed

section \<open>Deletion objects\<close>

lemma proc_del_one_ok:
  assumes "store_ok bi" "pool_room n bi"
  shows "\<exists>bi'. proc_del_one bi k addr = Some bi' \<and> store_ok bi' \<and> store_frame bi bi' \<and> pool_room n bi' \<and>
    idx_map bi' = older_del (idx_map bi) {k} addr \<and>
    gim_map bi' = older_garbage (idx_map bi) (gim_map bi) {k} addr"
proof (cases "older (idx_map bi k) addr")
  case False
  then show ?thesis using assms store_okD [OF assms(1)]
    by (auto simp: proc_del_one_def idx_get_map older_def older_del_def older_garbage_def fun_eq_iff
        split: option.splits)
next
  case True
  then obtain a where a: "idx_map bi k = Some a" "oa_sqnum a < oa_sqnum addr"
    by (auto simp: older_def split: option.splits)
  note ok = store_okD [OF assms(1)]
  from idx_del_ok [OF ok(1) a(1)] obtain b where b: "idx_del_obj_addr bi k = Some b" "idx_ok b"
    "idx_map b = (idx_map bi)(k := None)" "idx_frame bi b" "same_pool bi b" by blast
  note f = idx_frameD [OF b(4)]
  have sb: "store_ok b"
    by (rule store_okI) (use b(2,3) f(5,6) ok addr_ok_frame [OF f(1)] in \<open>auto split: if_splits\<close>)
  have "addr_ok b a" "pool_room n b"
    using ok(5) [OF a(1)] addr_ok_frame [OF f(1)] assms(2) pool_room_same [OF b(5)] by auto
  from mark_garbage_dirty [OF sb this(1), of True n k] this(2) obtain b' where
    b': "do { bi \<leftarrow> gim_mark_garbage b k a True; fsm_mark_dirty bi a } = Some b'"
    "store_ok b'" "store_frame b b'" "idx_map b' = idx_map b" "pool_room n b'"
    "gim_map b' = (gim_map b)(k \<mapsto> bump (gim_map b k) a)" by blast
  have "proc_del_one bi k addr = Some b'"
    using a b(1) b'(1) by (simp add: proc_del_one_def idx_get_map [OF ok(1)])
  moreover have "idx_map b' = older_del (idx_map bi) {k} addr"
    "gim_map b' = older_garbage (idx_map bi) (gim_map bi) {k} addr"
    using b'(4,6) b(3) f(4) a True by (auto simp: older_del_def older_garbage_def fun_eq_iff)
  ultimately show ?thesis using b' store_frame_trans [OF f(1) b'(3)] by blast
qed

lemma ids_from_next:
  assumes "idx_ok bi" "idx_map bi NIL_ID = None" "idx_next_obj_id bi k = Some nxt"
  shows "{j. k \<le> j \<and> inum_from_id j = inum_from_id k} \<inter> dom (idx_map bi) =
    ({k} \<union> (if nxt = NIL_ID then {} else {j. nxt \<le> j \<and> inum_from_id j = inum_from_id nxt})) \<inter> dom (idx_map bi)"
    (is "?L = ?R")
    and "nxt \<noteq> NIL_ID \<Longrightarrow> k < nxt"
proof -
  let ?S = "{j \<in> dom (idx_map bi). k < j \<and> inum_from_id j = inum_from_id k}"
  have L: "?L = {k} \<inter> dom (idx_map bi) \<union> ?S" by (auto simp: order_le_less)
  have nil: "NIL_ID \<notin> ?S" using assms(2) by auto
  from idx_next_ok [OF assms(1), of k] assms(3) nil
  have n: "if nxt = NIL_ID then ?S = {} else nxt \<in> ?S \<and> (\<forall>j \<in> ?S. nxt \<le> j)"
    by (auto split: if_splits)
  then have "?S = (if nxt = NIL_ID then {} else {j. nxt \<le> j \<and> inum_from_id j = inum_from_id nxt}) \<inter> dom (idx_map bi)"
    by (auto split: if_splits)
  then show "?L = ?R" unfolding L by blast
  show "nxt \<noteq> NIL_ID \<Longrightarrow> k < nxt" using n by simp
qed

lemma proc_del_loop_ok:
  assumes "store_ok bi" "pool_room n bi" "k \<noteq> NIL_ID"
  shows "\<exists>bi'. proc_del_loop bi k addr = Some bi' \<and> store_ok bi' \<and> store_frame bi bi' \<and> pool_room n bi' \<and>
    idx_map bi' = older_del (idx_map bi) {j. k \<le> j \<and> inum_from_id j = inum_from_id k} addr \<and>
    gim_map bi' = older_garbage (idx_map bi) (gim_map bi) {j. k \<le> j \<and> inum_from_id j = inum_from_id k} addr"
  using assms
proof (induction bi k addr rule: proc_del_loop.induct)
  case (1 bi k addr)
  let ?R = "\<lambda>k. {j. k \<le> j \<and> inum_from_id j = inum_from_id k}"
  from proc_del_one_ok [OF 1(2,3), of k addr] obtain b where
    b: "proc_del_one bi k addr = Some b" "store_ok b" "store_frame bi b" "pool_room n b"
    "idx_map b = older_del (idx_map bi) {k} addr"
    "gim_map b = older_garbage (idx_map bi) (gim_map bi) {k} addr" by blast
  note ok = store_okD [OF b(2)]
  obtain nxt where nxt: "idx_next_obj_id b k = Some nxt"
    using idx_next_ok [OF ok(1), of k] by (auto split: if_splits)
  let ?T = "if nxt = NIL_ID then {} else ?R nxt"
  note ids = ids_from_next [OF ok(1,4) nxt]
  have "k \<notin> ?T" using ids(2) by (auto simp: not_le)
  then have d: "{k} \<inter> ?T = {}" by blast
  have dom: "?R k \<inter> dom (idx_map bi) = ({k} \<union> ?T) \<inter> dom (idx_map bi)"
  proof -
    have "dom (idx_map bi) \<subseteq> dom (idx_map b) \<union> {k}"
      using b(5) by (auto simp: older_del_def split: if_splits)
    moreover have "k \<in> ?R k" "dom (idx_map b) \<subseteq> dom (idx_map bi)"
      using b(5) by (auto simp: older_del_def split: if_splits)
    ultimately show ?thesis using ids(1) by blast
  qed
  note eqs = older_del_split [OF d, of "idx_map bi" addr, folded b(5,6)] older_del_dom [OF dom]
  have rec: "proc_del_loop bi k addr = proc_del_loop b nxt addr"
    using 1(4) b(1) nxt by (subst proc_del_loop.simps) simp
  have empty: "older_del m {} addr = m" "older_garbage m g {} addr = g" for m g
    by (auto simp: older_del_def older_garbage_def)
  show ?case
  proof (cases "nxt = NIL_ID")
    case True
    then have "proc_del_loop b nxt addr = Some b" by (subst proc_del_loop.simps) simp
    with True show ?thesis using b rec eqs by (simp add: empty)
  next
    case False
    from 1(1) [OF 1(4) b(1) nxt b(2,4) False] obtain b' where
      b': "proc_del_loop b nxt addr = Some b'" "store_ok b'" "store_frame b b'" "pool_room n b'"
      "idx_map b' = older_del (idx_map b) (?R nxt) addr"
      "gim_map b' = older_garbage (idx_map b) (gim_map b) (?R nxt) addr" by blast
    have "idx_map b' = older_del (idx_map bi) (?R k) addr"
      "gim_map b' = older_garbage (idx_map bi) (gim_map bi) (?R k) addr"
      using b'(5,6) eqs False b(5,6) by simp_all
    then show ?thesis using rec b'(1-4) store_frame_trans [OF b(3) b'(3)] by simp
  qed
qed

section \<open>One object\<close>

text \<open>The abstract store: the index and the garbage records.\<close>

type_synonym astore = "(obj_id \<rightharpoonup> obj_addr) \<times> (obj_id \<rightharpoonup> u64 \<times> u32)"

definition abs_store :: "'u bilbyfs_info \<Rightarrow> astore" where
  "abs_store bi = (idx_map bi, gim_map bi)"

definition is_live_type :: "'w :: len word \<Rightarrow> bool" where
  "is_live_type type \<longleftrightarrow> type = BILBYFS_INODE_OBJ \<or> type = BILBYFS_DENTARR_OBJ \<or> type = BILBYFS_DATA_OBJ"

definition spec_obj :: "u8 \<Rightarrow> obj_id \<Rightarrow> obj_addr \<Rightarrow> astore \<Rightarrow> astore" where
  "spec_obj type oid addr = (\<lambda>(m, g).
     if is_live_type type then
       (newest_put m oid addr, if m oid = None then g else g(oid \<mapsto> bump (g oid) addr))
     else if type = BILBYFS_DEL_OBJ then
       (older_del m (del_range oid) addr,
        let g' = older_garbage m g (del_range oid) addr in g'(oid \<mapsto> bump (g' oid) addr))
     else (m, g))"

definition obj_step_ok :: "u8 \<Rightarrow> obj_id \<Rightarrow> bool" where
  "obj_step_ok type oid \<longleftrightarrow> oid \<noteq> NIL_ID \<and>
     (is_live_type type \<or> type = BILBYFS_PAD_OBJ \<or> type = BILBYFS_DEL_OBJ \<and> is_live_type (type_from_id oid))"

lemma proc_live_ok:
  assumes "store_ok bi" "addr_ok bi addr" "oid \<noteq> NIL_ID" "is_live_type type" "pool_room (Suc (Suc n)) bi"
  shows "\<exists>bi'. proc_obj bi type oid addr = Some (None, bi') \<and> store_ok bi' \<and> store_frame bi bi' \<and>
    pool_room n bi' \<and> abs_store bi' = spec_obj type oid addr (abs_store bi) \<and>
    bi_dirty_list bi' = (if idx_map bi oid = None then bi_dirty_list bi else charge addr (bi_dirty_list bi))"
proof -
  note ok = store_okD [OF assms(1)]
  have room: "pool_room (Suc n) bi" "pool_room n bi" using pool_room_mono [OF assms(5)] by auto
  have "False \<or> idx_map bi oid \<noteq> None \<or> can_pop bi" using pool_room_pop [OF assms(5)] by blast
  from insert_or_replace_ok [OF ok(1) this] obtain b where
    b: "idx_get_or_create_obj_addr_node bi oid = Some b" "idx_ok b"
    "idx_map b = (if idx_map bi oid = None then (idx_map bi)(oid \<mapsto> zero_obj_addr) else idx_map bi)"
    "idx_frame bi b" "if False \<or> idx_map bi oid \<noteq> None then same_pool bi b else pop_ok bi b"
    by (auto simp: idx_get_or_create_obj_addr_node_def)
  then obtain a0 where a0: "idx_map b oid = Some a0" by (auto split: if_splits)
  have node: "idx_node_addr b oid = Some a0" by (rule idx_node_addr_map [OF b(2) a0])
  have z: "oa_sqnum a0 = 0 \<longleftrightarrow> idx_map bi oid = None"
    using a0 b(3) ok(5) [of oid a0] by (auto simp: zero_obj_addr_def addr_ok_def split: if_splits)
  from idx_node_set_addr_ok [OF b(2) a0, of addr] obtain c where
    c: "idx_node_set_addr b oid addr = Some c" "idx_ok c" "idx_map c = (idx_map b)(oid \<mapsto> addr)"
    "idx_frame b c" "same_pool b c" by blast
  have mc: "idx_map c = (idx_map bi)(oid \<mapsto> addr)" using c(3) b(3) by auto
  have fr: "idx_frame bi c" using idx_frame_trans b(4) c(4) by blast
  note f = idx_frameD [OF fr]
  have sc: "store_ok c"
    by (rule store_okI)
      (use c(2) mc f(5,6) ok addr_ok_frame [OF f(1)] assms(2,3) in \<open>auto split: if_splits\<close>)
  have rc: "pool_room (Suc n) c"
    using pool_room_step [OF assms(5) b(5)] pool_room_same [OF c(5)] by simp
  have nc: "idx_node_addr c oid = Some addr" by (rule idx_node_addr_map [OF c(2)]) (simp add: mc)
  have proc: "proc_obj bi type oid addr =
      (if oa_sqnum a0 = 0 then Some (None, c)
       else if oa_sqnum a0 < oa_sqnum addr then
         do { bi \<leftarrow> do { bi \<leftarrow> gim_mark_garbage c oid addr False; a \<leftarrow> idx_node_addr bi oid; fsm_mark_dirty bi a };
              Some (None, bi) }
       else do { bi \<leftarrow> do { bi \<leftarrow> gim_mark_garbage b oid addr False; fsm_mark_dirty bi addr }; Some (None, bi) })"
    using assms(4) b(1) node c(1) nc
    by (auto simp: proc_obj_def is_live_type_def)
  consider (created) "idx_map bi oid = None" | (newer) "idx_map bi oid = Some a0" "oa_sqnum a0 < oa_sqnum addr"
    | (older) "idx_map bi oid = Some a0" "\<not> oa_sqnum a0 < oa_sqnum addr"
    using a0 b(3) by (auto split: if_splits)
  then show ?thesis
  proof cases
    case created
    then show ?thesis
      using proc z sc rc f mc assms(4) pool_room_mono [OF rc]
      by (simp add: abs_store_def spec_obj_def newest_put_def)
  next
    case newer
    have "addr_ok c addr" using assms(2) addr_ok_frame [OF f(1)] by simp
    from gim_step [OF sc, of False n oid addr] rc pool_room_mono [OF rc, of n] obtain d where
      d: "gim_mark_garbage c oid addr False = Some d" "store_ok d" "store_frame c d"
      "idx_map d = idx_map c" "gim_map d = (gim_map c)(oid \<mapsto> bump (gim_map c oid) addr)"
      "pool_room n d" "bi_dirty_list d = bi_dirty_list c" by auto
    have "idx_node_addr d oid = Some addr"
      by (rule idx_node_addr_map [OF store_okD(1) [OF d(2)]]) (simp add: d(4) mc)
    moreover have "addr_ok d addr"
      using assms(2) addr_ok_frame [OF f(1)] addr_ok_frame [OF d(3)] by simp
    from fsm_dirty_step [OF d(2) this] obtain e where
      e: "fsm_mark_dirty d addr = Some e" "store_ok e" "store_frame d e" "idx_map e = idx_map d"
      "gim_map e = gim_map d" "same_pool d e" "bi_dirty_list e = charge addr (bi_dirty_list d)" by blast
    ultimately show ?thesis
      using newer proc z d e mc f assms(4) pool_room_same [OF e(6)]
        store_frame_trans [OF f(1) store_frame_trans [OF d(3) e(3)]]
      by (simp add: abs_store_def spec_obj_def newest_put_def older_def)
  next
    case older
    note g = idx_frameD [OF b(4)]
    have mb: "idx_map b = idx_map bi" using older b(3) by simp
    have sb: "store_ok b"
      by (rule store_okI) (use b(2) mb g(5,6) ok addr_ok_frame [OF g(1)] in auto)
    have rb: "pool_room (Suc n) b" using older b(5) room(1) pool_room_same [of bi b] by simp
    have "addr_ok b addr" using assms(2) addr_ok_frame [OF g(1)] by simp
    from mark_garbage_dirty [OF sb this, of False n oid] rb pool_room_mono [OF rb, of n] obtain d where
      d: "do { bi \<leftarrow> gim_mark_garbage b oid addr False; fsm_mark_dirty bi addr } = Some d"
      "store_ok d" "store_frame b d" "idx_map d = idx_map b" "pool_room n d"
      "gim_map d = (gim_map b)(oid \<mapsto> bump (gim_map b oid) addr)"
      "bi_dirty_list d = charge addr (bi_dirty_list b)" by auto
    then show ?thesis
      using older proc z mb g assms(4) store_frame_trans [OF g(1) d(3)]
      by (simp add: abs_store_def spec_obj_def newest_put_def older_def)
  qed
qed


lemma proc_del_ok:
  assumes "store_ok bi" "addr_ok bi addr" "oid \<noteq> NIL_ID" "is_live_type (type_from_id oid)"
    and "pool_room (Suc n) bi"
  shows "\<exists>bi'. proc_obj bi BILBYFS_DEL_OBJ oid addr = Some (None, bi') \<and> store_ok bi' \<and>
    store_frame bi bi' \<and> pool_room n bi' \<and> abs_store bi' = spec_obj BILBYFS_DEL_OBJ oid addr (abs_store bi)"
proof -
  let ?del = "if type_from_id oid = BILBYFS_DENTARR_OBJ then proc_del_one bi oid addr
    else if type_from_id oid = BILBYFS_INODE_OBJ \<or> type_from_id oid = BILBYFS_DATA_OBJ
    then proc_del_loop bi oid addr else None"
  have "\<exists>b. ?del = Some b \<and> store_ok b \<and> store_frame bi b \<and> pool_room (Suc n) b \<and>
    idx_map b = older_del (idx_map bi) (del_range oid) addr \<and>
    gim_map b = older_garbage (idx_map bi) (gim_map bi) (del_range oid) addr"
    using assms(4) proc_del_one_ok [OF assms(1,5), of oid addr] proc_del_loop_ok [OF assms(1,5,3), of addr]
    by (auto simp: del_range_def is_live_type_def)
  then obtain b where b: "?del = Some b" "store_ok b" "store_frame bi b" "pool_room (Suc n) b"
    "idx_map b = older_del (idx_map bi) (del_range oid) addr"
    "gim_map b = older_garbage (idx_map bi) (gim_map bi) (del_range oid) addr" by blast
  have "addr_ok b addr" using assms(2) addr_ok_frame [OF b(3)] by simp
  from mark_garbage_dirty [OF b(2) this, of False n oid] b(4) pool_room_mono [OF b(4), of n] obtain d where
    d: "do { bi \<leftarrow> gim_mark_garbage b oid addr False; fsm_mark_dirty bi addr } = Some d"
    "store_ok d" "store_frame b d" "idx_map d = idx_map b" "pool_room n d"
    "gim_map d = (gim_map b)(oid \<mapsto> bump (gim_map b oid) addr)" by auto
  have "proc_obj bi BILBYFS_DEL_OBJ oid addr =
    do { bi \<leftarrow> ?del; bi \<leftarrow> do { bi \<leftarrow> gim_mark_garbage bi oid addr False; fsm_mark_dirty bi addr }; Some (None, bi) }"
    by (simp add: proc_obj_def)
  also have "\<dots> = Some (None, d)" unfolding b(1) by (simp only: bind.simps d(1))
  finally show ?thesis
    using b d store_frame_trans [OF b(3) d(3)]
    by (simp add: abs_store_def spec_obj_def is_live_type_def Let_def)
qed

lemma proc_obj_ok:
  assumes "store_ok bi" "addr_ok bi addr" "obj_step_ok type oid" "pool_room (Suc (Suc n)) bi"
  shows "\<exists>bi'. proc_obj bi type oid addr = Some (None, bi') \<and> store_ok bi' \<and> store_frame bi bi' \<and>
    pool_room n bi' \<and> abs_store bi' = spec_obj type oid addr (abs_store bi)"
proof -
  have room: "pool_room (Suc n) bi" "pool_room n bi" using pool_room_mono [OF assms(4)] by auto
  consider "is_live_type type" | "type = BILBYFS_PAD_OBJ" | "type = BILBYFS_DEL_OBJ" "is_live_type (type_from_id oid)"
    using assms(3) by (auto simp: obj_step_ok_def)
  then show ?thesis
  proof cases
    case 1
    then show ?thesis using proc_live_ok [OF assms(1,2) _ 1 assms(4)] assms(3) by (auto simp: obj_step_ok_def)
  next
    case 2
    from fsm_dirty_step [OF assms(1,2)] obtain b where
      b: "fsm_mark_dirty bi addr = Some b" "store_ok b" "store_frame bi b" "idx_map b = idx_map bi"
      "gim_map b = gim_map bi" "same_pool bi b" by blast
    with 2 room(2) show ?thesis using pool_room_same [OF b(6)]
      by (simp add: proc_obj_def abs_store_def spec_obj_def is_live_type_def)
  next
    case 3
    then show ?thesis using proc_del_ok [OF assms(1,2) _ _ room(1)] assms(3) by (auto simp: obj_step_ok_def)
  qed
qed

section \<open>Properties\<close>

text \<open>A store with one object, of inode 0 in erase-block 4, for the examples.\<close>

definition demo_addr :: obj_addr where
  "demo_addr = \<lparr>oa_lnum = 4, oa_offs = 0, oa_len = 96, oa_sqnum = 5\<rparr>"

definition demo_store :: "unit bilbyfs_info" where
  "demo_store = zero_info\<lparr>bi_super := zero_super\<lparr>su_leb_cnt := 8, su_leb_size := 4096\<rparr>,
     bi_used_leb_list := [False, False, False, True, True, False, False, False],
     bi_dirty_list := [0, 0, 0, 100, 300, 0, 0, 0], bi_fsm_nb_free_eb := 6, bi_fsm_lnum := 3,
     bi_idx_hash := (replicate IDX_HASH_SIZE NIL)[0 := Node NIL RBT_BLACK \<lparr>xn_addr = demo_addr, xn_id = 1\<rparr> NIL],
     bi_gim_hash := replicate GIM_HASH_SIZE NIL,
     bi_node_pool := \<lparr>ap_tot_nodes_needed = 0, ap_arr = Some [True, True], ap_len = 2, ap_i = 0, ap_sz_obj = 56\<rparr>,
     bi_next_sqnum := 5, bi_summary := replicate 4096 0, bi_odata := replicate BILBYFS_MAX_DATA_SZ 0,
     bi_wbuf := \<lparr>wb_buf = replicate 4096 0, wb_size = 4096, wb_avail = 4096, wb_used = 0, wb_sync_offs = 0\<rparr>\<rparr>"

lemma nil_bucket: "idx_bucket NIL_ID \<noteq> 0"
  by (simp add: idx_bucket_def idx_hash_inum_def inum_from_id_def drop_bit_eq_div)

lemma demo_store_map: "idx_map demo_store = [1 \<mapsto> demo_addr]"
proof
  fix k
  have "idx_bucket 1 = 0" by (simp add: idx_bucket_def idx_hash_inum_def inum_from_id_def)
  moreover have "table_map xn_id idx_bucket (bi_idx_hash demo_store) k =
     (if idx_bucket k = 0 \<and> k = 1 then Some \<lparr>xn_addr = demo_addr, xn_id = 1\<rparr> else None)"
    by (auto simp: demo_store_def table_map_def nth_list_update)
  ultimately show "idx_map demo_store k = [1 \<mapsto> demo_addr] k" by (simp add: idx_map_def)
qed

lemma demo_store_ok: "store_ok demo_store" "pool_room 2 demo_store"
proof -
  have "idx_ok demo_store" "gim_ok demo_store" "fsm_ok demo_store" "addr_ok demo_store demo_addr"
    by (simp_all add: demo_store_def idx_ok_def gim_ok_def table_ok_def rb_inv_def fsm_ok_def nb_used_def
        all_less_3 addr_ok_def demo_addr_def nth_list_update idx_bucket_def idx_hash_inum_def inum_from_id_def)
  then show "store_ok demo_store" by (simp add: store_ok_def demo_store_map)
  show "pool_room 2 demo_store" by (simp add: pool_room_def pool_ok_def demo_store_def)
qed



text \<open>
  When a newer version of an object is processed, the space of the new version is charged as
  garbage to its own erase-block and the erase-block of the version it replaces is charged
  nothing: the address of the index node is overwritten before it is marked as dirty, so the
  count the garbage collector chooses by is wrong for both erase-blocks.
\<close>

lemma proc_obj_charges_new_version:
  assumes "store_ok bi" "addr_ok bi addr" "oid \<noteq> NIL_ID" "is_live_type type" "pool_room 2 bi"
    and "idx_map bi oid = Some old" "oa_sqnum old < oa_sqnum addr" "oa_lnum old \<noteq> oa_lnum addr"
  shows "\<exists>bi'. proc_obj bi type oid addr = Some (None, bi') \<and> idx_map bi' oid = Some addr \<and>
    bi_dirty_list bi' ! unat (oa_lnum old) = bi_dirty_list bi ! unat (oa_lnum old) \<and>
    bi_dirty_list bi' ! unat (oa_lnum addr) = bi_dirty_list bi ! unat (oa_lnum addr) + oa_len addr"
proof -
  from proc_live_ok [OF assms(1-4), of 0] assms(5,6) obtain bi' where
    b: "proc_obj bi type oid addr = Some (None, bi')" "abs_store bi' = spec_obj type oid addr (abs_store bi)"
    "bi_dirty_list bi' = charge addr (bi_dirty_list bi)"
    by (auto simp: numeral_2_eq_2)
  have "idx_map bi' oid = Some addr"
    using b(2) assms(4,6,7) by (simp add: abs_store_def spec_obj_def newest_put_def older_def)
  moreover have "unat (oa_lnum addr) < length (bi_dirty_list bi)"
    using assms(1,2) addr_ok_unat store_okD(3) by blast
  moreover have "unat (oa_lnum addr) \<noteq> unat (oa_lnum old)" using assms(8) by (simp add: word_unat_eq_iff)
  ultimately show ?thesis using b(1,3) by (auto simp: charge_def)
qed

lemma proc_obj_charges_new_version_example:
  "\<exists>bi'. proc_obj demo_store BILBYFS_INODE_OBJ 1 (demo_addr\<lparr>oa_lnum := 3, oa_sqnum := 6\<rparr>) = Some (None, bi') \<and>
     bi_dirty_list bi' ! 4 = 300 \<and> bi_dirty_list bi' ! 3 = 196"
proof -
  let ?a = "demo_addr\<lparr>oa_lnum := 3, oa_sqnum := 6\<rparr>"
  have "addr_ok demo_store ?a" by (simp add: addr_ok_def demo_addr_def demo_store_def)
  moreover have "bi_dirty_list demo_store = [0, 0, 0, 100, 300, 0, 0, 0]" by (simp add: demo_store_def)
  ultimately show ?thesis
    using proc_obj_charges_new_version [OF demo_store_ok(1), of ?a 1 BILBYFS_INODE_OBJ demo_addr] demo_store_ok(2)
    by (auto simp: demo_store_map is_live_type_def demo_addr_def)
qed

end
