(* ===== verification/Bilby_Trans.thy ===== *)
theory Bilby_Trans
  imports Bilby_Procobj
begin

unbundle bit_operations_syntax

text \<open>
  The write path of a transaction, \<open>ostore_write_obj_list\<close>, when it fits in the current
  write-buffer: the summary entries, the headers, the copies to the write-buffer and the index
  updates, loop by loop, and reading back what was written.
\<close>

section \<open>The summary\<close>

text \<open>There is room for \<open>n\<close> more entries in the summary.\<close>

definition sum_room :: "nat \<Rightarrow> 'u bilbyfs_info \<Rightarrow> bool" where
  "sum_room n bi \<longleftrightarrow> bi_no_summary bi \<or>
     sum_entry_offs (unat (rd32 (bi_summary bi) 24) + n) \<le> length (bi_summary bi) \<and>
     length (bi_summary bi) < 2 ^ 30"

lemma sum_entry_fits: "i < n \<Longrightarrow> sum_entry_offs i + 26 \<le> sum_entry_offs n"
proof -
  assume "i < n"
  then have "i * 26 + 26 \<le> n * 26" by simp
  then show ?thesis by (simp add: sum_entry_offs_def)
qed

lemma sum_entry_readable:
  assumes "sum_entry_offs (i + Suc n) \<le> length osum"
  shows "sum_entry_offs i + 26 \<le> length osum" "sum_entry_offs (Suc i + n) \<le> length osum"
  using sum_entry_fits [of i "i + Suc n"] assms by simp_all

lemma sum_find_del_ok:
  assumes "sum_entry_offs (i + n) \<le> length osum"
  shows "\<exists>r. sum_find_del osum oid sqnum n i = Some r \<and> (\<forall>j. r = Some j \<longrightarrow> i \<le> j \<and> j \<le> i + n)"
  using assms
proof (induction n arbitrary: i)
  case (Suc n)
  show ?case using Suc.IH [OF sum_entry_readable(2) [OF Suc.prems]] sum_entry_readable(1) [OF Suc.prems]
    by (auto simp: access_simps Suc_le_eq intro: less_imp_le)
qed simp

lemma sum_find_obj_ok:
  assumes "sum_entry_offs (i + n) \<le> length osum"
  shows "\<exists>r. sum_find_obj osum oid sqnum n i = Some r \<and> (\<forall>j. r = Some j \<longrightarrow> i \<le> j \<and> j \<le> i + n)"
  using assms
proof (induction n arbitrary: i)
  case (Suc n)
  show ?case using Suc.IH [OF sum_entry_readable(2) [OF Suc.prems]] sum_entry_readable(1) [OF Suc.prems]
    by (auto simp: access_simps obj_sum_entry_is_del_def Suc_le_eq intro: less_imp_le)
qed simp

lemma sum_obj_ok:
  assumes "sum_room (Suc n) bi" "\<not> bi_no_summary bi" "get_obj_id obj 0 = Some oid"
  shows "\<exists>osum. sum_obj bi obj addr = Some (bi\<lparr>bi_summary := osum\<rparr>) \<and>
    sum_room n (bi\<lparr>bi_summary := osum\<rparr>)"
proof -
  let ?s = "bi_summary bi"
  define nb where "nb = rd32 ?s 24"
  have r: "sum_entry_offs (unat nb + Suc n) \<le> length ?s" "length ?s < 2 ^ 30"
    using assms(1,2) by (auto simp: sum_room_def nb_def)
  have hd: "28 \<le> length ?s" using r(1) by (simp add: sum_entry_offs_def)
  obtain type where ty: "get8 obj 20 = Some type"
    using assms(3) by (auto simp: get_obj_id_def bind_eq_Some_conv)
  have "sum_entry_offs (0 + unat nb) \<le> length ?s" using r(1) by (simp add: sum_entry_offs_def)
  from sum_find_del_ok [OF this, of oid "oa_sqnum addr"] sum_find_obj_ok [OF this, of oid "oa_sqnum addr"]
  obtain found where found: "(if type = BILBYFS_DEL_OBJ then sum_find_del ?s oid (oa_sqnum addr) (unat nb) 0
      else sum_find_obj ?s oid (oa_sqnum addr) (unat nb) 0) = Some found"
    "\<And>j. found = Some j \<Longrightarrow> j \<le> unat nb" by (metis add_0)
  show ?thesis
  proof (cases found)
    case None
    have "sum_obj bi obj addr = Some (bi\<lparr>bi_summary := ?s\<rparr>)"
      using None found(1) hd assms(3) ty by (simp add: sum_obj_def getw_Some nb_def [symmetric] Let_def)
    moreover have "sum_room n (bi\<lparr>bi_summary := ?s\<rparr>)"
      using assms(1) by (auto simp: sum_room_def sum_entry_offs_def)
    ultimately show ?thesis by blast
  next
    case (Some i)
    define e where "e = sum_entry_offs i"
    have e: "e + 26 \<le> length ?s" "28 \<le> e"
      using found(2) [OF Some] sum_entry_fits [of i "unat nb + Suc n"] r(1)
      by (auto simp: e_def sum_entry_offs_def)
    let ?fs = "[(e + 20, le_enc 4 (oa_offs addr OR (if type = 5 then BILBYFS_SUM_ENTRY_DEL_FLAG_MASK else 0))),
       (e + 8, le_enc 8 (oa_sqnum addr)), (e + 16, le_enc 4 (oa_len addr)), (e, le_enc 8 oid)]"
    have ei: "i = unat nb \<Longrightarrow> sum_entry_offs (unat nb) = e" by (simp add: e_def)
    have eq: "sum_obj bi obj addr = Some (bi\<lparr>bi_summary :=
       (if i = unat nb then stores ?s ([(e + 24, le_enc 2 (0 :: u16)), (24, le_enc 4 (nb + 1))] @ ?fs)
        else stores ?s ((e + 24, le_enc 2 (rd16 (stores ?s ?fs) (e + 24) + 1)) # ?fs))\<rparr>)"
      using Some found(1) hd assms(3) ty e
      by (simp add: sum_obj_def getw_Some nb_def [symmetric] Let_def e_def [symmetric] put_stores(1) ei)
    define osum where "osum = (if i = unat nb
      then stores ?s ([(e + 24, le_enc 2 (0 :: u16)), (24, le_enc 4 (nb + 1))] @ ?fs)
      else stores ?s ((e + 24, le_enc 2 (rd16 (stores ?s ?fs) (e + 24) + 1)) # ?fs))"
    have "rd32 osum 24 = (if i = unat nb then nb + 1 else nb)" "length osum = length ?s"
      using e hd by (simp_all add: osum_def store_reads nb_def)
    moreover have "unat (nb + 1) \<le> Suc (unat nb)" by (simp add: unat_word_ariths)
    ultimately have "sum_room n (bi\<lparr>bi_summary := osum\<rparr>)"
      using r by (auto simp: sum_room_def sum_entry_offs_def)
    then show ?thesis using eq unfolding osum_def [symmetric] by blast
  qed
qed


lemma summarise_ok:
  assumes "sum_room (Suc n) bi" "get_obj_id obj 0 = Some oid"
  shows "\<exists>osum. (if bi_no_summary bi then Some bi else sum_obj bi obj addr) = Some (bi\<lparr>bi_summary := osum\<rparr>) \<and>
    sum_room n (bi\<lparr>bi_summary := osum\<rparr>)"
proof (cases "bi_no_summary bi")
  case True
  then have "sum_room n (bi\<lparr>bi_summary := bi_summary bi\<rparr>)" by (simp add: sum_room_def)
  with True show ?thesis by (intro exI [of _ "bi_summary bi"]) simp
next
  case False
  with sum_obj_ok [OF assms(1) False assms(2), of addr] show ?thesis by simp
qed

section \<open>The objects of a transaction\<close>

text \<open>
  An object a caller of \<open>ostore_write\<close> passes: type, length and id are filled in, the length is
  a multiple of 8 and within the block.
\<close>

definition trans_obj_ok :: "buf \<Rightarrow> bool" where
  "trans_obj_ok obj \<longleftrightarrow> 32 \<le> unat (rd32 obj 16) \<and> unat (rd32 obj 16) \<le> length obj \<and>
     length obj < 2 ^ 31 \<and> 8 dvd unat (rd32 obj 16) \<and> rd64 obj 24 \<noteq> NIL_ID \<and>
     (is_live_type (rd8 obj 20) \<or> rd8 obj 20 = BILBYFS_DEL_OBJ \<and> is_live_type (type_from_id (rd64 obj 24)))"

abbreviation obj_bytes :: "buf \<Rightarrow> buf" where
  "obj_bytes obj \<equiv> take (unat (rd32 obj 16)) obj"

definition total_len :: "buf list \<Rightarrow> nat" where
  "total_len objs = sum_list (map (\<lambda>obj. unat (rd32 obj 16)) objs)"

lemma total_len_simps [simp]:
  "total_len [] = 0" "total_len (obj # objs) = unat (rd32 obj 16) + total_len objs"
  by (simp_all add: total_len_def)

lemma trans_obj_type: "trans_obj_ok obj \<Longrightarrow> rd8 obj 20 < 7"
  by (auto simp: trans_obj_ok_def is_live_type_def)

lemma trans_obj_reads:
  assumes "trans_obj_ok obj"
  shows "get8 obj 20 = Some (rd8 obj 20)" "get32 obj 16 = Some (rd32 obj 16)"
    "get64 obj 8 = Some (rd64 obj 8)" "get_obj_id obj 0 = Some (rd64 obj 24)"
    "obj_step_ok (rd8 obj 20) (rd64 obj 24)"
  using assms by (auto simp: trans_obj_ok_def getw_Some get_obj_id_def obj_step_ok_def is_live_type_def)

lemma pack_header_ok:
  assumes "trans_obj_ok obj"
  shows "\<exists>obj'. pack_obj_header K obj 0 sqnum tpos = Some obj' \<and> trans_obj_ok obj' \<and>
    length obj' = length obj \<and> rd32 obj' 16 = rd32 obj 16 \<and> rd8 obj' 20 = rd8 obj 20 \<and>
    rd64 obj' 24 = rd64 obj 24 \<and> drop 24 obj' = drop 24 obj \<and> rd64 obj' 8 = sqnum \<and> rd8 obj' 21 = tpos"
proof -
  have l: "0 + 24 \<le> length obj" using assms by (simp add: trans_obj_ok_def)
  let ?b = "splice (header_bytes obj 0 sqnum tpos) 4 (le_enc 4 (header_crc K obj 0 sqnum tpos))"
  have p: "pack_obj_header K obj 0 sqnum tpos = Some ?b"
    using pack_obj_header_eq [of obj 0 K sqnum tpos] assms trans_obj_type [OF assms]
    by (simp add: trans_obj_ok_def)
  note rd = rd_header_bytes [OF l, where sqnum = sqnum and tpos = tpos]
    header_bytes_outside [OF l, where sqnum = sqnum and tpos = tpos]
  have f: "length ?b = length obj" "rd64 ?b 8 = sqnum" "rd8 ?b 21 = tpos" "rd8 ?b 20 = rd8 obj 20"
    "rd32 ?b 16 = rd32 obj 16" "rd64 ?b 24 = rd64 obj 24" "drop 24 ?b = drop 24 obj"
    using l rd rd(6) [of 8 0] by (simp_all add: buf_simps drop_splice_after)
  moreover have "trans_obj_ok ?b" using assms f by (simp add: trans_obj_ok_def)
  ultimately show ?thesis using p by blast
qed

text \<open>The object as it is on flash: the payload is the caller's, the header is filled in.\<close>

definition headed :: "'u kernel \<Rightarrow> u64 \<Rightarrow> u8 \<Rightarrow> buf \<Rightarrow> buf \<Rightarrow> bool" where
  "headed K sqnum tpos obj obj' \<longleftrightarrow> pack_obj_header K obj 0 sqnum tpos = Some obj' \<and> trans_obj_ok obj' \<and>
     rd32 obj' 16 = rd32 obj 16 \<and> rd8 obj' 20 = rd8 obj 20 \<and> rd64 obj' 24 = rd64 obj 24 \<and>
     drop 24 obj' = drop 24 obj \<and> rd64 obj' 8 = sqnum \<and> rd8 obj' 21 = tpos"

lemma pack_headers_ok:
  assumes "\<forall>obj \<in> set objs. trans_obj_ok obj"
  shows "\<exists>objs'. pack_headers K bi count i objs =
      Some (bi\<lparr>bi_next_sqnum := bi_next_sqnum bi + of_nat (length objs)\<rparr>, objs') \<and>
    length objs' = length objs \<and>
    (\<forall>j < length objs. headed K (bi_next_sqnum bi + 1 + of_nat j) (get_obj_trans count (i + int j))
       (objs ! j) (objs' ! j))"
  using assms
proof (induction objs arbitrary: bi i)
  case (Cons obj objs)
  let ?sq = "bi_next_sqnum bi + 1"
  from pack_header_ok [of obj K ?sq "get_obj_trans count i"] Cons.prems obtain obj' where
    obj': "headed K ?sq (get_obj_trans count i) obj obj'" by (auto simp: headed_def)
  have "\<forall>obj \<in> set objs. trans_obj_ok obj" using Cons.prems by simp
  from Cons.IH [OF this, of "bi\<lparr>bi_next_sqnum := ?sq\<rparr>" "i + 1"] obtain objs' where
    objs': "pack_headers K (bi\<lparr>bi_next_sqnum := ?sq\<rparr>) count (i + 1) objs =
      Some (bi\<lparr>bi_next_sqnum := ?sq + of_nat (length objs)\<rparr>, objs')" "length objs' = length objs"
    "\<And>j. j < length objs \<Longrightarrow> headed K (?sq + 1 + of_nat j) (get_obj_trans count (i + 1 + int j)) (objs ! j) (objs' ! j)"
    by auto
  have "headed K (?sq + of_nat j) (get_obj_trans count (i + int j)) ((obj # objs) ! j) ((obj' # objs') ! j)"
    if "j < Suc (length objs)" for j
    using that obj' objs'(3) by (cases j) (simp_all add: algebra_simps)
  with obj' objs' show ?case
    by (auto simp: next_sqnum_def headed_def Let_def algebra_simps intro!: exI [of _ "obj' # objs'"])
qed simp


lemma serial_size_ok:
  assumes "\<forall>obj \<in> set objs. trans_obj_ok obj"
  shows "obj_list_serial_size objs sz = Some (sz + of_nat (total_len objs))"
  using assms by (induction objs arbitrary: sz) (simp_all add: trans_obj_reads algebra_simps)

lemma trans_obj_len:
  assumes "trans_obj_ok obj"
  shows "sint (rd32 obj 16) = int (unat (rd32 obj 16))" "8 dvd int (unat (rd32 obj 16))"
proof -
  have "uint (rd32 obj 16) < 2 ^ 31"
    using assms unat_uint_less [of "rd32 obj 16" "2 ^ 31"] by (simp add: trans_obj_ok_def)
  then show "sint (rd32 obj 16) = int (unat (rd32 obj 16))"
    using int_words(3) [of "uint (rd32 obj 16)"] by simp
  show "8 dvd int (unat (rd32 obj 16))"
    using assms int_dvd_int_iff [of 8 "unat (rd32 obj 16)"] unfolding trans_obj_ok_def by simp
qed

lemma write_objs_ok:
  assumes "\<forall>obj \<in> set objs. trans_obj_ok obj" "wbuf_ok w" "int (total_len objs) \<le> wb_avail w"
  shows "\<exists>w'. write_objs objs w = Some (None, w') \<and> wbuf_ok w' \<and>
    wb_used w' = wb_used w + int (total_len objs) \<and> wb_avail w' = wb_avail w - int (total_len objs) \<and>
    wb_size w' = wb_size w \<and>
    wb_sync_offs w' = wb_sync_offs w \<and>
    take (nat (wb_used w')) (wb_buf w') = take (nat (wb_used w)) (wb_buf w) @ concat (map obj_bytes objs)"
  using assms
proof (induction objs arbitrary: w)
  case (Cons obj objs)
  have obj: "trans_obj_ok obj" using Cons.prems by simp
  note len = trans_obj_len [OF obj]
  from wbuf_write_fits [OF Cons.prems(2) _ len(2), of obj] obj Cons.prems obtain w1 where
    w1: "wbuf_write_obj obj (int (unat (rd32 obj 16))) w = Some (None, w1)" "wbuf_ok w1"
    "wb_used w1 = wb_used w + int (unat (rd32 obj 16))" "wb_avail w1 = wb_avail w - int (unat (rd32 obj 16))"
    "wb_sync_offs w1 = wb_sync_offs w" "wb_size w1 = wb_size w"
    "take (nat (wb_used w1)) (wb_buf w1) = take (nat (wb_used w)) (wb_buf w) @ obj_bytes obj"
    by (auto simp: trans_obj_ok_def)
  from Cons.IH [of w1] Cons.prems w1(2,4) obtain w2 where
    w2: "write_objs objs w1 = Some (None, w2)" "wbuf_ok w2"
    "wb_used w2 = wb_used w1 + int (total_len objs)" "wb_avail w2 = wb_avail w1 - int (total_len objs)"
    "wb_size w2 = wb_size w1" "wb_sync_offs w2 = wb_sync_offs w1"
    "take (nat (wb_used w2)) (wb_buf w2) = take (nat (wb_used w1)) (wb_buf w1) @ concat (map obj_bytes objs)"
    by auto
  then show ?case using w1 obj by (simp add: trans_obj_reads len(1))
qed simp

section \<open>The addresses of a transaction\<close>

fun placed :: "u32 \<Rightarrow> u32 \<Rightarrow> buf list \<Rightarrow> (u8 \<times> obj_id \<times> obj_addr) list" where
  "placed lnum offs [] = []"
| "placed lnum offs (obj # objs) =
     (rd8 obj 20, rd64 obj 24, \<lparr>oa_lnum = lnum, oa_offs = offs, oa_len = rd32 obj 16, oa_sqnum = rd64 obj 8\<rparr>)
     # placed lnum (offs + rd32 obj 16) objs"

definition spec_objs :: "(u8 \<times> obj_id \<times> obj_addr) list \<Rightarrow> astore \<Rightarrow> astore" where
  "spec_objs = fold (\<lambda>(type, oid, addr). spec_obj type oid addr)"

lemma spec_objs_simps [simp]:
  "spec_objs [] s = s" "spec_objs ((type, oid, addr) # xs) s = spec_objs xs (spec_obj type oid addr s)"
  by (simp_all add: spec_objs_def)

lemma store_cong:
  assumes "bi_idx_hash bi' = bi_idx_hash bi" "bi_gim_hash bi' = bi_gim_hash bi"
    and "bi_dirty_list bi' = bi_dirty_list bi" "bi_used_leb_list bi' = bi_used_leb_list bi"
    and "bi_fsm_nb_free_eb bi' = bi_fsm_nb_free_eb bi" "bi_super bi' = bi_super bi"
  shows "idx_map bi' = idx_map bi" "gim_map bi' = gim_map bi" "addr_ok bi' = addr_ok bi"
    "store_ok bi' = store_ok bi" "abs_store bi' = abs_store bi"
proof -
  show 1: "idx_map bi' = idx_map bi" "gim_map bi' = gim_map bi" "addr_ok bi' = addr_ok bi"
    using assms by (simp_all add: idx_map_def gim_map_def addr_ok_def fun_eq_iff)
  show "store_ok bi' = store_ok bi"
    using assms by (simp add: store_ok_def 1 idx_ok_def gim_ok_def fsm_ok_def)
  show "abs_store bi' = abs_store bi" by (simp add: abs_store_def 1)
qed

lemma summary_update [simp]:
  "store_ok (bi\<lparr>bi_summary := osum\<rparr>) = store_ok bi" "abs_store (bi\<lparr>bi_summary := osum\<rparr>) = abs_store bi"
  "pool_room n (bi\<lparr>bi_summary := osum\<rparr>) = pool_room n bi" "addr_ok (bi\<lparr>bi_summary := osum\<rparr>) = addr_ok bi"
  by (simp_all add: store_cong [of "bi\<lparr>bi_summary := osum\<rparr>" bi] pool_room_def)

definition trans_frame :: "'u bilbyfs_info \<Rightarrow> 'u bilbyfs_info \<Rightarrow> bool" where
  "trans_frame bi bi' \<longleftrightarrow> (\<exists>osum. store_frame (bi\<lparr>bi_summary := osum\<rparr>) bi')"

lemma trans_frameD:
  assumes "trans_frame bi bi'"
  shows "bi_super bi' = bi_super bi" "bi_used_leb_list bi' = bi_used_leb_list bi"
    "bi_wbuf bi' = bi_wbuf bi" "bi_no_summary bi' = bi_no_summary bi"
    "bi_fsm_lnum bi' = bi_fsm_lnum bi" "bi_ubi bi' = bi_ubi bi" "bi_rbuf bi' = bi_rbuf bi"
    "bi_next_sqnum bi' = bi_next_sqnum bi" "bi_next_inum bi' = bi_next_inum bi" "bi_is_ro bi' = bi_is_ro bi"
    "bi_odata bi' = bi_odata bi" "set (bi_kmem bi') \<subseteq> set (bi_kmem bi)"
proof -
  from assms obtain osum where "store_frame (bi\<lparr>bi_summary := osum\<rparr>) bi'" by (auto simp: trans_frame_def)
  note d = store_frameD [OF this, simplified]
  show "bi_super bi' = bi_super bi" "bi_used_leb_list bi' = bi_used_leb_list bi"
    "bi_wbuf bi' = bi_wbuf bi" "bi_no_summary bi' = bi_no_summary bi"
    "bi_fsm_lnum bi' = bi_fsm_lnum bi" "bi_ubi bi' = bi_ubi bi" "bi_rbuf bi' = bi_rbuf bi"
    "bi_next_sqnum bi' = bi_next_sqnum bi" "bi_next_inum bi' = bi_next_inum bi" "bi_is_ro bi' = bi_is_ro bi"
    "bi_odata bi' = bi_odata bi" "set (bi_kmem bi') \<subseteq> set (bi_kmem bi)"
    using d by blast+
qed

lemma sum_room_frame: "store_frame bi bi' \<Longrightarrow> sum_room n bi' = sum_room n bi"
  by (simp add: sum_room_def store_frameD)

lemma trans_frame_trans: "trans_frame a b \<Longrightarrow> trans_frame b c \<Longrightarrow> trans_frame a c"
proof -
  have "store_frame (a\<lparr>bi_summary := s\<rparr>) (b\<lparr>bi_summary := s\<rparr>)"
    if "store_frame (a\<lparr>bi_summary := s0\<rparr>) b" for s s0
    using that by (cases a; cases b) (simp add: store_frame_def)
  then show "trans_frame a b \<Longrightarrow> trans_frame b c \<Longrightarrow> trans_frame a c"
    unfolding trans_frame_def using store_frame_trans by blast
qed

lemma proc_objs_ok:
  assumes "store_ok bi" "\<forall>obj \<in> set objs. trans_obj_ok obj \<and> rd64 obj 8 \<noteq> 0"
    and "pool_room (2 * length objs) bi" "sum_room (length objs) bi"
    and "addr_ok bi (cur\<lparr>oa_sqnum := 1\<rparr>)"
  shows "\<exists>bi'. proc_objs bi cur objs = Some bi' \<and> store_ok bi' \<and> trans_frame bi bi' \<and> pool_room 0 bi' \<and>
    abs_store bi' = spec_objs (placed (oa_lnum cur) (oa_offs cur + oa_len cur) objs) (abs_store bi)"
  using assms
proof (induction objs arbitrary: bi cur)
  case Nil
  then show ?case by (auto simp: trans_frame_def intro: exI [of _ "bi_summary bi"])
next
  case (Cons obj objs)
  have obj: "trans_obj_ok obj" using Cons.prems by simp
  let ?cur = "cur\<lparr>oa_offs := oa_offs cur + oa_len cur, oa_len := rd32 obj 16, oa_sqnum := rd64 obj 8\<rparr>"
  have aok: "addr_ok bi ?cur" using Cons.prems(2,5) by (simp add: addr_ok_def)
  have room: "pool_room (Suc (Suc (2 * length objs))) bi" using Cons.prems(3) by simp
  from proc_obj_ok [OF Cons.prems(1) aok trans_obj_reads(5) [OF obj] room] obtain b where
    b: "proc_obj bi (rd8 obj 20) (rd64 obj 24) ?cur = Some (None, b)" "store_ok b" "store_frame bi b"
    "pool_room (2 * length objs) b"
    "abs_store b = spec_obj (rd8 obj 20) (rd64 obj 24) ?cur (abs_store bi)" by blast
  have "sum_room (Suc (length objs)) b" using sum_room_frame [OF b(3)] Cons.prems(4) by simp
  then have "\<exists>osum. (if bi_no_summary b then Some b else sum_obj b obj ?cur) = Some (b\<lparr>bi_summary := osum\<rparr>) \<and>
      sum_room (length objs) (b\<lparr>bi_summary := osum\<rparr>)"
    by (rule summarise_ok) (rule trans_obj_reads(4) [OF obj])
  then obtain osum where osum: "(if bi_no_summary b then Some b else sum_obj b obj ?cur) = Some (b\<lparr>bi_summary := osum\<rparr>)"
    "sum_room (length objs) (b\<lparr>bi_summary := osum\<rparr>)" by blast
  have "addr_ok (b\<lparr>bi_summary := osum\<rparr>) (?cur\<lparr>oa_sqnum := 1\<rparr>)"
    using Cons.prems(5) addr_ok_frame [OF b(3)] by (simp add: addr_ok_def)
  with Cons.IH [of "b\<lparr>bi_summary := osum\<rparr>" ?cur] b osum Cons.prems(2) obtain b' where
    b': "proc_objs (b\<lparr>bi_summary := osum\<rparr>) ?cur objs = Some b'" "store_ok b'"
    "trans_frame (b\<lparr>bi_summary := osum\<rparr>) b'" "pool_room 0 b'"
    "abs_store b' = spec_objs (placed (oa_lnum cur) (oa_offs cur + oa_len cur + rd32 obj 16) objs) (abs_store b)"
    by auto
  have "trans_frame bi (b\<lparr>bi_summary := osum\<rparr>)"
    using b(3) by (cases bi; cases b) (simp add: trans_frame_def store_frame_def)
  then have "trans_frame bi b'" by (rule trans_frame_trans [OF _ b'(3)])
  moreover have "proc_objs bi cur (obj # objs) = Some b'"
    using b(1) osum(1) b'(1) trans_obj_reads [OF obj] by simp
  moreover have "abs_store b' =
      spec_objs (placed (oa_lnum cur) (oa_offs cur + oa_len cur) (obj # objs)) (abs_store bi)"
    using b'(5) b(5) by (cases cur) simp
  ultimately show ?case using b'(2,4) by blast
qed


section \<open>Writing a transaction that fits in the write-buffer\<close>

text \<open>
  The state between two transactions: an erase-block is open, the write-buffer belongs to it,
  and memory is available.
\<close>

definition pool_shape :: "alloc_pool \<Rightarrow> bool" where
  "pool_shape pool \<longleftrightarrow> (case ap_arr pool of None \<Rightarrow> ap_len pool = 0 | Some arr \<Rightarrow> int (length arr) = ap_len pool)"

definition writer_ok :: "'u bilbyfs_info \<Rightarrow> bool" where
  "writer_ok bi \<longleftrightarrow> store_ok bi \<and> wbuf_ok (bi_wbuf bi) \<and> wb_size (bi_wbuf bi) = su_leb_size (bi_super bi) \<and>
     3 \<le> uint (fsm_get_lnum bi) \<and> uint (fsm_get_lnum bi) < su_leb_cnt (bi_super bi) \<and>
     bi_used_leb_list bi ! unat (fsm_get_lnum bi) \<and> pool_shape (bi_node_pool bi) \<and> (\<forall>b \<in> set (bi_kmem bi). b)"

text \<open>The space \<open>ostore_write_obj_list\<close> keeps for the summary with \<open>n\<close> more entries.\<close>

definition sum_reserve :: "'u bilbyfs_info \<Rightarrow> nat \<Rightarrow> int" where
  "sum_reserve bi n = (if bi_no_summary bi then 0
     else ALIGN (ALIGN (32 + uint (rd32 (bi_summary bi) 24) * 26) 8 + int n * 26) 8)"

definition room_for :: "'u bilbyfs_info \<Rightarrow> nat \<Rightarrow> nat \<Rightarrow> bool" where
  "room_for bi bytes n \<longleftrightarrow> int bytes + sum_reserve bi n \<le> wb_avail (bi_wbuf bi) \<and>
     sum_room n bi \<and> unat (bi_next_sqnum bi) + n < 2 ^ 64"

definition trans_fits :: "'u bilbyfs_info \<Rightarrow> buf list \<Rightarrow> bool" where
  "trans_fits bi objs \<longleftrightarrow> room_for bi (total_len objs) (length objs)"

lemma sum_reserve_ok:
  assumes "sum_room n bi" "\<not> bi_no_summary bi" "sum_reserve bi n < 2 ^ 31" "n < 2 ^ 31"
  shows "obj_sum_size_with_extra (bi_summary bi) (word_of_int (int n)) = Some (sum_reserve bi n)"
    and "\<exists>sz. obj_sum_size (bi_summary bi) = Some sz \<and> sz \<le> sum_reserve bi n" and "0 \<le> sum_reserve bi n"
proof -
  let ?nb = "rd32 (bi_summary bi) 24"
  have l: "28 + unat ?nb * 26 \<le> length (bi_summary bi)" "length (bi_summary bi) < 1073741824"
    using assms(1,2) by (auto simp: sum_room_def sum_entry_offs_def)
  then have "unat ?nb < 67108864" by linarith
  then have nb: "uint ?nb < 2 ^ 26" using unat_uint_less [of ?nb 67108864] by simp
  note sz = sum_size_eq [OF nb]
  have g: "obj_sum_size (bi_summary bi) = Some (sum_size ?nb)"
    using l(1) by (simp add: obj_sum_size_def getw_Some)
  have r: "sum_reserve bi n = ALIGN (sum_size ?nb + int n * 26) 8"
    using assms(2) by (simp add: sum_reserve_def sz(1))
  have "0 \<le> uint ?nb" by simp
  then have ge: "sum_size ?nb \<le> sum_reserve bi n" "0 \<le> sum_size ?nb"
    using ALIGN_8_ge [of "sum_size ?nb + int n * 26"] sz(2) unfolding r by linarith+
  show "0 \<le> sum_reserve bi n" using ge by linarith
  show "\<exists>sz. obj_sum_size (bi_summary bi) = Some sz \<and> sz \<le> sum_reserve bi n" using g ge(1) by blast
  have "sint (word_of_int (sum_reserve bi n) :: u32) = sum_reserve bi n"
    using ge assms(3) by (intro int_words) auto
  moreover have "uint (word_of_int (int n) :: u32) = int n" using assms(4) by (intro int_words) auto
  ultimately show "obj_sum_size_with_extra (bi_summary bi) (word_of_int (int n)) = Some (sum_reserve bi n)"
    by (simp add: obj_sum_size_with_extra_def g r)
qed

lemma sum_reserve_nonneg: "0 \<le> sum_reserve bi n"
proof -
  let ?x = "32 + uint (rd32 (bi_summary bi) 24) * 26"
  have "0 \<le> ?x" by simp
  moreover have "?x \<le> ALIGN ?x 8" "ALIGN ?x 8 + int n * 26 \<le> ALIGN (ALIGN ?x 8 + int n * 26) 8"
    by (rule ALIGN_8_ge)+
  ultimately have "0 \<le> ALIGN (ALIGN ?x 8 + int n * 26) 8" by linarith
  then show ?thesis by (simp add: sum_reserve_def)
qed

lemma sqnum_step:
  assumes "unat (sq :: u64) + n < 2 ^ 64" "j < n"
  shows "unat (sq + 1 + of_nat j) = unat sq + 1 + j"
proof -
  have "unat (sq + 1 + of_nat j) = (unat sq + 1 + j) mod 2 ^ 64"
    by (simp add: unat_word_ariths unat_of_nat mod_simps)
  then show ?thesis using assms by simp
qed

lemma pool_room_empty: "pool_room 0 bi \<Longrightarrow> \<exists>pool. allocpool_empty (bi_node_pool bi) = Some pool \<and> pool_shape pool"
  by (auto simp: pool_room_def pool_ok_def allocpool_empty_def pool_shape_def split: option.splits)

lemma total_len_ge: "\<forall>obj \<in> set objs. trans_obj_ok obj \<Longrightarrow> 32 * length objs \<le> total_len objs"
  by (induction objs) (auto simp: trans_obj_ok_def)

lemma total_len_headed:
  assumes "length objs' = length objs"
    and "\<forall>j < length objs. headed K (sq j) (tp j) (objs ! j) (objs' ! j)"
  shows "total_len objs' = total_len objs"
proof -
  have "map (\<lambda>obj. unat (rd32 obj 16)) objs' = map (\<lambda>obj. unat (rd32 obj 16)) objs"
    using assms by (intro nth_equalityI) (auto simp: headed_def)
  then show ?thesis by (simp add: total_len_def)
qed


text \<open>
  The write path of a transaction that fits: headers, copies, index. \<open>written\<close> says what is in
  the write-buffer and in the index afterwards.
\<close>

definition written ::
  "'u kernel \<Rightarrow> 'u bilbyfs_info \<Rightarrow> buf list \<Rightarrow> 'u bilbyfs_info \<Rightarrow> buf list \<Rightarrow> bool" where
  "written K bi objs bi' objs' \<longleftrightarrow>
     length objs' = length objs \<and>
     (\<forall>j < length objs. headed K (bi_next_sqnum bi + 1 + of_nat j) (get_obj_trans (int (length objs)) (int j))
        (objs ! j) (objs' ! j)) \<and>
     wb_used (bi_wbuf bi') = wb_used (bi_wbuf bi) + int (total_len objs) \<and>
     take (nat (wb_used (bi_wbuf bi'))) (wb_buf (bi_wbuf bi')) =
       take (nat (wb_used (bi_wbuf bi))) (wb_buf (bi_wbuf bi)) @ concat (map obj_bytes objs') \<and>
     fsm_get_lnum bi' = fsm_get_lnum bi \<and> bi_ubi bi' = bi_ubi bi \<and>
     abs_store bi' = spec_objs
       (placed (fsm_get_lnum bi) (word_of_int (wb_used (bi_wbuf bi))) objs') (abs_store bi)"

text \<open>What a transaction leaves alone.\<close>

definition write_frame :: "nat \<Rightarrow> 'u bilbyfs_info \<Rightarrow> 'u bilbyfs_info \<Rightarrow> bool" where
  "write_frame n bi bi' \<longleftrightarrow> bi_super bi' = bi_super bi \<and> bi_rbuf bi' = bi_rbuf bi \<and> bi_ubi bi' = bi_ubi bi \<and>
     bi_next_sqnum bi' = bi_next_sqnum bi + of_nat n \<and> bi_next_inum bi' = bi_next_inum bi \<and>
     bi_is_ro bi' = bi_is_ro bi \<and> bi_odata bi' = bi_odata bi \<and> bi_no_summary bi' = bi_no_summary bi \<and>
     bi_used_leb_list bi' = bi_used_leb_list bi"

lemma write_state [simp]:
  fixes bi :: "'u bilbyfs_info" and w p km n
  defines "b \<equiv> bi\<lparr>bi_next_sqnum := n, bi_wbuf := w, bi_node_pool := p, bi_kmem := km\<rparr>"
  shows "store_ok b = store_ok bi" "abs_store b = abs_store bi" "addr_ok b = addr_ok bi"
    "sum_room k b = sum_room k bi"
  using store_cong [of b bi] by (simp_all add: b_def sum_room_def)

lemma write_fits_ok:
  assumes bi: "writer_ok bi" and objs: "objs \<noteq> []" "\<forall>obj \<in> set objs. trans_obj_ok obj"
    and fits: "trans_fits bi objs" and flag: "\<not> OSW_SYNC flag"
  shows "\<exists>bi' objs'. ostore_write_obj_list gc K bi objs flag = Some (None, bi', objs') \<and>
    writer_ok bi' \<and> write_frame (length objs) bi bi' \<and> written K bi objs bi' objs'"
proof -
  let ?n = "length objs" and ?w = "bi_wbuf bi"
  note bi = bi [unfolded writer_ok_def] and fits = fits [unfolded trans_fits_def room_for_def]
  have len: "32 * ?n \<le> total_len objs" "0 < ?n" using total_len_ge [OF objs(2)] objs(1) by auto
  have av: "wb_avail ?w \<le> su_leb_size (bi_super bi)" "su_leb_size (bi_super bi) < 2147483648" "0 \<le> wb_used ?w"
    using bi by (auto simp: wbuf_ok_def)
  have res0: "0 \<le> sum_reserve bi ?n" by (rule sum_reserve_nonneg)
  have sz: "int (total_len objs) < 2147483648" "sum_reserve bi ?n < 2147483648" "int ?n < 2147483648"
    "wb_avail ?w \<noteq> 0"
    using fits av res0 len by linarith+
  have res: "assert_summary_fits bi = Some ()"
    "(if bi_no_summary bi then Some 0 else obj_sum_size_with_extra (bi_summary bi) (word_of_int (int ?n)))
      = Some (sum_reserve bi ?n)"
    using sum_reserve_ok [of ?n bi] fits sz
    by (auto simp: assert_summary_fits_def sum_reserve_def)
  from pack_headers_ok [OF objs(2), of K bi "int ?n" 0] obtain objs' where
    hd: "pack_headers K bi (int ?n) 0 objs = Some (bi\<lparr>bi_next_sqnum := bi_next_sqnum bi + of_nat ?n\<rparr>, objs')"
    "length objs' = ?n"
    "\<And>j. j < ?n \<Longrightarrow> headed K (bi_next_sqnum bi + 1 + of_nat j) (get_obj_trans (int ?n) (int j)) (objs ! j) (objs' ! j)"
    by auto
  let ?b = "bi\<lparr>bi_next_sqnum := bi_next_sqnum bi + of_nat ?n\<rparr>"
  have ok': "\<forall>obj \<in> set objs'. trans_obj_ok obj \<and> rd64 obj 8 \<noteq> 0"
  proof
    fix obj assume "obj \<in> set objs'"
    then obtain j where j: "j < ?n" "obj = objs' ! j" using hd(2) by (auto simp: in_set_conv_nth)
    have "unat (bi_next_sqnum bi + 1 + of_nat j) \<noteq> 0" using sqnum_step [OF _ j(1)] fits by simp
    then show "trans_obj_ok obj \<and> rd64 obj 8 \<noteq> 0" using hd(3) [OF j(1)] j(2) by (auto simp: headed_def)
  qed
  have tl: "total_len objs' = total_len objs" 
    using total_len_headed [OF hd(2), of K "\<lambda>j. bi_next_sqnum bi + 1 + of_nat j" "\<lambda>j. get_obj_trans (int ?n) (int j)"]
      hd(3) by blast
  from write_objs_ok [of objs' ?w] ok' bi tl fits res0 obtain w where
    w: "write_objs objs' ?w = Some (None, w)" "wbuf_ok w" "wb_used w = wb_used ?w + int (total_len objs)"
    "wb_size w = wb_size ?w"
    "take (nat (wb_used w)) (wb_buf w) = take (nat (wb_used ?w)) (wb_buf ?w) @ concat (map obj_bytes objs')"
    by auto
  obtain pool km where pool: "allocpool_alloc (bi_node_pool bi) (int ?n * 2) NODE_SIZE (bi_kmem bi) = Some (None, pool, km)"
    "pool_ok pool" "ap_i pool = 0" "int ?n * 2 \<le> ap_len pool" "\<forall>b \<in> set km. b"
  proof -
    have "ap_len (bi_node_pool bi) < int ?n * 2 \<or>
        (\<exists>arr. ap_arr (bi_node_pool bi) = Some arr \<and> int (length arr) = ap_len (bi_node_pool bi))"
      using bi len(2) by (auto simp: pool_shape_def split: option.splits)
    then show ?thesis
      using allocpool_alloc_fills [of "bi_kmem bi" "int ?n * 2" "bi_node_pool bi" NODE_SIZE] bi len(2) that
      by fastforce
  qed
  let ?c = "bi\<lparr>bi_next_sqnum := bi_next_sqnum bi + of_nat ?n, bi_wbuf := w, bi_node_pool := pool, bi_kmem := km\<rparr>"
  let ?a = "\<lparr>oa_lnum = fsm_get_lnum bi, oa_offs = word_of_int (wb_used ?w), oa_len = 0, oa_sqnum = 0\<rparr>"
  have "pool_room (2 * length objs') ?c" using pool hd(2) by (simp add: pool_room_def)
  moreover have "addr_ok ?c (?a\<lparr>oa_sqnum := 1\<rparr>)" using bi by (simp add: addr_ok_def)
  ultimately obtain b' where b': "proc_objs ?c ?a objs' = Some b'" "store_ok b'" "trans_frame ?c b'"
    "pool_room 0 b'"
    "abs_store b' = spec_objs (placed (fsm_get_lnum bi) (word_of_int (wb_used ?w)) objs') (abs_store bi)"
    using proc_objs_ok [of ?c objs' ?a] ok' bi fits hd(2) by auto
  from pool_room_empty [OF b'(4)] obtain p where p: "allocpool_empty (bi_node_pool b') = Some p" "pool_shape p" by blast
  have "ostore_write_obj_list gc K bi objs flag = Some (None, b'\<lparr>bi_node_pool := p\<rparr>, objs')"
  proof -
    have "uint (of_nat (total_len objs) :: u32) = int (total_len objs)" 
      using sz(1) int_words(1) [of "int (total_len objs)"] by simp
    then have "\<not> (word_of_int (wb_avail ?w) :: u32) < of_nat (total_len objs) + word_of_int (sum_reserve bi ?n)"
      "(of_nat (total_len objs) :: u32) \<le> word_of_int (su_leb_size (bi_super bi))"
      using sz fits res0 av by (simp_all add: word_less_def word_le_def uint_word_ariths)
    moreover have "bi_fsm_lnum bi \<noteq> 0" using bi by (auto simp: fsm_get_lnum_def)
    ultimately show ?thesis
      using sz(4) res hd(1) serial_size_ok [of objs' 0] ok' tl w(1) pool(1) b'(1) p(1) flag len(2)
      by (cases "bi_no_summary bi") (simp_all add: ostore_write_obj_list_def fsm_get_lnum_def)
  qed
  moreover have "writer_ok (b'\<lparr>bi_node_pool := p\<rparr>)"
    using bi b'(2) w(2,4) p(2) pool(5) trans_frameD [OF b'(3)] store_cong [of "b'\<lparr>bi_node_pool := p\<rparr>" b']
    by (auto simp: writer_ok_def fsm_get_lnum_def)
  moreover have "write_frame ?n bi (b'\<lparr>bi_node_pool := p\<rparr>)"
    using trans_frameD [OF b'(3)] by (simp add: write_frame_def)
  ultimately show ?thesis
    using b' w hd trans_frameD [OF b'(3)] store_cong [of "b'\<lparr>bi_node_pool := p\<rparr>" b']
    by (auto simp: written_def fsm_get_lnum_def)
qed


section \<open>Reading back\<close>

lemma read_buffered:
  assumes "idx_ok bi" "idx_map bi oid = Some addr" "oa_lnum addr = fsm_get_lnum bi" "oa_len addr \<le> len"
    and "unat (oa_offs addr) + unat (oa_len addr) \<le> length (wb_buf (bi_wbuf bi))" "unat (oa_len addr) \<le> length buf"
  shows "ostore_read_obj K bi oid buf len = Some (None, bi,
    splice buf 0 (take (unat (oa_len addr)) (drop (unat (oa_offs addr)) (wb_buf (bi_wbuf bi)))))"
  using assms by (auto simp: ostore_read_obj_def idx_get_map access_simps not_less)

text \<open>Objects with different ids that are newer than what the index has all get into the index.\<close>

lemma spec_objs_fresh:
  assumes "\<forall>(type, oid, addr) \<in> set xs. is_live_type type \<and> (m oid = None \<or> older (m oid) addr)"
    and "distinct (map (\<lambda>x. fst (snd x)) xs)"
  shows "fst (spec_objs xs (m, g)) oid =
    (case map_of (map snd xs) oid of Some addr \<Rightarrow> Some addr | None \<Rightarrow> m oid)"
  using assms
proof (induction xs arbitrary: m g)
  case (Cons x xs)
  obtain type k addr where x: "x = (type, k, addr)" by (cases x)
  let ?m = "m(k \<mapsto> addr)"
  obtain g' where s: "spec_obj type k addr (m, g) = (?m, g')"
    using Cons.prems(1) x by (auto simp: spec_obj_def newest_put_def)
  have d: "k \<notin> (\<lambda>x. fst (snd x)) ` set xs" using Cons.prems(2) x by simp
  have step: "is_live_type t \<and> (?m i = None \<or> older (?m i) a)" if "(t, i, a) \<in> set xs" for t i a
  proof -
    have "i \<noteq> k" using d that by force
    moreover have "is_live_type t \<and> (m i = None \<or> older (m i) a)" using Cons.prems(1) that by auto
    ultimately show ?thesis by simp
  qed
  then have "\<forall>(type, oid, addr) \<in> set xs. is_live_type type \<and> (?m oid = None \<or> older (?m oid) addr)"
    by blast
  moreover have "distinct (map (\<lambda>x. fst (snd x)) xs)" using Cons.prems(2) by simp
  ultimately have "fst (spec_objs xs (?m, g')) oid =
    (case map_of (map snd xs) oid of Some addr \<Rightarrow> Some addr | None \<Rightarrow> ?m oid)" by (rule Cons.IH)
  moreover have "map_of (map snd xs) k = None"
    using d by (force simp: map_of_eq_None_iff)
  ultimately show ?case by (auto simp: x s split: option.splits)
qed simp

lemma length_placed [simp]: "length (placed lnum offs objs) = length objs"
  by (induction objs arbitrary: offs) auto

lemma placed_nth:
  "j < length objs \<Longrightarrow> placed lnum offs objs ! j =
     (rd8 (objs ! j) 20, rd64 (objs ! j) 24,
      \<lparr>oa_lnum = lnum, oa_offs = offs + of_nat (total_len (take j objs)), oa_len = rd32 (objs ! j) 16,
       oa_sqnum = rd64 (objs ! j) 8\<rparr>)"
  by (induction objs arbitrary: offs j) (auto simp: nth_Cons split: nat.splits)

lemma obj_bytes_at:
  assumes "\<forall>obj \<in> set objs. trans_obj_ok obj" "j < length objs"
  shows "take (unat (rd32 (objs ! j) 16)) (drop (total_len (take j objs)) (concat (map obj_bytes objs) @ r)) =
    obj_bytes (objs ! j)"
  using assms
proof (induction objs arbitrary: j)
  case (Cons obj objs)
  have "length (obj_bytes obj) = unat (rd32 obj 16)" using Cons.prems by (simp add: trans_obj_ok_def)
  then show ?case using Cons by (cases j) simp_all
qed simp

lemma total_len_take: "j < length objs \<Longrightarrow> total_len (take j objs) + unat (rd32 (objs ! j) 16) \<le> total_len objs"
proof (induction objs arbitrary: j)
  case (Cons obj objs)
  then show ?case by (cases j) auto
qed simp


text \<open>What was written is read back from the write-buffer.\<close>

lemma unat_of_small: "x < 2147483648 \<Longrightarrow> unat (word_of_int (int x) :: u32) = x"
  using int_words(4) [of "int x"] by simp

lemma written_bytes:
  assumes w: "written K bi objs bi' objs'" and ok: "wbuf_ok (bi_wbuf bi)" "wbuf_ok (bi_wbuf bi')"
    and j: "j < length objs"
  defines "addr \<equiv> \<lparr>oa_lnum = fsm_get_lnum bi,
      oa_offs = word_of_int (wb_used (bi_wbuf bi)) + of_nat (total_len (take j objs')),
      oa_len = rd32 (objs' ! j) 16, oa_sqnum = rd64 (objs' ! j) 8\<rparr>"
  shows "unat (oa_offs addr) + unat (oa_len addr) \<le> length (wb_buf (bi_wbuf bi'))"
    and "take (unat (oa_len addr)) (drop (unat (oa_offs addr)) (wb_buf (bi_wbuf bi'))) = obj_bytes (objs' ! j)"
proof -
  let ?u = "nat (wb_used (bi_wbuf bi))" and ?t = "total_len (take j objs')"
  note w = w [unfolded written_def]
  have ok': "\<forall>obj \<in> set objs'. trans_obj_ok obj" using w by (auto simp: in_set_conv_nth headed_def)
  have j': "j < length objs'" using w j by simp
  have tl: "total_len objs' = total_len objs"
    using total_len_headed [of objs' objs K "\<lambda>j. bi_next_sqnum bi + 1 + of_nat j"
        "\<lambda>j. get_obj_trans (int (length objs)) (int j)"] w by blast
  have le: "?t + unat (rd32 (objs' ! j) 16) \<le> total_len objs" using total_len_take [OF j'] tl by simp
  have used: "0 \<le> wb_used (bi_wbuf bi)" using ok(1) by (simp add: wbuf_ok_def)
  have cap: "nat (wb_used (bi_wbuf bi')) = ?u + total_len objs" "?u + total_len objs \<le> length (wb_buf (bi_wbuf bi'))"
    "length (wb_buf (bi_wbuf bi')) < 2147483648"
    using w ok(2) used by (auto simp: wbuf_ok_def nat_add_distrib)
  have "oa_offs addr = word_of_int (int (?u + ?t))" using used by (simp add: addr_def)
  then have offs: "unat (oa_offs addr) = ?u + ?t"
    using unat_of_small [of "?u + ?t"] cap le by (simp only:)
  show "unat (oa_offs addr) + unat (oa_len addr) \<le> length (wb_buf (bi_wbuf bi'))"
    using offs le cap by (simp add: addr_def)
  let ?b = "wb_buf (bi_wbuf bi')"
  have "?b = take (?u + total_len objs) ?b @ drop (?u + total_len objs) ?b" by simp
  also have "take (?u + total_len objs) ?b = take ?u (wb_buf (bi_wbuf bi)) @ concat (map obj_bytes objs')"
    using w cap(1) by simp
  finally have b: "?b = take ?u (wb_buf (bi_wbuf bi)) @ concat (map obj_bytes objs') @ drop (?u + total_len objs) ?b"
    by simp
  have "length (take ?u (wb_buf (bi_wbuf bi))) = ?u" using ok(1) by (auto simp: wbuf_ok_def)
  then have "drop (?u + ?t) ?b = drop ?t (concat (map obj_bytes objs') @ drop (?u + total_len objs) ?b)"
    by (subst b) simp
  then show "take (unat (oa_len addr)) (drop (unat (oa_offs addr)) ?b) = obj_bytes (objs' ! j)"
    using obj_bytes_at [OF ok' j', of "drop (?u + total_len objs) ?b"] by (simp only: offs) (simp add: addr_def)
qed

lemma written_index:
  assumes w: "written K bi objs bi' objs'" and live: "\<forall>obj \<in> set objs. is_live_type (rd8 obj 20)"
    and dist: "distinct (map (\<lambda>obj. rd64 obj 24) objs)" and sq: "unat (bi_next_sqnum bi) + length objs < 2 ^ 64"
    and old: "\<forall>addr \<in> ran (idx_map bi). oa_sqnum addr \<le> bi_next_sqnum bi"
  shows "j < length objs \<Longrightarrow> idx_map bi' (rd64 (objs ! j) 24) = Some \<lparr>oa_lnum = fsm_get_lnum bi,
      oa_offs = word_of_int (wb_used (bi_wbuf bi)) + of_nat (total_len (take j objs')),
      oa_len = rd32 (objs' ! j) 16, oa_sqnum = rd64 (objs' ! j) 8\<rparr>"
    and "oid \<notin> (\<lambda>obj. rd64 obj 24) ` set objs \<Longrightarrow> idx_map bi' oid = idx_map bi oid"
proof -
  let ?offs = "word_of_int (wb_used (bi_wbuf bi)) :: u32"
  let ?xs = "placed (fsm_get_lnum bi) ?offs objs'"
  note w = w [unfolded written_def]
  have hd: "rd8 (objs' ! j) 20 = rd8 (objs ! j) 20" "rd64 (objs' ! j) 24 = rd64 (objs ! j) 24"
    "rd64 (objs' ! j) 8 = bi_next_sqnum bi + 1 + of_nat j" if "j < length objs" for j
    using w that by (auto simp: headed_def)
  have len: "length objs' = length objs" using w by simp
  have ids: "map (\<lambda>x. fst (snd x)) ?xs = map (\<lambda>obj. rd64 obj 24) objs"
    using hd len by (intro nth_equalityI) (simp_all add: placed_nth)
  have fresh: "is_live_type type \<and> (idx_map bi k = None \<or> older (idx_map bi k) addr)"
    if x: "(type, k, addr) \<in> set ?xs" for type k addr
  proof -
    from x obtain j where j: "j < length objs" "(type, k, addr) = ?xs ! j" by (auto simp: in_set_conv_nth len)
    then have f: "type = rd8 (objs ! j) 20" "oa_sqnum addr = bi_next_sqnum bi + 1 + of_nat j"
      using hd len by (simp_all add: placed_nth)
    have lt: "bi_next_sqnum bi < oa_sqnum addr"
      using sqnum_step [OF sq j(1)] f(2) by (simp add: word_less_nat_alt)
    have "oa_sqnum a < oa_sqnum addr" if "idx_map bi k = Some a" for a
      using old that lt by (auto simp: ran_def intro: le_less_trans)
    then show ?thesis using live f(1) j(1) by (auto simp: older_def split: option.splits)
  qed
  have m: "idx_map bi' oid = (case map_of (map snd ?xs) oid of Some a \<Rightarrow> Some a | None \<Rightarrow> idx_map bi oid)" for oid
  proof -
    have "idx_map bi' = fst (spec_objs ?xs (idx_map bi, gim_map bi))"
      using w by (simp add: abs_store_def prod_eq_iff)
    moreover have "fst (spec_objs ?xs (idx_map bi, gim_map bi)) oid =
        (case map_of (map snd ?xs) oid of Some a \<Rightarrow> Some a | None \<Rightarrow> idx_map bi oid)"
      by (rule spec_objs_fresh) (use fresh in blast, simp only: ids dist)
    ultimately show ?thesis by simp
  qed
  have keys: "map fst (map snd ?xs) = map (\<lambda>obj. rd64 obj 24) objs" using ids by (simp add: comp_def)
  show "idx_map bi' oid = idx_map bi oid" if "oid \<notin> (\<lambda>obj. rd64 obj 24) ` set objs"
  proof -
    have "oid \<notin> set (map fst (map snd ?xs))" unfolding keys using that by simp
    then have "map_of (map snd ?xs) oid = None" by (simp add: map_of_eq_None_iff image_image)
    then show ?thesis using m by simp
  qed
  show "idx_map bi' (rd64 (objs ! j) 24) = Some \<lparr>oa_lnum = fsm_get_lnum bi,
      oa_offs = ?offs + of_nat (total_len (take j objs')),
      oa_len = rd32 (objs' ! j) 16, oa_sqnum = rd64 (objs' ! j) 8\<rparr>" if j: "j < length objs"
  proof -
    have "snd (?xs ! j) \<in> set (map snd ?xs)" using j len by simp
    moreover have "distinct (map fst (map snd ?xs))" using keys dist by simp
    ultimately have "map_of (map snd ?xs) (fst (snd (?xs ! j))) = Some (snd (snd (?xs ! j)))"
      by (intro map_of_is_SomeI) auto
    then show ?thesis using m [of "rd64 (objs ! j) 24"] hd(2) [OF j] j len by (simp add: placed_nth)
  qed
qed


lemma write_then_read:
  assumes "writer_ok bi" "objs \<noteq> []" "\<forall>obj \<in> set objs. trans_obj_ok obj \<and> is_live_type (rd8 obj 20)"
    and "distinct (map (\<lambda>obj. rd64 obj 24) objs)" "trans_fits bi objs" "\<not> OSW_SYNC flag"
    and "\<forall>addr \<in> ran (idx_map bi). oa_sqnum addr \<le> bi_next_sqnum bi"
  shows "\<exists>bi' objs'. ostore_write_obj_list gc K bi objs flag = Some (None, bi', objs') \<and> store_ok bi' \<and>
    length objs' = length objs \<and>
    (\<forall>j < length objs. \<forall>buf len. rd32 (objs ! j) 16 \<le> len \<and> unat len \<le> length buf \<longrightarrow>
       ostore_read_obj K bi' (rd64 (objs ! j) 24) buf len = Some (None, bi', splice buf 0 (obj_bytes (objs' ! j)))) \<and>
    (\<forall>j < length objs. drop 24 (objs' ! j) = drop 24 (objs ! j) \<and> rd32 (objs' ! j) 16 = rd32 (objs ! j) 16) \<and>
    (\<forall>oid. oid \<notin> (\<lambda>obj. rd64 obj 24) ` set objs \<longrightarrow> idx_map bi' oid = idx_map bi oid)"
proof -
  from write_fits_ok [OF assms(1,2) _ assms(5,6), of gc K] assms(3) obtain bi' objs' where
    w: "ostore_write_obj_list gc K bi objs flag = Some (None, bi', objs')" "store_ok bi'"
    "wbuf_ok (bi_wbuf bi')" "written K bi objs bi' objs'" by (auto simp: writer_ok_def)
  have len: "length objs' = length objs" and lnum: "fsm_get_lnum bi' = fsm_get_lnum bi"
    using w(4) by (auto simp: written_def)
  have hd: "drop 24 (objs' ! j) = drop 24 (objs ! j)" "rd32 (objs' ! j) 16 = rd32 (objs ! j) 16" if "j < length objs" for j
    using w(4) that by (auto simp: written_def headed_def)
  note idx = written_index [OF w(4) _ assms(4) _ assms(7)]
  have live: "\<forall>obj \<in> set objs. is_live_type (rd8 obj 20)" "unat (bi_next_sqnum bi) + length objs < 2 ^ 64"
    using assms(3,5) by (auto simp: trans_fits_def room_for_def)
  have ok: "wbuf_ok (bi_wbuf bi)" using assms(1) by (simp add: writer_ok_def)
  have "ostore_read_obj K bi' (rd64 (objs ! j) 24) buf len = Some (None, bi', splice buf 0 (obj_bytes (objs' ! j)))"
    if j: "j < length objs" and l: "rd32 (objs ! j) 16 \<le> len" "unat len \<le> length buf" for j buf len
  proof -
    have "unat (rd32 (objs ! j) 16) \<le> length buf" using l by (simp add: word_le_nat_alt)
    then show ?thesis
      using read_buffered [OF store_okD(1) [OF w(2)] idx(1) [OF live j], of len buf K]
        written_bytes [OF w(4) ok w(3) j] l hd(2) [OF j] by (simp add: lnum)
  qed
  then show ?thesis using w(1,2) len hd idx(2) [OF live] by blast
qed

text \<open>
  A transaction of inode, data and directory objects that fits in the write-buffer is written
  completely: \<open>ostore_write_obj_list\<close> succeeds, the invariants hold afterwards, reading any of
  its objects by id returns the bytes that were written, with the payload the caller passed, and
  the address of every other object is unchanged. The result does not depend on the garbage
  collector.
\<close>

lemma ostore_write_then_read:
  assumes "writer_ok bi" "objs \<noteq> []" "\<forall>obj \<in> set objs. trans_obj_ok obj \<and> is_live_type (rd8 obj 20)"
    and "distinct (map (\<lambda>obj. rd64 obj 24) objs)" "trans_fits bi objs" "\<not> OSW_SYNC flag"
    and "\<forall>addr \<in> ran (idx_map bi). oa_sqnum addr \<le> bi_next_sqnum bi"
  shows "\<exists>bi' objs'. ostore_write_obj_list gc K bi objs flag = Some (None, bi', objs') \<and> store_ok bi' \<and>
    length objs' = length objs \<and>
    (\<forall>j < length objs. \<forall>buf len. rd32 (objs ! j) 16 \<le> len \<and> unat len \<le> length buf \<longrightarrow>
       ostore_read_obj K bi' (rd64 (objs ! j) 24) buf len = Some (None, bi', splice buf 0 (obj_bytes (objs' ! j)))) \<and>
    (\<forall>j < length objs. drop 24 (objs' ! j) = drop 24 (objs ! j) \<and> rd32 (objs' ! j) 16 = rd32 (objs ! j) 16) \<and>
    (\<forall>oid. oid \<notin> (\<lambda>obj. rd64 obj 24) ` set objs \<longrightarrow> idx_map bi' oid = idx_map bi oid)"
  using assms by (rule write_then_read)

definition demo_inode_obj :: buf where
  "demo_inode_obj = stores (replicate 96 0) [(24, le_enc 8 (1 :: u64)), (16, le_enc 4 (96 :: u32))]"

lemma demo_inode_obj_reads: "length demo_inode_obj = 96" "rd32 demo_inode_obj 16 = 96" "rd64 demo_inode_obj 24 = 1"
  "rd8 demo_inode_obj 20 = 0"
proof -
  have "rd8 (replicate 96 0) 20 = 0" by code_simp
  then show "length demo_inode_obj = 96" "rd32 demo_inode_obj 16 = 96" "rd64 demo_inode_obj 24 = 1"
    "rd8 demo_inode_obj 20 = 0"
    by (simp_all add: demo_inode_obj_def store_reads)
qed

lemma demo_writer: "writer_ok demo_store" "trans_fits demo_store [demo_inode_obj]"
  "trans_obj_ok demo_inode_obj" "is_live_type (rd8 demo_inode_obj 20)"
proof -
  show "writer_ok demo_store"
    using demo_store_ok(1) unfolding writer_ok_def
    by (simp add: demo_store_def wbuf_ok_def fsm_get_lnum_def pool_shape_def info_on_def)
  have "rd32 (replicate 4096 0) 24 = 0" by code_simp
  then show "trans_fits demo_store [demo_inode_obj]"
    by (simp add: trans_fits_def room_for_def demo_store_def sum_reserve_def sum_room_def sum_entry_offs_def
        demo_inode_obj_reads ALIGN_8)
  show "trans_obj_ok demo_inode_obj" "is_live_type (rd8 demo_inode_obj 20)"
    using demo_inode_obj_reads by (simp_all add: trans_obj_ok_def is_live_type_def)
qed

lemma ostore_write_then_read_example:
  "\<exists>bi' obj'. ostore_write_obj_list (\<lambda>bi. None) demo_kernel demo_store [demo_inode_obj] OSW_NONE = Some (None, bi', [obj']) \<and>
     ostore_read_obj demo_kernel bi' 1 (replicate 96 7) 96 = Some (None, bi', splice (replicate 96 7) 0 (obj_bytes obj'))"
proof -
  have seq: "\<forall>addr \<in> ran (idx_map demo_store). oa_sqnum addr \<le> bi_next_sqnum demo_store"
    by (simp add: demo_store_map demo_addr_def) (simp add: demo_store_def)
  obtain bi' objs' where b: "ostore_write_obj_list (\<lambda>bi. None) demo_kernel demo_store [demo_inode_obj] OSW_NONE = Some (None, bi', objs')"
    "length objs' = 1"
    "\<forall>buf len. 96 \<le> len \<and> unat len \<le> length buf \<longrightarrow>
       ostore_read_obj demo_kernel bi' 1 buf len = Some (None, bi', splice buf 0 (obj_bytes (objs' ! 0)))"
    using ostore_write_then_read [OF demo_writer(1), of "[demo_inode_obj]" OSW_NONE "\<lambda>bi. None" demo_kernel]
      demo_writer demo_inode_obj_reads seq
    by (auto simp: OSW_NONE_def)
  then obtain obj' where "objs' = [obj']" by (auto simp: length_Suc_conv)
  moreover have "unat (96 :: u32) \<le> length (replicate 96 (7 :: u8))" by simp
  ultimately show ?thesis using b(1) b(3) [rule_format, of 96 "replicate 96 7"] by (simp only: nth_Cons_0) auto
qed


section \<open>Writes of the garbage collector\<close>

text \<open>
  With \<open>OSW_GC\<close> the write path never calls the garbage collector, so the collector, which writes
  with this flag, does not call itself.
\<close>

lemma new_eb_gc: "OSW_GC flag \<Longrightarrow> ostore_new_eb gc bi flag = ostore_new_eb gc' bi flag"
  by (simp add: ostore_new_eb_def fsm_alloc_eb_def fsm_check_free_space_def Let_def split: option.splits)

lemma write_gc_irrelevant:
  "OSW_GC flag \<Longrightarrow> ostore_write_obj_list gc K bi objs flag = ostore_write_obj_list gc' K bi objs flag"
  unfolding ostore_write_obj_list_def using new_eb_gc [of flag gc _ gc'] by (simp only:)

end
