(* ===== verification/Bilby_Fsprops.thy ===== *)
theory Bilby_Fsprops
  imports Bilby_Fsop Bilby_Trans
begin

unbundle bit_operations_syntax

text \<open>
  Properties of \<open>fsop.c\<close> that go through all layers: an inode and a block of a file that are
  written are read back, read-only mode, and the statistics of the volume.
\<close>

section \<open>Inodes and blocks through the store\<close>

lemma ids_differ:
  assumes "unat blk < 2 ^ 29"
  shows "inode_id_init ino \<noteq> NIL_ID" "data_id_init ino blk \<noteq> NIL_ID" "inode_id_init ino \<noteq> data_id_init ino' blk"
proof -
  have "blk AND mask 29 = blk" using assms by (simp add: word_unat_eq_iff unat_and_mask)
  moreover have "\<not> bit (blk AND mask 29) 30" by (simp add: bit_simps)
  ultimately have b: "\<not> bit blk 30" by simp
  have "\<not> bit (inode_id_init ino) 29" "bit (data_id_init ino' blk) 29" "\<not> bit (data_id_init ino blk) 30"
    using b by (simp_all add: inode_id_init_def data_id_init_def bit_simps)
  moreover have "bit NIL_ID 29" "bit NIL_ID 30" by (simp_all add: bit_numeral_word_iff) 
  ultimately show "inode_id_init ino \<noteq> NIL_ID" "data_id_init ino blk \<noteq> NIL_ID" "inode_id_init ino \<noteq> data_id_init ino' blk"
    by metis+
qed

lemma rdw_drop: "24 \<le> off \<Longrightarrow> drop 24 b' = drop 24 b \<Longrightarrow> rdw n b' off = rdw n b off"
proof -
  assume "24 \<le> off" "drop 24 b' = drop 24 b"
  then have "drop (off - 24) (drop 24 b') = drop (off - 24) (drop 24 b)" "off - 24 + 24 = off" by simp_all
  then show ?thesis by (simp add: rdw_def)
qed

lemma unpack_inode_drop:
  assumes "length b' = length b" "drop 24 b' = drop 24 b" "96 \<le> length b"
  shows "unpack_obj_inode inode b' = unpack_obj_inode inode b"
  using assms by (simp add: unpack_obj_inode_def getw_Some rdw_drop [OF _ assms(2)])

lemma splice_prefix: "n \<le> length b \<Longrightarrow> splice b 0 (take n b) = b"
  by (simp add: splice_def)


lemma packed_inode:
  fixes inode :: inode
  assumes "length b = 96"
  defines "obj \<equiv> stores b (inode_stores inode)"
  shows "pack_obj_inode b inode = Some obj" "trans_obj_ok obj" "length obj = 96" "rd32 obj 16 = 96"
    "rd8 obj 20 = BILBYFS_INODE_OBJ" "rd64 obj 24 = inode_id_init (i_ino inode)"
proof -
  show "pack_obj_inode b inode = Some obj" using assms by (simp add: pack_obj_inode_stores)
  show f: "length obj = 96" "rd32 obj 16 = 96" "rd8 obj 20 = BILBYFS_INODE_OBJ" "rd64 obj 24 = inode_id_init (i_ino inode)"
    using assms by (simp_all add: inode_stores_def store_reads)
  show "trans_obj_ok obj" using f ids_differ(1) [of 0] by (simp add: trans_obj_ok_def is_live_type_def)
qed

text \<open>The inode that \<open>unpack_obj_inode\<close> makes of the object for \<open>inode\<close>.\<close>

definition stored_inode :: "inode \<Rightarrow> inode \<Rightarrow> inode" where
  "stored_inode inode inode0 = inode0\<lparr>i_mode := i_mode inode, i_nlink := i_nlink inode,
      i_uid := i_uid inode, i_gid := i_gid inode, i_size := i_size inode,
      i_atime := i_atime inode, i_mtime := i_mtime inode, i_ctime := i_ctime inode,
      i_flags := i_flags inode0 OR (S_NOCMTIME OR S_NOATIME),
      bi_creat_sqnum := bi_creat_sqnum inode, bi_flags := bi_flags inode\<rparr>"

lemma unpack_stored:
  assumes "length b = 96"
  shows "unpack_obj_inode inode0 (stores b (inode_stores inode)) = Some (stored_inode inode inode0)"
  using assms by (simp add: unpack_obj_inode_def inode_stores_def store_reads stored_inode_def)

lemma write_inode_iget_any:
  assumes "writer_ok bi" "room_for bi 96 1" "\<forall>addr \<in> ran (idx_map bi). oa_sqnum addr \<le> bi_next_sqnum bi"
  shows "\<exists>bi'. fsop_write_inode K bi inode = Some (None, bi') \<and> store_ok bi' \<and>
    (\<forall>inode0. fsop_iget K bi' (i_ino inode) inode0 =
       Some (case validate_inode (stored_inode inode inode0) of
               None \<Rightarrow> (None, bi', bilbyfs_set_inode_flags (stored_inode inode inode0))
             | Some e \<Rightarrow> (Some e, bi', stored_inode inode inode0))) \<and>
    (\<forall>oid. oid \<noteq> inode_id_init (i_ino inode) \<longrightarrow> idx_map bi' oid = idx_map bi oid)"
proof -
  let ?obj = "stores (uninit K 96) (inode_stores inode)"
  note obj = packed_inode [of "uninit K 96" inode, OF length_uninit]
  have fits: "trans_fits bi [?obj]" using assms(2) obj(4) by (simp add: trans_fits_def)
  have w: "\<exists>bi' objs'. ostore_write K bi [?obj] OSW_NONE = Some (None, bi', objs') \<and> store_ok bi' \<and>
    length objs' = length [?obj] \<and>
    (\<forall>j < length [?obj]. \<forall>buf len. rd32 ([?obj] ! j) 16 \<le> len \<and> unat len \<le> length buf \<longrightarrow>
       ostore_read_obj K bi' (rd64 ([?obj] ! j) 24) buf len = Some (None, bi', splice buf 0 (obj_bytes (objs' ! j)))) \<and>
    (\<forall>j < length [?obj]. drop 24 (objs' ! j) = drop 24 ([?obj] ! j) \<and> rd32 (objs' ! j) 16 = rd32 ([?obj] ! j) 16) \<and>
    (\<forall>oid. oid \<notin> (\<lambda>obj. rd64 obj 24) ` set [?obj] \<longrightarrow> idx_map bi' oid = idx_map bi oid)"
    unfolding ostore_write_def
    by (rule write_then_read [OF assms(1) _ _ _ fits _ assms(3)]) (use obj in \<open>simp_all add: is_live_type_def OSW_NONE_def\<close>)
  then obtain bi' obj' where
    b: "ostore_write K bi [?obj] OSW_NONE = Some (None, bi', [obj'])" "store_ok bi'"
    "\<And>buf len. 96 \<le> len \<Longrightarrow> unat len \<le> length buf \<Longrightarrow>
       ostore_read_obj K bi' (inode_id_init (i_ino inode)) buf len = Some (None, bi', splice buf 0 (obj_bytes obj'))"
    "drop 24 obj' = drop 24 ?obj" "rd32 obj' 16 = 96" "\<And>oid. oid \<noteq> inode_id_init (i_ino inode) \<Longrightarrow> idx_map bi' oid = idx_map bi oid"
    using obj(4,6) by (auto simp: length_Suc_conv)
  let ?r = "splice (uninit K 96) 0 (obj_bytes obj')"
  have "length obj' = 96" using arg_cong [OF b(4), of length] obj(3) by simp
  then have r: "?r = obj'" by (simp add: b(5) splice_def)
  have "unpack_obj_inode inode0 ?r = Some (stored_inode inode inode0)" for inode0
    unfolding r using unpack_inode_drop [of obj' ?obj inode0] unpack_stored [of "uninit K 96" inode0 inode]
      b(4) obj(3) \<open>length obj' = 96\<close> by simp
  then have "fsop_iget K bi' (i_ino inode) inode0 = Some (case validate_inode (stored_inode inode inode0) of
               None \<Rightarrow> (None, bi', bilbyfs_set_inode_flags (stored_inode inode inode0))
             | Some e \<Rightarrow> (Some e, bi', stored_inode inode inode0))" for inode0
    using b(3) [of 96 "uninit K 96"] by (simp add: fsop_iget_def split: option.split)
  moreover have "fsop_write_inode K bi inode = Some (None, bi')"
    using obj(1) b(1) by (simp add: fsop_write_inode_def)
  ultimately show ?thesis using b(2,6) by blast
qed


lemma write_inode_iget:
  assumes "writer_ok bi" "room_for bi 96 1" "\<forall>addr \<in> ran (idx_map bi). oa_sqnum addr \<le> bi_next_sqnum bi"
    and "i_size inode \<le> word_of_int BILBYFS_MAX_FILE_SZ"
  shows "\<exists>bi'. fsop_write_inode K bi inode = Some (None, bi') \<and> store_ok bi' \<and>
    fsop_iget K bi' (i_ino inode) inode0 = Some (None, bi', bilbyfs_set_inode_flags (stored_inode inode inode0)) \<and>
    (\<forall>oid. oid \<noteq> inode_id_init (i_ino inode) \<longrightarrow> idx_map bi' oid = idx_map bi oid)"
proof -
  have "validate_inode (stored_inode inode inode0) = None"
    using assms(4) by (simp add: validate_inode_def stored_inode_def)
  then show ?thesis using write_inode_iget_any [OF assms(1-3), of K inode] by fastforce
qed

lemma packed_data:
  fixes sz :: int and data :: buf and oid :: obj_id
  assumes "0 \<le> sz" "sz \<le> 4096" "nat sz \<le> length data" "length b = 4136" "oid \<noteq> NIL_ID"
  shows "\<exists>obj. pack_obj_data b oid sz data = Some obj \<and> trans_obj_ok obj \<and> length obj = 4136 \<and>
    unat (rd32 obj 16) = nat (ALIGN (40 + sz) 8) \<and> rd8 obj 20 = BILBYFS_DATA_OBJ \<and> rd64 obj 24 = oid \<and>
    rd32 obj 32 = word_of_int sz \<and> take (nat sz) (drop 40 obj) = take (nat sz) data"
proof -
  let ?fs = "[(36, replicate 4 0), (40, take (nat sz) data), (32, le_enc 4 (word_of_int sz :: u32)),
    (24, le_enc 8 oid), (16, le_enc 4 (word_of_int (ALIGN (40 + sz) 8) :: u32)), (20, le_enc 1 (1 :: u8))]"
  let ?b = "stores b ?fs"
  have al: "40 + sz \<le> ALIGN (40 + sz) 8" "ALIGN (40 + sz) 8 \<le> 4136" "8 dvd ALIGN (40 + sz) 8"
    using ALIGN_8_ge [of "40 + sz"] ALIGN_8_mono [of "40 + sz" 4136] ALIGN_8_dvd assms by (auto simp: ALIGN_8)
  have p: "pack_obj_data b oid sz data = Some ?b"
    using assms al by (simp add: pack_obj_data_def zero_obj_data_unused_def len_to_le32_ok put_stores
        buf_get_Some min_absorb2)
  have t: "take (nat sz) (drop 40 ?b) = take (nat sz) data"
    using assms by (simp add: stores.simps drop_splice_after take_drop_splice_eq min_absorb2)
  have f: "length ?b = 4136" "rd32 ?b 16 = word_of_int (ALIGN (40 + sz) 8)" "rd8 ?b 20 = 1" "rd64 ?b 24 = oid"
    "rd32 ?b 32 = word_of_int sz"
    using assms by (simp_all add: store_reads min_absorb2)
  have u: "unat (rd32 ?b 16) = nat (ALIGN (40 + sz) 8)"
    unfolding f(2) by (rule int_words(4)) (use al assms in linarith)+
  have "8 dvd nat (ALIGN (40 + sz) 8)" using al assms by (simp add: nat_dvd_iff flip: int_dvd_int_iff)
  moreover have "32 \<le> nat (ALIGN (40 + sz) 8)" "nat (ALIGN (40 + sz) 8) \<le> 4136" using al assms by linarith+
  ultimately have "trans_obj_ok ?b"
    using f u al assms by (simp add: trans_obj_ok_def is_live_type_def)
  then show ?thesis using p t f u by blast
qed


lemma read_block_stored:
  assumes "ostore_read_obj K bi (data_id_init (i_ino inode) (word_of_int block)) (bi_odata bi) 4136 = Some (None, bi, odata)"
    and "rd32 odata 32 = word_of_int sz" "0 \<le> sz" "sz \<le> 4096" "length odata = 4136" "length addr = 4096"
  shows "read_block K bi inode addr block =
    Some (None, bi\<lparr>bi_odata := odata\<rparr>, take (nat sz) (drop 40 odata) @ replicate (4096 - nat sz) 0)"
proof -
  let ?bytes = "take (nat sz) (drop 40 odata)"
  have l: "length ?bytes = nat sz" "nat sz \<le> 4096" using assms by auto
  have s: "sint (rd32 odata 32) = sz" unfolding assms(2) by (rule int_words(3)) (use assms in linarith)+
  have "buf_get odata 40 (nat sz) = Some ?bytes" using assms(5) l by (simp add: buf_get_Some)
  moreover have "buf_put addr 0 ?bytes = Some (splice addr 0 ?bytes)" using assms(6) l by (simp add: buf_put_Some)
  moreover have "buf_fill (splice addr 0 ?bytes) (nat sz) 0 (nat (4096 - sz)) = Some (?bytes @ replicate (4096 - nat sz) 0)"
    using assms(3,4,6) l by (simp add: buf_fill_Some splice_def nat_diff_distrib)
  ultimately show ?thesis
    using assms(1,3,4,5) s by (simp add: read_block_def getw_Some Let_def)
qed

lemma page_offset:
  assumes "0 \<le> len" "pos mod 4096 + len \<le> 4096"
  shows "sint ((word_of_int pos AND 0xFFF :: u32) + word_of_int len) = pos mod 4096 + len"
proof -
  have "pos AND 0xFFF = pos mod 4096" using take_bit_eq_mask [of 12 pos] by (simp add: take_bit_eq_mod mask_eq_exp_minus_1)
  then have "(word_of_int pos AND 0xFFF :: u32) = word_of_int (pos mod 4096)"
    using of_int_and_eq [of pos "0xFFF", where 'a = u32] by simp
  moreover have "0 \<le> pos mod 4096" by simp
  then have "sint (word_of_int (pos mod 4096 + len) :: u32) = pos mod 4096 + len"
    using assms by (intro int_words(3)) linarith+
  ultimately show ?thesis by simp
qed

lemma block_words:
  assumes "0 \<le> block" "block < 2 ^ 29"
  shows "unat (word_of_int block :: u32) < 2 ^ 29" "ucast (word_of_int block :: u64) = (word_of_int block :: u32)"
    "sint (word_of_int block :: u32) = block"
proof -
  have b: "block < 2147483648" "nat block < 536870912" using assms by (simp_all add: nat_less_iff)
  show "unat (word_of_int block :: u32) < 2 ^ 29" "sint (word_of_int block :: u32) = block"
    using int_words(3,4) [OF assms(1) b(1)] b(2) by simp_all
  have "uint (ucast (word_of_int block :: u64) :: u32) = uint (word_of_int block :: u32)"
    using int_words(1,2) [OF assms(1) b(1)] b assms(1) by (simp add: unsigned_ucast_eq unsigned_take_bit_eq take_bit_int_eq_self)
  then show "ucast (word_of_int block :: u64) = (word_of_int block :: u32)" by (simp add: word_uint_eq_iff)
qed


lemma read_pages_odata:
  "wbuf_read_obj_pages K (bi\<lparr>bi_odata := x\<rparr>) addr r = wbuf_read_obj_pages K bi addr r"
  by (simp add: wbuf_read_obj_pages_def)

lemma read_obj_odata:
  "ostore_read_obj K (bi\<lparr>bi_odata := x\<rparr>) k buf l =
     map_option (\<lambda>(e, b, buf). (e, b\<lparr>bi_odata := x\<rparr>, buf)) (ostore_read_obj K bi k buf l)"
  by (auto simp: ostore_read_obj_def idx_get_obj_addr_def wbuf_read_obj_def read_pages_odata fsm_get_lnum_def
      Let_def bilbyfs_assert_bind split: option.splits sum.splits bind_splits)

lemma write_end_ok:
  fixes inode :: inode and addr addr' :: buf
  assumes ew: "endw = pos mod 4096 + len" and bl: "block = pos div 4096"
    and bi: "writer_ok bi" "\<not> bi_is_ro bi" "length (bi_odata bi) = 4136"
      "\<forall>addr \<in> ran (idx_map bi). oa_sqnum addr \<le> bi_next_sqnum bi"
    and pos: "0 \<le> pos" "0 \<le> len" "endw \<le> 4096" "block < 2 ^ 29"
    and addr: "length addr = 4096" "length addr' = 4096"
    and room: "room_for bi (96 + nat (ALIGN (40 + endw) 8)) 2"
  shows "\<exists>bi' bi'' inode'. fsop_write_end K env bi inode pos len addr = Some (None, bi', inode') \<and> store_ok bi' \<and>
    i_ino inode' = i_ino inode \<and> i_mtime inode' = env_now env \<and>
    read_block K bi' inode' addr' block =
      Some (None, bi'', take (nat endw) addr @ replicate (4096 - nat endw) 0)"
proof -
  define inode' where "inode' = (if (ucast (i_size inode) :: u32) < word_of_int (pos + len)
    then inode\<lparr>i_size := word_of_int (pos + len)\<rparr> else inode)\<lparr>i_mtime := env_now env\<rparr>"
  define ob where "ob = stores (uninit K 96) (inode_stores inode')"
  let ?blk = "word_of_int block :: u32"
  let ?oid = "data_id_init (i_ino inode) ?blk"
  have b0: "0 \<le> block" using bl pos(1) by (simp add: pos_imp_zdiv_nonneg_iff)
  note blk = block_words [OF b0 pos(4)]
  have e0: "0 \<le> endw" using pos(2) unfolding ew by (intro add_nonneg_nonneg) simp_all
  have start: "sint ((word_of_int pos AND 0xFFF :: u32) + word_of_int len) = endw"
    using page_offset [of len pos] pos ew by simp
  note obj = packed_inode [of "uninit K 96" inode', OF length_uninit, folded ob_def]
  have "nat endw \<le> length addr" using pos(3) addr(1) by simp
  from packed_data [OF e0 pos(3) this bi(3) ids_differ(2) [OF blk(1)]] obtain od where
    od: "pack_obj_data (bi_odata bi) ?oid endw addr = Some od" "trans_obj_ok od" "length od = 4136"
    "unat (rd32 od 16) = nat (ALIGN (40 + endw) 8)" "rd8 od 20 = BILBYFS_DATA_OBJ" "rd64 od 24 = ?oid"
    "rd32 od 32 = word_of_int endw" "take (nat endw) (drop 40 od) = take (nat endw) addr" by blast
  have ino: "i_ino inode' = i_ino inode" "i_mtime inode' = env_now env" by (simp_all add: inode'_def)
  have fits: "trans_fits bi [ob, od]" 
  proof -
    have "total_len [ob, od] = 96 + nat (ALIGN (40 + endw) 8)" "length [ob, od] = 2" using obj(4) od(4) by simp_all
    then show ?thesis using room by (simp only: trans_fits_def)
  qed
  have live: "\<forall>obj \<in> set [ob, od]. trans_obj_ok obj \<and> is_live_type (rd8 obj 20)"
    using obj(2,5) od(2,5) by (simp add: is_live_type_def)
  have dist: "distinct (map (\<lambda>obj. rd64 obj 24) [ob, od])"
    using ids_differ(3) [OF blk(1)] obj(6) od(6) by simp
  from write_then_read [OF bi(1) _ live dist fits _ bi(4), of OSW_NONE "gc_garbage_collect K" K] obtain bi' objs' where
    w: "ostore_write K bi [ob, od] OSW_NONE = Some (None, bi', objs')" "store_ok bi'" "length objs' = 2"
    "\<And>buf len. rd32 od 16 \<le> len \<Longrightarrow> unat len \<le> length buf \<Longrightarrow>
       ostore_read_obj K bi' ?oid buf len = Some (None, bi', splice buf 0 (obj_bytes (objs' ! 1)))"
    "drop 24 (objs' ! 1) = drop 24 od" "rd32 (objs' ! 1) 16 = rd32 od 16"
    unfolding ostore_write_def using od(6) by (auto simp: OSW_NONE_def less_Suc_eq numeral_2_eq_2)
  let ?od = "objs' ! 1"
  have lo: "length ?od = 4136" using arg_cong [OF w(5), of length] od(3) by simp
  have t: "take (nat endw) (drop 40 ?od) = take (nat endw) addr"
    using od(8) arg_cong [OF w(5), of "drop 16"] by simp
  have "ALIGN (40 + endw) 8 \<le> 4136" using ALIGN_8_mono [of "40 + endw" 4136] pos(3) by (simp add: ALIGN_8)
  then have le: "unat (rd32 od 16) \<le> 4136" using od(4) by simp
  then have "ostore_read_obj K bi' ?oid ?od 4136 = Some (None, bi', ?od)"
    using w(4) [of 4136 ?od] lo w(6) by (simp add: word_le_nat_alt splice_prefix)
  then have "ostore_read_obj K (bi'\<lparr>bi_odata := ?od\<rparr>) ?oid ?od 4136 = Some (None, bi'\<lparr>bi_odata := ?od\<rparr>, ?od)"
    by (simp add: read_obj_odata)
  moreover have "rd32 ?od 32 = word_of_int endw" 
    using rdw_drop [where n = 4 and off = 32 and 'a = 32, OF _ w(5)] od(7) by simp
  ultimately have "read_block K (bi'\<lparr>bi_odata := ?od\<rparr>) inode' addr' block =
      Some (None, bi'\<lparr>bi_odata := ?od\<rparr>, take (nat endw) addr @ replicate (4096 - nat endw) 0)"
    using read_block_stored [of K "bi'\<lparr>bi_odata := ?od\<rparr>" inode' block ?od endw addr'] e0 pos(3) lo addr(2) t ino(1)
    by simp
  moreover have "fsop_write_end K env bi inode pos len addr = Some (None, bi'\<lparr>bi_odata := ?od\<rparr>, inode')"
    using bi(2) obj(1) od(1) w(1) start blk(2) ino bl
    by (simp add: fsop_write_end_def Let_def inode'_def)
  moreover have "store_ok (bi'\<lparr>bi_odata := ?od\<rparr>)" using w(2) store_cong(4) [of "bi'\<lparr>bi_odata := ?od\<rparr>" bi'] by simp
  ultimately show ?thesis using ino by blast
qed


section \<open>Properties\<close>

text \<open>
  C7. Writing an inode and reading it back by its number gives all the attributes that are stored
  on flash: \<open>fsop_write_inode\<close> and then \<open>fsop_iget\<close> succeed, through object packing, the log, the
  index and unpacking, and the other objects of the index stay where they were.
\<close>

theorem fsop_write_inode_iget:
  assumes "writer_ok bi" "room_for bi BILBYFS_INODE_SZ 1"
    and "\<forall>addr \<in> ran (idx_map bi). oa_sqnum addr \<le> bi_next_sqnum bi"
    and "i_size inode \<le> word_of_int BILBYFS_MAX_FILE_SZ"
  shows "\<exists>bi'. fsop_write_inode K bi inode = Some (None, bi') \<and> store_ok bi' \<and>
    fsop_iget K bi' (i_ino inode) inode0 = Some (None, bi', bilbyfs_set_inode_flags (stored_inode inode inode0)) \<and>
    (\<forall>oid. oid \<noteq> inode_id_init (i_ino inode) \<longrightarrow> idx_map bi' oid = idx_map bi oid)"
  using write_inode_iget [of bi inode] assms by simp

definition demo_inode :: inode where
  "demo_inode = \<lparr>i_ino = 24, i_mode = 0x41ED, i_nlink = 2, i_uid = 0, i_gid = 0, i_size = 0, i_atime = 5,
     i_mtime = 6, i_ctime = 7, i_flags = 0, bi_creat_sqnum = 9, bi_flags = 0\<rparr>"

lemma demo_store_seq: "\<forall>addr \<in> ran (idx_map demo_store). oa_sqnum addr \<le> bi_next_sqnum demo_store"
  by (simp add: demo_store_map demo_addr_def) (simp add: demo_store_def)

lemma demo_store_room: "bytes + 128 \<le> 4096 \<Longrightarrow> n \<le> 2 \<Longrightarrow> room_for demo_store bytes n"
proof -
  assume a: "bytes + 128 \<le> 4096" "n \<le> 2"
  have "rd32 (replicate 4096 0) 24 = 0" by code_simp
  moreover have "ALIGN (32 + int n * 26) 8 \<le> 88" using ALIGN_8_mono [of "32 + int n * 26" 88] a(2) by (simp add: ALIGN_8)
  ultimately show ?thesis
    using a by (simp add: room_for_def demo_store_def sum_reserve_def sum_room_def sum_entry_offs_def ALIGN_8)
qed

theorem fsop_write_inode_iget_witness:
  "\<exists>bi'. fsop_write_inode demo_kernel demo_store demo_inode = Some (None, bi') \<and>
     fsop_iget demo_kernel bi' 24 demo_inode =
       Some (None, bi', bilbyfs_set_inode_flags (stored_inode demo_inode demo_inode))"
  using fsop_write_inode_iget [OF demo_writer(1) _ demo_store_seq, of demo_inode demo_kernel demo_inode]
    demo_store_room [of 96 1] by (auto simp: demo_inode_def)

text \<open>
  C18. A write of \<open>len\<close> bytes at \<open>pos\<close> that stays in one block: \<open>fsop_write_end\<close> stores the inode and
  the block in one transaction, and the block reads back as the page up to the end of the write
  and zeroes from there on. Bytes of the block behind the end of the write are gone, even where
  the file is longer: the data object is cut at \<open>end\<close> and not at the end of the file.
\<close>

theorem fsop_write_end_stores_prefix:
  assumes "endw = pos mod BILBYFS_BLOCK_SIZE + len" "block = pos div BILBYFS_BLOCK_SIZE"
    and "writer_ok bi" "\<not> bi_is_ro bi" "length (bi_odata bi) = BILBYFS_MAX_DATA_SZ"
      "\<forall>addr \<in> ran (idx_map bi). oa_sqnum addr \<le> bi_next_sqnum bi"
    and "0 \<le> pos" "0 \<le> len" "endw \<le> BILBYFS_BLOCK_SIZE" "block < 2 ^ 29"
    and "length addr = nat BILBYFS_BLOCK_SIZE" "length addr' = nat BILBYFS_BLOCK_SIZE"
    and "room_for bi (BILBYFS_INODE_SZ + nat (ALIGN (obj_data_size_with_data endw) 8)) 2"
  shows "\<exists>bi' bi'' inode'. fsop_write_end K env bi inode pos len addr = Some (None, bi', inode') \<and> store_ok bi' \<and>
    i_ino inode' = i_ino inode \<and> i_mtime inode' = env_now env \<and>
    read_block K bi' inode' addr' block =
      Some (None, bi'', take (nat endw) addr @ replicate (4096 - nat endw) 0)"
  by (rule write_end_ok [where bi = bi]) (use assms in \<open>simp_all add: obj_data_size_with_data_def\<close>)

theorem fsop_write_end_stores_prefix_witness:
  "\<exists>bi' bi'' inode'. fsop_write_end demo_kernel \<lparr>env_now = 9, env_fsuid = 0, env_fsgid = 0\<rparr> demo_store
       (demo_inode\<lparr>i_size := 4096\<rparr>) 2 3 (replicate 4096 7) = Some (None, bi', inode') \<and>
     read_block demo_kernel bi' inode' (replicate 4096 1) 0 =
       Some (None, bi'', replicate 5 7 @ replicate 4091 0)"
proof -
  have "\<not> bi_is_ro demo_store" "length (bi_odata demo_store) = BILBYFS_MAX_DATA_SZ"
    by (simp_all add: demo_store_def info_on_def)
  then show ?thesis
    using fsop_write_end_stores_prefix [OF _ _ demo_writer(1) _ _ demo_store_seq, of 5 2 3 0 "replicate 4096 7"
        "replicate 4096 1" demo_kernel "\<lparr>env_now = 9, env_fsuid = 0, env_fsgid = 0\<rparr>" "demo_inode\<lparr>i_size := 4096\<rparr>"]
      demo_store_room [of 144 2]
    by (auto simp: obj_data_size_with_data_def ALIGN_8)
qed

text \<open>
  On a file system that is mounted read-only, or that has become so after a fatal error, every
  operation that would change it returns \<open>EROFS\<close> and changes neither the file system nor the
  inodes it was given; eviction does nothing.
\<close>

lemma fsop_read_only:
  assumes "bi_is_ro bi"
  shows "fsop_create K env bi dir name mode inode = Some (Some EROFS, bi, dir, inode) \<and>
    fsop_mkdir K env bi dir name mode inode = Some (Some EROFS, bi, dir, inode) \<and>
    fsop_link K env bi inode dir name = Some (Some EROFS, bi, inode, dir) \<and>
    fsop_unlink K env bi dir name inode = Some (Some EROFS, bi, dir, inode) \<and>
    fsop_rmdir K env bi dir name inode = Some (Some EROFS, bi, dir, inode) \<and>
    fsop_symlink K env bi dir name symname inode = Some (Some EROFS, bi, dir, inode) \<and>
    fsop_rename K env bi ist p q r s t u = Some (Some EROFS, bi, ist) \<and>
    fsop_write_begin K bi inode pos len addr = Some (Some EROFS, bi, addr) \<and>
    fsop_write_end K env bi inode pos len addr = Some (Some EROFS, bi, inode) \<and>
    fsop_setattr K env bi inode attr = Some (Some EROFS, bi, inode) \<and>
    fsop_evict_inode K bi inode = Some bi"
  using assms
  by (simp add: fsop_create_def fsop_mkdir_def fsop_link_def fsop_unlink_def fsop_rmdir_def fsop_symlink_def
      fsop_rename_def fsop_write_begin_def fsop_write_end_def fsop_setattr_def fsop_evict_inode_def Let_def)

lemma fsop_read_only_example:
  "fsop_create demo_kernel \<lparr>env_now = 9, env_fsuid = 0, env_fsgid = 0\<rparr> (bilbyfs_ro_mode demo_store) demo_inode [97] 0
     demo_inode = Some (Some EROFS, bilbyfs_ro_mode demo_store, demo_inode, demo_inode)"
  using fsop_read_only [of "bilbyfs_ro_mode demo_store"] by (simp add: bilbyfs_ro_mode_def)

text \<open>
  \<open>fsop_statfs\<close> multiplies the size and the number of the erase-blocks as 32-bit integers. On a
  volume of a multiple of 4 GiB with a free block the product is 0 and the call stops the machine
  at the check that the free blocks are not more than all blocks.
\<close>

lemma fsop_statfs_overflow:
  assumes "2 ^ 32 dvd su_leb_size (bi_super bi) * su_leb_cnt (bi_super bi)"
    and "fsm_get_free_space bi = Some free" "4096 \<le> free"
  shows "fsop_statfs bi = None"
proof -
  have "(word_of_int (su_leb_size (bi_super bi) * su_leb_cnt (bi_super bi)) :: u32) = 0"
    using assms(1) by (simp add: word_of_int_eq_0_iff del: of_int_mult)
  moreover have "\<not> drop_bit 12 free \<le> 0"
  proof -
    have "1 \<le> unat free div 4096" using assms(3) by (simp add: word_le_nat_alt div_greater_zero_iff Suc_le_eq)
    then have "unat (drop_bit 12 free) \<noteq> 0" unfolding unat_drop_bit_eq by (simp add: drop_bit_eq_div)
    then show ?thesis by (simp add: unat_eq_0)
  qed
  ultimately show ?thesis using assms(2)
    by (auto simp: fsop_statfs_def ostore_get_free_space_def Let_def bilbyfs_assert_bind split: bind_splits)
qed


definition demo_4g :: "unit bilbyfs_info" where
  "demo_4g = zero_info\<lparr>bi_super := zero_super\<lparr>su_leb_cnt := 4, su_leb_size := 2 ^ 30\<rparr>,
     bi_used_leb_list := [False, False, False, False], bi_dirty_list := [0, 0, 0, 0], bi_fsm_nb_free_eb := 4\<rparr>"

lemma fsop_statfs_overflow_example: "fsop_statfs demo_4g = None"
proof -
  have "fsm_ok demo_4g" by (simp add: fsm_ok_def demo_4g_def nb_used_def all_less_3)
  from fsm_get_free_space_correct [OF this] have "fsm_get_free_space demo_4g = Some (2 ^ 30)"
    by (simp add: demo_4g_def)
  then show ?thesis by (rule fsop_statfs_overflow [rotated]) (simp_all add: demo_4g_def)
qed

end
