(* ===== verification/Bilby_Pages.thy ===== *)
theory Bilby_Pages
  imports Bilby_Wrapper Bilby_Fsprops
begin

unbundle bit_operations_syntax

text \<open>
  The page cache operations of \<open>os/linux/wrapper.c\<close> through all layers: a page that is written back is
  read back, where the position in the file stops fitting into an \<open>int\<close>, and a page that is declared
  valid although nothing was read into it.
\<close>

lemma down_ok: "w_sem w = 1 \<Longrightarrow> down w = Some (w\<lparr>w_sem := 0\<rparr>)"
  by (simp add: down_def)

section \<open>Positions in a file\<close>

text \<open>
  Positions and sizes are \<open>loff_t\<close>, 64-bit words that the code shifts as signed values; \<open>pos\<close> of
  \<open>fsop_write_begin\<close> and \<open>fsop_write_end\<close> is an \<open>int\<close>.
\<close>

lemma loff_words:
  assumes "0 \<le> s" "s < 2 ^ 63"
  shows "uint (word_of_int s :: u64) = s" "sint (word_of_int s :: u64) = s"
proof -
  show "uint (word_of_int s :: u64) = s" using assms by (simp add: unsigned_of_int take_bit_int_eq_self)
  show "sint (word_of_int s :: u64) = s" using assms by (simp add: signed_of_int signed_take_bit_int_eq_self)
qed

lemma loff_shift:
  assumes "0 \<le> s" "s < 2 ^ 63"
  shows "signed_drop_bit 12 (word_of_int s :: u64) = word_of_int (s div 4096)"
proof -
  have "signed_drop_bit 12 (word_of_int s :: u64) = word_of_int (sint (signed_drop_bit 12 (word_of_int s :: u64)))" by simp
  then show ?thesis unfolding sint_signed_drop_bit_eq loff_words(2)[OF assms] by (simp add: drop_bit_int_def)
qed

lemma loff_offset: "(word_of_int s AND 0xFFF :: u64) = word_of_int (s mod 4096)"
proof -
  have "s AND 0xFFF = s mod 4096" using take_bit_eq_mask [of 12 s] by (simp add: take_bit_eq_mod mask_eq_exp_minus_1)
  then show ?thesis using of_int_and_eq [of s "0xFFF", where 'a = u64] by simp
qed

lemma page_pos:
  assumes "0 \<le> i" "i < 2 ^ 51"
  shows "push_bit 12 (word_of_int i :: u64) = word_of_int (i * 4096)"
  by (simp add: push_bit_of_int push_bit_int_def)

lemma c_int_small: "0 \<le> p \<Longrightarrow> p < 2147483648 \<Longrightarrow> c_int (word_of_int p) = p"
  by (simp add: c_int_def unsigned_of_int signed_of_int signed_take_bit_int_eq_self take_bit_int_eq_self)

lemma fsop_write_end_size:
  "fsop_write_end K env bi inode pos len addr = Some (None, bi', inode') \<Longrightarrow>
   i_size inode' = (if (ucast (i_size inode) :: u32) < word_of_int (pos + len) then word_of_int (pos + len) else i_size inode)"
  by (auto simp: fsop_write_end_def Let_def split: Option.bind_splits if_splits)

lemma loff_less:
  assumes "0 \<le> x" "x < 2 ^ 63" "0 \<le> y" "y < 2 ^ 63"
  shows "(word_of_int x :: u64) < word_of_int y \<longleftrightarrow> x < y" "(word_of_int x :: u64) = word_of_int y \<longleftrightarrow> x = y"
  using loff_words(1)[OF assms(1,2)] loff_words(1)[OF assms(3,4)]
  by (simp add: word_less_def, metis)

section \<open>Writing and reading a page\<close>

lemma kmap_simps [simp]:
  "pg_data (kmap p) = pg_data p" "pg_index (kmap p) = pg_index p" "pg_uptodate (kmap p) = pg_uptodate p"
  "pg_data (kunmap p) = pg_data p" "pg_index (kunmap p) = pg_index p" "pg_uptodate (kunmap p) = pg_uptodate p"
  by (simp_all add: kmap_def kunmap_def)

text \<open>How \<open>bilbyfs_writepage\<close> works on a page that is in the file.\<close>

lemma writepage_step:
  fixes page :: page and w :: "'u wrap"
  assumes w: "w_sem w = 1" "i_size (w_inode w a) = word_of_int s" "0 \<le> s" "s < 2 ^ 63"
    and page: "pg_locked page" "length (pg_data page) = 4096" "pg_index page = word_of_int i" "0 \<le> i" "i * 4096 < s"
    and n: "n = min 4096 (s - i * 4096)"
  shows "bilbyfs_writepage K env w a page =
    do {
      (err, bi, inode) \<leftarrow> fsop_write_end K env (w_bi w) (w_inode w a) (c_int (word_of_int (i * 4096))) n
        (take (nat n) (pg_data page) @ replicate (4096 - nat n) 0);
      Some (err, (put_inode a inode (put_bi bi w)),
        page\<lparr>pg_data := take (nat n) (pg_data page) @ replicate (4096 - nat n) 0, pg_locked := False, pg_writeback := False\<rparr>)
    }"
proof -
  have i: "i < 2 ^ 51" using page(5) w(4) by simp
  have idx: "signed_drop_bit 12 (word_of_int s :: u64) = word_of_int (s div 4096)" by (rule loff_shift[OF w(3,4)])
  define q r where "q = s div 4096" and "r = s mod 4096"
  have s: "s = q * 4096 + r" "0 \<le> r" "r < 4096" "0 \<le> q" using w(3) by (simp_all add: q_def r_def pos_imp_zdiv_nonneg_iff)
  have q: "q < 2 ^ 51" using s w(4) by simp
  have cmp: "(word_of_int q :: u64) < word_of_int i \<longleftrightarrow> q < i" "(word_of_int i :: u64) = word_of_int q \<longleftrightarrow> i = q"
    using loff_less[of q i] loff_less(2)[of i q] q i page(4) s(4) by simp_all
  have inside: "\<not> (q < i \<or> i = q \<and> r = 0)" "n = (if i \<noteq> q then 4096 else r)"
    using page(5) s n by auto
  have r: "uint (word_of_int r :: u64) = r" using s by (intro loff_words(1)) simp_all
  have n0: "0 \<le> n" "n \<le> 4096" using inside(2) s by (simp_all split: if_splits)
  have fill: "buf_fill (pg_data page) (nat n) 0 (nat (4096 - n)) = Some (take (nat n) (pg_data page) @ replicate (4096 - nat n) 0)"
    using n0 page(2) by (simp add: buf_fill_Some splice_def nat_diff_distrib)
  have st: "up (put_inode a inode (put_bi bi (w\<lparr>w_sem := 0\<rparr>))) = put_inode a inode (put_bi bi w)" for inode bi
    using w(1) by (simp add: up_def put_inode_def put_bi_def)
  have pg: "unlock_page (kunmap (kmap (kunmap (kmap (page\<lparr>pg_writeback := True\<rparr>)\<lparr>pg_data := d\<rparr>)))) =
      Some (page\<lparr>pg_data := d, pg_locked := False, pg_writeback := True\<rparr>)" for d
    using page(1) by (simp add: unlock_page_def kunmap_def kmap_def)
  have len: "(if (word_of_int i :: u64) \<noteq> word_of_int q then 4096 else r) = n" using inside(2) cmp(2) by simp
  show ?thesis
    unfolding bilbyfs_writepage_def Let_def w(2) page(3) BILBYFS_BLOCK_SHIFT_def BILBYFS_BLOCK_SIZE_def idx loff_offset
      q_def[symmetric] r_def[symmetric] cmp(1) r page_pos[OF page(4) i] len
    using inside(1) cmp(2)
    by (auto simp: down_ok[OF w(1)] fill st pg case_prod_unfold)
qed

lemma readpage_inside:
  assumes "i_size inode = word_of_int s" "0 \<le> s" "s < 2147483648" "0 \<le> i" "i * 4096 < s"
  shows "fsop_readpage K bi inode (word_of_int i) addr = read_block K bi inode addr i"
proof -
  have big: "s < 2 ^ 63" "i < 2 ^ 63" "s div 4096 < 2 ^ 63" "i < 2 ^ 29" using assms by simp_all
  have "0 \<le> s div 4096" using assms by simp
  note cmp = loff_less[OF this big(3) assms(4) big(2)] loff_less(2)[OF assms(4) big(2) this big(3)]
  have "sint (ucast (word_of_int i :: u64) :: u32) = i"
    using assms(4) big(4) by (simp add: unsigned_of_int signed_of_int signed_take_bit_int_eq_self take_bit_int_eq_self)
  moreover have "\<not> s div 4096 < i" "i = s div 4096 \<longrightarrow> s mod 4096 \<noteq> 0" using assms by auto
  ultimately show ?thesis
    using loff_shift[OF assms(2) big(1)] loff_words(2)[OF assms(2) big(1)] cmp
    by (auto simp: fsop_readpage_def Let_def assms(1))
qed

lemma writepage_readpage_ok:
  fixes w :: "'u wrap" and page page' :: page
  assumes w: "w_sem w = 1" "writer_ok (w_bi w)" "\<not> bi_is_ro (w_bi w)" "length (bi_odata (w_bi w)) = 4136"
      "\<forall>addr \<in> ran (idx_map (w_bi w)). oa_sqnum addr \<le> bi_next_sqnum (w_bi w)"
    and size: "i_size (w_inode w a) = word_of_int s" "0 \<le> s" "s < 2147483648"
    and page: "pg_locked page" "length (pg_data page) = 4096" "pg_index page = word_of_int i" "0 \<le> i" "i * 4096 < s"
    and page': "pg_locked page'" "length (pg_data page') = 4096" "pg_index page' = word_of_int i"
    and n: "n = min 4096 (s - i * 4096)"
    and room: "room_for (w_bi w) (96 + nat (ALIGN (40 + n) 8)) 2"
  shows "\<exists>w1 p1 w2 p2. bilbyfs_writepage K env w a page = Some (None, w1, p1) \<and> \<not> pg_locked p1 \<and> w_sem w1 = 1 \<and>
    bilbyfs_readpage K w1 a page' = Some (None, w2, p2) \<and> \<not> pg_locked p2 \<and> pg_uptodate p2 \<and> w_sem w2 = 1 \<and>
    pg_data p1 = take (nat n) (pg_data page) @ replicate (4096 - nat n) 0 \<and> pg_data p2 = pg_data p1"
proof -
  let ?d = "take (nat n) (pg_data page) @ replicate (4096 - nat n) 0"
  have s63: "s < 2 ^ 63" using size by simp
  have n0: "0 \<le> n" "n \<le> 4096" using n page(5) by auto
  have ld: "length ?d = 4096" using n0 page(2) by auto
  have pos: "c_int (word_of_int (i * 4096)) = i * 4096" using page(4,5) size by (intro c_int_small) simp_all
  note step = writepage_step[OF w(1) size(1,2) s63 page n]
  have "\<exists>bi' bi'' inode'. fsop_write_end K env (w_bi w) (w_inode w a) (i * 4096) n ?d = Some (None, bi', inode') \<and> store_ok bi' \<and>
    i_ino inode' = i_ino (w_inode w a) \<and> i_mtime inode' = env_now env \<and>
    read_block K bi' inode' (pg_data page') i = Some (None, bi'', take (nat n) ?d @ replicate (4096 - nat n) 0)"
    by (rule write_end_ok[where bi = "w_bi w"]) (use w n0 page page' size room ld in simp_all)
  then obtain bi' bi'' inode' where
    we: "fsop_write_end K env (w_bi w) (w_inode w a) (i * 4096) n ?d = Some (None, bi', inode')"
    and rb: "read_block K bi' inode' (pg_data page') i = Some (None, bi'', take (nat n) ?d @ replicate (4096 - nat n) 0)"
    by blast
  have sz: "i_size inode' = word_of_int s"
  proof -
    have e: "0 \<le> i * 4096 + n" "i * 4096 + n \<le> s" using n n0 page(4,5) by simp_all
    have "uint (word_of_int x :: u32) = x" if "0 \<le> x" "x \<le> s" for x
      using that size(3) by (simp add: unsigned_of_int take_bit_int_eq_self)
    from this[OF e] this[of s] have "\<not> (ucast (i_size (w_inode w a)) :: u32) < word_of_int (i * 4096 + n)"
      using e size by (simp add: size(1) unsigned_of_int word_less_def take_bit_int_eq_self del: of_int_add of_int_mult)
    then show ?thesis using fsop_write_end_size[OF we] size(1) by simp
  qed
  have rp: "fsop_readpage K bi' inode' (word_of_int i) (pg_data page') = Some (None, bi'', ?d)"
    using readpage_inside[OF sz size(2,3) page(4,5), of K bi' "pg_data page'"] rb n0 page(2) by simp
  show ?thesis
    using step we rp w(1) page' unfolding pos
    by (simp add: bilbyfs_readpage_def down_def up_def put_bi_def put_inode_def Let_def unlock_page_def kmap_def kunmap_def)
qed

section \<open>Properties\<close>

definition demo_wrap :: "inode \<Rightarrow> unit wrap" where
  "demo_wrap inode = \<lparr>w_bi = demo_store, w_sem = 1, w_inode = (\<lambda>a. inode),
     w_tables = (\<lambda>a. \<lparr>i_op = default_operations, i_fop = default_operations, a_ops = default_operations\<rparr>),
     w_link = (\<lambda>a. Null), w_private = (\<lambda>a. Null), w_calls = []\<rparr>"

lemma demo_wrap_sel [simp]:
  "w_bi (demo_wrap inode) = demo_store" "w_sem (demo_wrap inode) = 1" "w_inode (demo_wrap inode) a = inode"
  "w_calls (demo_wrap inode) = []"
  by (simp_all add: demo_wrap_def)

lemma demo_store_sel [simp]: "\<not> bi_is_ro demo_store" "length (bi_odata demo_store) = 4136"
  by (simp_all add: demo_store_def info_on_def)

lemma demo_page_sel [simp]:
  "pg_locked (demo_page i)" "pg_data (demo_page i) = replicate 4096 7" "pg_index (demo_page i) = i" "\<not> pg_uptodate (demo_page i)"
  by (simp_all add: demo_page_def)

text \<open>
  C5. Writing a dirty page back and reading it again: for a page of a file below 2 GiB that starts before
  the end of the file, \<open>bilbyfs_writepage\<close> zeroes what lies behind the end of the file, stores the
  block with the inode in one transaction, and unlocks the page; \<open>bilbyfs_readpage\<close> of that index
  then fills any page with the same 4096 bytes and marks it as valid. The semaphore is free after
  both.
\<close>

theorem writepage_then_readpage:
  assumes "w_sem w = 1" "writer_ok (w_bi w)" "\<not> bi_is_ro (w_bi w)" "length (bi_odata (w_bi w)) = BILBYFS_MAX_DATA_SZ"
      "\<forall>addr \<in> ran (idx_map (w_bi w)). oa_sqnum addr \<le> bi_next_sqnum (w_bi w)"
    and "i_size (w_inode w a) = word_of_int s" "0 \<le> s" "s < 2147483648"
    and "pg_locked page" "length (pg_data page) = 4096" "pg_index page = word_of_int i" "0 \<le> i" "i * BILBYFS_BLOCK_SIZE < s"
    and "pg_locked page'" "length (pg_data page') = 4096" "pg_index page' = word_of_int i"
    and "n = min BILBYFS_BLOCK_SIZE (s - i * BILBYFS_BLOCK_SIZE)"
    and "room_for (w_bi w) (BILBYFS_INODE_SZ + nat (ALIGN (obj_data_size_with_data n) 8)) 2"
  shows "\<exists>w1 p1 w2 p2. bilbyfs_writepage K env w a page = Some (None, w1, p1) \<and> \<not> pg_locked p1 \<and> w_sem w1 = 1 \<and>
    bilbyfs_readpage K w1 a page' = Some (None, w2, p2) \<and> \<not> pg_locked p2 \<and> pg_uptodate p2 \<and> w_sem w2 = 1 \<and>
    pg_data p1 = take (nat n) (pg_data page) @ replicate (4096 - nat n) 0 \<and> pg_data p2 = pg_data p1"
  by (rule writepage_readpage_ok[where w = w]) (use assms in \<open>simp_all add: obj_data_size_with_data_def\<close>)

theorem writepage_then_readpage_witness:
  "\<exists>w1 p1 w2 p2. bilbyfs_writepage demo_kernel \<lparr>env_now = 9, env_fsuid = 0, env_fsgid = 0\<rparr> (demo_wrap (demo_inode\<lparr>i_size := 10\<rparr>)) 24
       (demo_page 0) = Some (None, w1, p1) \<and> bilbyfs_readpage demo_kernel w1 24 (demo_page 0) = Some (None, w2, p2) \<and>
     pg_data p2 = replicate 10 7 @ replicate 4086 0"
proof -
  have "room_for demo_store (BILBYFS_INODE_SZ + nat (ALIGN (obj_data_size_with_data 10) 8)) 2"
    using demo_store_room[of 152 2] by (simp add: obj_data_size_with_data_def ALIGN_8)
  then show ?thesis
    using writepage_then_readpage[of "demo_wrap (demo_inode\<lparr>i_size := 10\<rparr>)" 24 10 "demo_page 0" 0 "demo_page 0" 10 demo_kernel
        "\<lparr>env_now = 9, env_fsuid = 0, env_fsgid = 0\<rparr>"] demo_writer(1) demo_store_seq
    by (auto simp: demo_inode_def)
qed

text \<open>
  C40. \<open>bilbyfs_writepage\<close> passes the position of the page, a \<open>loff_t\<close>, to the \<open>int\<close> parameter of
  \<open>fsop_write_end\<close>. The file size limit allows pages behind 4 GiB, but the page at 4 GiB is stored at
  position 0: block 0 of the file reads back as that page.
\<close>

theorem writepage_wraps_at_4g:
  fixes w :: "'u wrap" and page :: page
  assumes w: "w_sem w = 1" "writer_ok (w_bi w)" "\<not> bi_is_ro (w_bi w)" "length (bi_odata (w_bi w)) = BILBYFS_MAX_DATA_SZ"
      "\<forall>addr \<in> ran (idx_map (w_bi w)). oa_sqnum addr \<le> bi_next_sqnum (w_bi w)"
    and size: "i_size (w_inode w a) = word_of_int s" "2 ^ 32 + BILBYFS_BLOCK_SIZE \<le> s" "s \<le> BILBYFS_MAX_FILE_SZ"
    and page: "pg_locked page" "length (pg_data page) = nat BILBYFS_BLOCK_SIZE" "pg_index page = 2 ^ 20"
    and room: "room_for (w_bi w) (BILBYFS_INODE_SZ + BILBYFS_MAX_DATA_SZ) 2" "length addr = nat BILBYFS_BLOCK_SIZE"
  shows "\<exists>w1 p1 bi. bilbyfs_writepage K env w a page = Some (None, w1, p1) \<and>
    read_block K (w_bi w1) (w_inode w1 a) addr 0 = Some (None, bi, pg_data page)"
proof -
  have s: "0 \<le> s" "s < 2 ^ 63" "(2 ^ 20) * 4096 < s" "4096 = min 4096 (s - 2 ^ 20 * 4096)" using size by simp_all
  have idx: "pg_index page = word_of_int (2 ^ 20)" using page(3) by simp
  have l: "length (pg_data page) = 4096" using page(2) by simp
  have d: "take (nat 4096) (pg_data page) @ replicate (4096 - nat 4096) 0 = pg_data page" using l by simp
  note step = writepage_step[OF w(1) size(1) s(1,2) page(1) l idx _ s(3,4), unfolded d]
  have pos: "c_int (word_of_int (2 ^ 20 * 4096)) = 0" by (simp add: c_int_def)
  have "\<exists>bi' bi'' inode'. fsop_write_end K env (w_bi w) (w_inode w a) 0 4096 (pg_data page) = Some (None, bi', inode') \<and>
    store_ok bi' \<and> i_ino inode' = i_ino (w_inode w a) \<and> i_mtime inode' = env_now env \<and>
    read_block K bi' inode' addr 0 = Some (None, bi'', take (nat 4096) (pg_data page) @ replicate (4096 - nat 4096) 0)"
    by (rule write_end_ok[where bi = "w_bi w"]) (use w room l in \<open>simp_all add: ALIGN_8\<close>)
  then show ?thesis using step[of K env] unfolding pos d
    by (auto simp: put_inode_def put_bi_def)
qed

definition demo_big :: "unit bilbyfs_info" where
  "demo_big = demo_store\<lparr>bi_super := (bi_super demo_store)\<lparr>su_leb_size := 8192\<rparr>,
     bi_wbuf := \<lparr>wb_buf = replicate 8192 0, wb_size = 8192, wb_avail = 8192, wb_used = 0, wb_sync_offs = 0\<rparr>\<rparr>"

lemma demo_big_ok: "writer_ok demo_big" "room_for demo_big 4232 2"
  "\<forall>addr \<in> ran (idx_map demo_big). oa_sqnum addr \<le> bi_next_sqnum demo_big"
proof -
  have i: "idx_map demo_big = idx_map demo_store" by (simp add: idx_map_def demo_big_def fun_eq_iff)
  have "idx_ok demo_big = idx_ok demo_store" "gim_ok demo_big = gim_ok demo_store" "fsm_ok demo_big = fsm_ok demo_store"
    "addr_ok demo_big = addr_ok demo_store"
    by (simp_all add: idx_ok_def gim_ok_def fsm_ok_def addr_ok_def demo_big_def fun_eq_iff)
  then have "store_ok demo_big" using demo_store_ok(1) by (simp add: store_ok_def i)
  then show "writer_ok demo_big"
    unfolding writer_ok_def by (simp add: demo_big_def demo_store_def wbuf_ok_def fsm_get_lnum_def pool_shape_def info_on_def)
  have "rd32 (replicate 4096 0) 24 = 0" by code_simp
  then show "room_for demo_big 4232 2"
    by (simp add: room_for_def demo_big_def demo_store_def sum_reserve_def sum_room_def sum_entry_offs_def ALIGN_8)
  show "\<forall>addr \<in> ran (idx_map demo_big). oa_sqnum addr \<le> bi_next_sqnum demo_big"
    using demo_store_seq by (simp add: i) (simp add: demo_big_def)
qed

theorem writepage_wraps_at_4g_witness:
  "\<exists>w1 p1 bi. bilbyfs_writepage demo_kernel \<lparr>env_now = 9, env_fsuid = 0, env_fsgid = 0\<rparr>
       (put_bi demo_big (demo_wrap (demo_inode\<lparr>i_size := 5000000000\<rparr>))) 24 (demo_page (2 ^ 20)) = Some (None, w1, p1) \<and>
     read_block demo_kernel (w_bi w1) (w_inode w1 24) (replicate 4096 0) 0 = Some (None, bi, replicate 4096 7)"
proof -
  have "\<not> bi_is_ro demo_big" "length (bi_odata demo_big) = 4136" by (simp_all add: demo_big_def)
  then show ?thesis
    using writepage_wraps_at_4g[of "put_bi demo_big (demo_wrap (demo_inode\<lparr>i_size := 5000000000\<rparr>))" 24 5000000000 "demo_page (2 ^ 20)"
        "replicate 4096 0" demo_kernel "\<lparr>env_now = 9, env_fsuid = 0, env_fsgid = 0\<rparr>"] demo_big_ok
    by (simp add: put_bi_def)
qed

text \<open>
  A write that starts at the end of a file whose size is a multiple of the block size: nothing is
  read, as \<open>fsop_readpage\<close> takes the page for one behind the file, and yet
  \<open>bilbyfs_write_begin\<close> marks the new page as valid. The page keeps whatever was in its memory, and
  the write that follows sets only a part of it.
\<close>

lemma write_begin_stale:
  assumes "w_sem w = 1" "\<not> bi_is_ro (w_bi w)" "i_size (w_inode w a) = pos" "pos = word_of_int s" "0 \<le> s" "s < 2147483648"
    and "s mod BILBYFS_BLOCK_SIZE = 0" "0 < sint len" "sint len \<le> BILBYFS_BLOCK_SIZE"
    and "v_grab_page V (w_calls w) (signed_drop_bit BILBYFS_BLOCK_SHIFT pos) = Some page" "\<not> pg_uptodate page"
  shows "bilbyfs_write_begin V K w a pos len = Some (None, w, Some (page\<lparr>pg_uptodate := True, pg_error := False\<rparr>))"
proof -
  have s: "s < 2 ^ 63" "0 \<le> s div 4096" using assms(5,6) by simp_all
  have sh: "signed_drop_bit 12 pos = word_of_int (s div 4096)" using loff_shift[OF assms(5) s(1)] assms(4) by simp
  have pos: "c_int pos = s" "sint pos = s" using assms(4-6) c_int_small loff_words(2)[OF assms(5) s(1)] by simp_all
  have "(word_of_int x :: u64) \<le> 4096" if "0 < x" "x \<le> 4096" for x
    using that by (simp add: word_le_def unsigned_of_int take_bit_int_eq_self)
  from this[of "sint len"] have len: "(word_of_int (sint len) :: u64) \<le> 4096" using assms(8,9) by simp
  have "fsop_write_begin K (w_bi w) (w_inode w a) s (sint len) (pg_data page) = Some (None, w_bi w, pg_data page)"
    using assms(2,3,7) sh pos(2) len by (simp add: fsop_write_begin_def fsop_readpage_def Let_def)
  moreover have "up (put_bi (w_bi w) (w\<lparr>w_sem := 0\<rparr>)) = w" using assms(1) by (simp add: up_def put_bi_def)
  ultimately show ?thesis
    using assms(1,10,11) pos(1)
    by (simp add: bilbyfs_write_begin_def Let_def down_ok) (simp add: kmap_def kunmap_def)
qed

lemma write_begin_stale_example:
  "bilbyfs_write_begin demo_vfs demo_kernel (demo_wrap (demo_inode\<lparr>i_size := 4096\<rparr>)) 24 4096 10 =
     Some (None, demo_wrap (demo_inode\<lparr>i_size := 4096\<rparr>), Some ((demo_page 1)\<lparr>pg_uptodate := True, pg_error := False\<rparr>))"
proof -
  have "signed_drop_bit BILBYFS_BLOCK_SHIFT (4096 :: u64) = 1" using loff_shift[of 4096] by simp
  then have "v_grab_page demo_vfs [] (signed_drop_bit BILBYFS_BLOCK_SHIFT 4096) = Some (demo_page 1)"
    by (simp add: demo_vfs_def)
  then show ?thesis
    by (intro write_begin_stale[where s = 4096]) simp_all
qed

end
