(* ===== verification/Bilby_Objmap.thy ===== *)
theory Bilby_Objmap
  imports Bilby_Trans
begin

text \<open>
  The object store as a finite map from ids to the bytes of the objects: \<open>obj_map\<close> reads each
  indexed address from the write-buffer or from the flash. The invariant \<open>log_ok\<close> says that the
  addresses lie in written parts of the log and that the objects carry their ids. Writing a
  transaction updates the map, and reading an object answers what the map has.
\<close>

section \<open>Objects of the log\<close>

text \<open>The current erase-block is in the write-buffer, the others are on the flash.\<close>

definition eb_bytes :: "('u \<Rightarrow> int \<Rightarrow> buf) \<Rightarrow> 'u bilbyfs_info \<Rightarrow> u32 \<Rightarrow> buf" where
  "eb_bytes content bi lnum =
     (if lnum = fsm_get_lnum bi then wb_buf (bi_wbuf bi) else content (bi_ubi bi) (uint lnum))"

definition log_bytes :: "('u \<Rightarrow> int \<Rightarrow> buf) \<Rightarrow> 'u bilbyfs_info \<Rightarrow> obj_addr \<Rightarrow> buf" where
  "log_bytes content bi addr =
     take (unat (oa_len addr)) (drop (unat (oa_offs addr)) (eb_bytes content bi (oa_lnum addr)))"

definition obj_map :: "('u \<Rightarrow> int \<Rightarrow> buf) \<Rightarrow> 'u bilbyfs_info \<Rightarrow> (obj_id \<rightharpoonup> buf)" where
  "obj_map content bi oid = map_option (log_bytes content bi) (idx_map bi oid)"

definition addr_in_log :: "'u bilbyfs_info \<Rightarrow> obj_addr \<Rightarrow> bool" where
  "addr_in_log bi addr \<longleftrightarrow> oa_sqnum addr \<le> bi_next_sqnum bi \<and>
     unat (oa_offs addr) + unat (oa_len addr) \<le>
       nat (if oa_lnum addr = fsm_get_lnum bi then wb_used (bi_wbuf bi) else su_leb_size (bi_super bi))"

definition carries_id :: "obj_id \<Rightarrow> buf \<Rightarrow> bool" where
  "carries_id oid b \<longleftrightarrow> 32 \<le> length b \<and> rd64 b 24 = oid \<and> is_live_type (rd8 b 20)"

definition log_ok :: "('u \<Rightarrow> int \<Rightarrow> buf) \<Rightarrow> 'u bilbyfs_info \<Rightarrow> bool" where
  "log_ok content bi \<longleftrightarrow> writer_ok bi \<and> (\<forall>addr \<in> ran (idx_map bi). addr_in_log bi addr) \<and>
     (\<forall>oid b. obj_map content bi oid = Some b \<longrightarrow> carries_id oid b)"

text \<open>What an object of a transaction does to the map.\<close>

definition put_obj :: "buf \<Rightarrow> (obj_id \<rightharpoonup> buf) \<Rightarrow> (obj_id \<rightharpoonup> buf)" where
  "put_obj obj m = (if is_live_type (rd8 obj 20) then m(rd64 obj 24 \<mapsto> obj_bytes obj)
     else m |` (- del_range (rd64 obj 24)))"

definition put_objs :: "buf list \<Rightarrow> (obj_id \<rightharpoonup> buf) \<Rightarrow> (obj_id \<rightharpoonup> buf)" where
  "put_objs = fold put_obj"

abbreviation sqnum_of :: "u8 \<times> obj_id \<times> obj_addr \<Rightarrow> u64" where
  "sqnum_of x \<equiv> oa_sqnum (snd (snd x))"

section \<open>Writing\<close>

text \<open>
  An object that is newer than all indexed ones replaces its version or removes its range, for
  every view \<open>f\<close> of addresses that shows the bytes of the object at its address.
\<close>

lemma spec_obj_newest:
  assumes "\<forall>a \<in> ran m. oa_sqnum a < oa_sqnum addr" "is_live_type (rd8 obj 20) \<or> rd8 obj 20 = BILBYFS_DEL_OBJ"
    and "f addr = obj_bytes obj"
  shows "\<exists>m' g'. spec_obj (rd8 obj 20) (rd64 obj 24) addr (m, g) = (m', g') \<and> ran m' \<subseteq> insert addr (ran m) \<and>
    (\<lambda>k. map_option f (m' k)) = put_obj obj (\<lambda>k. map_option f (m k))"
proof -
  have old: "older (m k) addr \<longleftrightarrow> m k \<noteq> None" for k
    using assms(1) by (cases "m k") (auto simp: older_def ran_def)
  show ?thesis
  proof (cases "is_live_type (rd8 obj 20)")
    case True
    then have "spec_obj (rd8 obj 20) (rd64 obj 24) addr (m, g) =
      (m(rd64 obj 24 \<mapsto> addr), if m (rd64 obj 24) = None then g else g(rd64 obj 24 \<mapsto> bump (g (rd64 obj 24)) addr))"
      by (auto simp: spec_obj_def newest_put_def old)
    moreover have "(\<lambda>k. map_option f ((m(rd64 obj 24 \<mapsto> addr)) k)) = put_obj obj (\<lambda>k. map_option f (m k))"
      using True assms(3) by (auto simp: put_obj_def)
    ultimately show ?thesis by (intro exI conjI) (assumption, auto simp: ran_def)
  next
    case False
    then have d: "rd8 obj 20 = BILBYFS_DEL_OBJ" using assms(2) by simp
    let ?m = "older_del m (del_range (rd64 obj 24)) addr"
    have "?m = m |` (- del_range (rd64 obj 24))"
      by (auto simp: older_del_def old fun_eq_iff restrict_map_def)
    moreover have "fst (spec_obj (rd8 obj 20) (rd64 obj 24) addr (m, g)) = ?m"
      using False d by (simp add: spec_obj_def)
    ultimately show ?thesis using False
      by (intro exI[of _ ?m] exI[of _ "snd (spec_obj (rd8 obj 20) (rd64 obj 24) addr (m, g))"])
         (auto simp: put_obj_def fun_eq_iff restrict_map_def ran_def prod_eq_iff)
  qed
qed

lemma spec_objs_newest:
  assumes "\<forall>a \<in> ran m. \<forall>x \<in> set xs. oa_sqnum a < sqnum_of x" "sorted_wrt (\<lambda>x y. sqnum_of x < sqnum_of y) xs"
    and "list_all2 (\<lambda>(ty, oid, addr) obj. ty = rd8 obj 20 \<and> oid = rd64 obj 24 \<and> f addr = obj_bytes obj) xs objs"
    and "\<forall>obj \<in> set objs. trans_obj_ok obj"
  shows "(\<lambda>k. map_option f (fst (spec_objs xs (m, g)) k)) = put_objs objs (\<lambda>k. map_option f (m k)) \<and>
    ran (fst (spec_objs xs (m, g))) \<subseteq> ran m \<union> (\<lambda>x. snd (snd x)) ` set xs"
  using assms(3,1,2,4)
proof (induction xs objs arbitrary: m g rule: list_all2_induct)
  case (Cons x xs obj objs)
  obtain addr where x: "x = (rd8 obj 20, rd64 obj 24, addr)" "f addr = obj_bytes obj" using Cons(1) by auto
  have "is_live_type (rd8 obj 20) \<or> rd8 obj 20 = BILBYFS_DEL_OBJ" using Cons.prems(3) by (auto simp: trans_obj_ok_def)
  from spec_obj_newest[where f = f and addr = addr and m = m and g = g, OF _ this x(2)] Cons.prems(1) x obtain m' g' where
    s: "spec_obj (rd8 obj 20) (rd64 obj 24) addr (m, g) = (m', g')" "ran m' \<subseteq> insert addr (ran m)"
    "(\<lambda>k. map_option f (m' k)) = put_obj obj (\<lambda>k. map_option f (m k))" by auto
  have "\<forall>a \<in> ran m'. \<forall>y \<in> set xs. oa_sqnum a < sqnum_of y"
    using s(2) Cons.prems(1,2) x by auto
  with Cons.IH[of m' g'] Cons.prems(2,3) s show ?case by (auto simp: x(1) put_objs_def)
qed (simp add: put_objs_def)

lemma put_objs_carry:
  assumes "\<forall>obj \<in> set objs. trans_obj_ok obj" "\<forall>oid b. m oid = Some b \<longrightarrow> carries_id oid b"
  shows "put_objs objs m oid = Some b \<Longrightarrow> carries_id oid b"
  using assms
proof (induction objs arbitrary: m)
  case (Cons obj objs)
  have "carries_id (rd64 obj 24) (obj_bytes obj)" if "is_live_type (rd8 obj 20)"
    using that Cons.prems(2) by (auto simp: carries_id_def trans_obj_ok_def rdw_def drop_take take_take min_def)
  then have "\<forall>oid b. put_obj obj m oid = Some b \<longrightarrow> carries_id oid b"
    using Cons.prems(3) by (auto simp: put_obj_def restrict_map_def split: if_splits)
  with Cons show ?case by (simp add: put_objs_def)
qed (simp add: put_objs_def)

lemma log_okD:
  assumes "log_ok content bi"
  shows "writer_ok bi" "store_ok bi" "wbuf_ok (bi_wbuf bi)" "idx_map bi oid = Some addr \<Longrightarrow> addr_in_log bi addr"
    "\<forall>addr \<in> ran (idx_map bi). oa_sqnum addr \<le> bi_next_sqnum bi"
    "obj_map content bi oid = Some b \<Longrightarrow> carries_id oid b"
  using assms by (auto simp: log_ok_def writer_ok_def addr_in_log_def ran_def)

text \<open>What was in the log before a transaction stays there.\<close>

lemma old_bytes:
  assumes w: "written K bi objs bi' objs'" "write_frame n bi bi'" "wbuf_ok (bi_wbuf bi)" and a: "addr_in_log bi addr"
  shows "log_bytes content bi' addr = log_bytes content bi addr"
proof (cases "oa_lnum addr = fsm_get_lnum bi")
  case True
  let ?u = "nat (wb_used (bi_wbuf bi))" and ?b = "wb_buf (bi_wbuf bi)" and ?b' = "wb_buf (bi_wbuf bi')"
  note wr = w(1)[unfolded written_def]
  have u: "?u \<le> nat (wb_used (bi_wbuf bi'))" "?u \<le> length ?b" using wr w(3) by (auto simp: wbuf_ok_def)
  have "take ?u ?b' = take ?u (take (nat (wb_used (bi_wbuf bi'))) ?b')" using u(1) by (simp add: min_def)
  also have "take (nat (wb_used (bi_wbuf bi'))) ?b' = take ?u ?b @ concat (map obj_bytes objs')" using wr by blast
  also have "take ?u \<dots> = take ?u ?b" using u(2) by simp
  finally have pre: "take ?u ?b' = take ?u ?b" .
  have "unat (oa_offs addr) + unat (oa_len addr) \<le> ?u" using a True by (simp add: addr_in_log_def)
  then have "take (unat (oa_len addr)) (drop (unat (oa_offs addr)) x) =
      take (unat (oa_len addr)) (drop (unat (oa_offs addr)) (take ?u x))" for x :: buf
    by (simp add: drop_take min_def)
  from this[of ?b'] this[of ?b] pre have
    "take (unat (oa_len addr)) (drop (unat (oa_offs addr)) ?b') = take (unat (oa_len addr)) (drop (unat (oa_offs addr)) ?b)"
    by simp
  then show ?thesis using True wr by (simp add: log_bytes_def eb_bytes_def)
next
  case False
  then show ?thesis using w(1,2) by (simp add: log_bytes_def eb_bytes_def written_def write_frame_def)
qed

lemma write_log_ok:
  assumes log: "log_ok content bi" and objs: "objs \<noteq> []" "\<forall>obj \<in> set objs. trans_obj_ok obj"
    and fits: "trans_fits bi objs" "\<not> OSW_SYNC flag"
  shows "\<exists>bi' objs'. ostore_write_obj_list gc K bi objs flag = Some (None, bi', objs') \<and> log_ok content bi' \<and>
    write_frame (length objs) bi bi' \<and> length objs' = length objs \<and>
    (\<forall>j < length objs. drop 24 (objs' ! j) = drop 24 (objs ! j) \<and> rd32 (objs' ! j) 16 = rd32 (objs ! j) 16 \<and>
       rd8 (objs' ! j) 20 = rd8 (objs ! j) 20 \<and> trans_obj_ok (objs' ! j)) \<and>
    obj_map content bi' = put_objs objs' (obj_map content bi)"
proof -
  note l = log_okD[OF log]
  from write_fits_ok[OF l(1) objs fits, of gc K] obtain bi' objs' where
    w: "ostore_write_obj_list gc K bi objs flag = Some (None, bi', objs')" "writer_ok bi'"
    "write_frame (length objs) bi bi'" "written K bi objs bi' objs'" by blast
  let ?n = "length objs" and ?offs = "word_of_int (wb_used (bi_wbuf bi)) :: u32"
  let ?xs = "placed (fsm_get_lnum bi) ?offs objs'" and ?f = "log_bytes content bi'"
  note wr = w(4)[unfolded written_def]
  have ok': "wbuf_ok (bi_wbuf bi')" using w(2) by (simp add: writer_ok_def)
  have len: "length objs' = ?n" using wr by simp
  have hd: "headed K (bi_next_sqnum bi + 1 + of_nat j) (get_obj_trans (int ?n) (int j)) (objs ! j) (objs' ! j)" if "j < ?n" for j
    using wr that by simp
  have tok: "\<forall>obj \<in> set objs'. trans_obj_ok obj" using hd len by (auto simp: in_set_conv_nth headed_def)
  have sq: "unat (bi_next_sqnum bi) + ?n < 2 ^ 64" using fits(1) by (simp add: trans_fits_def room_for_def)
  have sqn: "sqnum_of (?xs ! j) = bi_next_sqnum bi + 1 + of_nat j" if "j < ?n" for j
    using hd[OF that] that len by (simp add: placed_nth headed_def)
  have usq: "unat (sqnum_of (?xs ! j)) = unat (bi_next_sqnum bi) + 1 + j" if "j < ?n" for j
    using sqn[OF that] sqnum_step[OF sq that] by simp
  have newer: "\<forall>a \<in> ran (idx_map bi). \<forall>x \<in> set ?xs. oa_sqnum a < sqnum_of x"
    using l(5) usq len by (fastforce simp: in_set_conv_nth word_less_nat_alt word_le_nat_alt)
  have sorted: "sorted_wrt (\<lambda>x y. sqnum_of x < sqnum_of y) ?xs"
    using usq len by (simp add: sorted_wrt_iff_nth_less word_less_nat_alt)
  have bytes: "list_all2 (\<lambda>(ty, oid, addr) obj. ty = rd8 obj 20 \<and> oid = rd64 obj 24 \<and> ?f addr = obj_bytes obj) ?xs objs'"
    using written_bytes(2)[OF w(4) l(3) ok'] wr len
    by (auto simp: list_all2_conv_all_nth placed_nth log_bytes_def eb_bytes_def)
  have idx: "idx_map bi' = fst (spec_objs ?xs (idx_map bi, gim_map bi))"
    using wr by (simp add: abs_store_def prod_eq_iff)
  note spec = spec_objs_newest[OF newer sorted bytes tok, of "gim_map bi"]
  have "map_option ?f (idx_map bi k) = obj_map content bi k" for k
    using old_bytes[OF w(4,3) l(3) l(4)] by (cases "idx_map bi k") (simp_all add: obj_map_def)
  then have "(\<lambda>k. map_option ?f (idx_map bi k)) = obj_map content bi" by (rule ext)
  moreover have "obj_map content bi' = (\<lambda>k. map_option ?f (idx_map bi' k))" by (rule ext) (simp add: obj_map_def)
  ultimately have map: "obj_map content bi' = put_objs objs' (obj_map content bi)"
    using conjunct1[OF spec] unfolding idx by simp
  have "addr_in_log bi' addr" if "addr \<in> ran (idx_map bi')" for addr
  proof -
    have next': "unat (bi_next_sqnum bi') = unat (bi_next_sqnum bi) + ?n"
      using w(3) sq by (simp add: write_frame_def unat_word_ariths unat_of_nat)
    have "addr \<in> ran (idx_map bi) \<union> (\<lambda>x. snd (snd x)) ` set ?xs" using that conjunct2[OF spec] unfolding idx by blast
    then consider "addr \<in> ran (idx_map bi)" | j where "j < ?n" "addr = snd (snd (?xs ! j))"
      using len by (auto simp: in_set_conv_nth)
    then show ?thesis
    proof cases
      case 1
      then have "addr_in_log bi addr" using log by (simp add: log_ok_def)
      then show ?thesis using wr w(3) next'
        by (auto simp: addr_in_log_def write_frame_def word_le_nat_alt split: if_splits)
    next
      case (2 j)
      have used: "0 \<le> wb_used (bi_wbuf bi)" using l(3) by (simp add: wbuf_ok_def)
      have tl: "total_len objs' = total_len objs"
        using total_len_headed[of objs' objs K "\<lambda>j. bi_next_sqnum bi + 1 + of_nat j" "\<lambda>j. get_obj_trans (int ?n) (int j)"] wr
        by blast
      let ?t = "total_len (take j objs')"
      have le: "?t + unat (rd32 (objs' ! j) 16) \<le> total_len objs" using total_len_take[of j objs'] 2(1) len tl by simp
      have a: "addr = \<lparr>oa_lnum = fsm_get_lnum bi, oa_offs = ?offs + of_nat ?t,
          oa_len = rd32 (objs' ! j) 16, oa_sqnum = rd64 (objs' ! j) 8\<rparr>" using 2 len by (simp add: placed_nth)
      have cap: "nat (wb_used (bi_wbuf bi)) + total_len objs < 2147483648"
        using wr ok' used by (auto simp: wbuf_ok_def)
      have "?offs + of_nat ?t = word_of_int (int (nat (wb_used (bi_wbuf bi)) + ?t))" using used by simp
      then have "unat (?offs + of_nat ?t :: u32) = nat (wb_used (bi_wbuf bi)) + ?t"
        using unat_of_small[of "nat (wb_used (bi_wbuf bi)) + ?t"] cap le by (simp only:)
      then show ?thesis using a wr le used usq[OF 2(1)] next' 2
        by (simp add: addr_in_log_def word_le_nat_alt)
    qed
  qed
  then have "log_ok content bi'"
    using w(2) map put_objs_carry[OF tok, of "obj_map content bi"] l(6) by (auto simp: log_ok_def)
  then show ?thesis using w(1,3) len hd map by (auto simp: headed_def)
qed


section \<open>Reading\<close>

text \<open>
  The geometry and the read-buffer that paged reading needs, and the expected answer of a read of
  an id that maps to \<open>obj\<close>. Reading changes the read-buffer only.
\<close>

definition flash_ok :: "'u kernel \<Rightarrow> ('u \<Rightarrow> int \<Rightarrow> buf) \<Rightarrow> 'u bilbyfs_info \<Rightarrow> bool" where
  "flash_ok K content bi \<longleftrightarrow> ubi_reads K content \<and> 0 < su_max_io_size (bi_super bi) \<and>
     (\<exists>k. su_min_io_size (bi_super bi) = 2 ^ k \<and> 2 ^ k dvd su_max_io_size (bi_super bi) \<and>
        2 ^ k dvd su_leb_size (bi_super bi)) \<and>
     (\<forall>l. length (content (bi_ubi bi) l) = nat (su_leb_size (bi_super bi))) \<and>
     length (rb_buf (bi_rbuf bi)) = nat (su_leb_size (bi_super bi))"

definition read_result :: "'u kernel \<Rightarrow> ('u \<Rightarrow> int \<Rightarrow> buf) \<Rightarrow> 'u bilbyfs_info \<Rightarrow> buf option \<Rightarrow> buf \<Rightarrow> u32 \<Rightarrow>
    (errno option \<times> 'u bilbyfs_info \<times> buf) option \<Rightarrow> bool" where
  "read_result K content bi obj buf len res \<longleftrightarrow>
     (case obj of
        None \<Rightarrow> res = Some (Some ENOENT, bi, buf)
      | Some b \<Rightarrow>
          if unat len < length b then res = Some (Some EINVAL, bi, buf)
          else \<exists>rbuf. flash_ok K content (bi\<lparr>bi_rbuf := rbuf\<rparr>) \<and> res = Some (None, bi\<lparr>bi_rbuf := rbuf\<rparr>, splice buf 0 b))"

lemma log_bytes_rbuf [simp]: "log_bytes content (bi\<lparr>bi_rbuf := r\<rparr>) = log_bytes content bi"
  by (rule ext) (simp add: log_bytes_def eb_bytes_def fsm_get_lnum_def)

lemma rbuf_update [simp]:
  "idx_map (bi\<lparr>bi_rbuf := r\<rparr>) = idx_map bi" "obj_map content (bi\<lparr>bi_rbuf := r\<rparr>) = obj_map content bi"
  "log_ok content (bi\<lparr>bi_rbuf := r\<rparr>) = log_ok content bi"
proof -
  show 1: "idx_map (bi\<lparr>bi_rbuf := r\<rparr>) = idx_map bi" by (simp add: idx_map_def fun_eq_iff)
  show 2: "obj_map content (bi\<lparr>bi_rbuf := r\<rparr>) = obj_map content bi"
    by (rule ext) (simp add: obj_map_def 1)
  have "writer_ok (bi\<lparr>bi_rbuf := r\<rparr>) = writer_ok bi"
    using store_cong[of "bi\<lparr>bi_rbuf := r\<rparr>" bi] by (simp add: writer_ok_def fsm_get_lnum_def)
  then show "log_ok content (bi\<lparr>bi_rbuf := r\<rparr>) = log_ok content bi"
    by (simp add: log_ok_def 1 2 addr_in_log_def fsm_get_lnum_def)
qed

lemma read_log_ok:
  assumes log: "log_ok content bi" and flash: "flash_ok K content bi" and len: "unat len \<le> length buf"
  shows "read_result K content bi (obj_map content bi oid) buf len (ostore_read_obj K bi oid buf len)"
proof (cases "idx_map bi oid")
  case None
  then show ?thesis using idx_get_map[of bi oid] store_okD(1)[OF log_okD(2)[OF log]]
    by (simp add: read_result_def obj_map_def ostore_read_obj_def)
next
  case (Some addr)
  note l = log_okD[OF log]
  have get: "idx_get_obj_addr bi oid = Some (Inr addr)" using Some idx_get_map[of bi oid] store_okD(1)[OF l(2)] by simp
  have a: "addr_in_log bi addr" by (rule l(4)[OF Some])
  let ?eb = "eb_bytes content bi (oa_lnum addr)" and ?b = "log_bytes content bi addr"
  have "unat (oa_offs addr) + unat (oa_len addr) \<le> length ?eb"
    using a flash l(3) by (auto simp: addr_in_log_def eb_bytes_def flash_ok_def wbuf_ok_def)
  then have lb: "length ?b = unat (oa_len addr)" by (simp add: log_bytes_def)
  have m: "obj_map content bi oid = Some ?b" using Some by (simp add: obj_map_def)
  have c: "carries_id oid ?b" by (rule l(6)[OF m])
  have lt: "len < oa_len addr \<longleftrightarrow> unat len < length ?b" by (simp add: lb word_less_nat_alt)
  show ?thesis
  proof (cases "unat len < length ?b")
    case True
    then show ?thesis using get lt m by (simp add: read_result_def ostore_read_obj_def)
  next
    case False
    then have le: "oa_len addr \<le> len" "unat (oa_len addr) \<le> length buf" using lt lb len by auto
    show ?thesis
    proof (cases "oa_lnum addr = fsm_get_lnum bi")
      case True
      have "ostore_read_obj K bi oid buf len = Some (None, bi\<lparr>bi_rbuf := bi_rbuf bi\<rparr>, splice buf 0 ?b)"
        using read_buffered[OF store_okD(1)[OF l(2)] Some True le(1) _ le(2), of K] a l(3) True
        by (auto simp: log_bytes_def eb_bytes_def addr_in_log_def wbuf_ok_def)
      then show ?thesis using False m flash unfolding read_result_def by (auto intro!: exI[of _ "bi_rbuf bi"])
    next
      case other: False
      from flash obtain k where k: "su_min_io_size (bi_super bi) = 2 ^ k" "2 ^ k dvd su_max_io_size (bi_super bi)"
        "2 ^ k dvd su_leb_size (bi_super bi)" by (auto simp: flash_ok_def)
      have leb: "0 \<le> su_leb_size (bi_super bi)" "su_leb_size (bi_super bi) < 2 ^ 31"
        using l(1) by (auto simp: writer_ok_def wbuf_ok_def)
      have rng: "uint (oa_offs addr) + uint (oa_len addr) \<le> int (nat (su_leb_size (bi_super bi)))"
      proof -
        have "unat (oa_offs addr) + unat (oa_len addr) \<le> nat (su_leb_size (bi_super bi))"
          using a other by (simp add: addr_in_log_def)
        then have "int (unat (oa_offs addr)) + int (unat (oa_len addr)) \<le> int (nat (su_leb_size (bi_super bi)))"
          by linarith
        then show ?thesis by (simp only: uint_nat)
      qed
      from wbuf_read_obj_ok[of K content bi k addr "nat (su_leb_size (bi_super bi))" buf] flash k leb rng le(2)
      obtain rbuf where r: "length (rb_buf rbuf) = nat (su_leb_size (bi_super bi))"
        "wbuf_read_obj K bi buf addr = Some (None, bi\<lparr>bi_rbuf := rbuf\<rparr>, splice buf 0 ?b)"
        using other by (auto simp: flash_ok_def log_bytes_def eb_bytes_def)
      have "get_obj_id (splice buf 0 ?b) 0 = Some oid"
        using c le(2) lb
        by (auto simp: carries_id_def get_obj_id_def getw_Some splice_def rdw_def is_live_type_def bilbyfs_assert_def)
      then have "ostore_read_obj K bi oid buf len = Some (None, bi\<lparr>bi_rbuf := rbuf\<rparr>, splice buf 0 ?b)"
        using get lt False other r(2) by (simp add: ostore_read_obj_def)
      moreover have "flash_ok K content (bi\<lparr>bi_rbuf := rbuf\<rparr>)" using flash r(1) by (simp add: flash_ok_def)
      ultimately show ?thesis using False m unfolding read_result_def by auto
    qed
  qed
qed

lemma write_frame_flash: "write_frame n bi bi' \<Longrightarrow> flash_ok K content bi' = flash_ok K content bi"
  by (simp add: flash_ok_def write_frame_def)


section \<open>The property\<close>

text \<open>
  C1. The object store implements a finite map from ids to objects. On a store whose objects lie
  in written parts of the log, a transaction that fits in the write-buffer succeeds and changes
  the map as the transaction says: an inode, data or directory object replaces the object with its id, a
  deletion object removes the range of ids it covers, and later objects of the transaction win.
  The bytes of the payload are the caller's. Afterwards every id reads as its object in the map:
  the whole object, from the write-buffer or page by page from the flash; \<open>EINVAL\<close> when the buffer is too
  small and \<open>ENOENT\<close> when there is none. The invariants hold again, so transactions can follow each other.
\<close>

theorem ostore_refines_object_map:
  assumes "log_ok content bi" "flash_ok K content bi" "objs \<noteq> []" "\<forall>obj \<in> set objs. trans_obj_ok obj"
    and "trans_fits bi objs" "\<not> OSW_SYNC flag" "unat len \<le> length buf"
  shows "\<exists>bi' objs'. ostore_write_obj_list gc K bi objs flag = Some (None, bi', objs') \<and>
    log_ok content bi' \<and> flash_ok K content bi' \<and> length objs' = length objs \<and>
    (\<forall>j < length objs. drop 24 (objs' ! j) = drop 24 (objs ! j) \<and> rd32 (objs' ! j) 16 = rd32 (objs ! j) 16 \<and>
       rd8 (objs' ! j) 20 = rd8 (objs ! j) 20) \<and>
    obj_map content bi' = put_objs objs' (obj_map content bi) \<and>
    read_result K content bi' (put_objs objs' (obj_map content bi) oid) buf len (ostore_read_obj K bi' oid buf len)"
proof -
  from write_log_ok[OF assms(1,3-6), of gc K] obtain bi' objs' where
    w: "ostore_write_obj_list gc K bi objs flag = Some (None, bi', objs')" "log_ok content bi'"
    "write_frame (length objs) bi bi'" "length objs' = length objs"
    "\<forall>j < length objs. drop 24 (objs' ! j) = drop 24 (objs ! j) \<and> rd32 (objs' ! j) 16 = rd32 (objs ! j) 16 \<and>
       rd8 (objs' ! j) 20 = rd8 (objs ! j) 20 \<and> trans_obj_ok (objs' ! j)"
    "obj_map content bi' = put_objs objs' (obj_map content bi)" by blast
  have flash: "flash_ok K content bi'" using write_frame_flash[OF w(3)] assms(2) by blast
  from read_log_ok[OF w(2) flash assms(7), of oid] w flash show ?thesis by (intro exI conjI) simp_all
qed

text \<open>The store of the examples with its object on the flash, and a new inode object.\<close>

definition demo_flash :: "unit \<Rightarrow> int \<Rightarrow> buf" where
  "demo_flash u l = demo_inode_obj @ replicate 4000 255"

definition demo_reader :: "unit kernel" where
  "demo_reader = demo_kernel\<lparr>k_ubi_read := \<lambda>u l offs n. Inr (take (nat n) (drop (nat offs) (demo_flash u l)))\<rparr>"

definition demo_log :: "unit bilbyfs_info" where
  "demo_log = demo_store\<lparr>bi_super := (bi_super demo_store)\<lparr>su_min_io_size := 8, su_max_io_size := 16\<rparr>,
     bi_rbuf := \<lparr>rb_buf = replicate 4096 0, rb_size = 4096, rb_offs = 0\<rparr>\<rparr>"

definition demo_new_obj :: buf where
  "demo_new_obj = stores demo_inode_obj [(24, le_enc 8 (2 ^ 32 + 1 :: u64))]"

lemma demo_new_obj_ok: "rd32 demo_new_obj 16 = 96" "rd64 demo_new_obj 24 = 2 ^ 32 + 1" "rd8 demo_new_obj 20 = 0"
    "trans_obj_ok demo_new_obj"
proof -
  show r: "rd32 demo_new_obj 16 = 96" "rd64 demo_new_obj 24 = 2 ^ 32 + 1" "rd8 demo_new_obj 20 = 0"
    using demo_inode_obj_reads by (simp_all add: demo_new_obj_def store_reads)
  have "length demo_new_obj = 96" using demo_inode_obj_reads by (simp add: demo_new_obj_def store_reads)
  then show "trans_obj_ok demo_new_obj" using r by (simp add: trans_obj_ok_def is_live_type_def)
qed

lemma demo_log_ok: "log_ok demo_flash demo_log" "flash_ok demo_reader demo_flash demo_log"
  "trans_fits demo_log [demo_new_obj]" "obj_map demo_flash demo_log = [1 \<mapsto> demo_inode_obj]"
proof -
  have im: "idx_map demo_log = idx_map demo_store" by (simp add: idx_map_def demo_log_def fun_eq_iff)
  have "idx_ok demo_log = idx_ok demo_store" "gim_ok demo_log = gim_ok demo_store" "fsm_ok demo_log = fsm_ok demo_store"
    "addr_ok demo_log = addr_ok demo_store"
    by (simp_all add: idx_ok_def gim_ok_def fsm_ok_def addr_ok_def demo_log_def fun_eq_iff)
  then have "store_ok demo_log = store_ok demo_store" by (simp add: store_ok_def im)
  moreover have "fsm_get_lnum demo_log = fsm_get_lnum demo_store" "bi_wbuf demo_log = bi_wbuf demo_store"
    "su_leb_size (bi_super demo_log) = su_leb_size (bi_super demo_store)"
    "su_leb_cnt (bi_super demo_log) = su_leb_cnt (bi_super demo_store)"
    "bi_used_leb_list demo_log = bi_used_leb_list demo_store" "bi_node_pool demo_log = bi_node_pool demo_store"
    "bi_kmem demo_log = bi_kmem demo_store"
    by (simp_all add: demo_log_def fsm_get_lnum_def)
  ultimately have w: "writer_ok demo_log" using demo_writer(1) unfolding writer_ok_def by (elim conjE, intro conjI) simp_all
  have i: "idx_map demo_log = [1 \<mapsto> demo_addr]" by (simp only: im demo_store_map)
  have f: "fsm_get_lnum demo_log = 3" by (simp add: fsm_get_lnum_def demo_log_def demo_store_def)
  have b: "log_bytes demo_flash demo_log demo_addr = demo_inode_obj"
    using demo_inode_obj_reads by (simp add: log_bytes_def eb_bytes_def f demo_addr_def demo_flash_def)
  then show om: "obj_map demo_flash demo_log = [1 \<mapsto> demo_inode_obj]" by (auto simp: obj_map_def i)
  have "addr_in_log demo_log demo_addr" by (simp add: addr_in_log_def f demo_addr_def) (simp add: demo_log_def demo_store_def)
  then show "log_ok demo_flash demo_log"
    using w demo_inode_obj_reads by (auto simp: log_ok_def i om carries_id_def is_live_type_def split: if_splits)
  show "flash_ok demo_reader demo_flash demo_log"
    using demo_inode_obj_reads
    by (auto simp: flash_ok_def ubi_reads_def demo_reader_def demo_log_def demo_store_def demo_flash_def intro!: exI[of _ 3])
  show "trans_fits demo_log [demo_new_obj]"
    using demo_writer(2) demo_inode_obj_reads demo_new_obj_ok
    by (auto simp: trans_fits_def room_for_def demo_log_def sum_reserve_def sum_room_def)
qed

theorem ostore_refines_object_map_witness:
  "\<exists>bi' obj'. ostore_write_obj_list (\<lambda>bi. None) demo_reader demo_log [demo_new_obj] OSW_NONE = Some (None, bi', [obj']) \<and>
     obj_map demo_flash bi' = [1 \<mapsto> demo_inode_obj, 2 ^ 32 + 1 \<mapsto> obj_bytes obj'] \<and>
     (\<exists>rbuf. ostore_read_obj demo_reader bi' 1 (replicate 96 7) 96 = Some (None, bi'\<lparr>bi_rbuf := rbuf\<rparr>, demo_inode_obj))"
proof -
  obtain bi' objs' where w: "ostore_write_obj_list (\<lambda>bi. None) demo_reader demo_log [demo_new_obj] OSW_NONE = Some (None, bi', objs')"
    "length objs' = 1" "drop 24 (objs' ! 0) = drop 24 demo_new_obj" "rd8 (objs' ! 0) 20 = rd8 demo_new_obj 20"
    "obj_map demo_flash bi' = put_objs objs' [1 \<mapsto> demo_inode_obj]"
    "read_result demo_reader demo_flash bi' (put_objs objs' [1 \<mapsto> demo_inode_obj] 1) (replicate 96 7) 96
       (ostore_read_obj demo_reader bi' 1 (replicate 96 7) 96)"
    using ostore_refines_object_map[OF demo_log_ok(1,2) _ _ demo_log_ok(3), of OSW_NONE 96 "replicate 96 7" "\<lambda>bi. None" 1]
      demo_new_obj_ok(4) by (auto simp: OSW_NONE_def demo_log_ok(4))
  then obtain obj' where o': "objs' = [obj']" by (auto simp: length_Suc_conv)
  have "rd64 obj' 24 = 2 ^ 32 + 1" using w(3) o' demo_new_obj_ok(2) by (simp add: rdw_def)
  then have m: "put_objs objs' [1 \<mapsto> demo_inode_obj] = [1 \<mapsto> demo_inode_obj, 2 ^ 32 + 1 \<mapsto> obj_bytes obj']"
    using w(4) o' demo_new_obj_ok(3) by (simp add: put_objs_def put_obj_def is_live_type_def)
  have "splice (replicate 96 (7::u8)) 0 demo_inode_obj = demo_inode_obj"
    using demo_inode_obj_reads(1) by (simp add: splice_def)
  then show ?thesis using w(1,5,6) o' demo_inode_obj_reads(1) unfolding m
    by (auto simp: read_result_def)
qed

end
