(* ===== verification/Bilby_Dirlog.thy ===== *)
theory Bilby_Dirlog
  imports Bilby_Objmap Bilby_Fsprops
begin

unbundle bit_operations_syntax

text \<open>
  Directories on the log. The entries of a directory whose names have the same hash are the
  entries of one array object of the object map (\<open>dir_rep\<close>). Reading an array, an inode or any
  other object changes the read-buffer and the memory only (\<open>same_log\<close>), and \<open>fsop_lookup\<close>
  answers what the array has.
\<close>

section \<open>The directory of a name\<close>

text \<open>The entries with the hash of a name. A name without an array has none.\<close>

definition dir_rep :: "(obj_id \<rightharpoonup> buf) \<Rightarrow> u64 \<Rightarrow> name \<Rightarrow> dent list \<Rightarrow> bool" where
  "dir_rep m ino name es \<longleftrightarrow>
     (case m (dentarr_id_init ino name) of
        None \<Rightarrow> es = []
      | Some b \<Rightarrow> dentarr_rep b es \<and> length es \<le> 16 \<and> length b \<le> BILBYFS_MAX_DENTARR_SZ)"

section \<open>Reading\<close>

text \<open>What a read may change.\<close>

definition same_log :: "('u \<Rightarrow> int \<Rightarrow> buf) \<Rightarrow> 'u kernel \<Rightarrow> 'u bilbyfs_info \<Rightarrow> 'u bilbyfs_info \<Rightarrow> bool" where
  "same_log content K bi bi' \<longleftrightarrow>
     log_ok content bi' \<and> flash_ok K content bi' \<and> obj_map content bi' = obj_map content bi \<and>
     (\<exists>km r. bi' = bi\<lparr>bi_kmem := km, bi_rbuf := r\<rparr>)"

lemma log_bytes_cong:
  assumes "bi_wbuf bi' = bi_wbuf bi" "bi_fsm_lnum bi' = bi_fsm_lnum bi" "bi_ubi bi' = bi_ubi bi"
  shows "log_bytes content bi' = log_bytes content bi"
  using assms by (auto simp: log_bytes_def eb_bytes_def fsm_get_lnum_def fun_eq_iff)

text \<open>The counters, the memory and the read-buffer do not touch the objects.\<close>

lemma counters_log:
  fixes km r n m
  defines "b bi \<equiv> bi\<lparr>bi_kmem := km, bi_rbuf := r, bi_next_inum := m, bi_next_sqnum := n\<rparr>"
  shows "obj_map content (b bi) = obj_map content bi"
    and "log_ok content bi \<Longrightarrow> \<forall>x \<in> set km. x \<Longrightarrow> bi_next_sqnum bi \<le> n \<Longrightarrow> log_ok content (b bi)"
    and "flash_ok K content bi \<Longrightarrow> length (rb_buf r) = length (rb_buf (bi_rbuf bi)) \<Longrightarrow> flash_ok K content (b bi)"
proof -
  note c = store_cong[of "b bi" bi]
  have i: "idx_map (b bi) = idx_map bi" "store_ok (b bi) = store_ok bi" using c by (simp_all add: b_def)
  have l: "log_bytes content (b bi) = log_bytes content bi" by (rule log_bytes_cong) (simp_all add: b_def)
  show m: "obj_map content (b bi) = obj_map content bi" by (rule ext) (simp add: obj_map_def i l)
  have f: "fsm_get_lnum (b bi) = fsm_get_lnum bi" by (simp add: fsm_get_lnum_def b_def)
  show "log_ok content (b bi)" if "log_ok content bi" "\<forall>x \<in> set km. x" "bi_next_sqnum bi \<le> n"
  proof -
    have "writer_ok (b bi)" using that(1,2) i(2) f by (simp add: log_ok_def writer_ok_def b_def)
    moreover have "addr_in_log (b bi) addr" if "addr_in_log bi addr" for addr
      using that \<open>bi_next_sqnum bi \<le> n\<close> f by (auto simp: addr_in_log_def b_def)
    ultimately show ?thesis using that(1) i(1) m by (simp add: log_ok_def)
  qed
  show "flash_ok K content (b bi)" if "flash_ok K content bi" "length (rb_buf r) = length (rb_buf (bi_rbuf bi))"
    using that by (simp add: flash_ok_def b_def)
qed

lemma same_logI:
  assumes "log_ok content bi" "flash_ok K content bi" "\<forall>x \<in> set km. x" "length (rb_buf r) = length (rb_buf (bi_rbuf bi))"
  shows "same_log content K bi (bi\<lparr>bi_kmem := km, bi_rbuf := r\<rparr>)"
proof -
  have "bi\<lparr>bi_kmem := km, bi_rbuf := r\<rparr> = bi\<lparr>bi_kmem := km, bi_rbuf := r, bi_next_inum := bi_next_inum bi, bi_next_sqnum := bi_next_sqnum bi\<rparr>"
    by simp
  then show ?thesis using counters_log[where km = km and r = r and n = "bi_next_sqnum bi" and m = "bi_next_inum bi" and bi = bi] assms
    unfolding same_log_def by (metis order_refl)
qed

lemma same_logD:
  assumes "same_log content K bi bi'"
  shows "log_ok content bi'" "flash_ok K content bi'" "obj_map content bi' = obj_map content bi"
    "\<exists>km r. bi' = bi\<lparr>bi_kmem := km, bi_rbuf := r\<rparr>"
  using assms unfolding same_log_def by blast+

lemma same_log_trans:
  assumes "same_log content K a b" "same_log content K b c"
  shows "same_log content K a c"
proof -
  obtain km r km' r' where "b = a\<lparr>bi_kmem := km, bi_rbuf := r\<rparr>" "c = b\<lparr>bi_kmem := km', bi_rbuf := r'\<rparr>"
    using assms by (auto simp: same_log_def)
  then have "c = a\<lparr>bi_kmem := km', bi_rbuf := r'\<rparr>" by simp
  then have "\<exists>km r. c = a\<lparr>bi_kmem := km, bi_rbuf := r\<rparr>" by blast
  moreover have "obj_map content c = obj_map content a"
    using same_logD(3)[OF assms(1)] same_logD(3)[OF assms(2)] by (rule trans[rotated])
  ultimately show ?thesis using same_logD(1,2)[OF assms(2)] unfolding same_log_def by blast
qed

lemma log_kmem: "log_ok content bi \<Longrightarrow> \<forall>x \<in> set (bi_kmem bi). x"
  unfolding log_ok_def writer_ok_def by blast

lemma read_same_log:
  assumes "log_ok content bi" "flash_ok K content bi" "unat len \<le> length buf"
  shows "\<exists>bi'. same_log content K bi bi' \<and> ostore_read_obj K bi oid buf len =
    (case obj_map content bi oid of
       None \<Rightarrow> Some (Some ENOENT, bi', buf)
     | Some b \<Rightarrow> if unat len < length b then Some (Some EINVAL, bi', buf) else Some (None, bi', splice buf 0 b))"
proof -
  have r: "same_log content K bi (bi\<lparr>bi_rbuf := rbuf\<rparr>)" if "flash_ok K content (bi\<lparr>bi_rbuf := rbuf\<rparr>)" for rbuf
    using same_logI[OF assms(1,2) log_kmem[OF assms(1)], of rbuf] that assms(2) by (simp add: flash_ok_def)
  from r[of "bi_rbuf bi"] have "same_log content K bi bi" using assms(2) by simp
  with read_log_ok[OF assms, of oid] r show ?thesis
    by (fastforce simp: read_result_def split: option.splits if_splits)
qed

lemma rep_splice:
  assumes "dentarr_rep b es" "length b \<le> length u"
  shows "dentarr_rep (splice u 0 b) es"
proof -
  have l: "40 + dents_size es \<le> length b" using assms by (simp add: dentarr_rep_def)
  then have "take (dents_size es) (drop 40 (splice u 0 b)) = take (dents_size es) (drop 40 b)"
    by (simp add: splice_def)
  moreover have "rd32 (splice u 0 b) 32 = rd32 b 32" "rd32 (splice u 0 b) 36 = rd32 b 36"
    using l by (simp_all add: splice_def rdw_def)
  moreover have "40 + dents_size es \<le> length (splice u 0 b)" using l assms(2) by simp
  ultimately show ?thesis using assms(1) by (simp add: dentarr_rep_def)
qed

lemma dents_size_max: "\<forall>e \<in> set es. name_ok (dent_name e) \<Longrightarrow> dents_size es \<le> length es * 263"
  by (induction es) (auto simp: name_ok_def)

lemma rep_size: "dentarr_rep d es \<Longrightarrow> dents_size es \<le> length es * 263"
  by (rule dents_size_max) (simp add: dentarr_rep_def)

lemma dentarr_read_ok:
  assumes log: "log_ok content bi" "flash_ok K content bi" and rep: "dir_rep (obj_map content bi) ino name es"
  shows "\<exists>bi'. same_log content K bi bi' \<and> dentarr_read K bi (dentarr_id_init ino name) =
    (case obj_map content bi (dentarr_id_init ino name) of
       None \<Rightarrow> Some (Inl ENOENT, bi') | Some b \<Rightarrow> Some (Inr (splice (uninit K 4248) 0 b), bi'))"
proof -
  obtain km where km: "kmalloc_ok (bi_kmem bi) = (True, km)" "\<forall>x \<in> set km. x"
    using kmalloc_ok_all[OF log_kmem[OF log(1)]] by blast
  let ?b = "bi\<lparr>bi_kmem := km\<rparr>" and ?u = "uninit K 4248"
  have s: "same_log content K bi ?b" using same_logI[OF log km(2), of "bi_rbuf bi"] by simp
  note sD = same_logD[OF s]
  from read_same_log[OF sD(1,2), of 4248 ?u "dentarr_id_init ino name"] obtain bi' where
    b: "same_log content K ?b bi'" "ostore_read_obj K ?b (dentarr_id_init ino name) ?u 4248 =
      (case obj_map content bi (dentarr_id_init ino name) of None \<Rightarrow> Some (Some ENOENT, bi', ?u)
       | Some b \<Rightarrow> if unat (4248 :: u32) < length b then Some (Some EINVAL, bi', ?u) else Some (None, bi', splice ?u 0 b))"
    using sD(3) by auto
  have "dentarr_read K bi (dentarr_id_init ino name) =
    (case obj_map content bi (dentarr_id_init ino name) of
       None \<Rightarrow> Some (Inl ENOENT, bi') | Some b \<Rightarrow> Some (Inr (splice ?u 0 b), bi'))"
  proof (cases "obj_map content bi (dentarr_id_init ino name)")
    case None
    then show ?thesis using b(2) km by (simp add: dentarr_read_def)
  next
    case (Some d)
    let ?d = "splice ?u 0 d"
    have r: "dentarr_rep d es" "length es \<le> 16" "length d \<le> 4248" using rep Some by (simp_all add: dir_rep_def)
    have rd: "dentarr_rep ?d es" using rep_splice[OF r(1), of ?u] r(3) by simp
    have sz: "40 + dents_size es \<le> 4248" using rep_size[OF r(1)] r(2) by simp
    have "\<not> 16 < (of_nat (length es) :: u32)" "\<not> 4248 < (of_nat (40 + dents_size es) :: u32)"
      using r(2) sz by (simp_all add: word_less_nat_alt unat_of_nat del: of_nat_add)
    moreover have "get32 ?d 32 = Some (of_nat (length es))" "get32 ?d 36 = Some (of_nat (40 + dents_size es))"
      using rd by (simp_all add: dentarr_rep_def getw_Some)
    ultimately show ?thesis using b(2) km r(3) Some by (simp add: dentarr_read_def)
  qed
  then show ?thesis using same_log_trans[OF s b(1)] by blast
qed

section \<open>Looking up a name\<close>

definition lookup_dent :: "name \<Rightarrow> dent list \<Rightarrow> errno + u32" where
  "lookup_dent name es = (case find (\<lambda>e. dent_name e = name) es of None \<Rightarrow> Inl ENOENT | Some e \<Rightarrow> Inr (dent_ino e))"

lemma find_append_hit: "dent_name e = name \<Longrightarrow> name \<notin> dent_name ` set xs \<Longrightarrow> find (\<lambda>e. dent_name e = name) (xs @ e # ys) = Some e"
  by (induction xs) auto

lemma dir_lookup_found:
  assumes "dentarr_rep d (xs @ e # ys)" "dent_name e = name"
  shows "obj_dentry_size d (40 + dents_size xs) = Some (8 + length name)"
    "buf_get d (40 + dents_size xs) (8 + length name) = Some (enc_dent e)"
proof -
  have ok: "name_ok (dent_name e)" using assms(1) by (simp add: dentarr_rep_def)
  have "drop (40 + dents_size xs) d = drop (dents_size xs) (drop 40 d)" by (simp add: add.commute)
  also have "\<dots> = enc_dent e @ concat (map enc_dent ys) @ drop (40 + dents_size (xs @ e # ys)) d"
    unfolding rep_drop[OF assms(1)] by (simp add: length_enc_dents)
  finally have d: "drop (40 + dents_size xs) d = enc_dent e @ (concat (map enc_dent ys) @ drop (40 + dents_size (xs @ e # ys)) d)" by simp
  show "obj_dentry_size d (40 + dents_size xs) = Some (8 + length name)" using dent_at(1)[OF d ok] assms(2) by simp
  have "40 + dents_size xs + (8 + length name) \<le> length d" using assms by (simp add: dentarr_rep_def)
  then show "buf_get d (40 + dents_size xs) (8 + length name) = Some (enc_dent e)"
    using assms(2) by (simp add: buf_get_Some d)
qed

lemma lookup_ok:
  assumes log: "log_ok content bi" "flash_ok K content bi" and rep: "dir_rep (obj_map content bi) (i_ino dir) name es"
    and name: "name_ok name"
  shows "\<exists>bi'. same_log content K bi bi' \<and> fsop_lookup K bi dir name = Some (lookup_dent name es, bi')"
proof -
  obtain km where km: "kmalloc_ok (bi_kmem bi) = (True, km)" "\<forall>x \<in> set km. x"
    using kmalloc_ok_all[OF log_kmem[OF log(1)]] by blast
  let ?b = "bi\<lparr>bi_kmem := km\<rparr>"
  have s: "same_log content K bi ?b" using same_logI[OF log km(2), of "bi_rbuf bi"] by simp
  note sD = same_logD[OF s]
  have "dir_rep (obj_map content ?b) (i_ino dir) name es" using rep sD(3) by simp
  from dentarr_read_ok[OF sD(1,2) this] obtain bi' where
    b: "same_log content K ?b bi'" "dentarr_read K ?b (dentarr_id_init (i_ino dir) name) =
    (case obj_map content bi (dentarr_id_init (i_ino dir) name) of
       None \<Rightarrow> Some (Inl ENOENT, bi') | Some b \<Rightarrow> Some (Inr (splice (uninit K 4248) 0 b), bi'))"
    using sD(3) by auto
  have nm: "length name \<le> 255" "0 \<notin> set name" using name by (simp_all add: name_ok_def)
  have "fsop_lookup K bi dir name = Some (lookup_dent name es, bi')"
  proof (cases "obj_map content bi (dentarr_id_init (i_ino dir) name)")
    case None
    then have "es = []" using rep by (simp add: dir_rep_def)
    then show ?thesis using b(2) km nm None by (simp add: fsop_lookup_def dir_lookup_nm_def lookup_dent_def)
  next
    case (Some d)
    let ?d = "splice (uninit K 4248) 0 d"
    have rd: "dentarr_rep ?d es" using rep_splice[of d es "uninit K 4248"] rep Some by (simp add: dir_rep_def)
    note lk = lookup_spec[OF rd nm(2)]
    show ?thesis
    proof (cases "dent_offs name es 40")
      case (Inl x)
      then have "x = ENOENT" "find (\<lambda>e. dent_name e = name) es = None" by (auto simp: dent_offs_Inl find_None_iff)
      then show ?thesis using Inl lk b(2) km nm Some by (simp add: fsop_lookup_def dir_lookup_nm_def lookup_dent_def)
    next
      case (Inr p)
      then obtain xs e ys where x: "es = xs @ e # ys" "dent_name e = name" "name \<notin> dent_name ` set xs" "p = 40 + dents_size xs"
        using dent_offs_Inr by blast
      have f: "find (\<lambda>e. dent_name e = name) es = Some e" unfolding x(1) by (rule find_append_hit[OF x(2,3)])
      have l: "length (enc_dent e) = 8 + length name" using x(2) by simp
      let ?e = "splice (uninit K 263) 0 (enc_dent e)"
      have "buf_put (uninit K 263) 0 (enc_dent e) = Some ?e" using l nm by (simp add: buf_put_Some)
      moreover have "get32 ?e 0 = Some (dent_ino e)"
        using l nm by (simp add: getw_Some rdw_def splice_def enc_dent_def le_dec_enc_full)
      ultimately show ?thesis
        using lk Inr dir_lookup_found[OF rd[unfolded x(1)] x(2)] b(2) km nm Some f x(4)
        by (simp add: fsop_lookup_def dir_lookup_nm_def lookup_dent_def)
    qed
  qed
  then show ?thesis using same_log_trans[OF s b(1)] by blast
qed

end
