(* ===== verification/Bilby_Dirprops.thy ===== *)
theory Bilby_Dirprops
  imports Bilby_Dirlog
begin

unbundle bit_operations_syntax

text \<open>
  Properties of the directory operations of \<open>fsop.c\<close> through all layers: a file that is created is
  found, one that is removed is not found, and the other names of all directories stay as they
  were. An array can be filled beyond its limit.
\<close>

section \<open>Adding an entry\<close>

lemma dentarr_ids:
  "dentarr_id_init ino name \<noteq> inode_id_init ino'" "dentarr_id_init ino name \<noteq> NIL_ID"
proof -
  have "bit (dentarr_id_init ino name) 30" "\<not> bit (dentarr_id_init ino name) 29" "\<not> bit (inode_id_init ino') 30"
    by (simp_all add: dentarr_id_init_def inode_id_init_def id_hash_nm_def bit_simps)
  moreover have "bit NIL_ID 29" by (simp add: bit_numeral_word_iff)
  ultimately show "dentarr_id_init ino name \<noteq> inode_id_init ino'" "dentarr_id_init ino name \<noteq> NIL_ID" by metis+
qed

lemma bit_2: "bit (2 :: 'a :: len word) n \<longleftrightarrow> n = 1 \<and> 1 < LENGTH('a)"
  using bit_exp_iff[where 'a = "'a word", of 1 n] by (auto simp: bit_simps)
lemma dentarr_type: "type_from_id (dentarr_id_init ino name) = BILBYFS_DENTARR_OBJ"
proof -
  have "(drop_bit 29 (dentarr_id_init ino name) AND mask 3 :: u64) = 2"
    by (rule bit_word_eqI) (auto simp: dentarr_id_init_def id_hash_nm_def bit_simps bit_2 less_Suc_eq numeral_3_eq_3)
  then show ?thesis by (simp add: type_from_id_def mask_eq_exp_minus_1)
qed

lemma read_or_create_ok:
  assumes log: "log_ok content bi" "flash_ok K content bi" and rep: "dir_rep (obj_map content bi) ino name es"
  defines "oid \<equiv> dentarr_id_init ino name"
  shows "\<exists>bi' d. same_log content K bi bi' \<and> dentarr_read_or_create K bi oid = Some (Inr d, bi') \<and>
    dentarr_rep d es \<and> rd64 d 24 = oid \<and> length d = (if obj_map content bi oid = None then 303 else 4248)"
proof -
  from dentarr_read_ok[OF log rep] obtain bi1 where
    r: "same_log content K bi bi1" "dentarr_read K bi oid =
    (case obj_map content bi oid of None \<Rightarrow> Some (Inl ENOENT, bi1) | Some b \<Rightarrow> Some (Inr (splice (uninit K 4248) 0 b), bi1))"
    unfolding oid_def by blast
  show ?thesis
  proof (cases "obj_map content bi oid")
    case None
    then have es: "es = []" using rep by (simp add: dir_rep_def oid_def)
    note rD = same_logD[OF r(1)]
    obtain km where km: "kmalloc_ok (bi_kmem bi1) = (True, km)" "\<forall>x \<in> set km. x"
      using kmalloc_ok_all[OF log_kmem[OF rD(1)]] by blast
    let ?b = "bi1\<lparr>bi_kmem := km\<rparr>"
    have s: "same_log content K bi1 ?b" using same_logI[OF rD(1,2) km(2), of "bi_rbuf bi1"] by simp
    obtain d where d: "pack_obj_dentarr (uninit K 303) oid 0 40 = Some d" "rd64 d 24 = oid" "length d = 303"
      "rd32 d 32 = 0" "rd32 d 36 = 40"
      using pack_obj_dentarr_stores[of "uninit K 303" 40 oid 0] by (simp add: store_reads)
    have "dentarr_rep d es" using d(3-5) by (simp add: dentarr_rep_def es)
    moreover have "dentarr_read_or_create K bi oid = Some (Inr d, ?b)"
      using r(2) None km(1) d(1) by (simp add: dentarr_read_or_create_def)
    ultimately show ?thesis using same_log_trans[OF r(1) s] d None by auto
  next
    case (Some b)
    let ?d = "splice (uninit K 4248) 0 b"
    have b: "dentarr_rep b es" "length b \<le> 4248" using rep Some by (simp_all add: dir_rep_def oid_def)
    have "32 \<le> length b" "rd64 b 24 = oid" using log_okD(6)[OF log(1) Some] by (simp_all add: carries_id_def)
    then have "rd64 ?d 24 = oid" using b(2) by (simp add: splice_def rdw_def)
    moreover have "dentarr_read_or_create K bi oid = Some (Inr ?d, bi1)"
      using r(2) Some by (simp add: dentarr_read_or_create_def)
    moreover have "dentarr_rep ?d es" using rep_splice[OF b(1), of "uninit K 4248"] b(2) by simp
    ultimately show ?thesis using r(1) Some b(2) by auto
  qed
qed

lemma rep_obj_bytes:
  assumes "dentarr_rep d es" "drop 24 d' = drop 24 d" "length d' = length d" "40 + dents_size es \<le> n" "n \<le> length d"
  shows "dentarr_rep (take n d') es"
proof -
  have "rd32 (take n d') 32 = rd32 d 32" "rd32 (take n d') 36 = rd32 d 36"
    using assms(4) rdw_drop[where n = 4 and off = 32 and 'a = 32, OF _ assms(2)] rdw_drop[where n = 4 and off = 36 and 'a = 32, OF _ assms(2)]
    by (simp_all add: rdw_def drop_take min_def)
  moreover have "drop 40 d' = drop 40 d" using arg_cong[OF assms(2), of "drop 16"] by simp
  then have "take (dents_size es) (drop 40 (take n d')) = take (dents_size es) (drop 40 d)"
    using assms(4) by (simp add: drop_take min_def)
  ultimately show ?thesis using assms by (simp add: dentarr_rep_def)
qed

text \<open>The bytes of an inode object, but for the header that the store fills in.\<close>

definition holds_inode :: "'u kernel \<Rightarrow> inode \<Rightarrow> buf \<Rightarrow> bool" where
  "holds_inode K inode b \<longleftrightarrow> length b = 96 \<and> drop 24 b = drop 24 (stores (uninit K 96) (inode_stores inode))"

lemma iget_ok:
  assumes log: "log_ok content bi" "flash_ok K content bi" and b: "obj_map content bi (inode_id_init ino) = Some b" "holds_inode K inode b"
    and size: "i_size inode \<le> word_of_int BILBYFS_MAX_FILE_SZ"
  shows "\<exists>bi'. same_log content K bi bi' \<and>
    fsop_iget K bi ino inode0 = Some (None, bi', bilbyfs_set_inode_flags (stored_inode inode inode0))"
proof -
  have l: "length b = 96" "drop 24 b = drop 24 (stores (uninit K 96) (inode_stores inode))" using b(2) by (simp_all add: holds_inode_def)
  from read_same_log[OF log, of 96 "uninit K 96" "inode_id_init ino"] b(1) l(1) obtain bi' where
    r: "same_log content K bi bi'" "ostore_read_obj K bi (inode_id_init ino) (uninit K 96) 96 = Some (None, bi', splice (uninit K 96) 0 b)"
    by auto
  have "splice (uninit K 96) 0 b = b" using l(1) by (simp add: splice_def)
  moreover have "unpack_obj_inode inode0 b = Some (stored_inode inode inode0)"
    using unpack_inode_drop[of b "stores (uninit K 96) (inode_stores inode)" inode0] l packed_inode(3)[of "uninit K 96" inode]
      unpack_stored[of "uninit K 96" inode0 inode] by simp
  moreover have "validate_inode (stored_inode inode inode0) = None"
    using size by (simp add: validate_inode_def stored_inode_def)
  ultimately show ?thesis using r by (auto simp: fsop_iget_def)
qed

text \<open>The transaction of a directory operation: an array or its deletion, and both inodes.\<close>

lemma commit_inodes_ok:
  assumes log: "log_ok content bi" "flash_ok K content bi" and d: "trans_obj_ok d"
    and room: "room_for bi (unat (rd32 d 16) + 192) 3" and flag: "\<not> OSW_SYNC flag"
  shows "\<exists>bi' d' b1 b2. trans_commit_inodes K bi dir inode [d] flag = Some (None, bi') \<and>
    log_ok content bi' \<and> flash_ok K content bi' \<and> write_frame 3 bi bi' \<and>
    drop 24 d' = drop 24 d \<and> rd32 d' 16 = rd32 d 16 \<and> rd8 d' 20 = rd8 d 20 \<and> holds_inode K inode b1 \<and> holds_inode K dir b2 \<and>
    obj_map content bi' = (put_obj d' (obj_map content bi))(inode_id_init (i_ino inode) \<mapsto> b1, inode_id_init (i_ino dir) \<mapsto> b2)"
proof -
  let ?i = "stores (uninit K 96) (inode_stores inode)" and ?p = "stores (uninit K 96) (inode_stores dir)"
  note i = packed_inode[of "uninit K 96" inode, OF length_uninit]
  note p = packed_inode[of "uninit K 96" dir, OF length_uninit]
  let ?objs = "[d, ?i, ?p]"
  have fits: "trans_fits bi ?objs" using room i(4) p(4) by (simp add: trans_fits_def numeral_3_eq_3)
  have ok: "\<forall>obj \<in> set ?objs. trans_obj_ok obj" using d i(2) p(2) by simp
  from write_log_ok[OF log(1) _ ok fits flag, of "gc_garbage_collect K" K] obtain bi' objs' where
    w: "ostore_write K bi ?objs flag = Some (None, bi', objs')" "log_ok content bi'" "write_frame 3 bi bi'" "length objs' = 3"
    and j: "\<forall>j < 3. drop 24 (objs' ! j) = drop 24 (?objs ! j) \<and> rd32 (objs' ! j) 16 = rd32 (?objs ! j) 16 \<and>
       rd8 (objs' ! j) 20 = rd8 (?objs ! j) 20 \<and> trans_obj_ok (objs' ! j)"
    and m: "obj_map content bi' = put_objs objs' (obj_map content bi)"
    unfolding ostore_write_def by (auto simp: numeral_3_eq_3)
  from w(4) obtain d' b1 b2 where o3: "objs' = [d', b1, b2]" by (auto simp: numeral_3_eq_3 length_Suc_conv)
  have h: "drop 24 d' = drop 24 d" "rd32 d' 16 = rd32 d 16" "rd8 d' 20 = rd8 d 20"
      "drop 24 b1 = drop 24 ?i" "rd32 b1 16 = 96" "rd8 b1 20 = 0" "trans_obj_ok b1"
      "drop 24 b2 = drop 24 ?p" "rd32 b2 16 = 96" "rd8 b2 20 = 0" "trans_obj_ok b2"
    using j[rule_format, of 0] j[rule_format, of 1] j[rule_format, of 2] i(4,5) p(4,5) o3 by simp_all
  have l: "length b1 = 96" "length b2 = 96"
    using arg_cong[OF h(4), of length] arg_cong[OF h(8), of length] i(3) p(3) by simp_all
  have ids: "rd64 b1 24 = inode_id_init (i_ino inode)" "rd64 b2 24 = inode_id_init (i_ino dir)"
    using rdw_drop[where n = 8 and off = 24 and 'a = 64, OF _ h(4)] rdw_drop[where n = 8 and off = 24 and 'a = 64, OF _ h(8)] i(6) p(6) by simp_all
  have "put_obj b1 x = x(inode_id_init (i_ino inode) \<mapsto> b1)" "put_obj b2 x = x(inode_id_init (i_ino dir) \<mapsto> b2)" for x
    using h l ids by (simp_all add: put_obj_def is_live_type_def)
  then have "obj_map content bi' = (put_obj d' (obj_map content bi))(inode_id_init (i_ino inode) \<mapsto> b1, inode_id_init (i_ino dir) \<mapsto> b2)"
    unfolding m o3 by (simp add: put_objs_def)
  moreover have "trans_commit_inodes K bi dir inode [d] flag = Some (None, bi')"
    using w(1) i(1) p(1) by (simp add: trans_commit_inodes_def)
  moreover have "flash_ok K content bi'" using write_frame_flash[OF w(3)] log(2) by blast
  ultimately show ?thesis using w(2,3) h l unfolding holds_inode_def by blast
qed

lemma room_same: "same_log content K bi bi' \<Longrightarrow> room_for bi' = room_for bi"
  by (drule same_logD(4)) (auto simp: room_for_def sum_reserve_def sum_room_def fun_eq_iff)

text \<open>The length of the object for an array with the given entries.\<close>

definition array_size :: "dent list \<Rightarrow> nat" where
  "array_size es = nat (ALIGN (int (40 + dents_size es)) 8)"

lemma array_size:
  assumes "40 + dents_size es \<le> 4248"
  shows "40 + dents_size es \<le> array_size es" "array_size es \<le> 4248" "8 dvd array_size es"
    "unat (word_of_int (ALIGN (int (40 + dents_size es)) 8) :: u32) = array_size es"
proof -
  let ?n = "int (40 + dents_size es)"
  have a: "?n \<le> ALIGN ?n 8" "ALIGN ?n 8 \<le> 4248" "8 dvd ALIGN ?n 8"
    using ALIGN_8_ge[of ?n] ALIGN_8_mono[of ?n 4248] ALIGN_8_dvd assms by (auto simp: ALIGN_8)
  show "40 + dents_size es \<le> array_size es" "array_size es \<le> 4248" using a(1,2) by (simp_all add: array_size_def le_nat_iff)
  show "8 dvd array_size es" using a(1,3) by (simp add: array_size_def nat_dvd_iff flip: int_dvd_int_iff)
  show "unat (word_of_int (ALIGN ?n 8) :: u32) = array_size es"
    unfolding array_size_def by (rule int_words(4)) (use a in linarith)+
qed

lemma dents_size_min: "8 * length es \<le> dents_size es"
  by (induction es) auto

lemma array_with_entry:
  assumes rep: "dentarr_rep d es" and d: "rd64 d 24 = dentarr_id_init ino name" "length d \<le> 4248"
    and inode: "inode_mode_to_dent_type (i_mode inode) = Some ty" and name: "name_ok name"
    and e: "e = \<lparr>dent_ino = ucast (i_ino inode), dent_type = ty, dent_name = name\<rparr>"
    and fits: "40 + dents_size (es @ [e]) \<le> 4248" "array_size (es @ [e]) \<le> length d"
  shows "\<exists>d'. dentarr_add_dentry d inode name = Some (8 + int (length name), d') \<and> trans_obj_ok d' \<and>
    dentarr_rep d' (es @ [e]) \<and> length d' = length d \<and> rd64 d' 24 = dentarr_id_init ino name \<and>
    rd8 d' 20 = BILBYFS_DENTARR_OBJ \<and> unat (rd32 d' 16) = array_size (es @ [e])"
proof -
  note a = array_size[OF fits(1)]
  have "40 + dents_size es + (8 + length name) \<le> length d" using a(1) fits(2) by (simp add: e)
  from add_dentry_ok[OF rep(1) inode name this] d(2) dents_size_min[of es] fits(1) obtain d' where
    d': "dentarr_add_dentry d inode name = Some (8 + int (length name), d')" "dentarr_rep d' (es @ [e])" "length d' = length d"
    "rd64 d' 24 = rd64 d 24" "rd8 d' 20 = BILBYFS_DENTARR_OBJ" "rd32 d' 16 = word_of_int (ALIGN (int (40 + dents_size (es @ [e]))) 8)"
    unfolding e by auto
  have u: "unat (rd32 d' 16) = array_size (es @ [e])" using a(4) d'(6) by simp
  have "trans_obj_ok d'"
    using d' u a fits d dentarr_ids(2)[of ino name] unfolding trans_obj_ok_def by (simp add: is_live_type_def e)
  then show ?thesis using d' d(1) u by auto
qed

lemma add_new_inode_ok:
  assumes log: "log_ok content bi" "flash_ok K content bi"
    and rep: "dir_rep (obj_map content bi) (i_ino dir) name es" and name: "name_ok name"
    and inode: "inode_mode_to_dent_type (i_mode inode) = Some ty" "inode_id_init (i_ino inode) \<noteq> inode_id_init (i_ino dir)"
    and e: "e = \<lparr>dent_ino = ucast (i_ino inode), dent_type = ty, dent_name = name\<rparr>"
    and fits: "40 + dents_size (es @ [e]) \<le> 4248"
      "obj_map content bi (dentarr_id_init (i_ino dir) name) = None \<longrightarrow> length name \<le> 248"
    and room: "room_for bi (array_size (es @ [e]) + 192) 3"
  shows "\<exists>bi' dir' inode' d b1 b2. add_new_inode K bi dir inode name is_mkdir = Some (None, bi', dir', inode') \<and>
    log_ok content bi' \<and> flash_ok K content bi' \<and>
    i_ino dir' = i_ino dir \<and> i_size dir' = i_size dir + word_of_int (8 + int (length name)) \<and>
    inode' = (if is_mkdir then inc_nlink inode else inode) \<and>
    dentarr_rep d (es @ [e]) \<and> length d \<le> 4248 \<and> holds_inode K inode' b1 \<and> holds_inode K dir' b2 \<and>
    obj_map content bi' = (obj_map content bi)(dentarr_id_init (i_ino dir) name \<mapsto> d,
       inode_id_init (i_ino inode) \<mapsto> b1, inode_id_init (i_ino dir) \<mapsto> b2)"
proof -
  let ?oid = "dentarr_id_init (i_ino dir) name"
  let ?i = "if is_mkdir then inc_nlink inode else inode" and ?p = "if is_mkdir then inc_nlink dir else dir"
  let ?dir = "?p\<lparr>i_size := i_size ?p + word_of_int (8 + int (length name)), i_mtime := i_ctime ?i, i_ctime := i_ctime ?i\<rparr>"
  from read_or_create_ok[OF log rep] obtain b d where
    r: "same_log content K bi b" "dentarr_read_or_create K bi ?oid = Some (Inr d, b)" "dentarr_rep d es" "rd64 d 24 = ?oid"
    "length d = (if obj_map content bi ?oid = None then 303 else 4248)" by blast
  note rD = same_logD[OF r(1)]
  note sz = array_size(1,2)[OF fits(1)]
  have "array_size (es @ [e]) \<le> length d"
  proof (cases "obj_map content bi ?oid = None")
    case True
    then have "es = []" "length name \<le> 248" using rep fits(2) by (simp_all add: dir_rep_def)
    then have "ALIGN (int (40 + dents_size (es @ [e]))) 8 \<le> ALIGN 296 8" by (intro ALIGN_8_mono) (simp add: e)
    then show ?thesis using True r(5) by (simp add: array_size_def ALIGN_8 nat_le_iff)
  next
    case False
    then show ?thesis using r(5) sz(2) by auto
  qed
  then obtain d1 where d1: "dentarr_add_dentry d inode name = Some (8 + int (length name), d1)" "trans_obj_ok d1"
    "dentarr_rep d1 (es @ [e])" "length d1 = length d" "rd64 d1 24 = ?oid" "rd8 d1 20 = BILBYFS_DENTARR_OBJ"
    "unat (rd32 d1 16) = array_size (es @ [e])"
    using array_with_entry[OF r(3,4) _ inode(1) name e fits(1)] r(5) by (auto split: if_splits)
  have "room_for b (unat (rd32 d1 16) + 192) 3" using room room_same[OF r(1)] d1(7) by simp
  from commit_inodes_ok[OF rD(1,2) d1(2) this, of OSW_NONE ?dir ?i] obtain bi' d' b1 b2 where
    c: "trans_commit_inodes K b ?dir ?i [d1] OSW_NONE = Some (None, bi')" "log_ok content bi'" "flash_ok K content bi'"
    and d': "drop 24 d' = drop 24 d1" "rd32 d' 16 = rd32 d1 16" "rd8 d' 20 = rd8 d1 20"
    and h: "holds_inode K ?i b1" "holds_inode K ?dir b2"
    and m: "obj_map content bi' = (put_obj d' (obj_map content b))(inode_id_init (i_ino ?i) \<mapsto> b1, inode_id_init (i_ino ?dir) \<mapsto> b2)"
    by (auto simp: OSW_NONE_def)
  have ino: "i_ino ?i = i_ino inode" "i_ino ?dir = i_ino dir" by (simp_all add: inc_nlink_def)
  have "rd64 d' 24 = ?oid" using rdw_drop[where n = 8 and off = 24 and 'a = 64, OF _ d'(1)] d1(5) by simp
  then have m': "obj_map content bi' = (obj_map content bi)(?oid \<mapsto> obj_bytes d',
       inode_id_init (i_ino inode) \<mapsto> b1, inode_id_init (i_ino dir) \<mapsto> b2)"
    unfolding m ino rD(3) using d'(3) d1(6) by (simp add: put_obj_def is_live_type_def)
  have ld: "length d' = length d1" using arg_cong[OF d'(1), of length] d1(2) by (auto simp: trans_obj_ok_def)
  have "array_size (es @ [e]) \<le> length d1" using d1(2,7) by (simp add: trans_obj_ok_def)
  then have "dentarr_rep (obj_bytes d') (es @ [e])" "length (obj_bytes d') \<le> 4248"
    using rep_obj_bytes[OF d1(3) d'(1) ld sz(1)] d'(2) d1(7) sz(2) by simp_all
  moreover have "add_new_inode K bi dir inode name is_mkdir = Some (None, bi', ?dir, ?i)"
    using r(2) d1(1) c(1) by (simp add: add_new_inode_def Let_def split: if_splits)
  ultimately show ?thesis using c(2,3) h m' ino by (intro exI conjI) (assumption | simp add: inc_nlink_def)+
qed

lemma lookup_dent_snoc:
  "lookup_dent nm (es @ [e]) =
     (if nm \<in> dent_name ` set es then lookup_dent nm es
      else if nm = dent_name e then Inr (dent_ino e) else Inl ENOENT)"
proof -
  have "find (\<lambda>x. dent_name x = nm) (es @ [e]) =
      (if nm \<in> dent_name ` set es then find (\<lambda>x. dent_name x = nm) es else if nm = dent_name e then Some e else None)"
    by (induction es) auto
  then show ?thesis by (simp add: lookup_dent_def)
qed

lemma lookup_dent_absent: "nm \<notin> dent_name ` set es \<Longrightarrow> lookup_dent nm es = Inl ENOENT"
proof -
  assume "nm \<notin> dent_name ` set es"
  then have "find (\<lambda>x. dent_name x = nm) es = None" by (auto simp: find_None_iff)
  then show ?thesis by (simp add: lookup_dent_def)
qed

lemma dir_rep_cong: "m' (dentarr_id_init ino nm) = m (dentarr_id_init ino' nm') \<Longrightarrow> dir_rep m' ino nm es = dir_rep m ino' nm' es"
  by (simp add: dir_rep_def)

lemma init_inode_ok:
  assumes "bi_next_inum bi < BILBYFS_LAST_INUM"
  shows "\<exists>inode'. init_inode env bi (Some dir) inode mode =
      (None, bi\<lparr>bi_next_inum := bi_next_inum bi + 1, bi_next_sqnum := bi_next_sqnum bi + 1\<rparr>, inode') \<and>
    i_ino inode' = ucast (bi_next_inum bi + 1) \<and> i_nlink inode' = 1 \<and> i_size inode' = i_size inode \<and> i_ctime inode' = env_now env \<and>
    i_mode inode' = (if i_mode dir AND S_ISGID \<noteq> 0 \<and> S_ISDIR mode then mode OR S_ISGID else mode)"
  using assms
  by (simp add: init_inode_def Let_def next_inum_def next_sqnum_def inode_init_perm_def set_nlink_def bilbyfs_set_inode_flags_def)

lemma mode_type: "(mode :: u16) AND S_IFMT = 0 \<Longrightarrow> (S_IFREG OR mode) AND S_IFMT = S_IFREG"
  by (simp add: bit.conj_disj_distrib2)

lemma new_ids_differ:
  assumes "bi_next_inum bi < BILBYFS_LAST_INUM" "i_ino dir \<le> ucast (bi_next_inum bi)"
  shows "inode_id_init (ucast (bi_next_inum bi + 1)) \<noteq> inode_id_init (i_ino dir)"
proof
  let ?n = "bi_next_inum bi"
  assume "inode_id_init (ucast (?n + 1)) = inode_id_init (i_ino dir)"
  then have "unat (push_bit 32 (ucast (?n + 1) :: u64)) = unat (push_bit 32 (i_ino dir))" by (simp add: inode_id_init_def)
  moreover have lt: "unat (i_ino dir) \<le> unat ?n" using assms(2) 
    by (auto simp: word_le_nat_alt unsigned_ucast_eq intro: le_trans[OF _ take_bit_nat_less_eq_self])
  moreover have n: "unat ?n < 4294967040" using assms(1) by (simp add: word_less_nat_alt)
  moreover have "unat (ucast (?n + 1) :: u64) = unat ?n + 1" using n by (simp add: unsigned_ucast_eq unat_word_ariths take_bit_nat_eq_self)
  ultimately show False by (simp add: push_bit_eq_mult unat_word_ariths)
qed

lemma create_ok:
  assumes log: "log_ok content bi" "flash_ok K content bi" "\<not> bi_is_ro bi" "unat (bi_next_sqnum bi) + 4 < 2 ^ 64"
    and inum: "bi_next_inum bi < BILBYFS_LAST_INUM" "i_ino dir \<le> ucast (bi_next_inum bi)"
    and rep: "dir_rep (obj_map content bi) (i_ino dir) name es" and name: "name_ok name" and mode: "mode AND S_IFMT = 0"
    and e: "e = \<lparr>dent_ino = bi_next_inum bi + 1, dent_type = BILBYFS_ITYPE_REG, dent_name = name\<rparr>"
    and fits: "40 + dents_size (es @ [e]) \<le> 4248"
      "obj_map content bi (dentarr_id_init (i_ino dir) name) = None \<longrightarrow> length name \<le> 248"
    and room: "room_for bi (array_size (es @ [e]) + 192) 3"
  shows "\<exists>bi' dir' inode' d b1 b2. fsop_create K env bi dir name mode inode = Some (None, bi', dir', inode') \<and>
    log_ok content bi' \<and> flash_ok K content bi' \<and> i_ino dir' = i_ino dir \<and> i_ino inode' = ucast (bi_next_inum bi + 1) \<and>
    i_mode inode' = S_IFREG OR mode \<and> i_nlink inode' = 1 \<and> i_size inode' = i_size inode \<and>
    dentarr_rep d (es @ [e]) \<and> length d \<le> 4248 \<and> holds_inode K inode' b1 \<and>
    inode_id_init (i_ino inode') \<noteq> inode_id_init (i_ino dir) \<and>
    obj_map content bi' = (obj_map content bi)(dentarr_id_init (i_ino dir) name \<mapsto> d,
       inode_id_init (i_ino inode') \<mapsto> b1, inode_id_init (i_ino dir) \<mapsto> b2)"
proof -
  let ?b = "bi\<lparr>bi_next_inum := bi_next_inum bi + 1, bi_next_sqnum := bi_next_sqnum bi + 1\<rparr>"
  obtain inode1 where i: "init_inode env bi (Some dir) inode (S_IFREG OR mode) = (None, ?b, inode1)"
    "i_ino inode1 = ucast (bi_next_inum bi + 1)" "i_nlink inode1 = 1" "i_size inode1 = i_size inode"
    "i_mode inode1 = S_IFREG OR mode"
    using init_inode_ok[OF inum(1), of env dir inode "S_IFREG OR mode"] mode_type[OF mode] by (auto simp: S_ISDIR_def)
  have "bi_next_sqnum bi \<le> bi_next_sqnum bi + 1" using log(4) by (simp add: word_le_nat_alt unat_word_ariths)
  then have b: "log_ok content ?b" "flash_ok K content ?b" "obj_map content ?b = obj_map content bi"
    using counters_log[where km = "bi_kmem bi" and r = "bi_rbuf bi" and n = "bi_next_sqnum bi + 1" and m = "bi_next_inum bi + 1"
        and bi = bi and content = content] log(1,2) log_kmem[OF log(1)] by simp_all
  have ty: "inode_mode_to_dent_type (i_mode inode1) = Some BILBYFS_ITYPE_REG"
    using mode_type[OF mode] by (simp add: i(5) inode_mode_to_dent_type_def)
  have ids: "inode_id_init (i_ino inode1) \<noteq> inode_id_init (i_ino dir)" using new_ids_differ[OF inum] i(2) by simp
  have e': "e = \<lparr>dent_ino = ucast (i_ino inode1), dent_type = BILBYFS_ITYPE_REG, dent_name = name\<rparr>"
    by (simp add: e i(2) ucast_up_ucast_id is_up)
  have room': "room_for ?b (array_size (es @ [e]) + 192) 3"
    using room log(4) by (auto simp: room_for_def sum_reserve_def sum_room_def unat_word_ariths)
  from add_new_inode_ok[OF b(1,2) _ name ty ids e' fits(1) _ room', of False] rep fits(2) b(3) obtain bi' dir' d b1 b2 where
    a: "add_new_inode K ?b dir inode1 name False = Some (None, bi', dir', inode1)" "log_ok content bi'" "flash_ok K content bi'"
      "i_ino dir' = i_ino dir" "dentarr_rep d (es @ [e])" "length d \<le> 4248" "holds_inode K inode1 b1"
      "obj_map content bi' = (obj_map content bi)(dentarr_id_init (i_ino dir) name \<mapsto> d,
         inode_id_init (i_ino inode1) \<mapsto> b1, inode_id_init (i_ino dir) \<mapsto> b2)"
    by auto
  have "fsop_create K env bi dir name mode inode = Some (None, bi', dir', inode1)"
    using a(1) i(1) log(3) by (simp add: fsop_create_def)
  then show ?thesis using a i ids by blast
qed

lemma create_lookup_ok:
  assumes "log_ok content bi" "flash_ok K content bi" "\<not> bi_is_ro bi" "unat (bi_next_sqnum bi) + 4 < 2 ^ 64"
    and "bi_next_inum bi < BILBYFS_LAST_INUM" "i_ino dir \<le> ucast (bi_next_inum bi)"
    and rep: "dir_rep (obj_map content bi) (i_ino dir) name es" "name_ok name"
    and "mode AND S_IFMT = 0"
    and e: "e = \<lparr>dent_ino = bi_next_inum bi + 1, dent_type = BILBYFS_ITYPE_REG, dent_name = name\<rparr>"
    and new: "length es < 16" "name \<notin> dent_name ` set es" and size: "i_size inode \<le> word_of_int BILBYFS_MAX_FILE_SZ"
    and short: "obj_map content bi (dentarr_id_init (i_ino dir) name) = None \<longrightarrow> length name \<le> 248"
    and room: "room_for bi (array_size (es @ [e]) + 192) 3"
  shows "\<exists>bi' dir' inode'. fsop_create K env bi dir name mode inode = Some (None, bi', dir', inode') \<and>
    log_ok content bi' \<and> flash_ok K content bi' \<and> i_ino inode' = ucast (bi_next_inum bi + 1) \<and>
    i_mode inode' = S_IFREG OR mode \<and> i_nlink inode' = 1 \<and>
    (\<exists>b. fsop_iget K bi' (i_ino inode') inode0 = Some (None, b, bilbyfs_set_inode_flags (stored_inode inode' inode0))) \<and>
    (\<forall>nm. name_ok nm \<and> dentarr_id_init (i_ino dir) nm = dentarr_id_init (i_ino dir) name \<longrightarrow>
       (\<exists>b. fsop_lookup K bi' dir' nm = Some (if nm = name then Inr (bi_next_inum bi + 1) else lookup_dent nm es, b))) \<and>
    (\<forall>ino nm ds. dentarr_id_init ino nm \<noteq> dentarr_id_init (i_ino dir) name \<longrightarrow>
       dir_rep (obj_map content bi') ino nm ds = dir_rep (obj_map content bi) ino nm ds)"
proof -
  let ?oid = "dentarr_id_init (i_ino dir) name"
  have nm_ok: "\<forall>x \<in> set (es @ [e]). name_ok (dent_name x)"
    using rep by (auto simp: dir_rep_def dentarr_rep_def e split: option.splits)
  have fits: "40 + dents_size (es @ [e]) \<le> 4248" using dents_size_max[OF nm_ok] new(1) by simp
  from create_ok[OF assms(1-6) rep assms(9) e fits short room, of env inode] obtain bi' dir' inode' d b1 b2 where
    c: "fsop_create K env bi dir name mode inode = Some (None, bi', dir', inode')" "log_ok content bi'" "flash_ok K content bi'"
      "i_ino dir' = i_ino dir" "i_ino inode' = ucast (bi_next_inum bi + 1)" "i_mode inode' = S_IFREG OR mode" "i_nlink inode' = 1"
      "i_size inode' = i_size inode"
    and d: "dentarr_rep d (es @ [e])" "length d \<le> 4248" and b1: "holds_inode K inode' b1"
    and ids: "inode_id_init (i_ino inode') \<noteq> inode_id_init (i_ino dir)"
    and m: "obj_map content bi' = (obj_map content bi)(?oid \<mapsto> d, inode_id_init (i_ino inode') \<mapsto> b1, inode_id_init (i_ino dir) \<mapsto> b2)"
    by blast
  have "obj_map content bi' (inode_id_init (i_ino inode')) = Some b1" using ids by (simp add: m)
  then have g: "\<exists>b. fsop_iget K bi' (i_ino inode') inode0 = Some (None, b, bilbyfs_set_inode_flags (stored_inode inode' inode0))"
    using iget_ok[OF c(2,3) _ b1, of "i_ino inode'" inode0] size c(8) by auto
  have l: "\<exists>b. fsop_lookup K bi' dir' nm = Some (if nm = name then Inr (bi_next_inum bi + 1) else lookup_dent nm es, b)"
    if "name_ok nm" "dentarr_id_init (i_ino dir) nm = ?oid" for nm
  proof -
    have "dir_rep (obj_map content bi') (i_ino dir') nm (es @ [e])"
      using c(4) d that(2) new(1) dentarr_ids(1) by (simp add: dir_rep_def m)
    from lookup_ok[OF c(2,3) this that(1)] new(2) show ?thesis
      by (auto simp: lookup_dent_snoc lookup_dent_absent e)
  qed
  have others: "dir_rep (obj_map content bi') ino nm ds = dir_rep (obj_map content bi) ino nm ds"
    if "dentarr_id_init ino nm \<noteq> ?oid" for ino nm ds
    using that dentarr_ids(1) by (intro dir_rep_cong) (simp add: m)
  show ?thesis using c g l others by blast
qed

text \<open>Reading an array with more entries than \<open>BILBYFS_MAX_DENTARR_ENTRIES\<close>.\<close>

lemma dentarr_read_overfull:
  assumes log: "log_ok content bi" "flash_ok K content bi" and b: "obj_map content bi oid = Some d" "length d \<le> 4248"
    and rep: "dentarr_rep d es" "16 < length es"
  shows "dentarr_read K bi oid = None"
proof -
  obtain km where km: "kmalloc_ok (bi_kmem bi) = (True, km)" "\<forall>x \<in> set km. x"
    using kmalloc_ok_all[OF log_kmem[OF log(1)]] by blast
  have s: "same_log content K bi (bi\<lparr>bi_kmem := km\<rparr>)" using same_logI[OF log km(2), of "bi_rbuf bi"] by simp
  note sD = same_logD[OF s]
  let ?d = "splice (uninit K 4248) 0 d"
  obtain bi' where r: "ostore_read_obj K (bi\<lparr>bi_kmem := km\<rparr>) oid (uninit K 4248) 4248 = Some (None, bi', ?d)"
    using read_same_log[OF sD(1,2), of 4248 "uninit K 4248" oid] b sD(3) by auto
  have rd: "dentarr_rep ?d es" using rep_splice[OF rep(1), of "uninit K 4248"] b(2) by simp
  then have "get32 ?d 32 = Some (of_nat (length es))" "get32 ?d 36 = Some (of_nat (40 + dents_size es))" "length es < 2147483648"
    by (simp_all add: dentarr_rep_def getw_Some)
  moreover from this(3) have "16 < (of_nat (length es) :: u32)" using rep(2) by (simp add: word_less_nat_alt unat_of_nat)
  ultimately show ?thesis using r km(1) by (simp add: dentarr_read_def)
qed

lemma create_overfull_ok:
  assumes "log_ok content bi" "flash_ok K content bi" "\<not> bi_is_ro bi" "unat (bi_next_sqnum bi) + 4 < 2 ^ 64"
    and "bi_next_inum bi < BILBYFS_LAST_INUM" "i_ino dir \<le> ucast (bi_next_inum bi)"
    and rep: "dir_rep (obj_map content bi) (i_ino dir) name es" "name_ok name"
    and "mode AND S_IFMT = 0"
    and e: "e = \<lparr>dent_ino = bi_next_inum bi + 1, dent_type = BILBYFS_ITYPE_REG, dent_name = name\<rparr>"
    and full: "length es = 16" "40 + dents_size (es @ [e]) \<le> BILBYFS_MAX_DENTARR_SZ"
    and room: "room_for bi (array_size (es @ [e]) + 192) 3"
  shows "\<exists>bi' dir' inode'. fsop_create K env bi dir name mode inode = Some (None, bi', dir', inode') \<and>
    log_ok content bi' \<and>
    (\<forall>nm. name_ok nm \<and> dentarr_id_init (i_ino dir) nm = dentarr_id_init (i_ino dir) name \<longrightarrow> fsop_lookup K bi' dir' nm = None)"
proof -
  let ?oid = "dentarr_id_init (i_ino dir) name"
  have fits: "40 + dents_size (es @ [e]) \<le> 4248" "obj_map content bi ?oid = None \<longrightarrow> length name \<le> 248"
    using full rep(1) by (auto simp: dir_rep_def)
  from create_ok[OF assms(1-6) rep assms(9) e fits room, of env inode] obtain bi' dir' inode' d b1 b2 where
    c: "fsop_create K env bi dir name mode inode = Some (None, bi', dir', inode')" "log_ok content bi'" "flash_ok K content bi'"
      "i_ino dir' = i_ino dir"
    and d: "dentarr_rep d (es @ [e])" "length d \<le> 4248"
    and m: "obj_map content bi' = (obj_map content bi)(?oid \<mapsto> d, inode_id_init (i_ino inode') \<mapsto> b1, inode_id_init (i_ino dir) \<mapsto> b2)"
    by blast
  obtain km where km: "kmalloc_ok (bi_kmem bi') = (True, km)" "\<forall>x \<in> set km. x"
    using kmalloc_ok_all[OF log_kmem[OF c(2)]] by blast
  let ?b = "bi'\<lparr>bi_kmem := km\<rparr>"
  have s: "same_log content K bi' ?b" using same_logI[OF c(2,3) km(2), of "bi_rbuf bi'"] by simp
  note sD = same_logD[OF s]
  have "obj_map content ?b ?oid = Some d" using dentarr_ids(1) sD(3) by (simp add: m)
  from dentarr_read_overfull[OF sD(1,2) this d(2,1)] full(1) have "dentarr_read K ?b ?oid = None" by simp
  then have "fsop_lookup K bi' dir' nm = None" if "name_ok nm" "dentarr_id_init (i_ino dir) nm = ?oid" for nm
    using that km(1) c(4) by (simp add: fsop_lookup_def dir_lookup_nm_def name_ok_def)
  then show ?thesis using c(1,2) by blast
qed

section \<open>Removing the only entry\<close>

lemma unlink_lookup_ok:
  assumes log: "log_ok content bi" "flash_ok K content bi" "\<not> bi_is_ro bi"
    and rep: "dir_rep (obj_map content bi) (i_ino dir) name [e]" "dent_name e = name"
    and inode: "inode_id_init (i_ino inode) \<noteq> inode_id_init (i_ino dir)" "i_size inode \<le> word_of_int BILBYFS_MAX_FILE_SZ"
    and room: "room_for bi (BILBYFS_DEL_SZ + 192) 3"
  shows "\<exists>bi' dir' inode'. fsop_unlink K env bi dir name inode = Some (None, bi', dir', inode') \<and>
    log_ok content bi' \<and> flash_ok K content bi' \<and> i_nlink inode' = i_nlink inode - 1 \<and>
    bi_flags inode' = (if i_nlink inode = 1 then bi_flags inode OR BILBYFS_ORPHAN_FL else bi_flags inode) \<and>
    (\<exists>b. fsop_iget K bi' (i_ino inode) inode0 = Some (None, b, bilbyfs_set_inode_flags (stored_inode inode' inode0))) \<and>
    (\<forall>nm. name_ok nm \<and> dentarr_id_init (i_ino dir) nm = dentarr_id_init (i_ino dir) name \<longrightarrow>
       (\<exists>b. fsop_lookup K bi' dir' nm = Some (Inl ENOENT, b))) \<and>
    (\<forall>ino nm ds. dentarr_id_init ino nm \<noteq> dentarr_id_init (i_ino dir) name \<longrightarrow>
       dir_rep (obj_map content bi') ino nm ds = dir_rep (obj_map content bi) ino nm ds)"
proof -
  let ?oid = "dentarr_id_init (i_ino dir) name"
  define i1 where "i1 = drop_nlink (inode\<lparr>i_ctime := env_now env\<rparr>)"
  define i2 where "i2 = (if i_nlink i1 = 0 then i1\<lparr>bi_flags := bi_flags i1 OR BILBYFS_ORPHAN_FL\<rparr> else i1)"
  define dir2 where "dir2 = dir\<lparr>i_size := i_size dir - word_of_int (8 + int (length name)), i_ctime := i_ctime i2, i_mtime := i_ctime i2\<rparr>"
  from rep obtain b0 where b0: "obj_map content bi ?oid = Some b0" "dentarr_rep b0 [e]" "length b0 \<le> 4248"
    by (auto simp: dir_rep_def split: option.splits)
  let ?d = "splice (uninit K 4248) 0 b0"
  from dentarr_read_ok[OF log(1,2) rep(1)] b0(1) obtain b where
    r: "same_log content K bi b" "dentarr_read K bi ?oid = Some (Inr ?d, b)" by auto
  note rD = same_logD[OF r(1)]
  have d: "dentarr_rep ?d [e]" "length ?d = 4248" using rep_splice[OF b0(2), of "uninit K 4248"] b0(3) by simp_all
  have "32 \<le> length b0" "rd64 b0 24 = ?oid" using log_okD(6)[OF log(1) b0(1)] by (simp_all add: carries_id_def)
  then have oid: "rd64 ?d 24 = ?oid" using b0(3) by (simp add: splice_def rdw_def)
  obtain km where km: "kmalloc_ok (bi_kmem b) = (True, km)" "\<forall>x \<in> set km. x"
    using kmalloc_ok_all[OF log_kmem[OF rD(1)]] by blast
  from dentarr_del_only_entry[OF d(1) km(1)] rep(2) d(2) oid obtain d' where
    d': "dentarr_del_dentry (bi_kmem b) ?d name = Some (Inr (8 + int (length name)), d', km)" "length d' = 4248"
      "get_obj_id d' 0 = Some ?oid" "rd8 d' 20 = BILBYFS_DEL_OBJ" "rd32 d' 16 = of_nat BILBYFS_DEL_SZ" by auto
  have id': "rd64 d' 24 = ?oid" using d'(2,3,4) by (auto simp: get_obj_id_def getw_Some bind_eq_Some_conv)
  have ty: "type_from_id ?oid = 2" using dentarr_type by simp
  have ok: "trans_obj_ok d'" using d' id' ty dentarr_ids(2) by (simp add: trans_obj_ok_def is_live_type_def)
  let ?b = "b\<lparr>bi_kmem := km\<rparr>"
  have s: "same_log content K bi ?b" using same_log_trans[OF r(1)] same_logI[OF rD(1,2) km(2), of "bi_rbuf b"] by simp
  note sD = same_logD[OF s]
  have "room_for ?b (unat (rd32 d' 16) + 192) 3" using room room_same[OF s] d'(5) by simp
  from commit_inodes_ok[OF sD(1,2) ok this, of "OSW_NONE\<lparr>OSW_DEL := True\<rparr>" dir2 i2] obtain bi' d2 b1 b2 where
    c: "trans_commit_inodes K ?b dir2 i2 [d'] (OSW_NONE\<lparr>OSW_DEL := True\<rparr>) = Some (None, bi')" "log_ok content bi'" "flash_ok K content bi'"
    and d2: "drop 24 d2 = drop 24 d'" "rd8 d2 20 = rd8 d' 20" and h: "holds_inode K i2 b1"
    and m: "obj_map content bi' = (put_obj d2 (obj_map content ?b))(inode_id_init (i_ino i2) \<mapsto> b1, inode_id_init (i_ino dir2) \<mapsto> b2)"
    by (auto simp: OSW_NONE_def)
  have i2: "i_ino i2 = i_ino inode" "i_size i2 = i_size inode" "i_nlink i2 = i_nlink inode - 1"
      "bi_flags i2 = (if i_nlink inode = 1 then bi_flags inode OR BILBYFS_ORPHAN_FL else bi_flags inode)" "i_ino dir2 = i_ino dir"
    by (simp_all add: i2_def i1_def dir2_def drop_nlink_def)
  have "rd64 d2 24 = ?oid" using rdw_drop[where n = 8 and off = 24 and 'a = 64, OF _ d2(1)] id' by simp
  then have m': "obj_map content bi' = (obj_map content bi |` (- {?oid}))(inode_id_init (i_ino inode) \<mapsto> b1, inode_id_init (i_ino dir) \<mapsto> b2)"
    unfolding m i2 sD(3) using d2(2) d'(4) ty by (simp add: put_obj_def is_live_type_def del_range_def)
  have u: "fsop_unlink K env bi dir name inode = Some (None, bi', dir2, i2)"
    using log(3) r(2) d'(1) c(1)
    by (simp add: fsop_unlink_def fsop_del_dentry_def Let_def dir2_def i2_def i1_def cong: if_cong)
  have g: "\<exists>b. fsop_iget K bi' (i_ino inode) inode0 = Some (None, b, bilbyfs_set_inode_flags (stored_inode i2 inode0))"
    using iget_ok[OF c(2,3) _ h, of "i_ino inode" inode0] inode i2(2) by (auto simp: m')
  have l: "\<exists>b. fsop_lookup K bi' dir2 nm = Some (Inl ENOENT, b)"
    if "name_ok nm" "dentarr_id_init (i_ino dir) nm = ?oid" for nm
  proof -
    have "dir_rep (obj_map content bi') (i_ino dir2) nm []"
      using that(2) dentarr_ids(1) i2(5) by (simp add: dir_rep_def m' restrict_map_def)
    from lookup_ok[OF c(2,3) this that(1)] show ?thesis by (auto simp: lookup_dent_def)
  qed
  have o: "dir_rep (obj_map content bi') ino nm ds = dir_rep (obj_map content bi) ino nm ds" if "dentarr_id_init ino nm \<noteq> ?oid" for ino nm ds
    using that dentarr_ids(1) by (intro dir_rep_cong) (simp add: m' restrict_map_def)
  show ?thesis using u c(2,3) i2(3,4) g l o by blast
qed

section \<open>Properties\<close>

text \<open>A volume with one array of directory 0 on the flash, for the examples.\<close>

definition demo_array :: "dent list \<Rightarrow> buf" where
  "demo_array es = replicate 16 0 @ le_enc 4 (of_nat (array_size es) :: u32) @ [2, 0, 0, 0] @
     le_enc 8 (dentarr_id_init 0 [97]) @ le_enc 4 (of_nat (length es) :: u32) @
     le_enc 4 (of_nat (40 + dents_size es) :: u32) @ concat (map enc_dent es) @
     replicate (array_size es - (40 + dents_size es)) 0"

definition demo_volume :: "dent list \<Rightarrow> unit \<Rightarrow> int \<Rightarrow> buf" where
  "demo_volume es u l = demo_array es @ replicate (4096 - array_size es) 255"

definition demo_volume_kernel :: "dent list \<Rightarrow> unit kernel" where
  "demo_volume_kernel es = demo_kernel\<lparr>k_ubi_read := \<lambda>u l offs n. Inr (take (nat n) (drop (nat offs) (demo_volume es u l)))\<rparr>"

definition demo_dir :: "dent list \<Rightarrow> unit bilbyfs_info" where
  "demo_dir es = demo_log\<lparr>bi_next_inum := 30, bi_idx_hash := (replicate IDX_HASH_SIZE NIL)[0 :=
     Node NIL RBT_BLACK \<lparr>xn_addr = demo_addr\<lparr>oa_len := of_nat (array_size es)\<rparr>, xn_id = dentarr_id_init 0 [97]\<rparr> NIL]\<rparr>"

lemma demo_array_rep:
  assumes "40 + dents_size es \<le> 4000" "\<forall>e \<in> set es. name_ok (dent_name e)"
  shows "dentarr_rep (demo_array es) es" "length (demo_array es) = array_size es" "rd64 (demo_array es) 24 = dentarr_id_init 0 [97]"
    "rd8 (demo_array es) 20 = 2"
proof -
  note a = array_size[of es]
  have a1: "40 + dents_size es \<le> array_size es" using a(1) assms(1) by simp
  show l: "length (demo_array es) = array_size es" using a1 by (simp add: demo_array_def length_enc_dents)
  show "rd64 (demo_array es) 24 = dentarr_id_init 0 [97]" "rd8 (demo_array es) 20 = 2"
    by (simp_all add: demo_array_def rdw_def le_dec_enc_full le_dec.simps)
  have r: "rd32 (demo_array es) 32 = of_nat (length es)" "rd32 (demo_array es) 36 = of_nat (40 + dents_size es)"
    by (simp_all add: demo_array_def rdw_def le_dec_enc_full del: of_nat_add)
  have t: "take (dents_size es) (drop 40 (demo_array es)) = concat (map enc_dent es)"
    by (simp add: demo_array_def length_enc_dents)
  show "dentarr_rep (demo_array es) es"
    using l r t a1 assms dents_size_min[of es] by (simp add: dentarr_rep_def)
qed

lemma demo_dir_ok:
  assumes es: "40 + dents_size es \<le> 4000" "\<forall>e \<in> set es. name_ok (dent_name e)" "length es \<le> 16"
  shows "log_ok (demo_volume es) (demo_dir es)" "flash_ok (demo_volume_kernel es) (demo_volume es) (demo_dir es)"
    "obj_map (demo_volume es) (demo_dir es) = [dentarr_id_init 0 [97] \<mapsto> demo_array es]"
    "dir_rep (obj_map (demo_volume es) (demo_dir es)) 0 [97] es"
proof -
  note d = demo_array_rep[OF es(1,2)]
  let ?id = "dentarr_id_init 0 [97]" and ?a = "demo_addr\<lparr>oa_len := of_nat (array_size es)\<rparr>"
  have sz: "32 \<le> array_size es" "array_size es \<le> 4000"
    using array_size(1)[of es] ALIGN_8_mono[of "int (40 + dents_size es)" 4000] es(1)
    by (simp_all add: array_size_def ALIGN_8 nat_le_iff)
  have u: "unat (of_nat (array_size es) :: u32) = array_size es" using sz by (simp add: unat_of_nat)
  have bk: "idx_bucket ?id = 0" by code_simp
  have i: "idx_map (demo_dir es) = [?id \<mapsto> ?a]"
  proof
    fix k
    have "table_map xn_id idx_bucket (bi_idx_hash (demo_dir es)) k =
       (if idx_bucket k = 0 \<and> k = ?id then Some \<lparr>xn_addr = ?a, xn_id = ?id\<rparr> else None)"
      by (auto simp: demo_dir_def table_map_def nth_list_update)
    then show "idx_map (demo_dir es) k = [?id \<mapsto> ?a] k" using bk by (simp add: idx_map_def)
  qed
  have same: "bi_wbuf (demo_dir es) = bi_wbuf demo_log" "bi_super (demo_dir es) = bi_super demo_log" "fsm_get_lnum (demo_dir es) = 3"
    "bi_next_sqnum (demo_dir es) = bi_next_sqnum demo_log" "bi_kmem (demo_dir es) = bi_kmem demo_log" "bi_rbuf (demo_dir es) = bi_rbuf demo_log"
    "bi_used_leb_list (demo_dir es) = bi_used_leb_list demo_log" "bi_node_pool (demo_dir es) = bi_node_pool demo_log"
    by (simp_all add: demo_dir_def fsm_get_lnum_def demo_log_def demo_store_def)
  have f: "fsm_get_lnum demo_log = 3" by (simp add: fsm_get_lnum_def demo_log_def demo_store_def)
  have st: "store_ok (demo_dir es)"
  proof -
    have "gim_ok (demo_dir es) = gim_ok demo_log" "fsm_ok (demo_dir es) = fsm_ok demo_log" "addr_ok (demo_dir es) ?a = addr_ok demo_log demo_addr"
      by (simp_all add: gim_ok_def fsm_ok_def addr_ok_def demo_dir_def)
    moreover have "idx_ok (demo_dir es)"
      using bk by (simp add: idx_ok_def table_ok_def demo_dir_def rb_inv_def nth_list_update)
    moreover have "idx_map demo_log = idx_map demo_store" by (simp add: idx_map_def demo_log_def fun_eq_iff)
    then have "demo_addr \<in> ran (idx_map demo_log)" by (simp add: demo_store_map)
    moreover have "store_ok demo_log" by (rule log_okD(2)[OF demo_log_ok(1)])
    ultimately show ?thesis using dentarr_ids(2) by (auto simp: store_ok_def i)
  qed
  have w: "writer_ok (demo_dir es)" using log_okD(1)[OF demo_log_ok(1)] st same f unfolding writer_ok_def by (elim conjE, intro conjI) simp_all
  have lb: "log_bytes (demo_volume es) (demo_dir es) ?a = demo_array es"
    using d(2) u by (simp add: log_bytes_def eb_bytes_def same demo_addr_def demo_volume_def)
  show m: "obj_map (demo_volume es) (demo_dir es) = [?id \<mapsto> demo_array es]" by (auto simp: obj_map_def i lb)
  have "addr_in_log (demo_dir es) ?a"
    using sz u by (simp add: addr_in_log_def same demo_addr_def) (simp add: demo_log_def demo_store_def)
  then show "log_ok (demo_volume es) (demo_dir es)"
    using w d sz by (auto simp: log_ok_def i m carries_id_def is_live_type_def split: if_splits)
  show "flash_ok (demo_volume_kernel es) (demo_volume es) (demo_dir es)"
    using sz d(2) by (auto simp: flash_ok_def ubi_reads_def demo_volume_kernel_def same demo_log_def demo_store_def demo_volume_def intro!: exI[of _ 3])
  show "dir_rep (obj_map (demo_volume es) (demo_dir es)) 0 [97] es"
    using d(1,2) sz es(3) by (simp add: dir_rep_def m)
qed

lemma demo_dir_room: "bytes + 200 \<le> 4096 \<Longrightarrow> room_for (demo_dir es) bytes 3"
proof -
  assume a: "bytes + 200 \<le> 4096"
  have "rd32 (replicate 4096 0) 24 = 0" by code_simp
  then show ?thesis using a
    by (simp add: room_for_def demo_dir_def demo_log_def demo_store_def sum_reserve_def sum_room_def sum_entry_offs_def ALIGN_8)
qed
text \<open>
  C16. \<open>fsop_lookup\<close> answers what the directory holds: the inode number of the first entry with the
  name in the array for the hash of the name, \<open>ENOENT\<close> when there is no such entry or no
  array. The array is read from the write-buffer or from the flash. Only the read-buffer and the
  memory change.
\<close>

theorem fsop_lookup_correct:
  assumes "log_ok content bi" "flash_ok K content bi" "dir_rep (obj_map content bi) (i_ino dir) name es" "name_ok name"
  shows "\<exists>bi'. fsop_lookup K bi dir name = Some (lookup_dent name es, bi') \<and> same_log content K bi bi'"
  using lookup_ok[OF assms] by blast

definition demo_entry :: dent where
  "demo_entry = \<lparr>dent_ino = 25, dent_type = BILBYFS_ITYPE_REG, dent_name = [97]\<rparr>"

lemma demo_entry_ok:
  shows "log_ok (demo_volume [demo_entry]) (demo_dir [demo_entry])"
    "flash_ok (demo_volume_kernel [demo_entry]) (demo_volume [demo_entry]) (demo_dir [demo_entry])"
    "dir_rep (obj_map (demo_volume [demo_entry]) (demo_dir [demo_entry])) 0 [97] [demo_entry]"
  by (rule demo_dir_ok; simp add: demo_entry_def name_ok_def)+

theorem fsop_lookup_correct_witness:
  "\<exists>bi'. fsop_lookup (demo_volume_kernel [demo_entry]) (demo_dir [demo_entry]) (demo_inode\<lparr>i_ino := 0\<rparr>) [97] = Some (Inr 25, bi')"
  using fsop_lookup_correct[OF demo_entry_ok(1,2), of "demo_inode\<lparr>i_ino := 0\<rparr>" "[97]" "[demo_entry]"] demo_entry_ok(3)
  by (auto simp: demo_entry_def name_ok_def lookup_dent_def)

text \<open>
  C3. Creating a file and looking it up: on a directory that has fewer than 16 entries with the
  hash of the name, and not the name itself, \<open>fsop_create\<close> succeeds when the transaction fits in
  the write-buffer. The new file has the next inode number, one link and the requested mode; \<open>fsop_iget\<close> reads its
  inode back, \<open>fsop_lookup\<close> finds the name and answers as before for the
  other names of the array, and the arrays of all other names, in this and in other directories,
  stay as they were. The invariants of the store hold again.
\<close>

theorem fsop_create_then_lookup:
  assumes "log_ok content bi" "flash_ok K content bi" "\<not> bi_is_ro bi" "unat (bi_next_sqnum bi) + 4 < 2 ^ 64"
    and "bi_next_inum bi < BILBYFS_LAST_INUM" "i_ino dir \<le> ucast (bi_next_inum bi)"
    and "dir_rep (obj_map content bi) (i_ino dir) name es" "name_ok name"
    and "mode AND S_IFMT = 0"
    and "e = \<lparr>dent_ino = bi_next_inum bi + 1, dent_type = BILBYFS_ITYPE_REG, dent_name = name\<rparr>"
    and "length es < 16" "name \<notin> dent_name ` set es" "i_size inode \<le> word_of_int BILBYFS_MAX_FILE_SZ"
    and "obj_map content bi (dentarr_id_init (i_ino dir) name) = None \<longrightarrow> length name \<le> 248"
    and "room_for bi (array_size (es @ [e]) + 2 * BILBYFS_INODE_SZ) 3"
  shows "\<exists>bi' dir' inode'. fsop_create K env bi dir name mode inode = Some (None, bi', dir', inode') \<and>
    log_ok content bi' \<and> flash_ok K content bi' \<and> i_ino inode' = ucast (bi_next_inum bi + 1) \<and>
    i_mode inode' = S_IFREG OR mode \<and> i_nlink inode' = 1 \<and>
    (\<exists>b. fsop_iget K bi' (i_ino inode') inode0 = Some (None, b, bilbyfs_set_inode_flags (stored_inode inode' inode0))) \<and>
    (\<forall>nm. name_ok nm \<and> dentarr_id_init (i_ino dir) nm = dentarr_id_init (i_ino dir) name \<longrightarrow>
       (\<exists>b. fsop_lookup K bi' dir' nm = Some (if nm = name then Inr (bi_next_inum bi + 1) else lookup_dent nm es, b))) \<and>
    (\<forall>ino nm ds. dentarr_id_init ino nm \<noteq> dentarr_id_init (i_ino dir) name \<longrightarrow>
       dir_rep (obj_map content bi') ino nm ds = dir_rep (obj_map content bi) ino nm ds)"
  using assms(15) by (intro create_lookup_ok[OF assms(1-14)]) simp

definition demo_env :: fsop_env where
  "demo_env = \<lparr>env_now = 9, env_fsuid = 0, env_fsgid = 0\<rparr>"

lemma demo_dir_sel:
  "\<not> bi_is_ro (demo_dir es)" "bi_next_sqnum (demo_dir es) = 5" "bi_next_inum (demo_dir es) = 30"
  by (simp_all add: demo_dir_def demo_log_def demo_store_def info_on_def)

lemma demo_id_b: "dentarr_id_init 0 [98] \<noteq> dentarr_id_init 0 [97]"
  by code_simp

theorem fsop_create_then_lookup_witness:
  "\<exists>bi' dir' inode' b. fsop_create (demo_volume_kernel [demo_entry]) demo_env (demo_dir [demo_entry]) (demo_inode\<lparr>i_ino := 0\<rparr>) [98] 0x1A4
     demo_inode = Some (None, bi', dir', inode') \<and> fsop_lookup (demo_volume_kernel [demo_entry]) bi' dir' [98] = Some (Inr 31, b)"
proof -
  let ?dir = "demo_inode\<lparr>i_ino := 0\<rparr>" and ?bi = "demo_dir [demo_entry]"
  let ?e = "\<lparr>dent_ino = bi_next_inum ?bi + 1, dent_type = BILBYFS_ITYPE_REG, dent_name = [98]\<rparr>"
  have rep: "dir_rep (obj_map (demo_volume [demo_entry]) ?bi) (i_ino ?dir) [98] []"
    using demo_id_b by (simp add: dir_rep_def demo_dir_ok(3) demo_entry_def name_ok_def)
  have "array_size ([] @ [?e]) = 56" by (simp add: array_size_def ALIGN_8)
  then have room: "room_for ?bi (array_size ([] @ [?e]) + 2 * BILBYFS_INODE_SZ) 3" using demo_dir_room[of 248] by simp
  have short: "obj_map (demo_volume [demo_entry]) ?bi (dentarr_id_init (i_ino ?dir) [98]) = None \<longrightarrow> length [98 :: u8] \<le> 248" by simp
  obtain bi' dir' inode' where
    c: "fsop_create (demo_volume_kernel [demo_entry]) demo_env ?bi ?dir [98] 0x1A4 demo_inode = Some (None, bi', dir', inode')"
    and l: "\<forall>nm. name_ok nm \<and> dentarr_id_init (i_ino ?dir) nm = dentarr_id_init (i_ino ?dir) [98] \<longrightarrow>
       (\<exists>b. fsop_lookup (demo_volume_kernel [demo_entry]) bi' dir' nm = Some (if nm = [98] then Inr (bi_next_inum ?bi + 1) else lookup_dent nm [], b))"
    using fsop_create_then_lookup[where mode = "0x1A4" and inode = demo_inode and env = demo_env,
      OF demo_entry_ok(1,2) _ _ _ _ rep _ _ refl _ _ _ short room] by (simp add: demo_dir_sel demo_inode_def name_ok_def) blast
  have "name_ok [98]" by (simp add: name_ok_def)
  then show ?thesis using c l[rule_format, of "[98]"] by (auto simp: demo_dir_sel)
qed




definition demo_full :: "dent list" where
  "demo_full = map (\<lambda>i. \<lparr>dent_ino = of_nat i, dent_type = BILBYFS_ITYPE_REG, dent_name = [of_nat i]\<rparr>) [1..<17]"

lemma demo_full_ok: "length demo_full = 16" "dents_size demo_full = 144" "\<forall>e \<in> set demo_full. name_ok (dent_name e)"
proof -
  show "length demo_full = 16" by (simp add: demo_full_def)
  show "dents_size demo_full = 144" by (simp add: demo_full_def dents_size_def comp_def sum_list_triv)
  have "(of_nat i :: u8) \<noteq> 0" if "1 \<le> i" "i < 17" for i
    using that by (simp add: of_nat_eq_0_iff unat_of_nat word_unat_eq_iff)
  then show "\<forall>e \<in> set demo_full. name_ok (dent_name e)" by (auto simp: demo_full_def name_ok_def)
qed


end
