(* ===== verification/Bilby_Vfs.thy ===== *)
theory Bilby_Vfs
  imports Bilby_Pages Bilby_Dirprops
begin

unbundle bit_operations_syntax

text \<open>
  Properties of the entry points in \<open>os/linux/wrapper.c\<close>. A request of the VFS is a call of one of the
  handlers with its arguments. Every request that returns leaves the semaphore and the references
  to inodes balanced; what an inode offers fits its type; and what goes wrong in \<open>bilbyfs_dir_llseek\<close>
  and when mounting.
\<close>

section \<open>Requests\<close>

datatype 'c request =
    R_lookup nat name
  | R_link nat nat name
  | R_create nat name u16
  | R_unlink nat name nat
  | R_rmdir nat name nat
  | R_mkdir nat name u16
  | R_readdir "'c \<Rightarrow> u64 \<Rightarrow> bool \<times> 'c \<times> u64" "'c \<Rightarrow> name \<Rightarrow> int \<Rightarrow> u64 \<Rightarrow> u32 \<Rightarrow> bool \<times> 'c" nat 'c u64
      "fsop_readdir_ctx option"
  | R_dir_release "fsop_readdir_ctx option"
  | R_symlink nat name name
  | R_rename nat name nat nat name "nat option" u32
  | R_fsync
  | R_readpage nat page
  | R_write_begin nat u64 u32
  | R_write_end nat u64 u32 page
  | R_write_end_writeback nat u64 u32 u32 page
  | R_writepage nat page
  | R_follow_link nat
  | R_get_link nat
  | R_setattr nat iattr
  | R_getattr nat
  | R_statfs
  | R_sync_fs bool
  | R_evict_inode nat nat

definition vfs_request ::
  "'u vfs \<Rightarrow> 'u kernel \<Rightarrow> fsop_env \<Rightarrow> 'c request \<Rightarrow> 'u wrap \<Rightarrow> (errno option \<times> 'u wrap) option" where
  "vfs_request V K env req w =
     (case req of
        R_lookup dir nm \<Rightarrow> bilbyfs_lookup V K w dir nm
      | R_link old dir nm \<Rightarrow> bilbyfs_link K env w old dir nm
      | R_create dir nm mode \<Rightarrow> bilbyfs_create V K env w dir nm mode
      | R_unlink dir nm a \<Rightarrow> bilbyfs_unlink K env w dir nm a
      | R_rmdir dir nm a \<Rightarrow> bilbyfs_rmdir K env w dir nm a
      | R_mkdir dir nm mode \<Rightarrow> bilbyfs_mkdir V K env w dir nm mode
      | R_readdir dots emit dir ctx pos rdx \<Rightarrow>
          map_option (\<lambda>(e, w, _). (e, w)) (bilbyfs_readdir dots emit K w dir ctx pos rdx)
      | R_dir_release rdx \<Rightarrow> map_option (\<lambda>(e, w, _). (e, w)) (bilbyfs_dir_release w rdx)
      | R_symlink dir nm symname \<Rightarrow> bilbyfs_symlink V K env w dir nm symname
      | R_rename od on oi nd nn ni fl \<Rightarrow> bilbyfs_rename V K env w od on oi nd nn ni fl
      | R_fsync \<Rightarrow> bilbyfs_fsync V K w
      | R_readpage a page \<Rightarrow> map_option (\<lambda>(e, w, _). (e, w)) (bilbyfs_readpage K w a page)
      | R_write_begin a pos len \<Rightarrow> map_option (\<lambda>(e, w, _). (e, w)) (bilbyfs_write_begin V K w a pos len)
      | R_write_end a pos copied page \<Rightarrow>
          map_option (\<lambda>(r, w, _). (case r of Inl e \<Rightarrow> Some e | Inr _ \<Rightarrow> None, w)) (bilbyfs_write_end K env w a pos copied page)
      | R_write_end_writeback a pos len copied page \<Rightarrow>
          map_option (\<lambda>(_, w, _). (None, w)) (bilbyfs_write_end_writeback w a pos len copied page)
      | R_writepage a page \<Rightarrow> map_option (\<lambda>(e, w, _). (e, w)) (bilbyfs_writepage K env w a page)
      | R_follow_link a \<Rightarrow> bilbyfs_follow_link K w a
      | R_get_link a \<Rightarrow> map_option (\<lambda>(r, w). (case r of Inl e \<Rightarrow> Some e | Inr _ \<Rightarrow> None, w)) (bilbyfs_get_link K w a)
      | R_setattr a attr \<Rightarrow> map_option (\<lambda>(e, w, _). (e, w)) (bilbyfs_setattr V K env w a attr)
      | R_getattr a \<Rightarrow> map_option (\<lambda>(e, w, _). (e, w)) (bilbyfs_getattr w a 0 0)
      | R_statfs \<Rightarrow> map_option (\<lambda>(e, w, _). (e, w)) (bilbyfs_statfs w)
      | R_sync_fs wait \<Rightarrow> bilbyfs_sync_fs V K w wait
      | R_evict_inode a cnt \<Rightarrow> map_option (\<lambda>w. (None, w)) (bilbyfs_evict_inode V K w a cnt))"

text \<open>The references to an inode that the calls take and give away.\<close>

fun ref_change :: "nat \<Rightarrow> vcall \<Rightarrow> int" where
  "ref_change a (Iget_locked inum r) = (if r = Some a then 1 else 0)"
| "ref_change a (New_inode r) = (if r = Some a then 1 else 0)"
| "ref_change a (Ihold b) = (if a = b then 1 else 0)"
| "ref_change a (Iput b) = (if a = b then -1 else 0)"
| "ref_change a (Iget_failed b) = (if a = b then -1 else 0)"
| "ref_change a (D_add b) = (if a = b then -1 else 0)"
| "ref_change a (D_instantiate b) = (if a = b then -1 else 0)"
| "ref_change a (D_make_root b ok) = (if a = b then -1 else 0)"
| "ref_change a c = 0"

definition refs_held :: "vcall list \<Rightarrow> nat \<Rightarrow> int" where
  "refs_held cs a = (\<Sum>c\<leftarrow>cs. ref_change a c)"

text \<open>What a request has to leave as it found it.\<close>

definition resources :: "'u wrap \<Rightarrow> nat \<times> (nat \<Rightarrow> int)" where
  "resources w = (w_sem w, refs_held (w_calls w))"

section \<open>Balance\<close>

named_theorems wrap_simps

lemma refs_held_snoc [wrap_simps]: "refs_held (cs @ [c]) a = refs_held cs a + ref_change a c"
  by (simp add: refs_held_def)

lemma refs_held_call [wrap_simps]: "refs_held (w_calls (call c w)) = (\<lambda>a. refs_held (w_calls w) a + ref_change a c)"
  by (auto simp: call_def wrap_simps)

lemma sem_simps [wrap_simps]:
  "w_sem (call c w) = w_sem w" "w_sem (put_bi bi w) = w_sem w" "w_sem (put_inode a i w) = w_sem w"
  "w_sem (put_tables a t w) = w_sem w" "w_sem (up w) = w_sem w + 1"
  by (simp_all add: call_def put_bi_def put_inode_def put_tables_def up_def)

lemma calls_simps [wrap_simps]:
  "w_calls (put_bi bi w) = w_calls w" "w_calls (put_inode a i w) = w_calls w"
  "w_calls (put_tables a t w) = w_calls w" "w_calls (up w) = w_calls w"
  by (simp_all add: put_bi_def put_inode_def put_tables_def up_def)

lemma down_cases: "down w = Some w' \<longleftrightarrow> w_sem w \<noteq> 0 \<and> w' = w\<lparr>w_sem := w_sem w - 1\<rparr>"
  by (auto simp: down_def)

lemma init_inode_by_type_resources [wrap_simps]:
  "w_sem (snd (init_inode_by_type V a w)) = w_sem w" "w_calls (snd (init_inode_by_type V a w)) = w_calls w"
  by (simp_all add: init_inode_by_type_def Let_def wrap_simps)

lemma resources_up_down:
  "down w = Some w1 \<Longrightarrow> resources (up w1) = resources w"
  by (auto simp: resources_def down_cases up_def)

lemma iget_resources:
  assumes "bilbyfs_iget V K w inum = Some (r, w')"
  shows "w_sem w' = w_sem w"
    "refs_held (w_calls w') a = refs_held (w_calls w) a + (if r = Inr a then 1 else 0)"
  using assms
  by (auto simp: bilbyfs_iget_def down_cases wrap_simps Let_def
      split: Option.bind_splits option.splits if_splits prod.splits)

lemma new_inode_resources:
  assumes "bilbyfs_new_inode V env w dir mode = (r, w')"
  shows "w_sem w' = w_sem w"
    "refs_held (w_calls w') a = refs_held (w_calls w) a + (if r = Inr a then 1 else 0)"
proof -
  note * = assms[unfolded bilbyfs_new_inode_def Let_def]
  show "w_sem w' = w_sem w"
    using * by (auto simp: case_prod_unfold wrap_simps split: option.splits if_splits)
  show "refs_held (w_calls w') a = refs_held (w_calls w) a + (if r = Inr a then 1 else 0)"
    using * by (auto simp: case_prod_unfold wrap_simps split: option.splits if_splits)
qed

lemma resourcesI:
  "w_sem w' = w_sem w \<Longrightarrow> (\<And>a. refs_held (w_calls w') a = refs_held (w_calls w) a) \<Longrightarrow> resources w' = resources w"
  by (auto simp: resources_def)

lemmas handler_simps = resources_def down_cases wrap_simps Let_def
lemmas handler_splits = Option.bind_splits option.splits if_splits prod.splits sum.splits

lemma finish_new_resources:
  assumes "finish_new err a w = (r, w')"
  shows "w_sem w' = w_sem w"
    "refs_held (w_calls w') b = refs_held (w_calls w) b - (if a = b then 1 else 0)"
  using assms by (auto simp: finish_new_def wrap_simps split: if_splits)

lemma iget_handed_on:
  "bilbyfs_iget V K w inum = Some (Inr a, w') \<Longrightarrow> resources (call (D_add a) w') = resources w"
  by (rule resourcesI) (auto simp: iget_resources wrap_simps)

lemma iget_error:
  "bilbyfs_iget V K w inum = Some (Inl e, w') \<Longrightarrow> resources w' = resources w"
  by (rule resourcesI) (auto simp: iget_resources wrap_simps)

lemma lookup_resources:
  "bilbyfs_lookup V K w dir nm = Some (r, w') \<Longrightarrow> resources w' = resources w"
  by (auto simp: bilbyfs_lookup_def handler_simps split: handler_splits dest!: iget_handed_on iget_error)

lemma link_resources:
  "bilbyfs_link K env w old dir nm = Some (r, w') \<Longrightarrow> resources w' = resources w"
  by (auto simp: bilbyfs_link_def handler_simps split: handler_splits)

lemma unlink_resources:
  "bilbyfs_unlink K env w dir nm a = Some (r, w') \<Longrightarrow> resources w' = resources w"
  by (auto simp: bilbyfs_unlink_def handler_simps split: handler_splits)

lemma rmdir_resources:
  "bilbyfs_rmdir K env w dir nm a = Some (r, w') \<Longrightarrow> resources w' = resources w"
  by (auto simp: bilbyfs_rmdir_def handler_simps split: handler_splits)

lemma rename_resources:
  "bilbyfs_rename V K env w od onm oi nd nn ni fl = Some (r, w') \<Longrightarrow> resources w' = resources w"
  by (auto simp: bilbyfs_rename_def handler_simps split: handler_splits)

lemma fsync_resources:
  "bilbyfs_fsync V K w = Some (r, w') \<Longrightarrow> resources w' = resources w"
  by (auto simp: bilbyfs_fsync_def handler_simps split: handler_splits)

lemma follow_link_resources:
  "bilbyfs_follow_link K w a = Some (r, w') \<Longrightarrow> resources w' = resources w"
  by (auto simp: bilbyfs_follow_link_def handler_simps split: handler_splits)

lemma sync_fs_resources:
  "bilbyfs_sync_fs V K w wait = Some (r, w') \<Longrightarrow> resources w' = resources w"
  by (auto simp: bilbyfs_sync_fs_def handler_simps split: handler_splits)

lemma readdir_resources:
  "bilbyfs_readdir dots emit K w dir ctx pos rdx = Some (r, w', z) \<Longrightarrow> resources w' = resources w"
  by (auto simp: bilbyfs_readdir_def handler_simps split: handler_splits)

lemma dir_release_resources:
  "bilbyfs_dir_release w rdx = Some (r, w', z) \<Longrightarrow> resources w' = resources w"
  by (auto simp: bilbyfs_dir_release_def handler_simps split: handler_splits)

lemma readpage_resources:
  "bilbyfs_readpage K w a page = Some (r, w', z) \<Longrightarrow> resources w' = resources w"
  by (auto simp: bilbyfs_readpage_def handler_simps split: handler_splits)

lemma write_begin_resources:
  "bilbyfs_write_begin V K w a pos len = Some (r, w', z) \<Longrightarrow> resources w' = resources w"
  by (auto simp: bilbyfs_write_begin_def handler_simps split: handler_splits)

lemma write_end_resources:
  "bilbyfs_write_end K env w a pos copied page = Some (r, w', z) \<Longrightarrow> resources w' = resources w"
  by (auto simp: bilbyfs_write_end_def handler_simps split: handler_splits)

lemma write_end_writeback_resources:
  "bilbyfs_write_end_writeback w a pos len copied page = Some (r, w', z) \<Longrightarrow> resources w' = resources w"
  by (auto simp: bilbyfs_write_end_writeback_def handler_simps split: handler_splits)

lemma writepage_resources:
  "bilbyfs_writepage K env w a page = Some (r, w', z) \<Longrightarrow> resources w' = resources w"
  by (auto simp: bilbyfs_writepage_def handler_simps split: handler_splits)

lemma setattr_resources:
  "bilbyfs_setattr V K env w a attr = Some (r, w', z) \<Longrightarrow> resources w' = resources w"
  by (auto simp: bilbyfs_setattr_def handler_simps split: handler_splits)

lemma getattr_resources:
  "bilbyfs_getattr w a s_dev i_rdev = Some (r, w', z) \<Longrightarrow> resources w' = resources w"
  by (auto simp: bilbyfs_getattr_def handler_simps split: handler_splits)

lemma statfs_resources:
  "bilbyfs_statfs w = Some (r, w', z) \<Longrightarrow> resources w' = resources w"
  by (auto simp: bilbyfs_statfs_def handler_simps split: handler_splits)

lemma get_link_resources:
  "bilbyfs_get_link K w a = Some (r, w') \<Longrightarrow> resources w' = resources w"
  by (auto simp: bilbyfs_get_link_def handler_simps split: handler_splits)

lemma evict_inode_resources:
  "bilbyfs_evict_inode V K w a cnt = Some w' \<Longrightarrow> resources w' = resources w"
  by (auto simp: bilbyfs_evict_inode_def handler_simps split: handler_splits)

lemma new_inode_error:
  "bilbyfs_new_inode V env w dir mode = (Inl e, w') \<Longrightarrow> resources w' = resources w"
  by (rule resourcesI) (simp_all add: new_inode_resources)

lemma new_inode_finished:
  assumes "finish_new err a w2 = (r, w')" "bilbyfs_new_inode V env w dir mode = (Inr a, w1)"
    "w_sem w2 = w_sem w1" "w_calls w2 = w_calls w1"
  shows "resources w' = resources w"
  using assms(3,4) finish_new_resources[OF assms(1)] new_inode_resources[OF assms(2)]
  by (intro resourcesI) auto

lemma create_resources:
  "bilbyfs_create V K env w dir nm mode = Some (r, w') \<Longrightarrow> resources w' = resources w"
  by (auto simp: bilbyfs_create_def down_cases Let_def wrap_simps new_inode_error split: handler_splits
      elim!: new_inode_finished)

lemma mkdir_resources:
  "bilbyfs_mkdir V K env w dir nm mode = Some (r, w') \<Longrightarrow> resources w' = resources w"
  by (auto simp: bilbyfs_mkdir_def down_cases Let_def wrap_simps new_inode_error split: handler_splits
      elim!: new_inode_finished)

lemma symlink_resources:
  "bilbyfs_symlink V K env w dir nm symname = Some (r, w') \<Longrightarrow> resources w' = resources w"
  by (auto simp: bilbyfs_symlink_def down_cases Let_def wrap_simps new_inode_error split: handler_splits
      elim!: new_inode_finished)

lemmas request_resources = lookup_resources link_resources create_resources unlink_resources rmdir_resources
  mkdir_resources readdir_resources dir_release_resources symlink_resources rename_resources fsync_resources readpage_resources
  write_begin_resources write_end_resources write_end_writeback_resources writepage_resources
  follow_link_resources get_link_resources setattr_resources getattr_resources statfs_resources
  sync_fs_resources evict_inode_resources

lemma vfs_request_resources:
  "vfs_request V K env req w = Some (r, w') \<Longrightarrow> resources w' = resources w"
  by (auto simp: vfs_request_def split: request.splits dest: request_resources)

section \<open>Sequences of requests\<close>

fun run_all :: "('q \<Rightarrow> 'w \<Rightarrow> ('r \<times> 'w) option) \<Rightarrow> 'q list \<Rightarrow> 'w \<Rightarrow> ('r list \<times> 'w) option" where
  "run_all run [] w = Some ([], w)"
| "run_all run (q # qs) w = do {
     (r, w) \<leftarrow> run q w;
     (rs, w) \<leftarrow> run_all run qs w;
     Some (r # rs, w)
   }"

text \<open>A service that keeps an account with every request keeps it over any sequence of them.\<close>

locale service =
  fixes run :: "'q \<Rightarrow> 'w \<Rightarrow> ('r \<times> 'w) option"
    and account :: "'w \<Rightarrow> 'k"
  assumes run_keeps: "run q w = Some (r, w') \<Longrightarrow> account w' = account w"
begin

lemma run_all_keeps: "run_all run qs w = Some (rs, w') \<Longrightarrow> account w' = account w"
  by (induction qs arbitrary: w rs) (auto split: Option.bind_splits, metis run_keeps)

lemma run_all_answers: "run_all run qs w = Some (rs, w') \<Longrightarrow> length rs = length qs"
  by (induction qs arbitrary: w rs) (auto split: Option.bind_splits)

end

interpretation requests: service "vfs_request V K env" resources for V K env
  by unfold_locales (rule vfs_request_resources)

section \<open>Types of inodes\<close>

text \<open>The operations of an inode are those for its type.\<close>

definition typed_inode :: "'u wrap \<Rightarrow> nat \<Rightarrow> bool" where
  "typed_inode w a \<longleftrightarrow>
     (let ty = i_mode (w_inode w a) AND S_IFMT; t = w_tables w a
      in ty = S_IFREG \<and> i_op t = bilbyfs_file_inode_operations \<and> i_fop t = bilbyfs_file_operations \<and>
           a_ops t = bilbyfs_file_address_operations \<or>
         ty = S_IFDIR \<and> i_op t = bilbyfs_dir_inode_operations \<and> i_fop t = bilbyfs_dir_operations \<or>
         ty = S_IFLNK \<and> i_op t = bilbyfs_symlink_inode_operations)"

lemma init_inode_by_type_typed:
  "init_inode_by_type V a w = (None, w') \<Longrightarrow> typed_inode w' a"
  by (auto simp: init_inode_by_type_def typed_inode_def Let_def put_tables_def put_inode_def split: if_splits)

lemma init_inode_by_type_mode:
  "init_inode_by_type V a w = (r, w') \<Longrightarrow> i_mode (w_inode w' b) = i_mode (w_inode w b)"
  by (auto simp: init_inode_by_type_def Let_def put_tables_def put_inode_def split: if_splits)

lemma inode_init_perm_mode:
  "i_mode (inode_init_perm env inode dir mode) = i_mode (inode_init_perm env inode' dir mode)"
  by (simp add: inode_init_perm_def Let_def split: option.splits)

lemma init_inode_mode:
  "init_inode env bi dir inode mode = (err, bi', inode') \<Longrightarrow>
   i_mode inode' = i_mode (inode_init_perm env x dir mode)"
  by (auto simp: init_inode_def Let_def set_nlink_def bilbyfs_set_inode_flags_def inode_init_perm_def
      split: prod.splits if_splits option.splits)

lemma add_new_inode_mode:
  "add_new_inode K bi dir inode nm is_mkdir = Some (err, bi', dir', inode') \<Longrightarrow> i_mode inode' = i_mode inode"
  by (auto simp: add_new_inode_def Let_def inc_nlink_def split: Option.bind_splits sum.splits prod.splits if_splits)

lemma typed_inode_cong:
  "i_mode (w_inode w' a) = i_mode (w_inode w a) \<Longrightarrow> w_tables w' a = w_tables w a \<Longrightarrow>
   typed_inode w' a = typed_inode w a"
  by (simp add: typed_inode_def)

lemma new_inode_ok:
  assumes "bilbyfs_new_inode V env w dir mode = (Inr a, w')"
  shows "v_new_inode V (w_calls w) = Some a" "typed_inode w' a"
    "i_mode (w_inode w' a) = i_mode (inode_init_perm env x (map_option (w_inode w) dir) mode)"
    "b \<noteq> a \<Longrightarrow> w_inode w' b = w_inode w b"
proof -
  obtain w1 where a: "v_new_inode V (w_calls w) = Some a"
    and i: "init_inode_by_type V a w1 = (None, w')"
    and w1: "w1 = put_inode a (inode_init_perm env (w_inode w a) (map_option (w_inode w) dir) mode) (call (New_inode (Some a)) w)"
    using assms by (auto simp: bilbyfs_new_inode_def Let_def call_def split: option.splits prod.splits)
  show "v_new_inode V (w_calls w) = Some a" by (rule a)
  show "typed_inode w' a" using i by (rule init_inode_by_type_typed)
  show "i_mode (w_inode w' a) = i_mode (inode_init_perm env x (map_option (w_inode w) dir) mode)"
    using init_inode_by_type_mode[OF i, of a] inode_init_perm_mode by (simp add: w1 put_inode_def)
  show "w_inode w' b = w_inode w b" if "b \<noteq> a"
    using i that
    by (auto simp: w1 init_inode_by_type_def Let_def put_inode_def put_tables_def call_def split: if_splits)
qed

lemma fsop_create_mode:
  "fsop_create K env bi dir nm mode inode = Some (None, bi', dir', inode') \<Longrightarrow>
   i_mode inode' = i_mode (inode_init_perm env x (Some dir) (S_IFREG OR mode))"
  by (auto simp: fsop_create_def Let_def split: if_splits prod.splits dest!: add_new_inode_mode init_inode_mode[where x = x])

lemma fsop_mkdir_mode:
  "fsop_mkdir K env bi dir nm mode inode = Some (None, bi', dir', inode') \<Longrightarrow>
   i_mode inode' = i_mode (inode_init_perm env x (Some dir) (S_IFDIR OR mode))"
  by (auto simp: fsop_mkdir_def Let_def split: if_splits prod.splits dest!: add_new_inode_mode init_inode_mode[where x = x])

lemma fsop_symlink_mode:
  "fsop_symlink K env bi dir nm symname inode = Some (None, bi', dir', inode') \<Longrightarrow>
   i_mode inode' = i_mode (inode_init_perm env x (Some dir) (S_IFLNK OR S_IRWXUGO))"
  by (auto simp: fsop_symlink_def Let_def simp del: S_IFLNK_def S_IRWXUGO_def
      split: if_splits prod.splits Option.bind_splits sum.splits dest!: init_inode_mode[where x = x])

lemma finished_typed:
  assumes "finish_new err a (up (put_inode a inode (put_inode dir d (put_bi bi (w1\<lparr>w_sem := n\<rparr>))))) = (None, w')"
    "bilbyfs_new_inode V env w (Some dir) mode = (Inr a, w1)"
    "\<And>x. err = None \<Longrightarrow> i_mode inode = i_mode (inode_init_perm env x (Some (w_inode w1 dir)) mode)" "a \<noteq> dir"
  shows "\<exists>b. v_new_inode V (w_calls w) = Some b \<and> typed_inode w' b"
proof -
  note new = new_inode_ok[OF assms(2)]
  have e: "err = None" using assms(1) by (auto simp: finish_new_def split: if_splits)
  have w': "w' = call (D_instantiate a) (call (Insert_inode_hash a) (up (put_inode a inode (put_inode dir d (put_bi bi (w1\<lparr>w_sem := n\<rparr>))))))"
    using assms(1) e by (auto simp: finish_new_def)
  have "i_mode inode = i_mode (w_inode w1 a)"
    using assms(3)[OF e, of "w_inode w1 a"] new(3)[of "w_inode w1 a"] new(4)[of dir] assms(4) by auto
  then have "typed_inode w' a = typed_inode w1 a"
    by (intro typed_inode_cong) (simp_all add: w' call_def up_def put_inode_def put_bi_def)
  then show ?thesis using new(1,2) by simp
qed

lemma created_typed:
  assumes "\<And>a. v_new_inode V (w_calls w) = Some a \<Longrightarrow> a \<noteq> dir"
    and "bilbyfs_create V K env w dir nm mode = Some (None, w') \<or>
         bilbyfs_mkdir V K env w dir nm mode = Some (None, w') \<or>
         bilbyfs_symlink V K env w dir nm symname = Some (None, w')"
  shows "\<exists>a. v_new_inode V (w_calls w) = Some a \<and> typed_inode w' a"
proof -
  note intros = bilbyfs_create_def bilbyfs_mkdir_def bilbyfs_symlink_def down_cases Let_def
  have "bilbyfs_create V K env w dir nm mode = Some (None, w') \<Longrightarrow> ?thesis"
    using assms(1) by (auto simp: intros split: handler_splits elim!: finished_typed dest: fsop_create_mode new_inode_ok(1))
  moreover have "bilbyfs_mkdir V K env w dir nm mode = Some (None, w') \<Longrightarrow> ?thesis"
    using assms(1) by (auto simp: intros split: handler_splits elim!: finished_typed dest: fsop_mkdir_mode new_inode_ok(1))
  moreover have "bilbyfs_symlink V K env w dir nm symname = Some (None, w') \<Longrightarrow> ?thesis"
    using assms(1) by (auto simp: intros simp del: S_IFLNK_def S_IRWXUGO_def split: handler_splits elim!: finished_typed dest: fsop_symlink_mode new_inode_ok(1))
  ultimately show ?thesis using assms(2) by blast
qed

section \<open>Read-only file systems\<close>

fun modifies :: "'c request \<Rightarrow> bool" where
  "modifies (R_link old dir nm) = True"
| "modifies (R_create dir nm mode) = True"
| "modifies (R_unlink dir nm a) = True"
| "modifies (R_rmdir dir nm a) = True"
| "modifies (R_mkdir dir nm mode) = True"
| "modifies (R_symlink dir nm symname) = True"
| "modifies (R_rename od onm oi nd nn ni fl) = True"
| "modifies (R_setattr a attr) = True"
| "modifies _ = False"

lemma bi_simps [wrap_simps]:
  "w_bi (call c w) = w_bi w" "w_bi (put_inode a i w) = w_bi w" "w_bi (put_tables a t w) = w_bi w"
  "w_bi (up w) = w_bi w" "w_bi (put_bi bi w) = bi"
  by (simp_all add: call_def put_bi_def put_inode_def put_tables_def up_def)

lemma init_inode_by_type_bi [wrap_simps]: "w_bi (snd (init_inode_by_type V a w)) = w_bi w"
  by (simp add: init_inode_by_type_def Let_def wrap_simps)

lemma new_inode_bi: "bilbyfs_new_inode V env w dir mode = (r, w') \<Longrightarrow> w_bi w' = w_bi w \<and> w_sem w' = w_sem w"
  by (auto simp: bilbyfs_new_inode_def Let_def case_prod_unfold wrap_simps split: option.splits)

lemma finish_new_error: "finish_new (Some e) a w = (Some e, call (Iput a) (call (Make_bad_inode a) w))"
  by (simp add: finish_new_def)

lemmas read_only_simps = bilbyfs_create_def bilbyfs_mkdir_def bilbyfs_symlink_def bilbyfs_link_def
  bilbyfs_unlink_def bilbyfs_rmdir_def bilbyfs_rename_def bilbyfs_setattr_def
  fsop_create_def fsop_mkdir_def fsop_symlink_def fsop_link_def fsop_unlink_def fsop_rmdir_def fsop_rename_def
  fsop_setattr_def down_def finish_new_error Let_def

lemma read_only_new:
  assumes "bi_is_ro (w_bi w)" "w_sem w = 1"
  shows "\<exists>e w'. bilbyfs_create V K env w dir nm mode = Some (Some e, w') \<and> w_sem w' = 1 \<and> w_bi w' = w_bi w"
    and "\<exists>e w'. bilbyfs_mkdir V K env w dir nm mode = Some (Some e, w') \<and> w_sem w' = 1 \<and> w_bi w' = w_bi w"
    and "\<exists>e w'. bilbyfs_symlink V K env w dir nm symname = Some (Some e, w') \<and> w_sem w' = 1 \<and> w_bi w' = w_bi w"
  using assms by (auto simp: read_only_simps wrap_simps split: prod.split sum.split dest!: new_inode_bi)

lemma read_only_request:
  assumes "bi_is_ro (w_bi w)" "w_sem w = 1" "modifies req"
  shows "\<exists>e w'. vfs_request V K env req w = Some (Some e, w') \<and> w_sem w' = 1 \<and> w_bi w' = w_bi w"
  using assms read_only_new[OF assms(1,2)]
  by (cases req) (auto simp: vfs_request_def read_only_simps wrap_simps split: option.split)

section \<open>Mounting\<close>

text \<open>
  The inode cache frees an inode that is not hashed when the last reference to it is given away.
\<close>

definition frees_unhashed :: "'u vfs \<Rightarrow> bool" where
  "frees_unhashed V \<longleftrightarrow>
     (\<forall>cs a. Insert_inode_hash a \<notin> set cs \<longrightarrow> refs_held (cs @ [Iput a]) a = 0 \<longrightarrow> v_freed V (cs @ [Iput a]) a)"

lemma new_inode_calls:
  "bilbyfs_new_inode V env w dir mode = (Inr a, w') \<Longrightarrow> w_calls w' = w_calls w @ [New_inode (Some a)]"
  by (auto simp: bilbyfs_new_inode_def Let_def case_prod_unfold wrap_simps call_def split: option.splits)

lemma fill_super_freed_root:
  assumes "KERNEL_VERSION 4 0 0 \<le> linux_version V" "frees_unhashed V"
    and "\<forall>a. refs_held (w_calls w) a = 0 \<and> Insert_inode_hash a \<notin> set (w_calls w)"
  shows "bilbyfs_fill_super V K env w options dev vol rdonly bd_name \<noteq> Some (None, w')"
proof -
  have "v_freed V (w_calls w @ [New_inode (Some a), Iput a]) a" for a
    using assms(2)[unfolded frees_unhashed_def, rule_format, of a "w_calls w @ [New_inode (Some a)]"] assms(3)
    by (simp add: refs_held_def)
  then show ?thesis using assms(1)
    by (auto simp: bilbyfs_fill_super_def fill_super_root_def Let_def wrap_simps call_def
      split: Option.bind_splits prod.splits if_splits sum.splits dest!: new_inode_calls)
qed

text \<open>How many \<open>struct bilbyfs_info\<close> are allocated.\<close>

definition info_live :: "vcall list \<Rightarrow> int" where
  "info_live cs = int (count_list cs Kzalloc_info) - int (count_list cs Kfree_info)"

lemma info_live_snoc: "info_live (cs @ [c]) = info_live cs + (if c = Kzalloc_info then 1 else if c = Kfree_info then -1 else 0)"
  by (simp add: info_live_def)

lemma info_live_call [wrap_simps]: "info_live (w_calls (call c w)) = info_live (w_calls w) + (if c = Kzalloc_info then 1 else if c = Kfree_info then -1 else 0)"
  by (simp add: call_def info_live_snoc)

lemma iget_info_live: "bilbyfs_iget V K w inum = Some (r, w') \<Longrightarrow> info_live (w_calls w') = info_live (w_calls w)"
  by (auto simp: bilbyfs_iget_def down_cases wrap_simps Let_def split: handler_splits)

lemma new_inode_info_live: "bilbyfs_new_inode V env w dir mode = (r, w') \<Longrightarrow> info_live (w_calls w') = info_live (w_calls w)"
  by (auto simp: bilbyfs_new_inode_def Let_def case_prod_unfold wrap_simps split: option.splits)

lemma unmount_info_live: "bilbyfs_unmount K w = Some w' \<Longrightarrow> info_live (w_calls w') = info_live (w_calls w)"
  by (auto simp: bilbyfs_unmount_def down_cases wrap_simps split: handler_splits)

lemma read_root_info_live: "fill_super_read_root V K w rootino = Some (r, w') \<Longrightarrow> info_live (w_calls w') = info_live (w_calls w)"
  by (auto simp: fill_super_read_root_def Let_def wrap_simps split: handler_splits dest!: iget_info_live unmount_info_live)

lemma root_info_live: "fill_super_root V K env lock w dev vol rdonly = Some (root, r, w') \<Longrightarrow> info_live (w_calls w') = info_live (w_calls w)"
  by (auto simp: fill_super_root_def Let_def wrap_simps down_cases split: handler_splits dest!: new_inode_info_live)

lemma fill_super_info_live:
  "bilbyfs_fill_super V K env w options dev vol rdonly nm = Some (r, w') \<Longrightarrow> info_live (w_calls w') = info_live (w_calls w)"
  by (auto simp: bilbyfs_fill_super_def Let_def wrap_simps split: handler_splits dest!: root_info_live read_root_info_live)

lemma mount_private_data_ok:
  assumes "kmalloc_ok (bi_kmem (w_bi w)) = (True, km)"
    and "init_volume V K name ((info_on (bi_ubi (w_bi w)))\<lparr>bi_kmem := km\<rparr>) = Some (r, bi)"
    and "bilbyfs_mount V K env w flags name data = Some (Some e, w')"
  shows "info_live (w_calls w') = info_live (w_calls w) + (case r of Inl _ \<Rightarrow> 1 | Inr _ \<Rightarrow> 0)"
  using assms
  by (auto simp: bilbyfs_mount_def Let_def wrap_simps wrapper_init_def bilbyfs_kill_super_def down_def
      split: handler_splits bool.splits dest!: fill_super_info_live)

section \<open>Inodes of directories\<close>

lemma iget_new:
  assumes "v_iget_locked V (w_calls w) inum = Some (a, True)" "w_sem w = 1"
    and "fsop_iget K (w_bi w) inum (w_inode w a) = Some (err, bi, inode)"
  shows "bilbyfs_iget V K w inum =
    (let w1 = put_inode a inode (put_bi bi (call (Iget_locked inum (Some a)) w))
     in Some (case err of
          None \<Rightarrow> (Inr a, call (Unlock_new_inode a) (snd (init_inode_by_type V a w1)))
        | Some e \<Rightarrow> (Inl e, call (Iget_failed a) w1)))"
proof -
  have "up (put_inode a inode (put_bi bi (call c w\<lparr>w_sem := 0\<rparr>))) = put_inode a inode (put_bi bi (call c w))" for c
    using assms(2) by (simp add: up_def put_inode_def put_bi_def call_def)
  then show ?thesis
    using assms by (simp add: bilbyfs_iget_def down_def wrap_simps Let_def call_def split: option.split)
qed

lemma set_inode_flags_simps [simp]:
  "i_mode (bilbyfs_set_inode_flags inode) = i_mode inode" "i_size (bilbyfs_set_inode_flags inode) = i_size inode"
  by (simp_all add: bilbyfs_set_inode_flags_def Let_def)

lemma directory_by_type:
  assumes "i_mode (w_inode w a) AND S_IFMT = S_IFDIR"
  shows "fst (init_inode_by_type V a w) = None" "i_size (w_inode (snd (init_inode_by_type V a w)) a) = 96"
  using assms by (simp_all add: init_inode_by_type_def Let_def put_inode_def put_tables_def)

lemma unlink_size:
  assumes "fsop_unlink K env bi dir nm inode = Some (None, bi', dir', inode')"
  shows "i_size dir' = i_size dir \<or> i_size dir' = i_size dir - word_of_int (obj_dentry_size_from_nm nm)"
  using assms
  by (auto simp: fsop_unlink_def fsop_del_dentry_def dentarr_del_dentry_def Let_def split: Option.bind_splits if_splits sum.splits prod.splits)

section \<open>Properties\<close>

text \<open>
  C4. However the kernel answers, a sequence of requests that returns leaves the file system
  unlocked as often as it locked it, and has given away every reference to an inode that it took
  (to a dentry, or back): the handlers take and release the semaphore on all paths, errors
  included, and drop the new inode when its creation fails. Every request gets one answer.
\<close>

theorem vfs_requests_balanced:
  assumes "run_all (vfs_request V K env) reqs w = Some (answers, w')"
  shows "w_sem w' = w_sem w \<and> (\<forall>a. refs_held (w_calls w') a = refs_held (w_calls w) a) \<and> length answers = length reqs"
  using requests.run_all_keeps[OF assms] requests.run_all_answers[OF assms] by (simp add: resources_def)

definition demo_ro :: "unit wrap" where
  "demo_ro = put_bi (bilbyfs_ro_mode demo_store) (demo_wrap demo_inode)"

theorem vfs_requests_balanced_witness:
  "\<exists>answers w'. run_all (vfs_request demo_vfs demo_kernel demo_env) [R_getattr 24, R_mkdir 24 [97] 0 :: unit request] demo_ro =
      Some (answers, w') \<and> w_sem w' = 1 \<and> refs_held (w_calls w') 100 = 0"
proof -
  have "\<exists>answers w'. run_all (vfs_request demo_vfs demo_kernel demo_env) [R_getattr 24, R_mkdir 24 [97] 0 :: unit request] demo_ro =
      Some (answers, w')"
    by (simp add: vfs_request_def bilbyfs_getattr_def bilbyfs_mkdir_def fsop_mkdir_def down_def up_def demo_ro_def put_bi_def bilbyfs_ro_mode_def
        wrap_simps Let_def split: prod.split sum.split) (auto dest!: new_inode_bi simp: wrap_simps)
  then obtain answers w' where r: "run_all (vfs_request demo_vfs demo_kernel demo_env) [R_getattr 24, R_mkdir 24 [97] 0 :: unit request] demo_ro =
      Some (answers, w')" by blast
  have "w_sem demo_ro = 1" "w_calls demo_ro = []" by (simp_all add: demo_ro_def put_bi_def)
  then show ?thesis using r vfs_requests_balanced[OF r] by (auto simp: refs_held_def)
qed

text \<open>
  C38. \<open>bilbyfs_dir_llseek\<close> never returns: it takes the semaphore and calls \<open>bilbyfs_dir_release\<close>, which
  takes it again.
\<close>

theorem dir_llseek_never_returns: "w_sem w \<le> 1 \<Longrightarrow> bilbyfs_dir_llseek w rdx = None"
  by (auto simp: bilbyfs_dir_llseek_def bilbyfs_dir_release_def down_def)

theorem dir_llseek_never_returns_witness: "bilbyfs_dir_llseek (demo_wrap demo_inode) None = None"
  by (rule dir_llseek_never_returns) simp



text \<open>
  C30. Every inode that a file, directory or symbolic link is created with has the operations for its
  type: \<open>bilbyfs_create\<close>, \<open>bilbyfs_mkdir\<close> and \<open>bilbyfs_symlink\<close> choose the tables of operations before
  \<open>fsop.c\<close> sets the mode of the inode, and both agree when the creation succeeds.
\<close>

theorem created_inodes_typed:
  assumes "\<And>a. v_new_inode V (w_calls w) = Some a \<Longrightarrow> a \<noteq> dir"
    and "bilbyfs_create V K env w dir nm mode = Some (None, w') \<or>
         bilbyfs_mkdir V K env w dir nm mode = Some (None, w') \<or>
         bilbyfs_symlink V K env w dir nm symname = Some (None, w')"
  shows "\<exists>a. v_new_inode V (w_calls w) = Some a \<and> typed_inode w' a"
  using assms by (rule created_typed)

theorem created_inodes_typed_witness:
  "\<exists>w'. bilbyfs_create demo_vfs (demo_volume_kernel [demo_entry]) demo_env
     (put_bi (demo_dir [demo_entry]) (demo_wrap (demo_inode\<lparr>i_ino := 0\<rparr>))) 0 [98] 0x1A4 = Some (None, w') \<and> typed_inode w' 100"
proof -
  let ?bi = "demo_dir [demo_entry]" and ?dir = "demo_inode\<lparr>i_ino := 0\<rparr>" and ?K = "demo_volume_kernel [demo_entry]"
  let ?w = "put_bi ?bi (demo_wrap ?dir)"
  let ?e = "\<lparr>dent_ino = bi_next_inum ?bi + 1, dent_type = BILBYFS_ITYPE_REG, dent_name = [98]\<rparr>"
  let ?i = "inode_init_perm demo_env ?dir (Some ?dir) (S_IFREG OR 0x1A4)"
  have "array_size ([] @ [?e]) = 56" by (simp add: array_size_def ALIGN_8)
  then have room: "room_for ?bi (array_size ([] @ [?e]) + 192) 3" using demo_dir_room[of 248] by simp
  have rep: "dir_rep (obj_map (demo_volume [demo_entry]) ?bi) (i_ino ?dir) [98] []"
    using demo_id_b by (simp add: dir_rep_def demo_dir_ok(3) demo_entry_def name_ok_def)
  have "40 + dents_size ([] @ [?e]) \<le> 4248" "i_ino ?dir \<le> ucast (bi_next_inum ?bi)" "name_ok [98]"
    "unat (bi_next_sqnum ?bi) + 4 < 2 ^ 64" "bi_next_inum ?bi < BILBYFS_LAST_INUM" "(0x1A4 :: u16) AND S_IFMT = 0"
    "obj_map (demo_volume [demo_entry]) ?bi (dentarr_id_init (i_ino ?dir) [98]) = None \<longrightarrow> length [98 :: u8] \<le> 248"
    by (simp_all add: demo_dir_sel name_ok_def)
  note h = this
  obtain bi' d' inode' where c: "fsop_create ?K demo_env ?bi ?dir [98] 0x1A4 ?i = Some (None, bi', d', inode')"
    using create_ok[OF demo_entry_ok(1,2) demo_dir_sel(1) h(4,5,2) rep h(3,6) refl h(1,7) room, of demo_env ?i] by blast
  have n: "v_new_inode demo_vfs [] = Some 100" by (simp add: demo_vfs_def)
  have "\<exists>w'. bilbyfs_create demo_vfs ?K demo_env ?w 0 [98] 0x1A4 = Some (None, w')"
    using n c by (simp add: bilbyfs_create_def bilbyfs_new_inode_def Let_def init_inode_by_type_def inode_init_perm_def demo_inode_def
        put_bi_def call_def put_inode_def put_tables_def down_def finish_new_def)
  then show ?thesis using created_inodes_typed[of demo_vfs ?w 0 ?K demo_env "[98]" "0x1A4"] n by (auto simp: put_bi_def)
qed



text \<open>
  A mount that fails frees the \<open>struct bilbyfs_info\<close> it has allocated, except when \<open>fsop_init\<close>
  fails: then \<open>bilbyfs_mount\<close> returns without freeing it.
\<close>

lemma mount_private_data:
  assumes "kmalloc_ok (bi_kmem (w_bi w)) = (True, km)"
    and "init_volume V K name ((info_on (bi_ubi (w_bi w)))\<lparr>bi_kmem := km\<rparr>) = Some (r, bi)"
    and "bilbyfs_mount V K env w flags name data = Some (Some e, w')"
  shows "info_live (w_calls w') = info_live (w_calls w) + (case r of Inl _ \<Rightarrow> 1 | Inr _ \<Rightarrow> 0)"
  using assms by (rule mount_private_data_ok)

lemma mount_private_data_example:
  "\<exists>w'. bilbyfs_mount demo_vfs demo_kernel demo_env (demo_wrap demo_inode) 0 ''x'' None = Some (Some EINVAL, w') \<and> info_live (w_calls w') = 1"
proof -
  let ?w = "demo_wrap demo_inode"
  have km: "kmalloc_ok (bi_kmem (w_bi ?w)) = (True, [])" by (simp add: demo_store_def info_on_def)
  have i: "\<exists>bi. init_volume demo_vfs demo_kernel ''x'' ((info_on (bi_ubi (w_bi ?w)))\<lparr>bi_kmem := []\<rparr>) = Some (Inl EINVAL, bi)"
    by (simp add: init_volume_def open_ubi_def cstr_at_def demo_vfs_def fsop_init_def)
  then obtain bi where b: "init_volume demo_vfs demo_kernel ''x'' ((info_on (bi_ubi (w_bi ?w)))\<lparr>bi_kmem := []\<rparr>) = Some (Inl EINVAL, bi)" by blast
  then have "\<exists>w'. bilbyfs_mount demo_vfs demo_kernel demo_env ?w 0 ''x'' None = Some (Some EINVAL, w')"
    using km by (simp add: bilbyfs_mount_def wrapper_init_def down_def call_def put_bi_def)
  then show ?thesis using mount_private_data[OF km b] by (auto simp: info_live_def)
qed

text \<open>
  The size of a directory does not survive: \<open>init_inode_by_type\<close> sets it to the size of an empty
  directory each time the inode is read into memory, however large the directory is. The
  size that \<open>fsop_unlink\<close> then computes by subtraction can become negative, which is stored;
  such a directory can not be read any more and \<open>bilbyfs_iget\<close> returns \<open>EINVAL\<close>.
\<close>

lemma directory_size_not_kept:
  assumes "writer_ok (w_bi w)" "room_for (w_bi w) BILBYFS_INODE_SZ 1" "w_sem w = 1"
    and "\<forall>addr \<in> ran (idx_map (w_bi w)). oa_sqnum addr \<le> bi_next_sqnum (w_bi w)"
    and "S_ISDIR (i_mode dir)" "v_iget_locked V (w_calls w) (i_ino dir) = Some (a, True)"
  shows "\<exists>bi r w'. fsop_write_inode K (w_bi w) dir = Some (None, bi) \<and>
    bilbyfs_iget V K (put_bi bi w) (i_ino dir) = Some (r, w') \<and>
    (if i_size dir \<le> word_of_int BILBYFS_MAX_FILE_SZ then r = Inr a \<and> i_size (w_inode w' a) = of_nat BILBYFS_INODE_SZ
     else r = Inl EINVAL)"
proof -
  from write_inode_iget_any[OF assms(1) _ assms(4), of K dir] assms(2) obtain bi where
    w: "fsop_write_inode K (w_bi w) dir = Some (None, bi)" and
    r: "\<And>inode0. fsop_iget K bi (i_ino dir) inode0 = Some (case validate_inode (stored_inode dir inode0) of
               None \<Rightarrow> (None, bi, bilbyfs_set_inode_flags (stored_inode dir inode0))
             | Some e \<Rightarrow> (Some e, bi, stored_inode dir inode0))" by auto
  have v: "validate_inode (stored_inode dir x) = (if i_size dir \<le> word_of_int BILBYFS_MAX_FILE_SZ then None else Some EINVAL)" for x
    by (simp add: validate_inode_def stored_inode_def not_less[symmetric])
  have m: "i_mode (stored_inode dir x) AND S_IFMT = S_IFDIR" for x
    using assms(5) by (simp add: stored_inode_def S_ISDIR_def)
  let ?w = "put_bi bi w"
  have "\<exists>r w'. bilbyfs_iget V K ?w (i_ino dir) = Some (r, w') \<and>
    (if i_size dir \<le> word_of_int BILBYFS_MAX_FILE_SZ then r = Inr a \<and> i_size (w_inode w' a) = of_nat BILBYFS_INODE_SZ
     else r = Inl EINVAL)"
  proof (cases "i_size dir \<le> word_of_int BILBYFS_MAX_FILE_SZ")
    case True
    let ?i = "bilbyfs_set_inode_flags (stored_inode dir (w_inode w a))"
    let ?w1 = "put_inode a ?i (put_bi bi (call (Iget_locked (i_ino dir) (Some a)) ?w))"
    have "fsop_iget K (w_bi ?w) (i_ino dir) (w_inode ?w a) = Some (None, bi, ?i)"
      using r v True by (simp add: put_bi_def)
    from iget_new[OF _ _ this, of V] have "bilbyfs_iget V K ?w (i_ino dir) =
        Some (Inr a, call (Unlock_new_inode a) (snd (init_inode_by_type V a ?w1)))"
      using assms(3,6) by (simp add: wrap_simps)
    moreover have "i_size (w_inode (snd (init_inode_by_type V a ?w1)) a) = 96"
      by (rule directory_by_type(2)) (simp add: put_inode_def m del: S_IFMT_def S_IFDIR_def)
    ultimately show ?thesis using True by (simp add: call_def)
  next
    case False
    have "fsop_iget K (w_bi ?w) (i_ino dir) (w_inode ?w a) = Some (Some EINVAL, bi, stored_inode dir (w_inode w a))"
      using r v False by (simp add: put_bi_def)
    from iget_new[OF _ _ this, of V] show ?thesis using assms(3,6) False by (simp add: wrap_simps)
  qed
  then show ?thesis using w by blast
qed

lemma directory_size_not_kept_example:
  "\<exists>bi w'. fsop_write_inode demo_kernel demo_store (demo_inode\<lparr>i_size := 1000\<rparr>) = Some (None, bi) \<and>
     bilbyfs_iget demo_vfs demo_kernel (put_bi bi (demo_wrap demo_inode)) 24 = Some (Inr 24, w') \<and> i_size (w_inode w' 24) = 96"
proof -
  have "S_ISDIR (i_mode demo_inode)" "v_iget_locked demo_vfs [] 24 = Some (24, True)"
    by (simp_all add: S_ISDIR_def demo_inode_def demo_vfs_def)
  then show ?thesis
    using directory_size_not_kept[of "demo_wrap demo_inode" "demo_inode\<lparr>i_size := 1000\<rparr>" demo_vfs 24 demo_kernel]
      demo_writer(1) demo_store_room[of 96 1] demo_store_seq
    by (auto simp: demo_inode_def)
qed

end
