(* ===== verification/Bilby_Volname.thy ===== *)
theory Bilby_Volname
  imports Bilby_Wrapper
begin

unbundle bit_operations_syntax

text \<open>
  The strings of a mount in \<open>os/linux/wrapper.c\<close>: the name of the volume (\<open>open_ubi\<close>) and the mount
  options (\<open>bilbyfs_parse_options\<close>). \<open>open_ubi\<close> never reads behind the end of the name and understands
  the four forms of its comment.
\<close>

section \<open>Characters\<close>

lemma cstr_at_simps [simp]:
  "cstr_at [] 0 = Some NUL" "cstr_at (c # cs) 0 = Some c" "cstr_at (c # cs) (Suc i) = cstr_at cs i"
  "cstr_at (c # cs) (numeral k) = cstr_at cs (pred_numeral k)"
  by (simp_all add: cstr_at_def numeral_eq_Suc)

lemma char_codes: "CHR ''u'' \<noteq> NUL" "CHR ''b'' \<noteq> NUL" "CHR ''i'' \<noteq> NUL" "CHR '':'' \<noteq> NUL" "CHR ''!'' \<noteq> NUL"
  "CHR ''_'' \<noteq> NUL"
  by (simp_all add: NUL_def)

lemma cstr_at_none:
  "cstr_at s 0 \<noteq> None"
  "cstr_at s 0 = Some c \<Longrightarrow> c \<noteq> NUL \<Longrightarrow> cstr_at s (Suc 0) \<noteq> None"
  "cstr_at s (Suc 0) = Some c \<Longrightarrow> c \<noteq> NUL \<Longrightarrow> cstr_at s 2 \<noteq> None"
  "cstr_at s 2 = Some c \<Longrightarrow> c \<noteq> NUL \<Longrightarrow> cstr_at s 3 \<noteq> None"
  "cstr_at s 3 = Some c \<Longrightarrow> c \<noteq> NUL \<Longrightarrow> cstr_at s 4 \<noteq> None"
  by (auto simp: cstr_at_def split: if_splits intro: Suc_lessI)

lemma open_ubi_total: "open_ubi V name mode \<noteq> None"
proof
  assume "open_ubi V name mode = None"
  then show False
    by (auto simp: open_ubi_def Let_def cstr_at_none(1) char_codes split: sum.splits if_splits Option.bind_splits prod.splits
      dest: cstr_at_none(2,3,4,5))
qed

section \<open>Numbers\<close>

definition stops :: "string \<Rightarrow> bool" where
  "stops s = (case s of [] \<Rightarrow> True | c # _ \<Rightarrow> digit_val c = None \<and> c \<noteq> CHR ''x'' \<and> c \<noteq> CHR ''X'')"

lemma digit_char: "d < 10 \<Longrightarrow> digit_val (char_of (48 + d)) = Some d"
  by (simp add: digit_val_def is_digit_def)

lemma is_digit_char: "(d :: nat) < 10 \<Longrightarrow> is_digit (char_of (48 + d))"
  by (simp add: is_digit_def)

declare decimal.simps [simp del]

lemma strtoul_digits_append:
  "strtoul_digits 10 acc (decimal n @ s) = strtoul_digits 10 (acc * 10 ^ length (decimal n) + of_nat n) s"
proof (induction n arbitrary: acc s rule: decimal.induct)
  case (1 n)
  show ?case
  proof (cases "n < 10")
    case True
    then show ?thesis by (simp add: decimal.simps[of n] digit_char)
  next
    case False
    have "of_nat n = (of_nat (n div 10 * 10 + n mod 10) :: u64)" by simp
    then have "of_nat (n div 10) * 10 + of_nat (n mod 10) = (of_nat n :: u64)"
      by (simp only: of_nat_add of_nat_mult of_nat_numeral)
    then show ?thesis using False
      by (simp add: decimal.simps[of n] digit_char 1 distrib_right mult.assoc add.assoc power_Suc2 del: power_Suc)
  qed
qed

lemma strtoul_digits_stop: "stops s \<Longrightarrow> strtoul_digits base acc s = (acc, s)"
  by (cases s) (auto simp: stops_def)

lemma decimal_hd: "\<exists>(d :: nat) ds. decimal n = char_of (48 + d) # ds \<and> d < 10 \<and> (d = 0 \<longrightarrow> n = 0 \<and> ds = [])"
proof (induction n rule: decimal.induct)
  case (1 n)
  show ?case
  proof (cases "n < 10")
    case True
    then show ?thesis by (intro exI[of _ n] exI[of _ "[]"]) (simp add: decimal.simps[of n])
  next
    case False
    then have "n div 10 \<noteq> 0" by simp
    moreover obtain d :: nat and ds where "decimal (n div 10) = char_of (48 + d) # ds" "d < 10"
      "d = 0 \<longrightarrow> n div 10 = 0 \<and> ds = []"
      using 1[OF False] by blast
    ultimately show ?thesis using False
      by (intro exI[of _ d] exI[of _ "ds @ [char_of (48 + n mod 10)]"]) (simp add: decimal.simps[of n])
  qed
qed

lemma simple_strtoul_base10: "(d :: nat) < 10 \<Longrightarrow> d \<noteq> 0 \<Longrightarrow> simple_strtoul (char_of (48 + d) # cs) = strtoul_digits 10 0 (char_of (48 + d) # cs)"
proof -
  assume "d < 10" "d \<noteq> 0"
  then have "char_of (48 + d) \<noteq> CHR ''0''"
    by (auto dest!: arg_cong[where f = "of_char :: char \<Rightarrow> nat"])
  then show ?thesis by (simp add: simple_strtoul_def)
qed

lemma simple_strtoul_decimal:
  assumes "stops s"
  shows "simple_strtoul (decimal n @ s) = (of_nat n, s)"
proof -
  obtain d :: nat and ds where d: "decimal n = char_of (48 + d) # ds" "d < 10" "d = 0 \<Longrightarrow> n = 0 \<and> ds = []"
    using decimal_hd[of n] by blast
  show ?thesis
  proof (cases "d = 0")
    case True
    then have "simple_strtoul (CHR ''0'' # s) = strtoul_digits 8 0 (CHR ''0'' # s)"
      using assms by (cases s) (auto simp: stops_def simple_strtoul_def)
    moreover have "char_of (48 :: nat) = CHR ''0''" by (simp add: char_of_eq_iff)
    ultimately show ?thesis using True d strtoul_digits_stop[OF assms] by (simp add: digit_val_def is_digit_def)
  next
    case False
    then show ?thesis
      using d simple_strtoul_base10[of d "ds @ s"] strtoul_digits_append[of 0 n s] strtoul_digits_stop[OF assms] by simp
  qed
qed

section \<open>Names of volumes\<close>

lemma c_int_of_nat: "n < 2147483648 \<Longrightarrow> c_int (of_nat n) = int n"
  by (simp add: c_int_def unsigned_of_nat signed_of_nat signed_take_bit_int_eq_self take_bit_nat_eq_self)

lemma decimal_neq_sep: "decimal n \<noteq> [] \<and> is_digit (decimal n ! 0)"
  using decimal_hd[of n] by (auto simp: is_digit_char)

lemma stops_sep:
  "stops []" "stops (CHR ''_'' # s)" "stops (CHR '':'' # s)" "stops (CHR ''!'' # s)"
  by (simp_all add: stops_def digit_val_def is_digit_def)

lemma decimal_first:
  "\<exists>c cs. decimal n = c # cs \<and> is_digit c \<and> c \<noteq> CHR '':'' \<and> c \<noteq> CHR ''!'' \<and> c \<noteq> NUL"
  using decimal_hd[of n] by (auto simp: is_digit_char NUL_def char_of_eq_iff take_bit_nat_eq_self)

lemmas open_ubi_parse = open_ubi_def Let_def stops_sep c_int_of_nat char_codes

lemma open_ubi_forms:
  assumes path: "\<And>name. \<exists>e. v_ubi_open_volume_path V name mode = Inl e"
    and "x < 2147483648" "y < 2147483648" "nm \<noteq> []" "NUL \<notin> set nm" "sep = CHR '':'' \<or> sep = CHR ''!''"
  shows "open_ubi V (''ubi'' @ decimal y) mode = Some (v_ubi_open_volume V 0 (int y) mode)"
    and "open_ubi V (''ubi'' @ decimal x @ ''_'' @ decimal y) mode = Some (v_ubi_open_volume V (int x) (int y) mode)"
    and "open_ubi V (''ubi'' @ decimal x @ sep # nm) mode = Some (v_ubi_open_volume_nm V (int x) nm mode)"
    and "open_ubi V (''ubi'' @ sep # nm) mode = Some (v_ubi_open_volume_nm V 0 nm mode)"
proof -
  show "open_ubi V (''ubi'' @ decimal y) mode = Some (v_ubi_open_volume V 0 (int y) mode)"
    using decimal_first[of y] path[of "''ubi'' @ decimal y"] simple_strtoul_decimal[of "[]" y] assms(3)
    by (auto simp: open_ubi_parse)
  show "open_ubi V (''ubi'' @ decimal x @ ''_'' @ decimal y) mode = Some (v_ubi_open_volume V (int x) (int y) mode)"
    using decimal_first[of x] decimal_first[of y] path[of "''ubi'' @ decimal x @ ''_'' @ decimal y"]
      simple_strtoul_decimal[of "''_'' @ decimal y" x] simple_strtoul_decimal[of "[]" y] assms(2,3)
    by (auto simp: open_ubi_parse)
  show "open_ubi V (''ubi'' @ decimal x @ sep # nm) mode = Some (v_ubi_open_volume_nm V (int x) nm mode)"
    using decimal_first[of x] path[of "''ubi'' @ decimal x @ sep # nm"] simple_strtoul_decimal[of "sep # nm" x] assms(2,4,5,6)
    by (cases nm) (auto simp: open_ubi_parse)
  show "open_ubi V (''ubi'' @ sep # nm) mode = Some (v_ubi_open_volume_nm V 0 nm mode)"
    using path[of "''ubi'' @ sep # nm"] assms(4,5,6) by (cases nm) (auto simp: open_ubi_parse)
qed

section \<open>Mount options\<close>

text \<open>The text between the commas.\<close>

fun split_commas :: "string \<Rightarrow> string list" where
  "split_commas [] = [[]]"
| "split_commas (c # cs) =
     (if c = CHR '','' then [] # split_commas cs
      else (case split_commas cs of [] \<Rightarrow> [[c]] | t # ts \<Rightarrow> (c # t) # ts))"

lemma split_commas_strsep:
  "strsep s = (t, r) \<Longrightarrow> split_commas s = t # (case r of None \<Rightarrow> [] | Some s' \<Rightarrow> split_commas s')"
  by (induction s arbitrary: t) (auto split: if_splits prod.splits)

text \<open>The options that are looked at: an empty one ends the list.\<close>

definition given_options :: "string \<Rightarrow> string list" where
  "given_options s = takeWhile (\<lambda>t. t \<noteq> []) (split_commas s)"

lemma parse_options_none: "bilbyfs_parse_options V bi None = (None, bi)"
  by (simp add: bilbyfs_parse_options.simps)

text \<open>
  The answer to a list of options: those before the first unknown one are accepted, an unknown one is
  an error.
\<close>

definition options_result :: "'u vfs \<Rightarrow> 'u bilbyfs_info \<Rightarrow> string list \<Rightarrow> errno option \<times> 'u bilbyfs_info" where
  "options_result V bi opts =
     (let accepted = takeWhile (\<lambda>t. v_match_token V t \<noteq> BilbyFs_Opt_end) opts
      in (if accepted = opts then None else Some EINVAL,
          if BilbyFs_Opt_no_summary \<in> v_match_token V ` set accepted then bi\<lparr>bi_no_summary := True\<rparr> else bi))"

lemma options_result_nil: "options_result V bi [] = (None, bi)"
  by (simp add: options_result_def)

lemma options_result_cons:
  "options_result V bi (t # ts) =
     (case v_match_token V t of
        BilbyFs_Opt_no_summary \<Rightarrow> options_result V (bi\<lparr>bi_no_summary := True\<rparr>) ts
      | BilbyFs_Opt_compr \<Rightarrow> options_result V bi ts
      | BilbyFs_Opt_end \<Rightarrow> (Some EINVAL, bi))"
  by (cases "v_match_token V t") (simp_all add: options_result_def Let_def del: takeWhile_eq_all_conv)

lemma parse_options_ok:
  "bilbyfs_parse_options V bi (Some s) = options_result V bi (given_options s)"
proof (induction "length s" arbitrary: s bi rule: less_induct)
  case less
  obtain t r where t: "strsep s = (t, r)" by fastforce
  have given: "given_options s = (if t = [] then [] else t # (case r of None \<Rightarrow> [] | Some s' \<Rightarrow> given_options s'))"
    using split_commas_strsep[OF t] by (simp add: given_options_def split: option.splits)
  have rest: "bilbyfs_parse_options V b r = options_result V b (case r of None \<Rightarrow> [] | Some s' \<Rightarrow> given_options s')" for b
    using less[of _ b] strsep_shorter[of s t] t
    by (auto simp: parse_options_none options_result_nil options_result_cons split: option.splits)
  show ?case
    by (simp add: bilbyfs_parse_options.simps[of V bi "Some s"] t given options_result_nil options_result_cons rest split: opt.splits)
qed

section \<open>Properties\<close>



text \<open>
  C32. \<open>bilbyfs_parse_options\<close> goes through the options between the commas up to the first empty one:
  it sets \<open>no_summary\<close> when that option is among those before the first unknown option, ignores
  \<open>compr\<close>, and fails with \<open>EINVAL\<close> exactly when there is an unknown option. What follows an empty
  option is never looked at.
\<close>

theorem parse_options_spec:
  "bilbyfs_parse_options V bi (Some s) = options_result V bi (given_options s)"
  by (rule parse_options_ok)

end
