(* ===== verification/Vfat_Ent.thy ===== *)
theory Vfat_Ent
  imports Bilby_Prelude
begin

unbundle bit_operations_syntax

text \<open>
  The file allocation table of the vfat port, \<open>src/impl/fs/vfat/cogent/plat/linux/fatent.c\<close>, with the
  parts of \<open>misc.c\<close> and \<open>fat.h\<close> it uses.
  \<^item> \<open>fat_sb\<close> has the fields of \<open>struct super_block\<close> and \<open>struct msdos_sb_info\<close> that the code uses. A
    buffer head is the number of its block: all pointers to a block share the bytes \<open>bh_data\<close> of the
    buffer cache. Reference counts of buffer heads are left out.
  \<^item> \<open>s_io\<close> are the outcomes of the coming requests to the block device; when it is empty they succeed.
  \<^item> A pointer into a block is a pair of block and offset; \<open>None\<close> as the outer result is an access
    through a null pointer, behind the end of a block, or a kernel panic.
  \<^item> Cluster numbers are \<open>int\<close>, as in the code; the code compares some of them with the \<open>unsigned
    long\<close> \<open>max_cluster\<close>, where a negative number is large (\<open>ge_max\<close>). The warnings of \<open>WARN_ON\<close> and the
    spin lock are left out.
\<close>

section \<open>State\<close>

definition EIO :: errno where "EIO = EOTHER 5"

definition FAT_START_ENT :: int where [simp]: "FAT_START_ENT = 2"
definition FAT_ENT_FREE :: int where [simp]: "FAT_ENT_FREE = 0"
definition FAT_ENT_EOF :: int where [simp]: "FAT_ENT_EOF = 0xFFFFFFF"
definition BAD_FAT12 :: int where [simp]: "BAD_FAT12 = 0xFF7"
definition BAD_FAT16 :: int where [simp]: "BAD_FAT16 = 0xFFF7"
definition BAD_FAT32 :: int where [simp]: "BAD_FAT32 = 0xFFFFFF7"
definition EOF_FAT12 :: int where [simp]: "EOF_FAT12 = 0xFFF"
definition EOF_FAT16 :: int where [simp]: "EOF_FAT16 = 0xFFFF"
definition MAX_BUF_PER_PAGE :: int where [simp]: "MAX_BUF_PER_PAGE = 8"

datatype fatent_operations = fat12_ops | fat16_ops | fat32_ops

datatype fat_errors = FAT_ERRORS_CONT | FAT_ERRORS_PANIC | FAT_ERRORS_RO

record fat_sb =
  s_blocksize_bits :: nat
  s_rdonly :: bool
  s_synchronous :: bool
  sec_per_clus :: nat
  fats :: nat
  fat_bits :: nat
  fat_start :: nat
  fat_length :: nat
  data_start :: nat
  max_cluster :: int
  prev_free :: u32
  free_clusters :: u32
  free_clus_valid :: bool
  opt_errors :: fat_errors
  opt_discard :: bool
  fatent_shift :: int
  fatent_ops :: fatent_operations
  fsinfo_dirty :: bool
  bh_data :: "nat \<Rightarrow> buf"
  bh_dirty :: "nat \<Rightarrow> bool"
  s_discards :: "(int \<times> int) list"
  s_io :: "bool list"

definition s_blocksize :: "fat_sb \<Rightarrow> nat" where
  "s_blocksize sb = 2 ^ s_blocksize_bits sb"

fun next_io :: "fat_sb \<Rightarrow> bool \<times> fat_sb" where
  "next_io sb = (case s_io sb of [] \<Rightarrow> (True, sb) | ok # io \<Rightarrow> (ok, sb\<lparr>s_io := io\<rparr>))"

text \<open>\<open>fat_fs_error\<close> without its message.\<close>

definition fat_fs_error :: "fat_sb \<Rightarrow> fat_sb option" where
  "fat_fs_error sb =
     (case opt_errors sb of
        FAT_ERRORS_PANIC \<Rightarrow> None
      | FAT_ERRORS_RO \<Rightarrow> Some (sb\<lparr>s_rdonly := True\<rparr>)
      | FAT_ERRORS_CONT \<Rightarrow> Some sb)"

type_synonym bptr = "nat \<times> nat"

text \<open>\<open>ent_p0\<close> and \<open>ent_p1\<close> are the pointers of \<open>u.ent12_p\<close>; the first is \<open>u.ent16_p\<close> and \<open>u.ent32_p\<close> too.\<close>

record fat_entry =
  fe_entry :: int
  ent_p0 :: "bptr option"
  ent_p1 :: "bptr option"
  fe_bhs :: "nat list"

definition fatent_init :: fat_entry where
  "fatent_init = \<lparr>fe_entry = 0, ent_p0 = None, ent_p1 = None, fe_bhs = []\<rparr>"

definition fatent_set_entry :: "fat_entry \<Rightarrow> int \<Rightarrow> fat_entry" where
  "fatent_set_entry fatent entry = fatent\<lparr>fe_entry := entry, ent_p0 := None\<rparr>"

definition fatent_brelse :: "fat_entry \<Rightarrow> fat_entry" where
  "fatent_brelse fatent = fatent\<lparr>ent_p0 := None, fe_bhs := []\<rparr>"

definition ge_max :: "fat_sb \<Rightarrow> int \<Rightarrow> bool" where
  "ge_max sb entry \<longleftrightarrow> entry < 0 \<or> max_cluster sb \<le> entry"

section \<open>Entries of the three formats\<close>

definition fat12_ent_blocknr :: "fat_sb \<Rightarrow> int \<Rightarrow> nat \<times> nat" where
  "fat12_ent_blocknr sb entry =
     (let bytes = entry + drop_bit 1 entry
      in (nat (bytes AND (int (s_blocksize sb) - 1)), fat_start sb + nat (drop_bit (s_blocksize_bits sb) bytes)))"

definition fat_ent_blocknr :: "fat_sb \<Rightarrow> int \<Rightarrow> nat \<times> nat" where
  "fat_ent_blocknr sb entry =
     (let bytes = push_bit (nat (fatent_shift sb)) entry
      in (nat (bytes AND (int (s_blocksize sb) - 1)), fat_start sb + nat (drop_bit (s_blocksize_bits sb) bytes)))"

definition fat12_ent_set_ptr :: "fat_entry \<Rightarrow> nat \<Rightarrow> fat_entry option" where
  "fat12_ent_set_ptr fatent offset =
     (case fe_bhs fatent of
        [b0] \<Rightarrow> Some (fatent\<lparr>ent_p0 := Some (b0, offset), ent_p1 := Some (b0, offset + 1)\<rparr>)
      | [b0, b1] \<Rightarrow> Some (fatent\<lparr>ent_p0 := Some (b0, offset), ent_p1 := Some (b1, 0)\<rparr>)
      | _ \<Rightarrow> None)"

definition fat16_ent_set_ptr :: "fat_entry \<Rightarrow> nat \<Rightarrow> fat_entry option" where
  "fat16_ent_set_ptr fatent offset =
     (case fe_bhs fatent of [] \<Rightarrow> None | b0 # _ \<Rightarrow> Some (fatent\<lparr>ent_p0 := Some (b0, offset)\<rparr>))"

definition fat32_ent_set_ptr :: "fat_entry \<Rightarrow> nat \<Rightarrow> fat_entry option" where
  "fat32_ent_set_ptr fatent offset =
     (case fe_bhs fatent of [] \<Rightarrow> None | b0 # _ \<Rightarrow> Some (fatent\<lparr>ent_p0 := Some (b0, offset)\<rparr>))"

definition ent_set_ptr :: "fat_sb \<Rightarrow> fat_entry \<Rightarrow> nat \<Rightarrow> fat_entry option" where
  "ent_set_ptr sb =
     (case fatent_ops sb of
        fat12_ops \<Rightarrow> fat12_ent_set_ptr | fat16_ops \<Rightarrow> fat16_ent_set_ptr | fat32_ops \<Rightarrow> fat32_ent_set_ptr)"

definition fat12_ent_bread ::
  "fat_sb \<Rightarrow> fat_entry \<Rightarrow> nat \<Rightarrow> nat \<Rightarrow> (errno option \<times> fat_sb \<times> fat_entry) option" where
  "fat12_ent_bread sb fatent offset blocknr =
     (let (ok, sb) = next_io sb
      in if \<not> ok then Some (Some EIO, sb, fatent)
      else if offset + 1 < s_blocksize sb then do {
        fatent \<leftarrow> fat12_ent_set_ptr (fatent\<lparr>fe_bhs := [blocknr]\<rparr>) offset;
        Some (None, sb, fatent)
      }
      else let (ok, sb) = next_io sb
           in if \<not> ok then Some (Some EIO, sb, fatent)
           else do {
             fatent \<leftarrow> fat12_ent_set_ptr (fatent\<lparr>fe_bhs := [blocknr, blocknr + 1]\<rparr>) offset;
             Some (None, sb, fatent)
           })"

definition fat_ent_bread ::
  "fat_sb \<Rightarrow> fat_entry \<Rightarrow> nat \<Rightarrow> nat \<Rightarrow> (errno option \<times> fat_sb \<times> fat_entry) option" where
  "fat_ent_bread sb fatent offset blocknr =
     (let (ok, sb) = next_io sb
      in if \<not> ok then Some (Some EIO, sb, fatent)
      else do {
        fatent \<leftarrow> ent_set_ptr sb (fatent\<lparr>fe_bhs := [blocknr]\<rparr>) offset;
        Some (None, sb, fatent)
      })"

text \<open>The byte, or the little-endian number, that a pointer points to.\<close>

definition load :: "nat \<Rightarrow> fat_sb \<Rightarrow> bptr option \<Rightarrow> 'a::len word option" where
  "load n sb p = do { (b, off) \<leftarrow> p; getw n (bh_data sb b) off }"

definition store :: "nat \<Rightarrow> fat_sb \<Rightarrow> bptr option \<Rightarrow> 'a::len word \<Rightarrow> fat_sb option" where
  "store n sb p v = do {
     (b, off) \<leftarrow> p;
     d \<leftarrow> putw n (bh_data sb b) off v;
     Some (sb\<lparr>bh_data := (bh_data sb)(b := d)\<rparr>)
   }"

definition mark_dirty :: "nat list \<Rightarrow> fat_sb \<Rightarrow> fat_sb" where
  "mark_dirty bhs sb = sb\<lparr>bh_dirty := (\<lambda>b. b \<in> set bhs \<or> bh_dirty sb b)\<rparr>"

definition fat12_ent_get :: "fat_sb \<Rightarrow> fat_entry \<Rightarrow> int option" where
  "fat12_ent_get sb fatent = do {
     b0 \<leftarrow> load 1 sb (ent_p0 fatent) :: u8 option;
     b1 \<leftarrow> load 1 sb (ent_p1 fatent) :: u8 option;
     let next' = (if odd (fe_entry fatent) then drop_bit 4 (uint b0) OR push_bit 4 (uint b1)
                  else push_bit 8 (uint b1) OR uint b0) AND 0xFFF;
     Some (if BAD_FAT12 \<le> next' then FAT_ENT_EOF else next')
   }"

definition fat16_ent_get :: "fat_sb \<Rightarrow> fat_entry \<Rightarrow> int option" where
  "fat16_ent_get sb fatent = do {
     w \<leftarrow> load 2 sb (ent_p0 fatent) :: u16 option;
     Some (if BAD_FAT16 \<le> uint w then FAT_ENT_EOF else uint w)
   }"

definition fat32_ent_get :: "fat_sb \<Rightarrow> fat_entry \<Rightarrow> int option" where
  "fat32_ent_get sb fatent = do {
     w \<leftarrow> load 4 sb (ent_p0 fatent) :: u32 option;
     let next' = uint (w AND 0xFFFFFFF);
     Some (if BAD_FAT32 \<le> next' then FAT_ENT_EOF else next')
   }"

definition ent_get :: "fat_sb \<Rightarrow> fat_entry \<Rightarrow> int option" where
  "ent_get sb = (case fatent_ops sb of
     fat12_ops \<Rightarrow> fat12_ent_get sb | fat16_ops \<Rightarrow> fat16_ent_get sb | fat32_ops \<Rightarrow> fat32_ent_get sb)"

definition fat12_ent_put :: "fat_sb \<Rightarrow> fat_entry \<Rightarrow> int \<Rightarrow> fat_sb option" where
  "fat12_ent_put sb fatent new = do {
     let new = (if new = FAT_ENT_EOF then EOF_FAT12 else new);
     b0 \<leftarrow> load 1 sb (ent_p0 fatent) :: u8 option;
     b1 \<leftarrow> load 1 sb (ent_p1 fatent) :: u8 option;
     let (v0, v1) =
       (if odd (fe_entry fatent) then (word_of_int (push_bit 4 new OR (uint b0 AND 0x0F)) :: u8, word_of_int (drop_bit 4 new) :: u8)
        else (word_of_int (new AND 0xFF), word_of_int ((uint b1 AND 0xF0) OR drop_bit 8 new)));
     sb \<leftarrow> store 1 sb (ent_p0 fatent) v0;
     sb \<leftarrow> store 1 sb (ent_p1 fatent) v1;
     Some (mark_dirty (fe_bhs fatent) sb)
   }"

definition fat16_ent_put :: "fat_sb \<Rightarrow> fat_entry \<Rightarrow> int \<Rightarrow> fat_sb option" where
  "fat16_ent_put sb fatent new = do {
     let new = (if new = FAT_ENT_EOF then EOF_FAT16 else new);
     sb \<leftarrow> store 2 sb (ent_p0 fatent) (word_of_int new :: u16);
     Some (mark_dirty (fe_bhs fatent) sb)
   }"

definition fat32_ent_put :: "fat_sb \<Rightarrow> fat_entry \<Rightarrow> int \<Rightarrow> fat_sb option" where
  "fat32_ent_put sb fatent new = do {
     w \<leftarrow> load 4 sb (ent_p0 fatent) :: u32 option;
     sb \<leftarrow> store 4 sb (ent_p0 fatent) (word_of_int new OR (w AND NOT 0xFFFFFFF));
     Some (mark_dirty (fe_bhs fatent) sb)
   }"

definition ent_put :: "fat_sb \<Rightarrow> fat_entry \<Rightarrow> int \<Rightarrow> fat_sb option" where
  "ent_put sb = (case fatent_ops sb of
     fat12_ops \<Rightarrow> fat12_ent_put sb | fat16_ops \<Rightarrow> fat16_ent_put sb | fat32_ops \<Rightarrow> fat32_ent_put sb)"

text \<open>
  The step to the next entry: whether it lies in the buffers. A pointer of \<open>NULL\<close> in the FAT12 case would be
  dereferenced by the caller only.
\<close>

definition fat12_ent_next :: "fat_sb \<Rightarrow> fat_entry \<Rightarrow> (bool \<times> fat_entry) option" where
  "fat12_ent_next sb fatent = do {
     (b, off) \<leftarrow> ent_p1 fatent;
     let nextp = off + 1 + (if odd (fe_entry fatent) then 1 else 0);
     let fatent = fatent\<lparr>fe_entry := fe_entry fatent + 1\<rparr>;
     (case fe_bhs fatent of
        [b0] \<Rightarrow>
          Some (if nextp < s_blocksize sb - 1
                then (True, fatent\<lparr>ent_p0 := Some (b, nextp - 1), ent_p1 := Some (b, nextp)\<rparr>)
                else (False, fatent\<lparr>ent_p0 := None, ent_p1 := None\<rparr>))
      | [b0, b1] \<Rightarrow> Some (True, fatent\<lparr>ent_p0 := Some (b, nextp - 1), ent_p1 := Some (b, nextp), fe_bhs := [b1]\<rparr>)
      | _ \<Rightarrow> None)
   }"

definition fat_slot_next :: "nat \<Rightarrow> fat_sb \<Rightarrow> fat_entry \<Rightarrow> (bool \<times> fat_entry) option" where
  "fat_slot_next n sb fatent = do {
     (b, off) \<leftarrow> ent_p0 fatent;
     let fatent = fatent\<lparr>fe_entry := fe_entry fatent + 1\<rparr>;
     Some (if off < s_blocksize sb - n then (True, fatent\<lparr>ent_p0 := Some (b, off + n)\<rparr>)
           else (False, fatent\<lparr>ent_p0 := None\<rparr>))
   }"

definition fat16_ent_next :: "fat_sb \<Rightarrow> fat_entry \<Rightarrow> (bool \<times> fat_entry) option" where
  "fat16_ent_next = fat_slot_next 2"

definition fat32_ent_next :: "fat_sb \<Rightarrow> fat_entry \<Rightarrow> (bool \<times> fat_entry) option" where
  "fat32_ent_next = fat_slot_next 4"

definition ent_blocknr :: "fat_sb \<Rightarrow> int \<Rightarrow> nat \<times> nat" where
  "ent_blocknr sb = (case fatent_ops sb of fat12_ops \<Rightarrow> fat12_ent_blocknr sb | _ \<Rightarrow> fat_ent_blocknr sb)"

definition ent_bread :: "fat_sb \<Rightarrow> fat_entry \<Rightarrow> nat \<Rightarrow> nat \<Rightarrow> (errno option \<times> fat_sb \<times> fat_entry) option" where
  "ent_bread sb = (case fatent_ops sb of fat12_ops \<Rightarrow> fat12_ent_bread sb | _ \<Rightarrow> fat_ent_bread sb)"

definition ent_next :: "fat_sb \<Rightarrow> fat_entry \<Rightarrow> (bool \<times> fat_entry) option" where
  "ent_next sb = (case fatent_ops sb of
     fat12_ops \<Rightarrow> fat12_ent_next sb | fat16_ops \<Rightarrow> fat16_ent_next sb | fat32_ops \<Rightarrow> fat32_ent_next sb)"

definition fat_ent_access_init :: "fat_sb \<Rightarrow> fat_sb" where
  "fat_ent_access_init sb =
     (if fat_bits sb = 32 then sb\<lparr>fatent_shift := 2, fatent_ops := fat32_ops\<rparr>
      else if fat_bits sb = 16 then sb\<lparr>fatent_shift := 1, fatent_ops := fat16_ops\<rparr>
      else if fat_bits sb = 12 then sb\<lparr>fatent_shift := -1, fatent_ops := fat12_ops\<rparr>
      else sb)"

definition mark_fsinfo_dirty :: "fat_sb \<Rightarrow> fat_sb" where
  "mark_fsinfo_dirty sb = (if s_rdonly sb \<or> fat_bits sb \<noteq> 32 then sb else sb\<lparr>fsinfo_dirty := True\<rparr>)"

section \<open>Reading and writing an entry\<close>

definition fat_ent_update_ptr :: "fat_sb \<Rightarrow> fat_entry \<Rightarrow> nat \<Rightarrow> nat \<Rightarrow> (bool \<times> fat_entry) option" where
  "fat_ent_update_ptr sb fatent offset blocknr =
     (case fe_bhs fatent of
        [] \<Rightarrow> Some (False, fatent)
      | b0 # rest \<Rightarrow>
          if b0 \<noteq> blocknr then Some (False, fatent)
          else if fat_bits sb = 12 \<and> \<not> offset + 1 < s_blocksize sb \<and> rest \<noteq> [blocknr + 1] then Some (False, fatent)
          else do {
            let fatent = (if fat_bits sb = 12 \<and> offset + 1 < s_blocksize sb then fatent\<lparr>fe_bhs := [b0]\<rparr> else fatent);
            fatent \<leftarrow> ent_set_ptr sb fatent offset;
            Some (True, fatent)
          })"

definition fat_ent_read :: "fat_sb \<Rightarrow> fat_entry \<Rightarrow> int \<Rightarrow> ((errno + int) \<times> fat_sb \<times> fat_entry) option" where
  "fat_ent_read sb fatent entry =
     (if entry < FAT_START_ENT \<or> ge_max sb entry then do {
        let fatent = fatent_brelse fatent;
        sb \<leftarrow> fat_fs_error sb;
        Some (Inl EIO, sb, fatent)
      }
      else do {
        let fatent = fatent_set_entry fatent entry;
        let (offset, blocknr) = ent_blocknr sb entry;
        (hit, fatent) \<leftarrow> fat_ent_update_ptr sb fatent offset blocknr;
        (err, sb, fatent) \<leftarrow> (if hit then Some (None, sb, fatent)
                             else ent_bread sb (fatent_brelse fatent) offset blocknr);
        (case err of
           Some e \<Rightarrow> Some (Inl e, sb, fatent)
         | None \<Rightarrow> do { v \<leftarrow> ent_get sb fatent; Some (Inr v, sb, fatent) })
      })"

text \<open>\<open>fat_sync_bhs\<close> writes all buffers before it waits for them; an outcome is taken for each.\<close>

fun fat_sync_bhs :: "fat_sb \<Rightarrow> nat list \<Rightarrow> errno option \<times> fat_sb" where
  "fat_sync_bhs sb [] = (None, sb)"
| "fat_sync_bhs sb (b # bhs) =
     (let (ok, sb) = next_io (sb\<lparr>bh_dirty := (bh_dirty sb)(b := False)\<rparr>);
          (err, sb) = fat_sync_bhs sb bhs
      in (if ok then err else Some EIO, sb))"

text \<open>The body of the loops of \<open>fat_mirror_bhs\<close>: one buffer of one copy.\<close>

definition mirror_buf :: "fat_sb \<Rightarrow> nat \<Rightarrow> nat \<Rightarrow> errno option \<times> fat_sb" where
  "mirror_buf sb copy b =
     (let (ok, sb) = next_io sb
      in if \<not> ok then (Some ENOMEM, sb)
      else
        let c = fat_length sb * copy + b;
            sb = mark_dirty [c] (sb\<lparr>bh_data := (bh_data sb)(c := bh_data sb b)\<rparr>)
        in if s_synchronous sb
           then (let (ok, sb) = next_io (sb\<lparr>bh_dirty := (bh_dirty sb)(c := False)\<rparr>) in (if ok then None else Some EIO, sb))
           else (None, sb))"

fun mirror_loop :: "fat_sb \<Rightarrow> (nat \<times> nat) list \<Rightarrow> errno option \<times> fat_sb" where
  "mirror_loop sb [] = (None, sb)"
| "mirror_loop sb ((copy, b) # todo) =
     (let (err, sb) = mirror_buf sb copy b in if err \<noteq> None then (err, sb) else mirror_loop sb todo)"

definition fat_mirror_bhs :: "fat_sb \<Rightarrow> nat list \<Rightarrow> errno option \<times> fat_sb" where
  "fat_mirror_bhs sb bhs = mirror_loop sb (List.product [1..<fats sb] bhs)"

definition fat_ent_write :: "fat_sb \<Rightarrow> fat_entry \<Rightarrow> int \<Rightarrow> bool \<Rightarrow> (errno option \<times> fat_sb) option" where
  "fat_ent_write sb fatent new wait = do {
     sb \<leftarrow> ent_put sb fatent new;
     let (err, sb) = (if wait then fat_sync_bhs sb (fe_bhs fatent) else (None, sb));
     Some (if err \<noteq> None then (err, sb) else fat_mirror_bhs sb (fe_bhs fatent))
   }"

definition fat_ent_next :: "fat_sb \<Rightarrow> fat_entry \<Rightarrow> (bool \<times> fat_entry) option" where
  "fat_ent_next sb fatent = do {
     (more, fatent) \<leftarrow> ent_next sb fatent;
     Some (more \<and> \<not> ge_max sb (fe_entry fatent), fatent)
   }"

definition fat_ent_read_block :: "fat_sb \<Rightarrow> fat_entry \<Rightarrow> (errno option \<times> fat_sb \<times> fat_entry) option" where
  "fat_ent_read_block sb fatent =
     (let fatent = fatent_brelse fatent; (offset, blocknr) = ent_blocknr sb (fe_entry fatent)
      in ent_bread sb fatent offset blocknr)"

definition fat_collect_bhs :: "nat list \<Rightarrow> fat_entry \<Rightarrow> nat list" where
  "fat_collect_bhs bhs fatent = fold (\<lambda>b bhs. if b \<in> set bhs then bhs else bhs @ [b]) (fe_bhs fatent) bhs"

end
