(* ===== verification/Vfat_Table.thy ===== *)
theory Vfat_Table
  imports Vfat_Ent
begin

unbundle bit_operations_syntax

text \<open>
  The file allocation table as a function from entries to values, read directly from the blocks, and the
  proof that the entry operations of the three formats implement reading and updating it.
\<close>

section \<open>The table\<close>

definition fat_byte :: "fat_sb \<Rightarrow> nat \<Rightarrow> nat" where
  "fat_byte sb i = unat (rd8 (bh_data sb (fat_start sb + i div s_blocksize sb)) (i mod s_blocksize sb))"

definition ent_pos :: "fat_sb \<Rightarrow> int \<Rightarrow> nat" where
  "ent_pos sb e = (case fatent_ops sb of
     fat12_ops \<Rightarrow> nat e + nat e div 2 | fat16_ops \<Rightarrow> 2 * nat e | fat32_ops \<Rightarrow> 4 * nat e)"

definition ent_size :: "fat_sb \<Rightarrow> nat" where
  "ent_size sb = (case fatent_ops sb of fat32_ops \<Rightarrow> 4 | _ \<Rightarrow> 2)"

definition ent_bad :: "fat_sb \<Rightarrow> int" where
  "ent_bad sb = (case fatent_ops sb of fat12_ops \<Rightarrow> 0xFF7 | fat16_ops \<Rightarrow> 0xFFF7 | fat32_ops \<Rightarrow> 0xFFFFFF7)"

text \<open>The number in the slot of an entry: 12, 16 or the low 28 bits of a little-endian number.\<close>

definition ent_raw :: "fat_sb \<Rightarrow> int \<Rightarrow> int" where
  "ent_raw sb e =
     (let p = ent_pos sb e; blk = bh_data sb (fat_start sb + p div s_blocksize sb); off = p mod s_blocksize sb
      in case fatent_ops sb of
           fat12_ops \<Rightarrow> int (if odd e then fat_byte sb p div 16 + 16 * fat_byte sb (p + 1)
                            else fat_byte sb p + 256 * (fat_byte sb (p + 1) mod 16))
         | fat16_ops \<Rightarrow> uint (rd16 blk off)
         | fat32_ops \<Rightarrow> uint (rd32 blk off) mod 2 ^ 28)"

definition fat_table :: "fat_sb \<Rightarrow> int \<Rightarrow> int" where
  "fat_table sb e = (if ent_bad sb \<le> ent_raw sb e then FAT_ENT_EOF else ent_raw sb e)"

text \<open>
  A mounted volume: the format set by \<open>fat_ent_access_init\<close>, blocks of one size, and the limits that
  \<open>fat_fill_super\<close> puts on the number of clusters: the table fits in its blocks and the cluster numbers are
  below the numbers with a special meaning.
\<close>

definition fat_ok :: "fat_sb \<Rightarrow> bool" where
  "fat_ok sb \<longleftrightarrow>
     (fat_bits sb, fatent_shift sb, fatent_ops sb) \<in> {(12, -1, fat12_ops), (16, 1, fat16_ops), (32, 2, fat32_ops)} \<and>
     9 \<le> s_blocksize_bits sb \<and> (\<forall>b. length (bh_data sb b) = s_blocksize sb) \<and>
     FAT_START_ENT \<le> max_cluster sb \<and> max_cluster sb \<le> ent_bad sb \<and>
     ent_pos sb (max_cluster sb - 1) + ent_size sb \<le> fat_length sb * s_blocksize sb"

abbreviation fat_entry_of :: "fat_sb \<Rightarrow> int \<Rightarrow> bool" where
  "fat_entry_of sb e \<equiv> 0 \<le> e \<and> e < max_cluster sb"

text \<open>What an entry may be set to: end of chain, or the number of a cluster, or 0 for a free one.\<close>

definition fat_value :: "fat_sb \<Rightarrow> int \<Rightarrow> bool" where
  "fat_value sb v \<longleftrightarrow> v = FAT_ENT_EOF \<or> fat_entry_of sb v"

text \<open>An entry that has been read: its pointers point to its slot.\<close>

definition fe_at :: "fat_sb \<Rightarrow> fat_entry \<Rightarrow> int \<Rightarrow> bool" where
  "fe_at sb fe e \<longleftrightarrow>
     (let p = ent_pos sb e; blk = (\<lambda>i. fat_start sb + i div s_blocksize sb); off = (\<lambda>i. i mod s_blocksize sb)
      in fe_entry fe = e \<and> ent_p0 fe = Some (blk p, off p) \<and>
         (fatent_ops sb = fat12_ops \<longrightarrow> ent_p1 fe = Some (blk (p + 1), off (p + 1))) \<and>
         fe_bhs fe = (if blk (p + ent_size sb - 1) = blk p then [blk p] else [blk p, blk p + 1]))"

definition fe_ok :: "fat_sb \<Rightarrow> fat_entry \<Rightarrow> bool" where
  "fe_ok sb fe \<longleftrightarrow> (fatent_ops sb \<noteq> fat12_ops \<longrightarrow> length (fe_bhs fe) \<le> 1)"

text \<open>The fields of a volume that the operations on the table do not change.\<close>

definition same_volume :: "fat_sb \<Rightarrow> fat_sb \<Rightarrow> bool" where
  "same_volume sb sb' \<longleftrightarrow>
     s_blocksize_bits sb' = s_blocksize_bits sb \<and> s_synchronous sb' = s_synchronous sb \<and>
     sec_per_clus sb' = sec_per_clus sb \<and> fats sb' = fats sb \<and> fat_bits sb' = fat_bits sb \<and>
     fat_start sb' = fat_start sb \<and> fat_length sb' = fat_length sb \<and> data_start sb' = data_start sb \<and>
     max_cluster sb' = max_cluster sb \<and> opt_errors sb' = opt_errors sb \<and> opt_discard sb' = opt_discard sb \<and>
     fatent_shift sb' = fatent_shift sb \<and> fatent_ops sb' = fatent_ops sb"

lemma same_volume_refl [simp]: "same_volume sb sb"
  by (simp add: same_volume_def)

lemma same_volume_trans [trans]: "same_volume a b \<Longrightarrow> same_volume b c \<Longrightarrow> same_volume a c"
  by (simp add: same_volume_def)

lemma same_volume_size: "same_volume sb sb' \<Longrightarrow> s_blocksize sb' = s_blocksize sb"
  by (simp add: same_volume_def s_blocksize_def)

lemma same_volume_entries:
  assumes "same_volume sb sb'"
  shows "ent_pos sb' = ent_pos sb" "ent_size sb' = ent_size sb" "ent_bad sb' = ent_bad sb"
    "fat_value sb' = fat_value sb" "fe_at sb' = fe_at sb" "fe_ok sb' = fe_ok sb"
  using assms same_volume_size [OF assms]
  by (simp_all add: same_volume_def fun_eq_iff ent_pos_def ent_size_def ent_bad_def fat_value_def fe_at_def fe_ok_def)

section \<open>Positions\<close>

lemma blocksize_512: "fat_ok sb \<Longrightarrow> s_blocksize sb = 4 * (s_blocksize sb div 4) \<and> 512 \<le> s_blocksize sb"
proof -
  assume "fat_ok sb"
  then have "9 \<le> s_blocksize_bits sb" by (simp add: fat_ok_def)
  then obtain k where k: "s_blocksize_bits sb = 9 + k" by (auto simp: le_iff_add)
  have "1 \<le> (2::nat) ^ k" by simp
  with k show ?thesis by (simp add: s_blocksize_def power_add)
qed

lemma blocknr_split:
  assumes "0 \<le> (b::int)"
  shows "(nat (b AND (int (s_blocksize sb) - 1)), fat_start sb + nat (drop_bit (s_blocksize_bits sb) b)) =
         (nat b mod s_blocksize sb, fat_start sb + nat b div s_blocksize sb)"
proof -
  have "b AND (int (s_blocksize sb) - 1) = b mod int (s_blocksize sb)"
    using take_bit_eq_mask [of "s_blocksize_bits sb" b]
    by (simp add: take_bit_eq_mod mask_eq_exp_minus_1 s_blocksize_def)
  moreover have "drop_bit (s_blocksize_bits sb) b = b div int (s_blocksize sb)"
    by (simp add: drop_bit_eq_div s_blocksize_def)
  ultimately show ?thesis using assms by (simp add: nat_mod_distrib nat_div_distrib)
qed

lemma ent_blocknr_pos:
  assumes "fat_ok sb" "0 \<le> e"
  shows "ent_blocknr sb e = (ent_pos sb e mod s_blocksize sb, fat_start sb + ent_pos sb e div s_blocksize sb)"
proof (cases "fatent_ops sb")
  case fat12_ops
  have "nat (e + drop_bit 1 e) = nat e + nat e div 2" using assms(2)
    by (simp add: drop_bit_eq_div nat_add_distrib nat_div_distrib)
  moreover have "0 \<le> e + drop_bit 1 e" using assms(2) by simp
  ultimately show ?thesis using fat12_ops blocknr_split [of "e + drop_bit 1 e" sb]
    by (simp add: ent_blocknr_def fat12_ent_blocknr_def ent_pos_def)
next
  case fat16_ops
  have "nat (push_bit 1 e) = 2 * nat e" "0 \<le> push_bit 1 e" using assms(2)
    by (simp_all add: push_bit_eq_mult nat_mult_distrib)
  moreover have "fatent_shift sb = 1" using assms(1) fat16_ops by (auto simp: fat_ok_def)
  ultimately show ?thesis using fat16_ops blocknr_split [of "push_bit 1 e" sb]
    by (simp add: ent_blocknr_def fat_ent_blocknr_def ent_pos_def)
next
  case fat32_ops
  have "nat (push_bit 2 e) = 4 * nat e" "0 \<le> push_bit 2 e" using assms(2)
    by (simp_all add: push_bit_eq_mult nat_mult_distrib)
  moreover have "fatent_shift sb = 2" using assms(1) fat32_ops by (auto simp: fat_ok_def)
  ultimately show ?thesis using fat32_ops blocknr_split [of "push_bit 2 e" sb]
    by (simp add: ent_blocknr_def fat_ent_blocknr_def ent_pos_def)
qed

text \<open>A 16 or 32 bit slot does not cross a block.\<close>

lemma ent_pos_aligned:
  assumes "fat_ok sb" "fatent_ops sb \<noteq> fat12_ops"
  shows "ent_pos sb e mod s_blocksize sb + ent_size sb \<le> s_blocksize sb"
    and "(ent_pos sb e + ent_size sb - 1) div s_blocksize sb = ent_pos sb e div s_blocksize sb"
proof -
  define n where "n = ent_size sb"
  have n: "n = 2 \<or> n = 4" "n dvd ent_pos sb e" "0 < n"
    using assms(2) by (auto simp: n_def ent_size_def ent_pos_def split: fatent_operations.splits)
  have bs: "n dvd s_blocksize sb" "0 < s_blocksize sb"
    using n(1) blocksize_512 [OF assms(1)] by (auto, presburger+)
  let ?r = "ent_pos sb e mod s_blocksize sb"
  have "n dvd ?r" using n(2) bs(1) by (simp add: dvd_mod)
  then obtain j k where j: "?r = n * j" and k: "s_blocksize sb = n * k" using bs(1) by (auto simp: dvd_def)
  have "?r < s_blocksize sb" using bs(2) by simp
  then have "n * j < n * k" by (simp only: j) (simp only: k)
  then have "n * (j + 1) \<le> n * k" using n(3) by (intro mult_le_mono) auto
  then show *: "?r + ent_size sb \<le> s_blocksize sb" by (simp only: j n_def [symmetric]) (simp add: k)
  have "ent_pos sb e + ent_size sb - 1 = (?r + (ent_size sb - 1)) + s_blocksize sb * (ent_pos sb e div s_blocksize sb)"
    using n(3) by (simp add: n_def add.assoc [symmetric] minus_mod_eq_mult_div [symmetric])
  moreover have lt: "?r + (ent_size sb - 1) < s_blocksize sb" using * n(3) by (simp add: n_def)
  ultimately have "(ent_pos sb e + ent_size sb - 1) div s_blocksize sb =
      (?r + (ent_size sb - 1)) div s_blocksize sb + ent_pos sb e div s_blocksize sb"
    using bs(2) by (metis div_mult_self2 add.commute less_not_refl)
  then show "(ent_pos sb e + ent_size sb - 1) div s_blocksize sb = ent_pos sb e div s_blocksize sb"
    by (simp only: div_less [OF lt] add_0)
qed

text \<open>A 12 bit slot crosses a block when its first byte is the last one of the block.\<close>

lemma next_byte:
  assumes "0 < (n::nat)"
  shows "i mod n + 1 < n \<Longrightarrow> (i + 1) div n = i div n \<and> (i + 1) mod n = i mod n + 1"
    and "\<not> i mod n + 1 < n \<Longrightarrow> (i + 1) div n = i div n + 1 \<and> (i + 1) mod n = 0"
proof -
  assume "i mod n + 1 < n"
  then show "(i + 1) div n = i div n \<and> (i + 1) mod n = i mod n + 1"
    by (auto simp: div_Suc mod_Suc)
next
  assume "\<not> i mod n + 1 < n"
  moreover have "i mod n < n" using assms by simp
  ultimately show "(i + 1) div n = i div n + 1 \<and> (i + 1) mod n = 0"
    by (auto simp: div_Suc mod_Suc)
qed

lemma ent_pos_mono: "e \<le> e' \<Longrightarrow> ent_pos sb e \<le> ent_pos sb e'"
  by (auto simp: ent_pos_def add_mono div_le_mono nat_mono split: fatent_operations.splits)

lemma ent_block_in_fat:
  assumes "fat_ok sb" "fat_entry_of sb e" "i < ent_size sb"
  shows "(ent_pos sb e + i) div s_blocksize sb < fat_length sb"
proof -
  have "ent_pos sb e \<le> ent_pos sb (max_cluster sb - 1)" using assms(2) by (intro ent_pos_mono) simp
  then have "ent_pos sb e + i < fat_length sb * s_blocksize sb" using assms(1,3) by (simp add: fat_ok_def)
  then show ?thesis by (simp add: less_mult_imp_div_less)
qed

section \<open>Reaching an entry\<close>

lemma fat_ops_bits:
  assumes "fat_ok sb"
  shows "fat_bits sb = 12 \<longleftrightarrow> fatent_ops sb = fat12_ops"
  using assms by (auto simp: fat_ok_def)

lemma ent_set_ptr_at:
  assumes "fat_ok sb" "fe_entry fe = e"
    and "p = ent_pos sb e" "b = fat_start sb + p div s_blocksize sb"
    and "fe_bhs fe = (if fatent_ops sb = fat12_ops \<and> \<not> p mod s_blocksize sb + 1 < s_blocksize sb then [b, b + 1] else [b])"
  shows "\<exists>fe'. ent_set_ptr sb fe (p mod s_blocksize sb) = Some fe' \<and> fe_at sb fe' e"
proof -
  have bs: "0 < s_blocksize sb" using blocksize_512 [OF assms(1)] by simp
  show ?thesis
  proof (cases "fatent_ops sb = fat12_ops")
    case True
    then show ?thesis using assms(2-) next_byte [OF bs, of p]
      by (auto simp: ent_set_ptr_def fat12_ent_set_ptr_def fe_at_def Let_def ent_size_def)
  next
    case False
    then show ?thesis using assms(2-) ent_pos_aligned(2) [OF assms(1) False, of e]
      by (auto simp: ent_set_ptr_def fat16_ent_set_ptr_def fat32_ent_set_ptr_def fe_at_def Let_def
          split: fatent_operations.splits)
  qed
qed

lemma fat_ent_update_ptr_at:
  assumes "fat_ok sb" "fe_ok sb fe" "fe_entry fe = e" "0 \<le> e" "ent_blocknr sb e = (offset, blocknr)"
  shows "\<exists>hit fe'. fat_ent_update_ptr sb fe offset blocknr = Some (hit, fe') \<and> fe_entry fe' = e \<and> (hit \<longrightarrow> fe_at sb fe' e)"
proof -
  have ob: "offset = ent_pos sb e mod s_blocksize sb" "blocknr = fat_start sb + ent_pos sb e div s_blocksize sb"
    using assms(5) ent_blocknr_pos [OF assms(1,4)] by auto
  note set = ent_set_ptr_at [OF assms(1) _ refl refl, of _ e]
  show ?thesis
  proof (cases "fe_bhs fe")
    case Nil
    then show ?thesis using assms(3) by (auto simp: fat_ent_update_ptr_def)
  next
    case (Cons b0 rest)
    show ?thesis
    proof (cases "b0 = blocknr \<and> (fatent_ops sb = fat12_ops \<longrightarrow> offset + 1 < s_blocksize sb \<or> rest = [blocknr + 1])")
      case True
      let ?fe = "if fatent_ops sb = fat12_ops \<and> offset + 1 < s_blocksize sb then fe\<lparr>fe_bhs := [b0]\<rparr> else fe"
      have "\<exists>fe'. ent_set_ptr sb ?fe offset = Some fe' \<and> fe_at sb fe' e"
        unfolding ob(1) by (rule set) (use Cons True assms(2,3) ob in \<open>auto simp: fe_ok_def\<close>)
      then show ?thesis using Cons True fat_ops_bits [OF assms(1)]
        by (auto simp: fat_ent_update_ptr_def fe_at_def Let_def)
    next
      case False
      then show ?thesis using Cons assms(3) fat_ops_bits [OF assms(1)] by (auto simp: fat_ent_update_ptr_def)
    qed
  qed
qed

text \<open>Requests to the device change only the list of outcomes.\<close>

lemma next_io_state:
  "\<exists>ok io. next_io sb = (ok, sb\<lparr>s_io := io\<rparr>) \<and> set io \<subseteq> set (s_io sb) \<and> (\<not> ok \<longrightarrow> False \<in> set (s_io sb))"
  by (cases "s_io sb") (auto intro: exI [of _ "s_io sb"])

lemma same_volume_io [simp]: "same_volume sb (sb\<lparr>s_io := io\<rparr>)"
  by (simp add: same_volume_def)

lemma fat_ok_io: "fat_ok (sb\<lparr>s_io := io\<rparr>) = fat_ok sb"
  by (simp add: fat_ok_def ent_pos_def ent_size_def ent_bad_def s_blocksize_def)

lemma ent_bread_at:
  assumes "fat_ok sb" "fe_entry fe = e" "0 \<le> e" "ent_blocknr sb e = (offset, blocknr)" "fe_bhs fe = []"
  shows "\<exists>err io fe'. ent_bread sb fe offset blocknr = Some (err, sb\<lparr>s_io := io\<rparr>, fe') \<and> fe_entry fe' = e \<and> set io \<subseteq> set (s_io sb) \<and>
           (err = None \<and> fe_at sb fe' e \<or> err = Some EIO \<and> fe_bhs fe' = [] \<and> False \<in> set (s_io sb))"
proof -
  have ob: "offset = ent_pos sb e mod s_blocksize sb" "blocknr = fat_start sb + ent_pos sb e div s_blocksize sb"
    using assms(4) ent_blocknr_pos [OF assms(1,3)] by auto
  have set: "\<exists>fe'. ent_set_ptr (sb\<lparr>s_io := io\<rparr>) (fe\<lparr>fe_bhs := bhs\<rparr>) offset = Some fe' \<and> fe_at sb fe' e"
    if "bhs = (if fatent_ops sb = fat12_ops \<and> \<not> offset + 1 < s_blocksize sb then [blocknr, blocknr + 1] else [blocknr])"
    for bhs io
    using ent_set_ptr_at [OF assms(1) _ refl refl, of "fe\<lparr>fe_bhs := bhs\<rparr>" e] assms(2) that
    unfolding ob by (simp add: ent_set_ptr_def)
  obtain ok io where io: "next_io sb = (ok, sb\<lparr>s_io := io\<rparr>)" and sub: "set io \<subseteq> set (s_io sb)" "\<not> ok \<longrightarrow> False \<in> set (s_io sb)"
    using next_io_state by blast
  obtain ok2 io2 where io2: "next_io (sb\<lparr>s_io := io\<rparr>) = (ok2, sb\<lparr>s_io := io2\<rparr>)" and "set io2 \<subseteq> set io" "\<not> ok2 \<longrightarrow> False \<in> set io"
    using next_io_state [of "sb\<lparr>s_io := io\<rparr>"] by auto
  with sub have sub2: "set io2 \<subseteq> set (s_io sb)" "\<not> ok2 \<longrightarrow> False \<in> set (s_io sb)" by auto
  have bs: "s_blocksize (sb\<lparr>s_io := io\<rparr>) = s_blocksize sb" for io by (simp add: s_blocksize_def)
  have ent: "fe_at sb fe' e \<Longrightarrow> fe_entry fe' = e" for fe' by (simp add: fe_at_def Let_def)
  show ?thesis
  proof (cases "fatent_ops sb = fat12_ops")
    case True
    then have "\<exists>fe'. fat12_ent_set_ptr (fe\<lparr>fe_bhs := if offset + 1 < s_blocksize sb then [blocknr] else [blocknr, blocknr + 1]\<rparr>) offset = Some fe' \<and> fe_at sb fe' e"
      using set [OF refl] by (cases "offset + 1 < s_blocksize sb") (simp_all add: ent_set_ptr_def)
    then obtain fe' where fe': "fat12_ent_set_ptr (fe\<lparr>fe_bhs := if offset + 1 < s_blocksize sb then [blocknr] else [blocknr, blocknr + 1]\<rparr>) offset = Some fe'"
      "fe_at sb fe' e" by blast
    have "ent_bread sb fe offset blocknr =
        (if \<not> ok then Some (Some EIO, sb\<lparr>s_io := io\<rparr>, fe)
         else if offset + 1 < s_blocksize sb then Some (None, sb\<lparr>s_io := io\<rparr>, fe')
         else if \<not> ok2 then Some (Some EIO, sb\<lparr>s_io := io2\<rparr>, fe)
         else Some (None, sb\<lparr>s_io := io2\<rparr>, fe'))"
      using True io io2 bs fe'(1)
      by (cases "offset + 1 < s_blocksize sb") (simp_all del: next_io.simps add: ent_bread_def fat12_ent_bread_def)
    then have "ent_bread sb fe offset blocknr =
        (if ok \<and> (offset + 1 < s_blocksize sb \<or> ok2)
         then Some (None, sb\<lparr>s_io := if offset + 1 < s_blocksize sb then io else io2\<rparr>, fe')
         else Some (Some EIO, sb\<lparr>s_io := if ok then io2 else io\<rparr>, fe))"
      by simp
    moreover have "set (if x then io else io2) \<subseteq> set (s_io sb)" "set (if x then io2 else io) \<subseteq> set (s_io sb)" for x
      using sub sub2 by auto
    ultimately show ?thesis using fe'(2) ent [OF fe'(2)] assms(2,5) sub sub2
      by (cases "ok \<and> (offset + 1 < s_blocksize sb \<or> ok2)") (simp only: simp_thms if_True if_False, blast)+
  next
    case False
    then have "ent_bread sb = fat_ent_bread sb" by (auto simp: ent_bread_def split: fatent_operations.splits)
    then show ?thesis using False assms(2,5) io set [of "[blocknr]" io] ent sub
      by (cases ok) (auto simp del: next_io.simps simp: fat_ent_bread_def)
  qed
qed

declare One_nat_def [simp del]

section \<open>Reading and changing the table through an entry\<close>

lemma load_at: "off + n \<le> length (bh_data sb b) \<Longrightarrow> load n sb (Some (b, off)) = Some (rdw n (bh_data sb b) off)"
  by (simp add: load_def getw_Some)

lemma store_at:
  "off + n \<le> length (bh_data sb b) \<Longrightarrow>
   store n sb (Some (b, off)) v = Some (sb\<lparr>bh_data := (bh_data sb)(b := splice (bh_data sb b) off (le_enc n v))\<rparr>)"
  by (simp add: store_def putw_Some)

lemma fat_ok_length: "fat_ok sb \<Longrightarrow> length (bh_data sb b) = s_blocksize sb"
  by (simp add: fat_ok_def)

lemma fat_byte_mod: "i mod s_blocksize sb + 1 \<le> s_blocksize sb"
proof -
  have "i mod s_blocksize sb < s_blocksize sb" by (simp add: s_blocksize_def)
  then show ?thesis by linarith
qed

lemma fat_byte_less: "fat_byte sb i < 256"
  using unsigned_less [of "rd8 (bh_data sb (fat_start sb + i div s_blocksize sb)) (i mod s_blocksize sb)"]
  by (simp add: fat_byte_def)

lemma or_plus:
  fixes a b :: int
  assumes "0 \<le> a" "a < 2 ^ n" 
  shows "push_bit n b OR a = 2 ^ n * b + a" "a OR push_bit n b = 2 ^ n * b + a"
proof -
  have "take_bit n a = a" using assms by (simp add: take_bit_int_eq_self)
  moreover have "push_bit n b AND take_bit n a = 0" by (rule bit_eqI) (auto simp: bit_simps)
  ultimately have "push_bit n b AND a = 0" by simp
  then have "push_bit n b + a = push_bit n b OR a" by (rule disjunctive_add_eq_or)
  then show "push_bit n b OR a = 2 ^ n * b + a" by (simp add: push_bit_eq_mult mult.commute)
  then show "a OR push_bit n b = 2 ^ n * b + a" by (simp add: or.commute)
qed

lemma and_mask_mod: "(x::int) AND 0xFFF = x mod 4096" "x AND 0xFF = x mod 256" "x AND 0x0F = x mod 16"
  using take_bit_eq_mask [of 12 x] take_bit_eq_mask [of 8 x] take_bit_eq_mask [of 4 x]
  by (simp_all add: take_bit_eq_mod mask_eq_exp_minus_1)

lemma fat12_get_value:
  fixes b0 b1 :: int
  assumes "0 \<le> b0" "b0 < 256" "0 \<le> b1" "b1 < 256"
  shows "(drop_bit 4 b0 OR push_bit 4 b1) AND 0xFFF = b0 div 16 + 16 * b1"
    and "(push_bit 8 b1 OR b0) AND 0xFFF = b0 + 256 * (b1 mod 16)"
proof -
  have "drop_bit 4 b0 = b0 div 16" by (simp add: drop_bit_eq_div)
  then have "drop_bit 4 b0 OR push_bit 4 b1 = 16 * b1 + b0 div 16" using or_plus(2) [of "b0 div 16" 4 b1] assms by simp
  then show "(drop_bit 4 b0 OR push_bit 4 b1) AND 0xFFF = b0 div 16 + 16 * b1"
    using assms unfolding and_mask_mod by simp
  have "push_bit 8 b1 OR b0 = 256 * b1 + b0" using or_plus(1) [of b0 8 b1] assms by simp
  then show "(push_bit 8 b1 OR b0) AND 0xFFF = b0 + 256 * (b1 mod 16)"
  proof -
    have "256 * b1 + b0 = (b0 + 256 * (b1 mod 16)) + 4096 * (b1 div 16)" using mult_div_mod_eq [of 16 b1] by linarith
    then have "(256 * b1 + b0) mod 4096 = (b0 + 256 * (b1 mod 16)) mod 4096" by (simp only: mod_mult_self2)
    also have "\<dots> = b0 + 256 * (b1 mod 16)"
      using assms pos_mod_bound [of 16 b1] pos_mod_sign [of 16 b1] by (intro mod_pos_pos_trivial) linarith+
    finally show ?thesis unfolding and_mask_mod \<open>push_bit 8 b1 OR b0 = 256 * b1 + b0\<close> .
  qed
qed

lemma ent_get_at:
  assumes "fat_ok sb" "fe_at sb fe e"
  shows "ent_get sb fe = Some (fat_table sb e)"
proof -
  note at = assms(2) [unfolded fe_at_def Let_def]
  let ?p = "ent_pos sb e"
  show ?thesis
  proof (cases "fatent_ops sb")
    case fat12_ops
    have [simp]: "uint (rd8 (bh_data sb (fat_start sb + i div s_blocksize sb)) (i mod s_blocksize sb)) = int (fat_byte sb i)" for i
      by (simp add: fat_byte_def)
    have ld: "load 1 sb (Some (fat_start sb + i div s_blocksize sb, i mod s_blocksize sb)) =
        Some (rd8 (bh_data sb (fat_start sb + i div s_blocksize sb)) (i mod s_blocksize sb))" for i
      using fat_byte_mod [of i sb] fat_ok_length [OF assms(1)] by (intro load_at) simp
    have b: "0 \<le> int (fat_byte sb i)" "int (fat_byte sb i) < 256" for i using fat_byte_less [of sb i] by auto
    have "ent_raw sb e = (if odd e then drop_bit 4 (int (fat_byte sb ?p)) OR push_bit 4 (int (fat_byte sb (?p + 1)))
                  else push_bit 8 (int (fat_byte sb (?p + 1))) OR int (fat_byte sb ?p)) AND 0xFFF"
      using fat12_get_value(1) [OF b b, of ?p "?p + 1"] fat12_get_value(2) [OF b b, of "?p + 1" ?p] fat12_ops
      by (auto simp: ent_raw_def Let_def zdiv_int zmod_int)
    then show ?thesis using at fat12_ops ld
      by (simp add: ent_get_def fat12_ent_get_def fat_table_def ent_bad_def Let_def)
  next
    case fat16_ops
    then have "?p mod s_blocksize sb + 2 \<le> s_blocksize sb" using ent_pos_aligned(1) [OF assms(1), of e] by (simp add: ent_size_def)
    then show ?thesis using at fat16_ops fat_ok_length [OF assms(1)]
      by (simp add: ent_get_def fat16_ent_get_def fat_table_def ent_bad_def ent_raw_def Let_def load_at)
  next
    case fat32_ops
    then have "?p mod s_blocksize sb + 4 \<le> s_blocksize sb" using ent_pos_aligned(1) [OF assms(1), of e] by (simp add: ent_size_def)
    moreover have "uint (w AND 0xFFFFFFF) = uint w mod 2 ^ 28" for w :: u32
      using take_bit_eq_mask [of 28 w, symmetric] by (simp add: mask_eq_exp_minus_1 unsigned_take_bit_eq) (simp add: take_bit_eq_mod)
    ultimately show ?thesis using at fat32_ops fat_ok_length [OF assms(1)]
      by (simp add: ent_get_def fat32_ent_get_def fat_table_def ent_bad_def ent_raw_def Let_def load_at)
  qed
qed

text \<open>The states that differ from \<open>sb\<close> in the blocks \<open>bs\<close> of the buffer cache and in what is dirty.\<close>

definition wrote :: "nat list \<Rightarrow> fat_sb \<Rightarrow> fat_sb \<Rightarrow> bool" where
  "wrote bs sb sb' \<longleftrightarrow>
     sb' = sb\<lparr>bh_data := bh_data sb', bh_dirty := bh_dirty sb'\<rparr> \<and>
     (\<forall>b. length (bh_data sb' b) = length (bh_data sb b)) \<and> (\<forall>b. b \<notin> set bs \<longrightarrow> bh_data sb' b = bh_data sb b)"

lemma wrote_volume: "wrote bs sb sb' \<Longrightarrow> same_volume sb sb'"
  unfolding wrote_def same_volume_def by (cases sb; cases sb') simp

lemma wrote_counters:
  "wrote bs sb sb' \<Longrightarrow> s_io sb' = s_io sb \<and> free_clusters sb' = free_clusters sb \<and> prev_free sb' = prev_free sb \<and>
     free_clus_valid sb' = free_clus_valid sb \<and> s_discards sb' = s_discards sb \<and> s_rdonly sb' = s_rdonly sb \<and> fsinfo_dirty sb' = fsinfo_dirty sb"
  unfolding wrote_def by (cases sb; cases sb') simp

lemma wrote_data: "wrote bs sb sb' \<Longrightarrow> b \<notin> set bs \<Longrightarrow> bh_data sb' b = bh_data sb b"
  by (simp add: wrote_def)

lemma volume_ok:
  "same_volume sb sb' \<Longrightarrow> (\<And>b. length (bh_data sb' b) = length (bh_data sb b)) \<Longrightarrow> fat_ok sb' = fat_ok sb"
  using same_volume_entries [of sb sb'] same_volume_size [of sb sb'] by (simp add: fat_ok_def same_volume_def)

lemma wrote_ok: "wrote bs sb sb' \<Longrightarrow> fat_ok sb' = fat_ok sb"
  by (rule volume_ok) (simp_all add: wrote_volume, simp add: wrote_def)

lemma wrote_put:
  "wrote bs sb sb' \<Longrightarrow> b \<in> set bs \<Longrightarrow> length d = length (bh_data sb b) \<Longrightarrow>
   wrote bs sb (sb'\<lparr>bh_data := (bh_data sb')(b := d)\<rparr>)"
  unfolding wrote_def by (cases sb; cases sb') auto

lemma wrote_store:
  "wrote bs sb sb' \<Longrightarrow> b \<in> set bs \<Longrightarrow> store n sb' (Some (b, off)) v = Some sb'' \<Longrightarrow> wrote bs sb sb''"
  by (auto simp: store_def bind_eq_Some_conv intro!: wrote_put dest!: putw_length) (simp add: wrote_def)

lemma wrote_mark_dirty: "wrote bs sb sb' \<Longrightarrow> wrote bs sb (mark_dirty cs sb')"
  unfolding wrote_def mark_dirty_def by (cases sb; cases sb') auto

lemma wrote_refl: "wrote bs sb sb"
  by (simp add: wrote_def)

lemma fat_byte_dirty: "fat_byte (mark_dirty cs sb) = fat_byte sb"
  by (simp add: fun_eq_iff fat_byte_def mark_dirty_def s_blocksize_def)

lemma fat_byte_store:
  assumes "\<And>b. length (bh_data sb b) = s_blocksize sb"
  shows "\<exists>sb'. store 1 sb (Some (fat_start sb + i div s_blocksize sb, i mod s_blocksize sb)) (v :: u8) = Some sb' \<and>
           fat_byte sb' = (fat_byte sb)(i := unat v) \<and> same_volume sb sb' \<and> (\<forall>b. length (bh_data sb' b) = s_blocksize sb')"
proof -
  let ?b = "fat_start sb + i div s_blocksize sb" and ?o = "i mod s_blocksize sb"
  let ?sb = "sb\<lparr>bh_data := (bh_data sb)(?b := splice (bh_data sb ?b) ?o (le_enc 1 v))\<rparr>"
  have fit: "?o + 1 \<le> length (bh_data sb ?b)" using fat_byte_mod [of i sb] assms by simp
  have bs: "s_blocksize ?sb = s_blocksize sb" by (simp add: s_blocksize_def)
  have "fat_byte ?sb j = ((fat_byte sb)(i := unat v)) j" for j
  proof (cases "j div s_blocksize sb = i div s_blocksize sb \<and> j \<noteq> i")
    case True
    then have "j mod s_blocksize sb \<noteq> i mod s_blocksize sb" by (metis div_mult_mod_eq)
    then have "j mod s_blocksize sb + 1 \<le> ?o \<or> ?o + 1 \<le> j mod s_blocksize sb" by linarith
    then show ?thesis using True fit by (auto simp: fat_byte_def bs buf_simps)
  next
    case False
    then show ?thesis using fit by (auto simp: fat_byte_def bs buf_simps)
  qed
  moreover have "store 1 sb (Some (?b, ?o)) v = Some ?sb" using fit by (rule store_at)
  moreover have "length (bh_data ?sb b) = s_blocksize ?sb" for b using fit assms bs by simp
  ultimately show ?thesis by (intro exI [of _ ?sb]) (auto simp: same_volume_def)
qed

text \<open>The two bytes that \<open>fat12_ent_put\<close> stores.\<close>

definition put12 :: "int \<Rightarrow> nat \<Rightarrow> nat \<Rightarrow> nat \<Rightarrow> nat \<times> nat" where
  "put12 e v b0 b1 =
     (if odd e then (16 * (v mod 16) + b0 mod 16, v div 16) else (v mod 256, 16 * (b1 div 16) + v div 256))"

lemma put12_bits:
  fixes b0 b1 v :: nat
  assumes "b0 < 256" "b1 < 256" "v < 4096"
  shows "unat (word_of_int (push_bit 4 (int v) OR (int b0 AND 0x0F)) :: u8) = 16 * (v mod 16) + b0 mod 16"
    and "unat (word_of_int (drop_bit 4 (int v)) :: u8) = v div 16"
    and "unat (word_of_int (int v AND 0xFF) :: u8) = v mod 256"
    and "unat (word_of_int ((int b1 AND 0xF0) OR drop_bit 8 (int v)) :: u8) = 16 * (b1 div 16) + v div 256"
proof -
  have w: "unat (word_of_int (int n) :: u8) = n mod 256" for n
    using unat_of_nat [where 'a = 8, of n] by simp
  have "push_bit 4 (int v) OR (int b0 AND 0x0F) = 16 * int v + int b0 mod 16"
    unfolding and_mask_mod using or_plus(1) [of "int b0 mod 16" 4 "int v"] by simp
  also have "\<dots> = int (16 * v + b0 mod 16)" by (simp add: zmod_int)
  finally have "unat (word_of_int (push_bit 4 (int v) OR (int b0 AND 0x0F)) :: u8) = (16 * v + b0 mod 16) mod 256"
    by (simp only: w)
  also have "\<dots> = 16 * (v mod 16) + b0 mod 16"
  proof -
    have "16 * v + b0 mod 16 = (16 * (v mod 16) + b0 mod 16) + 256 * (v div 16)" using mult_div_mod_eq [of 16 v] by linarith
    then have "(16 * v + b0 mod 16) mod 256 = (16 * (v mod 16) + b0 mod 16) mod 256" by (simp only: mod_mult_self2)
    moreover have "16 * (v mod 16) + b0 mod 16 < 256"
      using mod_less_divisor [of 16 v] mod_less_divisor [of 16 b0] by linarith
    ultimately show ?thesis by simp
  qed
  finally show "unat (word_of_int (push_bit 4 (int v) OR (int b0 AND 0x0F)) :: u8) = 16 * (v mod 16) + b0 mod 16" .
  have "drop_bit 4 (int v) = int (v div 16)" by (simp add: drop_bit_eq_div zdiv_int)
  moreover have "v div 16 < 256" using assms(3) by (simp add: div_less_iff_less_mult)
  ultimately show "unat (word_of_int (drop_bit 4 (int v)) :: u8) = v div 16" by (simp only: w mod_less)
  have "int v AND 0xFF = int (v mod 256)" unfolding and_mask_mod by (simp add: zmod_int)
  then show "unat (word_of_int (int v AND 0xFF) :: u8) = v mod 256" by (simp only: w mod_mod_trivial)
  have "int b1 AND 0xF0 = push_bit 4 (int (b1 div 16))"
  proof -
    have "int b1 AND push_bit 4 (mask 4) = push_bit 4 (take_bit 4 (drop_bit 4 (int b1)))"
      by (rule bit_eqI) (auto simp: bit_simps)
    moreover have "push_bit 4 (mask 4 :: int) = 0xF0" by (simp add: mask_eq_exp_minus_1 push_bit_eq_mult)
    moreover have "take_bit 4 (drop_bit 4 (int b1)) = int (b1 div 16)"
      using assms(2) by (simp add: take_bit_eq_mod drop_bit_eq_div zdiv_int)
    ultimately show ?thesis by simp
  qed
  moreover have "drop_bit 8 (int v) = int (v div 256)" by (simp add: drop_bit_eq_div zdiv_int)
  moreover have "v div 256 < 16" using assms(3) by (simp add: div_less_iff_less_mult)
  ultimately have "(int b1 AND 0xF0) OR drop_bit 8 (int v) = int (16 * (b1 div 16) + v div 256)"
    using or_plus(1) [of "int (v div 256)" 4 "int (b1 div 16)"] by simp
  moreover have "16 * (b1 div 16) + v div 256 < 256"
  proof -
    have "b1 div 16 < 16" using assms(2) by (simp add: div_less_iff_less_mult)
    then show ?thesis using \<open>v div 256 < 16\<close> by linarith
  qed
  ultimately show "unat (word_of_int ((int b1 AND 0xF0) OR drop_bit 8 (int v)) :: u8) = 16 * (b1 div 16) + v div 256"
    by (simp only: w mod_less)
qed

lemma ent_pos12:
  assumes "fatent_ops sb = fat12_ops" "0 \<le> e"
  shows "\<exists>k. nat e = 2 * k \<and> even e \<and> ent_pos sb e = 3 * k \<or> nat e = 2 * k + 1 \<and> odd e \<and> ent_pos sb e = 3 * k + 1"
proof -
  define k where "k = nat e div 2"
  have "nat e mod 2 = (if odd e then 1 else 0)" using assms(2) by (auto simp: even_nat_iff mod_2_eq_odd)
  then have "nat e = 2 * k + (if odd e then 1 else 0)" using mult_div_mod_eq [of 2 "nat e"] by (simp add: k_def)
  moreover have "ent_pos sb e = nat e + k" using assms(1) by (simp add: ent_pos_def k_def)
  ultimately show ?thesis by (intro exI [of _ k]) (cases "odd e"; simp)
qed

lemma put12_raw:
  assumes "fatent_ops sb = fat12_ops" "fatent_ops sb' = fat12_ops" "0 \<le> e" "v < 4096"
    and "(x0, x1) = put12 e v (fat_byte sb (ent_pos sb e)) (fat_byte sb (ent_pos sb e + 1))"
    and "fat_byte sb' = (fat_byte sb)(ent_pos sb e := x0, ent_pos sb e + 1 := x1)"
    and "0 \<le> e'"
  shows "ent_raw sb' e' = (if e' = e then int v else ent_raw sb e')"
proof -
  obtain k where k: "nat e = 2 * k \<and> even e \<and> ent_pos sb e = 3 * k \<or> nat e = 2 * k + 1 \<and> odd e \<and> ent_pos sb e = 3 * k + 1"
    using ent_pos12 [OF assms(1,3)] by blast
  obtain j where j: "nat e' = 2 * j \<and> even e' \<and> ent_pos sb e' = 3 * j \<or> nat e' = 2 * j + 1 \<and> odd e' \<and> ent_pos sb e' = 3 * j + 1"
    using ent_pos12 [OF assms(1,7)] by blast
  have p: "ent_pos sb' e' = ent_pos sb e'" using assms(1,2) by (simp add: ent_pos_def)
  have v: "v div 256 < 16" using assms(4) by (simp add: div_less_iff_less_mult)
  show ?thesis
  proof (cases "j = k")
    case False
    then have "fat_byte sb' (ent_pos sb e') = fat_byte sb (ent_pos sb e')"
      "fat_byte sb' (ent_pos sb e' + 1) = fat_byte sb (ent_pos sb e' + 1) \<or>
       even e' \<and> fat_byte sb' (ent_pos sb e' + 1) = fat_byte sb (ent_pos sb e' + 1)"
      "e' \<noteq> e"
      using j k unfolding assms(6) by auto
    then show ?thesis using assms(1,2) p by (auto simp: ent_raw_def Let_def)
  next
    case True
    show ?thesis
    proof (cases "e' = e")
      case True
      then show ?thesis using assms(1,2,5,6) p v by (auto simp: ent_raw_def Let_def put12_def)
    next
      case False
      then have "odd e' = even e" using j k \<open>j = k\<close> assms(3,7) by (auto simp: nat_eq_iff)
      then show ?thesis using j k \<open>j = k\<close> False assms(1,2,5,6) p v
        by (auto simp: ent_raw_def Let_def put12_def)
    qed
  qed
qed

text \<open>A store to an aligned slot keeps the other slots.\<close>

lemma slot_store:
  assumes "n * i div bs = n * j div bs" "i \<noteq> j" "n dvd (bs::nat)" "0 < n"
  shows "(n * i) mod bs + n \<le> (n * j) mod bs \<or> (n * j) mod bs + n \<le> (n * i) mod bs"
proof -
  obtain k where k: "bs = n * k" using assms(3) by blast
  have "n * x mod bs = n * (x mod k)" "n * x div bs = x div k" for x using assms(4) by (simp_all add: k)
  then have "i div k = j div k" "n * i mod bs = n * (i mod k)" "n * j mod bs = n * (j mod k)" using assms(1) by simp_all
  moreover have "i mod k \<noteq> j mod k" using \<open>i div k = j div k\<close> assms(2) by (metis div_mult_mod_eq)
  moreover have "n * a + n \<le> n * b" if "a < b" for a b :: nat
    using that mult_le_mono2 [of "a + 1" b n] by (simp add: distrib_left)
  ultimately show ?thesis by (cases "i mod k < j mod k") (simp_all add: not_less le_less)
qed

lemma slot_read:
  assumes "fat_ok sb" "fatent_ops sb \<noteq> fat12_ops" "n = ent_size sb" "0 \<le> e" "0 \<le> e'" "LENGTH('a) \<le> 8 * n"
    and "P = (\<lambda>e. ent_pos sb e div s_blocksize sb)" "Q = (\<lambda>e. ent_pos sb e mod s_blocksize sb)"
  shows "rdw n (((bh_data sb)(fat_start sb + P e := splice (bh_data sb (fat_start sb + P e)) (Q e) (le_enc n w))) (fat_start sb + P e')) (Q e') =
         (if e' = e then (w :: 'a::len word) else rdw n (bh_data sb (fat_start sb + P e')) (Q e'))"
proof -
  have fit: "Q e + n \<le> length (bh_data sb b)" for b
    using ent_pos_aligned(1) [OF assms(1,2), of e] fat_ok_length [OF assms(1)] by (simp add: assms(3,8))
  have n: "n = 2 \<or> n = 4" "ent_pos sb x = n * nat x" for x
    using assms(2,3) by (auto simp: ent_size_def ent_pos_def split: fatent_operations.splits)
  have "n dvd s_blocksize sb" using n(1) blocksize_512 [OF assms(1)] by (auto, presburger+)
  show ?thesis
  proof (cases "P e' = P e \<and> e' \<noteq> e")
    case True
    then have "Q e + n \<le> Q e' \<or> Q e' + n \<le> Q e"
      using slot_store [of n "nat e'" "s_blocksize sb" "nat e"] \<open>n dvd s_blocksize sb\<close> n assms(4,5)
      by (auto simp: assms(7,8))
    then show ?thesis using True fit [of "fat_start sb + P e"] by (auto simp: buf_simps)
  next
    case False
    then show ?thesis using fit [of "fat_start sb + P e"] assms(6) by (auto simp: buf_simps)
  qed
qed

lemma ent_size_length: "fatent_ops sb = fat16_ops \<Longrightarrow> ent_size sb = 2" "fatent_ops sb = fat32_ops \<Longrightarrow> ent_size sb = 4"
  by (simp_all add: ent_size_def)

definition put_raw :: "fat_sb \<Rightarrow> int \<Rightarrow> int" where
  "put_raw sb v = (if v = FAT_ENT_EOF then (case fatent_ops sb of fat12_ops \<Rightarrow> EOF_FAT12 | fat16_ops \<Rightarrow> EOF_FAT16 | fat32_ops \<Rightarrow> FAT_ENT_EOF) else v)"

lemma put_raw_bounds:
  assumes "fat_ok sb" "fat_value sb v"
  shows "0 \<le> put_raw sb v" "put_raw sb v \<le> (case fatent_ops sb of fat12_ops \<Rightarrow> 0xFFF | fat16_ops \<Rightarrow> 0xFFFF | fat32_ops \<Rightarrow> 0xFFFFFFF)"
    and "(if ent_bad sb \<le> put_raw sb v then FAT_ENT_EOF else put_raw sb v) = v"
  using assms by (auto simp: put_raw_def fat_value_def fat_ok_def ent_bad_def split: fatent_operations.splits)

definition put_ok :: "fat_sb \<Rightarrow> fat_entry \<Rightarrow> int \<Rightarrow> int \<Rightarrow> fat_sb \<Rightarrow> bool" where
  "put_ok sb fe e v sb' \<longleftrightarrow>
     ent_put sb fe v = Some sb' \<and> wrote (fe_bhs fe) sb sb' \<and>
     bh_dirty sb' = (\<lambda>b. b \<in> set (fe_bhs fe) \<or> bh_dirty sb b) \<and>
     (\<forall>e'. 0 \<le> e' \<longrightarrow> ent_raw sb' e' = (if e' = e then put_raw sb v else ent_raw sb e'))"

lemma ent_raw_dirty: "ent_raw (mark_dirty cs sb) = ent_raw sb"
  unfolding fun_eq_iff ent_raw_def fat_byte_dirty by (simp add: mark_dirty_def ent_pos_def s_blocksize_def Let_def)

lemma store_dirty: "store n sb p v = Some sb' \<Longrightarrow> bh_dirty sb' = bh_dirty sb"
  by (auto simp: store_def bind_eq_Some_conv)

lemma slot_put:
  fixes w :: "'a::len word" and dec :: "'a word \<Rightarrow> int"
  assumes "fat_ok sb" "fe_at sb fe e" "0 \<le> e" "fatent_ops sb \<noteq> fat12_ops" "n = ent_size sb" "LENGTH('a) \<le> 8 * n"
    and "ent_put sb fe v = store n sb (ent_p0 fe) w \<bind> (\<lambda>sb. Some (mark_dirty (fe_bhs fe) sb))"
    and raw: "\<And>sb' e'. fatent_ops sb' = fatent_ops sb \<Longrightarrow>
      ent_raw sb' e' = dec (rdw n (bh_data sb' (fat_start sb' + ent_pos sb' e' div s_blocksize sb')) (ent_pos sb' e' mod s_blocksize sb'))"
    and "dec w = put_raw sb v"
  shows "\<exists>sb'. put_ok sb fe e v sb'"
proof -
  let ?b = "fat_start sb + ent_pos sb e div s_blocksize sb" and ?o = "ent_pos sb e mod s_blocksize sb"
  let ?sb = "sb\<lparr>bh_data := (bh_data sb)(?b := splice (bh_data sb ?b) ?o (le_enc n w))\<rparr>"
  note at = assms(2) [unfolded fe_at_def Let_def]
  have fit: "?o + n \<le> length (bh_data sb ?b)"
    using ent_pos_aligned(1) [OF assms(1,4), of e] fat_ok_length [OF assms(1)] assms(5) by simp
  have bh: "?b \<in> set (fe_bhs fe)" using at by simp
  have "store n sb (ent_p0 fe) w = Some ?sb" using at fit by (simp add: store_at)
  then have "ent_put sb fe v = Some (mark_dirty (fe_bhs fe) ?sb)" by (simp add: assms(7))
  moreover have "wrote (fe_bhs fe) sb ?sb" using bh fit by (intro wrote_put wrote_refl) auto
  moreover have "ent_raw ?sb e' = (if e' = e then put_raw sb v else ent_raw sb e')" if "0 \<le> e'" for e'
  proof -
    have eq: "ent_pos ?sb = ent_pos sb" "s_blocksize ?sb = s_blocksize sb" by (simp_all add: fun_eq_iff ent_pos_def s_blocksize_def)
    have "ent_raw ?sb e' = dec (if e' = e then w else rdw n (bh_data sb (fat_start sb + ent_pos sb e' div s_blocksize sb)) (ent_pos sb e' mod s_blocksize sb))"
      using raw [of ?sb e'] slot_read [OF assms(1,4,5,3) that assms(6) refl refl, of w] by (simp add: eq)
    then show ?thesis using raw [of sb e'] assms(9) by simp
  qed
  ultimately show ?thesis
    by (intro exI [of _ "mark_dirty (fe_bhs fe) ?sb"])
      (simp add: put_ok_def wrote_mark_dirty ent_raw_dirty, simp add: mark_dirty_def)
qed

lemma ent_put16:
  assumes "fat_ok sb" "fe_at sb fe e" "0 \<le> e" "fat_value sb v" "fatent_ops sb = fat16_ops"
  shows "\<exists>sb'. put_ok sb fe e v sb'"
proof (rule slot_put [OF assms(1-3), where n = 2 and w = "word_of_int (put_raw sb v) :: u16" and dec = uint])
  show "uint (word_of_int (put_raw sb v) :: u16) = put_raw sb v"
    using put_raw_bounds [OF assms(1,4)] assms(5) by (simp add: uint_word_of_int_eq take_bit_int_eq_self)
qed (use assms(5) in \<open>simp_all add: ent_size_def ent_put_def fat16_ent_put_def put_raw_def ent_raw_def Let_def\<close>)

lemma put32_word:
  fixes w :: u32
  assumes "0 \<le> v" "v < 2 ^ 28"
  shows "uint (word_of_int v OR (w AND NOT 0xFFFFFFF)) mod 2 ^ 28 = v"
proof -
  have m: "(0xFFFFFFF :: u32) = mask 28" by (simp add: mask_eq_exp_minus_1)
  have "take_bit 28 (word_of_int v OR (w AND NOT (mask 28))) = take_bit 28 (word_of_int v :: u32)"
    by (rule bit_word_eqI) (auto simp: bit_simps)
  also have "\<dots> = word_of_int (take_bit 28 v)" by (simp add: take_bit_word_beyond_length_eq take_bit_of_int)
  also have "take_bit 28 v = v" using assms by (simp add: take_bit_int_eq_self)
  finally have "uint (take_bit 28 (word_of_int v OR (w AND NOT (mask 28)))) = uint (word_of_int v :: u32)" by simp
  also have "uint (word_of_int v :: u32) = v" using assms by (simp add: uint_word_of_int_eq take_bit_int_eq_self)
  finally show ?thesis unfolding m unsigned_take_bit_eq unfolding take_bit_eq_mod .
qed

lemma ent_put32:
  assumes "fat_ok sb" "fe_at sb fe e" "0 \<le> e" "fat_value sb v" "fatent_ops sb = fat32_ops"
  shows "\<exists>sb'. put_ok sb fe e v sb'"
proof -
  define w where "w = rd32 (bh_data sb (fat_start sb + ent_pos sb e div s_blocksize sb)) (ent_pos sb e mod s_blocksize sb)"
  have "load 4 sb (ent_p0 fe) = Some w"
    using ent_pos_aligned(1) [OF assms(1), of e] fat_ok_length [OF assms(1)] assms(2,5)
    by (simp add: fe_at_def Let_def load_at w_def ent_size_def)
  then have put: "ent_put sb fe v = store 4 sb (ent_p0 fe) (word_of_int v OR (w AND NOT 0xFFFFFFF)) \<bind>
      (\<lambda>sb. Some (mark_dirty (fe_bhs fe) sb))"
    using assms(5) by (simp add: ent_put_def fat32_ent_put_def)
  have "put_raw sb v = v" using assms(5) by (simp add: put_raw_def)
  then have val: "uint (word_of_int v OR (w AND NOT 0xFFFFFFF)) mod 2 ^ 28 = put_raw sb v"
    using put_raw_bounds(1,2) [OF assms(1,4)] assms(5) put32_word [of v w] by simp
  show ?thesis
    by (rule slot_put [OF assms(1-3), where dec = "\<lambda>w. uint w mod 2 ^ 28", OF _ _ _ put _ val])
      (use assms(5) in \<open>simp_all add: ent_size_def ent_raw_def Let_def\<close>)
qed

lemma ent_put12:
  assumes "fat_ok sb" "fe_at sb fe e" "0 \<le> e" "fat_value sb v" "fatent_ops sb = fat12_ops"
  shows "\<exists>sb'. put_ok sb fe e v sb'"
proof -
  let ?ptr = "\<lambda>i. (fat_start sb + i div s_blocksize sb, i mod s_blocksize sb)" and ?p = "ent_pos sb e"
  define n where "n = nat (put_raw sb v)"
  have n: "put_raw sb v = int n" "n < 4096" using put_raw_bounds(1,2) [OF assms(1,4)] assms(5) by (auto simp: n_def)
  note at = assms(2) [unfolded fe_at_def Let_def]
  have p: "ent_p0 fe = Some (?ptr ?p)" "ent_p1 fe = Some (?ptr (?p + 1))" "fe_entry fe = e" using at assms(5) by auto
  have len: "length (bh_data sb b) = s_blocksize sb" for b using assms(1) by (rule fat_ok_length)
  define b0 b1 :: u8 where "b0 = rd8 (bh_data sb (fst (?ptr ?p))) (snd (?ptr ?p))"
    and "b1 = rd8 (bh_data sb (fst (?ptr (?p + 1)))) (snd (?ptr (?p + 1)))"
  have ub: "unat b0 = fat_byte sb ?p" "unat b1 = fat_byte sb (?p + 1)" by (simp_all add: b0_def b1_def fat_byte_def)
  have ld: "load 1 sb (ent_p0 fe) = Some b0" "load 1 sb (ent_p1 fe) = Some b1"
    using fat_byte_mod [of ?p sb] fat_byte_mod [of "?p + 1" sb] len by (simp_all add: p load_at b0_def b1_def)
  define v0 v1 :: u8 where "v0 = (if odd e then word_of_int (push_bit 4 (int n) OR (uint b0 AND 0x0F)) else word_of_int (int n AND 0xFF))"
    and "v1 = (if odd e then word_of_int (drop_bit 4 (int n)) else word_of_int ((uint b1 AND 0xF0) OR drop_bit 8 (int n)))"
  have x: "(unat v0, unat v1) = put12 e n (fat_byte sb ?p) (fat_byte sb (?p + 1))"
    using put12_bits [of "fat_byte sb ?p" "fat_byte sb (?p + 1)" n, OF fat_byte_less fat_byte_less n(2)]
    by (simp add: v0_def v1_def put12_def ub [symmetric])
  obtain sb1 where sb1: "store 1 sb (ent_p0 fe) v0 = Some sb1" "fat_byte sb1 = (fat_byte sb)(?p := unat v0)"
    "same_volume sb sb1" "\<And>b. length (bh_data sb1 b) = s_blocksize sb1"
    using fat_byte_store [of sb ?p v0, OF len] by (auto simp: p)
  have geo: "fat_start sb1 = fat_start sb" "s_blocksize sb1 = s_blocksize sb"
    using sb1(3) same_volume_size [OF sb1(3)] by (simp_all add: same_volume_def)
  obtain sb2 where sb2: "store 1 sb1 (ent_p1 fe) v1 = Some sb2" "fat_byte sb2 = (fat_byte sb1)(?p + 1 := unat v1)"
    "same_volume sb1 sb2"
    using fat_byte_store [of sb1 "?p + 1" v1, OF sb1(4)] by (auto simp: p geo)
  have bhs: "fst (?ptr ?p) \<in> set (fe_bhs fe)" "fst (?ptr (?p + 1)) \<in> set (fe_bhs fe)"
  proof -
    have "(?p + 1) div s_blocksize sb = ?p div s_blocksize sb \<or> (?p + 1) div s_blocksize sb = ?p div s_blocksize sb + 1"
      using next_byte [of "s_blocksize sb" ?p] blocksize_512 [OF assms(1)] by linarith
    moreover have "?p + ent_size sb - 1 = ?p + 1" by (simp add: ent_size_def assms(5))
    ultimately show "fst (?ptr ?p) \<in> set (fe_bhs fe)" "fst (?ptr (?p + 1)) \<in> set (fe_bhs fe)" using at by auto
  qed
  have "wrote (fe_bhs fe) sb sb2"
    by (rule wrote_store [OF wrote_store [OF wrote_refl bhs(1) [unfolded fst_conv] sb1(1) [unfolded p]]
          bhs(2) [unfolded fst_conv] sb2(1) [unfolded p]])
  moreover have "ent_put sb fe v = Some (mark_dirty (fe_bhs fe) sb2)"
  proof -
    have eq: "(if v = FAT_ENT_EOF then EOF_FAT12 else v) = int n" using n(1) assms(5) by (simp add: put_raw_def split: if_splits)
    have "fat12_ent_put sb fe v = store 1 sb (ent_p0 fe) v0 \<bind> (\<lambda>sb. store 1 sb (ent_p1 fe) v1 \<bind> (\<lambda>sb. Some (mark_dirty (fe_bhs fe) sb)))"
      by (simp only: fat12_ent_put_def Let_def eq ld bind.bind_lunit p(3)) (simp add: v0_def v1_def)
    then show ?thesis using assms(5) by (simp add: ent_put_def sb1(1) sb2(1))
  qed
  moreover have "ent_raw sb2 e' = (if e' = e then put_raw sb v else ent_raw sb e')" if "0 \<le> e'" for e'
    unfolding n(1) using sb1 sb2 assms(5)
    by (intro put12_raw [OF _ _ assms(3) n(2) x _ that]) (simp_all add: same_volume_def)
  ultimately show ?thesis using store_dirty [OF sb1(1)] store_dirty [OF sb2(1)]
    by (intro exI [of _ "mark_dirty (fe_bhs fe) sb2"])
      (simp add: put_ok_def wrote_mark_dirty ent_raw_dirty, simp add: mark_dirty_def)
qed

lemma ent_put_at:
  assumes "fat_ok sb" "fe_at sb fe e" "0 \<le> e" "fat_value sb v"
  shows "\<exists>sb'. ent_put sb fe v = Some sb' \<and> wrote (fe_bhs fe) sb sb' \<and>
    bh_dirty sb' = (\<lambda>b. b \<in> set (fe_bhs fe) \<or> bh_dirty sb b) \<and>
    (\<forall>e'. 0 \<le> e' \<longrightarrow> fat_table sb' e' = (if e' = e then v else fat_table sb e'))"
proof -
  obtain sb' where sb': "put_ok sb fe e v sb'"
    using ent_put12 [OF assms] ent_put16 [OF assms] ent_put32 [OF assms] by (cases "fatent_ops sb") blast+
  then have "ent_bad sb' = ent_bad sb" using same_volume_entries(3) wrote_volume by (auto simp: put_ok_def)
  then show ?thesis using sb' put_raw_bounds(3) [OF assms(1,4)] unfolding put_ok_def fat_table_def by auto
qed

text \<open>The blocks of an entry lie in the first copy of the table.\<close>

definition fat_blocks :: "fat_sb \<Rightarrow> nat set" where
  "fat_blocks sb = {fat_start sb ..< fat_start sb + fat_length sb}"

lemma fe_at_blocks:
  assumes "fat_ok sb" "fe_at sb fe e" "fat_entry_of sb e"
  shows "set (fe_bhs fe) \<subseteq> fat_blocks sb"
proof -
  have sz: "0 < ent_size sb" "ent_size sb - 1 < ent_size sb" by (auto simp: ent_size_def split: fatent_operations.splits)
  let ?p = "ent_pos sb e"
  have "(?p + 0) div s_blocksize sb < fat_length sb" "(?p + (ent_size sb - 1)) div s_blocksize sb < fat_length sb"
    using ent_block_in_fat [OF assms(1,3) sz(1)] ent_block_in_fat [OF assms(1,3) sz(2)] by auto
  moreover have "?p + (ent_size sb - 1) = ?p + ent_size sb - 1" using sz(1) by simp
  moreover have "?p div s_blocksize sb \<le> (?p + ent_size sb - 1) div s_blocksize sb" using sz(1) by (intro div_le_mono) simp
  ultimately show ?thesis using assms(2) by (auto simp: fe_at_def Let_def fat_blocks_def split: if_splits)
qed

text \<open>The table depends on the blocks of the first copy only.\<close>

lemma fat_table_cong:
  assumes "fat_ok sb" "same_volume sb sb'" "\<And>b. b \<in> fat_blocks sb \<Longrightarrow> bh_data sb' b = bh_data sb b" "fat_entry_of sb e"
  shows "fat_table sb' e = fat_table sb e"
proof -
  let ?p = "ent_pos sb e"
  have bs: "s_blocksize sb' = s_blocksize sb" "fat_start sb' = fat_start sb" "fatent_ops sb' = fatent_ops sb"
    "ent_pos sb' = ent_pos sb" "ent_bad sb' = ent_bad sb"
    using same_volume_size [OF assms(2)] same_volume_entries [OF assms(2)] assms(2) by (simp_all add: same_volume_def)
  have "bh_data sb' (fat_start sb + (?p + i) div s_blocksize sb) = bh_data sb (fat_start sb + (?p + i) div s_blocksize sb)"
    if "i < ent_size sb" for i
    using assms(3) ent_block_in_fat [OF assms(1,4) that] by (simp add: fat_blocks_def)
  from this [of 0] this [of 1] have "bh_data sb' (fat_start sb + ?p div s_blocksize sb) = bh_data sb (fat_start sb + ?p div s_blocksize sb)"
    "bh_data sb' (fat_start sb + (?p + 1) div s_blocksize sb) = bh_data sb (fat_start sb + (?p + 1) div s_blocksize sb)"
    by (auto simp: ent_size_def split: fatent_operations.splits)
  then show ?thesis by (simp add: fat_table_def ent_raw_def Let_def fat_byte_def bs split: fatent_operations.splits)
qed

section \<open>The next entry\<close>

lemma mod_step:
  assumes "(i::nat) mod n + m < n"
  shows "(i + m) div n = i div n" "(i + m) mod n = i mod n + m"
proof -
  have "i + m = (i mod n + m) + n * (i div n)" using mult_div_mod_eq [of n i] by simp
  moreover have "(r + n * q) div n = q" "(r + n * q) mod n = r" if "r < n" for r q :: nat using that by simp_all
  ultimately show "(i + m) div n = i div n" "(i + m) mod n = i mod n + m" using assms by metis+
qed

lemma fat12_ent_next_at:
  assumes "fat_ok sb" "fe_at sb fe e" "0 \<le> e" "fatent_ops sb = fat12_ops"
  shows "\<exists>more' fe'. ent_next sb fe = Some (more', fe') \<and> fe_entry fe' = e + 1 \<and> (more' \<longrightarrow> fe_at sb fe' (e + 1))"
proof -
  let ?bs = "s_blocksize sb" and ?p = "ent_pos sb e"
  define s where "s = (if odd e then 1 else 0 :: nat)"
  note at = assms(2) [unfolded fe_at_def Let_def]
  have bs: "512 \<le> ?bs" using blocksize_512 [OF assms(1)] by simp
  have q: "ent_pos sb (e + 1) = ?p + 1 + s"
    using assms(3,4) ent_pos12 [OF assms(4,3)] by (auto simp: ent_pos_def s_def nat_add_distrib)
  have sz: "ent_size sb = 2" using assms(4) by (simp add: ent_size_def)
  have szp: "?p + ent_size sb - 1 = ?p + 1" by (simp add: sz)
  have bhs: "fe_bhs fe = (if fat_start sb + (?p + 1) div ?bs = fat_start sb + ?p div ?bs
      then [fat_start sb + ?p div ?bs] else [fat_start sb + ?p div ?bs, fat_start sb + ?p div ?bs + 1])"
    using at unfolding szp by blast
  define d m where "d = (?p + 1) div ?bs" and "m = (?p + 1) mod ?bs"
  have p1: "ent_p1 fe = Some (fat_start sb + d, m)" "fe_entry fe = e" using at assms(4) by (auto simp: d_def m_def)
  have goal: "fe_at sb fe' (e + 1)"
    if "fe_entry fe' = e + 1" "ent_p0 fe' = Some (fat_start sb + d, m + s)" "ent_p1 fe' = Some (fat_start sb + d, m + s + 1)"
      "fe_bhs fe' = [fat_start sb + d]" "m + s + 1 < ?bs" for fe'
  proof -
    have lt: "(?p + 1) mod ?bs + s < ?bs" "(?p + 1) mod ?bs + (s + 1) < ?bs" using that(5) by (simp_all add: m_def)
    have "ent_pos sb (e + 1) div ?bs = d" "ent_pos sb (e + 1) mod ?bs = m + s"
      using mod_step [OF lt(1)] by (simp_all only: q d_def m_def)
    moreover have "(ent_pos sb (e + 1) + 1) div ?bs = d" "(ent_pos sb (e + 1) + 1) mod ?bs = m + s + 1"
      using mod_step [OF lt(2)] by (simp_all only: q d_def m_def add.assoc)
    moreover have "ent_pos sb (e + 1) + ent_size sb - 1 = ent_pos sb (e + 1) + 1" by (simp add: sz)
    ultimately show ?thesis using that by (simp only: fe_at_def Let_def) simp
  qed
  show ?thesis
  proof (cases "(?p + 1) div ?bs = ?p div ?bs")
    case True
    then have "fe_bhs fe = [fat_start sb + d]" using bhs by (simp add: d_def)
    then have "ent_next sb fe = Some (if m + 1 + s < ?bs - 1
        then (True, fe\<lparr>fe_entry := e + 1, ent_p0 := Some (fat_start sb + d, m + s), ent_p1 := Some (fat_start sb + d, m + s + 1)\<rparr>)
        else (False, fe\<lparr>fe_entry := e + 1, ent_p0 := None, ent_p1 := None\<rparr>))"
      using p1 assms(4) by (simp add: ent_next_def fat12_ent_next_def s_def Let_def)
    then show ?thesis using goal \<open>fe_bhs fe = [fat_start sb + d]\<close> by auto
  next
    case False
    then have d: "d = ?p div ?bs + 1" "m = 0" using next_byte [of ?bs ?p] bs by (auto simp: d_def m_def)
    then have "fe_bhs fe = [fat_start sb + ?p div ?bs, fat_start sb + d]" using bhs False by simp
    then have "ent_next sb fe = Some (True, fe\<lparr>fe_entry := e + 1, ent_p0 := Some (fat_start sb + d, m + s),
        ent_p1 := Some (fat_start sb + d, m + s + 1), fe_bhs := [fat_start sb + d]\<rparr>)"
      using p1 assms(4) by (simp add: ent_next_def fat12_ent_next_def s_def Let_def)
    moreover have "m + s + 1 < ?bs" using bs d(2) by (simp add: s_def)
    ultimately show ?thesis using goal by auto
  qed
qed

lemma fat_slot_next_at:
  assumes "fat_ok sb" "fe_at sb fe e" "0 \<le> e" "fatent_ops sb \<noteq> fat12_ops"
  shows "\<exists>more' fe'. ent_next sb fe = Some (more', fe') \<and> fe_entry fe' = e + 1 \<and> (more' \<longrightarrow> fe_at sb fe' (e + 1))"
proof -
  let ?bs = "s_blocksize sb" and ?p = "ent_pos sb e" and ?n = "ent_size sb"
  note at = assms(2) [unfolded fe_at_def Let_def] and al = ent_pos_aligned(2) [OF assms(1,4)]
  have next': "ent_next sb = fat_slot_next ?n sb"
    using assms(4) by (auto simp: ent_next_def ent_size_def fat16_ent_next_def fat32_ent_next_def split: fatent_operations.splits)
  have q: "ent_pos sb (e + 1) = ?p + ?n"
    using assms(3,4) by (auto simp: ent_pos_def ent_size_def nat_add_distrib split: fatent_operations.splits)
  have bhs: "fe_bhs fe = [fat_start sb + ?p div ?bs]" using at al [of e] by simp
  have "ent_next sb fe = Some (if ?p mod ?bs < ?bs - ?n
      then (True, fe\<lparr>fe_entry := e + 1, ent_p0 := Some (fat_start sb + ?p div ?bs, ?p mod ?bs + ?n)\<rparr>)
      else (False, fe\<lparr>fe_entry := e + 1, ent_p0 := None\<rparr>))"
    using at by (simp add: next' fat_slot_next_def Let_def)
  moreover have "fe_at sb (fe\<lparr>fe_entry := e + 1, ent_p0 := Some (fat_start sb + ?p div ?bs, ?p mod ?bs + ?n)\<rparr>) (e + 1)"
    if "?p mod ?bs < ?bs - ?n"
  proof -
    have "?p mod ?bs + ?n < ?bs" using that by linarith
    from mod_step [OF this] show ?thesis using bhs assms(4) al [of "e + 1"] by (simp add: fe_at_def Let_def q)
  qed
  ultimately show ?thesis by auto
qed

lemma fat_ent_next_at:
  assumes "fat_ok sb" "fe_at sb fe e" "0 \<le> e"
  shows "\<exists>more' fe'. fat_ent_next sb fe = Some (more', fe') \<and> fe_entry fe' = e + 1 \<and>
    (more' \<longrightarrow> fe_at sb fe' (e + 1) \<and> e + 1 < max_cluster sb)"
proof -
  obtain m fe' where "ent_next sb fe = Some (m, fe')" "fe_entry fe' = e + 1" "m \<longrightarrow> fe_at sb fe' (e + 1)"
    using fat12_ent_next_at [OF assms] fat_slot_next_at [OF assms] by blast
  then show ?thesis by (auto simp: fat_ent_next_def ge_max_def)
qed

end
