(* ===== verification/Vfat_Rw.thy ===== *)
theory Vfat_Rw
  imports Vfat_Table
begin

text \<open>
  What \<open>fat_ent_read\<close>, \<open>fat_ent_write\<close>, \<open>fat_ent_next\<close>, \<open>fat_sync_bhs\<close> and \<open>fat_mirror_bhs\<close> do to the table, for
  every outcome of the requests to the block device.
\<close>

section \<open>Requests to the device\<close>

definition io_ok :: "fat_sb \<Rightarrow> bool" where
  "io_ok sb \<longleftrightarrow> (\<forall>x \<in> set (s_io sb). x)"

lemma next_io_ok: "next_io sb = (ok, sb') \<Longrightarrow> io_ok sb \<Longrightarrow> ok \<and> io_ok sb'"
  by (auto simp: io_ok_def split: list.splits)

lemma next_io_eq: "next_io sb = (ok, sb') \<Longrightarrow> sb' = sb\<lparr>s_io := s_io sb'\<rparr>"
  by (auto split: list.splits)

lemma next_io_data: "next_io sb = (ok, sb') \<Longrightarrow> bh_data sb' = bh_data sb"
  by (auto split: list.splits)

text \<open>The same volume with the same first copy of the table and the same counters.\<close>

definition counters :: "fat_sb \<Rightarrow> u32 \<times> u32 \<times> bool \<times> (int \<times> int) list \<times> bool \<times> bool" where
  "counters sb = (prev_free sb, free_clusters sb, free_clus_valid sb, s_discards sb, s_rdonly sb, fsinfo_dirty sb)"

definition same_table :: "fat_sb \<Rightarrow> fat_sb \<Rightarrow> bool" where
  "same_table sb sb' \<longleftrightarrow> same_volume sb sb' \<and> (\<forall>b. length (bh_data sb' b) = length (bh_data sb b)) \<and>
     (\<forall>b \<in> fat_blocks sb. bh_data sb' b = bh_data sb b) \<and> (io_ok sb \<longrightarrow> io_ok sb') \<and>
     counters sb' = counters sb"

lemma same_table_refl [simp]: "same_table sb sb"
  by (simp add: same_table_def)

lemma fat_blocks_volume: "same_volume sb sb' \<Longrightarrow> fat_blocks sb' = fat_blocks sb"
  by (simp add: fat_blocks_def same_volume_def)

lemma same_table_trans [trans]: "same_table a b \<Longrightarrow> same_table b c \<Longrightarrow> same_table a c"
proof -
  assume ab: "same_table a b" and bc: "same_table b c"
  have "same_volume a c" using ab bc same_volume_trans unfolding same_table_def by blast
  moreover have "fat_blocks b = fat_blocks a" using ab fat_blocks_volume unfolding same_table_def by blast
  ultimately show "same_table a c" using ab bc unfolding same_table_def by simp
qed

lemma same_table_ok: "same_table sb sb' \<Longrightarrow> fat_ok sb' = fat_ok sb"
  by (rule volume_ok) (auto simp: same_table_def)

lemma same_table_table: "fat_ok sb \<Longrightarrow> same_table sb sb' \<Longrightarrow> fat_entry_of sb e \<Longrightarrow> fat_table sb' e = fat_table sb e"
  by (rule fat_table_cong) (auto simp: same_table_def)

lemma same_table_volume: "same_table sb sb' \<Longrightarrow> same_volume sb sb'"
  by (simp add: same_table_def)

lemma same_table_fields:
  assumes "same_table sb sb'"
  shows "fat_length sb' = fat_length sb" "fats sb' = fats sb" "fat_blocks sb' = fat_blocks sb" "max_cluster sb' = max_cluster sb"
    "fe_at sb' = fe_at sb" "fe_ok sb' = fe_ok sb" "fat_value sb' = fat_value sb"
proof -
  have v: "same_volume sb sb'" using assms by (rule same_table_volume)
  show "fat_blocks sb' = fat_blocks sb" using v by (rule fat_blocks_volume)
  show "fat_length sb' = fat_length sb" "fats sb' = fats sb" "max_cluster sb' = max_cluster sb" using v by (simp_all add: same_volume_def)
  show "fe_at sb' = fe_at sb" "fe_ok sb' = fe_ok sb" "fat_value sb' = fat_value sb" by (simp_all add: same_volume_entries [OF v])
qed

lemma next_io_table:
  assumes "next_io sb = (ok, sb')"
  shows "same_table sb sb'"
proof -
  obtain io where "sb' = sb\<lparr>s_io := io\<rparr>" using next_io_eq [OF assms] by blast
  then show ?thesis using next_io_ok [OF assms] by (simp add: same_table_def counters_def)
qed

lemma fat_sync_bhs_table:
  "fat_sync_bhs sb bhs = (err, sb') \<Longrightarrow> same_table sb sb' \<and> bh_data sb' = bh_data sb \<and> (io_ok sb \<longrightarrow> err = None)"
proof (induction sb bhs arbitrary: err sb' rule: fat_sync_bhs.induct)
  case (1 sb)
  then show ?case by simp
next
  case (2 sb b bhs)
  let ?sb = "sb\<lparr>bh_dirty := (bh_dirty sb)(b := False)\<rparr>"
  obtain ok sb1 where io: "next_io ?sb = (ok, sb1)" by (cases "next_io ?sb")
  obtain err2 sb2 where rest: "fat_sync_bhs sb1 bhs = (err2, sb2)" by (cases "fat_sync_bhs sb1 bhs")
  have "same_table sb ?sb" by (simp add: same_table_def same_volume_def io_ok_def counters_def)
  also have "same_table ?sb sb1" using io by (rule next_io_table)
  also have "same_table sb1 sb2" using "2.IH" [OF io [symmetric] refl rest] io by auto
  finally have "same_table sb sb2" .
  moreover have "bh_data sb2 = bh_data sb" using "2.IH" [OF io [symmetric] refl rest] next_io_data [OF io] by simp
  ultimately show ?case using "2.prems" "2.IH" [OF io [symmetric] refl rest] io rest next_io_ok [OF io]
    by (auto simp: Let_def io_ok_def split: if_splits)
qed

section \<open>The copies of the table\<close>

definition mirrored_but :: "nat set \<Rightarrow> fat_sb \<Rightarrow> bool" where
  "mirrored_but B sb \<longleftrightarrow>
     (\<forall>copy < fats sb. \<forall>b \<in> fat_blocks sb - B. bh_data sb (fat_length sb * copy + b) = bh_data sb b)"

lemma copy_block:
  assumes "b \<in> fat_blocks sb" "1 \<le> copy"
  shows "fat_length sb * copy + b \<notin> fat_blocks sb"
proof -
  have "fat_length sb \<le> fat_length sb * copy" using assms(2) by simp
  then show ?thesis using assms(1) unfolding fat_blocks_def atLeastLessThan_iff by linarith
qed

lemma copy_block_eq:
  assumes "b \<in> fat_blocks sb" "b' \<in> fat_blocks sb" "fat_length sb * copy + b = fat_length sb * copy' + b'"
  shows "b = b'"
proof -
  obtain i j where ij: "b = fat_start sb + i" "b' = fat_start sb + j" "i < fat_length sb" "j < fat_length sb"
    using assms(1,2) by (auto simp: fat_blocks_def le_iff_add)
  then have "(fat_length sb * copy + i) mod fat_length sb = (fat_length sb * copy' + j) mod fat_length sb" using assms(3) by simp
  then show ?thesis using ij by simp
qed

lemma mirror_buf_copy:
  assumes "mirror_buf sb copy b = (err, sb')" "1 \<le> copy" "b \<in> fat_blocks sb" "fat_ok sb"
  shows "same_table sb sb'" "io_ok sb \<Longrightarrow> err = None"
    "bh_data sb' = bh_data sb \<and> err \<noteq> None \<or> bh_data sb' = (bh_data sb)(fat_length sb * copy + b := bh_data sb b)"
proof -
  obtain ok sb1 where io: "next_io sb = (ok, sb1)" by (cases "next_io sb")
  have t1: "same_table sb sb1" using io by (rule next_io_table)
  have d1: "bh_data sb1 = bh_data sb" using io by (rule next_io_data)
  note fl = same_table_fields(1,3) [OF t1]
  let ?c = "fat_length sb * copy + b"
  define sb2 where "sb2 = mark_dirty [?c] (sb1\<lparr>bh_data := (bh_data sb1)(?c := bh_data sb1 b)\<rparr>)"
  define sb3 where "sb3 = sb2\<lparr>bh_dirty := (bh_dirty sb2)(?c := False)\<rparr>"
  have d2: "bh_data sb2 = (bh_data sb)(?c := bh_data sb b)" "bh_data sb3 = bh_data sb2"
    by (simp_all add: sb2_def sb3_def mark_dirty_def d1)
  have "length (bh_data sb2 x) = length (bh_data sb1 x)" for x using assms(4) by (simp add: d2 d1 fat_ok_length)
  moreover have "same_volume sb1 sb2" "same_volume sb2 sb3" "io_ok sb2 = io_ok sb1" "io_ok sb3 = io_ok sb2"
      "counters sb2 = counters sb1" "counters sb3 = counters sb2"
    by (simp_all add: same_volume_def sb2_def sb3_def mark_dirty_def io_ok_def counters_def)
  moreover have "bh_data sb2 x = bh_data sb1 x" if "x \<in> fat_blocks sb" for x
    using that copy_block [OF assms(3,2)] by (auto simp: d2 d1)
  ultimately have t2: "same_table sb1 sb2" "same_table sb2 sb3" by (simp_all add: same_table_def fl d2)
  obtain ok4 sb4 where io4: "next_io sb3 = (ok4, sb4)" by (cases "next_io sb3")
  have t4: "same_table sb3 sb4" "bh_data sb4 = bh_data sb3" using next_io_table [OF io4] next_io_data [OF io4] by auto
  have t13: "same_table sb sb2" using t1 t2 same_table_trans by blast
  have t14: "same_table sb sb4" using t13 t2(2) t4(1) same_table_trans by blast
  have "mirror_buf sb copy b = (if \<not> ok then (Some ENOMEM, sb1)
      else if s_synchronous sb2 then (if ok4 then None else Some EIO, sb4) else (None, sb2))"
    unfolding mirror_buf_def io Let_def prod.case fl sb2_def [symmetric] sb3_def [symmetric] io4 by simp
  note res = this [unfolded assms(1)]
  show "same_table sb sb'" using res t1 t13 t14 by (auto split: if_splits)
  show "bh_data sb' = bh_data sb \<and> err \<noteq> None \<or> bh_data sb' = (bh_data sb)(?c := bh_data sb b)"
    using res d1 d2 t4 by (auto split: if_splits)
  assume "io_ok sb"
  then have "ok" "ok4" using next_io_ok [OF io] next_io_ok [OF io4] \<open>io_ok sb2 = io_ok sb1\<close> \<open>io_ok sb3 = io_ok sb2\<close> by auto
  then show "err = None" using res by (auto split: if_splits)
qed

definition copied :: "fat_sb \<Rightarrow> (nat \<times> nat) list \<Rightarrow> fat_sb \<Rightarrow> bool" where
  "copied sb todo sb' \<longleftrightarrow>
     (\<forall>c. bh_data sb' c = bh_data sb c \<or> (\<exists>(copy, b) \<in> set todo. c = fat_length sb * copy + b \<and> bh_data sb' c = bh_data sb b))"

lemma mirror_loop_copies:
  assumes "mirror_loop sb todo = (err, sb')" "\<forall>(copy, b) \<in> set todo. 1 \<le> copy \<and> b \<in> fat_blocks sb" "fat_ok sb"
  shows "same_table sb sb' \<and> (io_ok sb \<longrightarrow> err = None) \<and> copied sb todo sb' \<and>
    (err = None \<longrightarrow> (\<forall>(copy, b) \<in> set todo. bh_data sb' (fat_length sb * copy + b) = bh_data sb b))"
  using assms
proof (induction todo arbitrary: sb)
  case Nil
  then show ?case by (simp add: copied_def)
next
  case (Cons cb todo)
  obtain copy b where cb: "cb = (copy, b)" by (cases cb)
  let ?c = "fat_length sb * copy + b"
  have b: "1 \<le> copy" "b \<in> fat_blocks sb" using Cons.prems(2) cb by auto
  obtain e2 sb2 where buf: "mirror_buf sb copy b = (e2, sb2)" by (cases "mirror_buf sb copy b")
  note mb = mirror_buf_copy [OF buf b Cons.prems(3)]
  have vol: "fat_length sb2 = fat_length sb" "fat_blocks sb2 = fat_blocks sb" "fat_ok sb2"
    using same_table_fields(1,3) [OF mb(1)] same_table_ok [OF mb(1)] Cons.prems(3) by simp_all
  show ?case
  proof (cases "e2 = None")
    case False
    then show ?thesis using Cons.prems(1) cb buf mb by (auto simp: copied_def)
  next
    case True
    have d: "bh_data sb2 = (bh_data sb)(?c := bh_data sb b)" using mb(3) True by simp
    have src: "bh_data sb2 x = bh_data sb x" if "x \<in> fat_blocks sb" for x using that copy_block [OF b(2,1)] by (auto simp: d)
    have ih: "same_table sb2 sb'" "io_ok sb2 \<longrightarrow> err = None" "copied sb2 todo sb'"
      "err = None \<longrightarrow> (\<forall>(copy, b) \<in> set todo. bh_data sb' (fat_length sb * copy + b) = bh_data sb2 b)"
      using Cons.IH [of sb2] Cons.prems(1,2) cb buf True vol by (auto simp: Let_def)
    have "io_ok sb \<longrightarrow> io_ok sb2" using mb(1) by (simp add: same_table_def)
    moreover have cp: "copied sb (cb # todo) sb'"
      unfolding copied_def
    proof
      fix c
      from ih(3) consider "bh_data sb' c = bh_data sb2 c"
        | copy' b' where "(copy', b') \<in> set todo" "c = fat_length sb * copy' + b'" "bh_data sb' c = bh_data sb2 b'"
        unfolding copied_def vol by blast
      then show "bh_data sb' c = bh_data sb c \<or> (\<exists>(copy, b) \<in> set (cb # todo). c = fat_length sb * copy + b \<and> bh_data sb' c = bh_data sb b)"
      proof cases
        case 1
        then show ?thesis using cb by (auto simp: d)
      next
        case 2
        then show ?thesis using src Cons.prems(2) by force
      qed
    qed
    moreover have "bh_data sb' ?c = bh_data sb b"
    proof -
      from ih(3) consider "bh_data sb' ?c = bh_data sb2 ?c"
        | copy' b' where "(copy', b') \<in> set todo" "?c = fat_length sb * copy' + b'" "bh_data sb' ?c = bh_data sb2 b'"
        unfolding copied_def vol by blast
      then show ?thesis
      proof cases
        case 1
        then show ?thesis by (simp add: d)
      next
        case 2
        then have "b' = b" using copy_block_eq [OF b(2), of b' copy copy'] Cons.prems(2) by force
        then show ?thesis using 2(3) src [OF b(2)] by simp
      qed
    qed
    ultimately show ?thesis using ih same_table_trans [OF mb(1) ih(1)] src Cons.prems(2) cb by fastforce
  qed
qed

lemma fat_mirror_bhs_copies:
  assumes "fat_mirror_bhs sb bhs = (err, sb')" "set bhs \<subseteq> fat_blocks sb" "fat_ok sb"
  shows "same_table sb sb'" "io_ok sb \<Longrightarrow> err = None"
    and "mirrored_but (B \<union> set bhs) sb \<Longrightarrow> err = None \<Longrightarrow> mirrored_but B sb'"
    and "mirrored_but B sb \<Longrightarrow> set bhs \<subseteq> B \<Longrightarrow> mirrored_but B sb'"
proof -
  let ?todo = "List.product [1..<fats sb] bhs"
  note m = mirror_loop_copies [OF assms(1) [unfolded fat_mirror_bhs_def] _ assms(3)]
  have todo: "\<forall>(copy, b) \<in> set ?todo. 1 \<le> copy \<and> b \<in> fat_blocks sb" using assms(2) by auto
  from m [OF todo] show t: "same_table sb sb'" and "io_ok sb \<Longrightarrow> err = None" by auto
  note vol = same_table_fields(1-3) [OF t]
  have src: "bh_data sb' b = bh_data sb b" if "b \<in> fat_blocks sb" for b using t that by (simp add: same_table_def)
  have keep: "bh_data sb' (fat_length sb * copy + b) = bh_data sb b"
    if "b \<in> fat_blocks sb" "bh_data sb (fat_length sb * copy + b) = bh_data sb b" for copy b
  proof -
    from m [OF todo] consider "bh_data sb' (fat_length sb * copy + b) = bh_data sb (fat_length sb * copy + b)"
      | copy' b' where "(copy', b') \<in> set ?todo" "fat_length sb * copy + b = fat_length sb * copy' + b'"
          "bh_data sb' (fat_length sb * copy + b) = bh_data sb b'"
      unfolding copied_def by blast
    then show ?thesis
    proof cases
      case 2
      then have "b' = b" using copy_block_eq [OF that(1), of b' copy copy'] assms(2) by auto
      then show ?thesis using 2(3) by simp
    qed (use that in simp)
  qed
  { assume mb: "mirrored_but (B \<union> set bhs) sb" and "err = None"
    have "bh_data sb' (fat_length sb * copy + b) = bh_data sb' b" if "copy < fats sb" "b \<in> fat_blocks sb" "b \<notin> B" for copy b
    proof (cases "b \<in> set bhs \<and> 1 \<le> copy")
      case True
      then have "(copy, b) \<in> set ?todo" using that(1) by simp
      then show ?thesis using m [OF todo] \<open>err = None\<close> src [OF that(2)] by auto
    next
      case False
      then have "copy = 0 \<or> bh_data sb (fat_length sb * copy + b) = bh_data sb b" using mb that by (auto simp: mirrored_but_def)
      then show ?thesis using keep [OF that(2)] src [OF that(2)] by auto
    qed
    then show "mirrored_but B sb'" by (simp add: mirrored_but_def vol)
  }
  assume "mirrored_but B sb" "set bhs \<subseteq> B"
  then show "mirrored_but B sb'" using keep src by (auto simp: mirrored_but_def vol)
qed

section \<open>Reading and writing entries\<close>

lemma io_table: "set io \<subseteq> set (s_io sb) \<Longrightarrow> same_table sb (sb\<lparr>s_io := io\<rparr>)"
  by (auto simp: same_table_def io_ok_def counters_def)

lemma fe_at_ok: "fat_ok sb \<Longrightarrow> fe_at sb fe e \<Longrightarrow> fe_ok sb fe"
  using ent_pos_aligned(2) [of sb e] by (auto simp: fe_ok_def fe_at_def Let_def)

lemma bread_cases:
  assumes "fat_ok sb" "fe_entry fe = e" "0 \<le> e" "fe_bhs fe = []"
  obtains sb' fe' where "ent_bread sb fe (fst (ent_blocknr sb e)) (snd (ent_blocknr sb e)) = Some (None, sb', fe')"
      "same_table sb sb'" "bh_data sb' = bh_data sb" "fe_at sb fe' e"
  | sb' fe' where "ent_bread sb fe (fst (ent_blocknr sb e)) (snd (ent_blocknr sb e)) = Some (Some EIO, sb', fe')"
      "same_table sb sb'" "bh_data sb' = bh_data sb" "fe_bhs fe' = []" "fe_entry fe' = e" "\<not> io_ok sb"
proof -
  obtain err io fe' where r: "ent_bread sb fe (fst (ent_blocknr sb e)) (snd (ent_blocknr sb e)) = Some (err, sb\<lparr>s_io := io\<rparr>, fe')"
    "fe_entry fe' = e" "set io \<subseteq> set (s_io sb)"
    "err = None \<and> fe_at sb fe' e \<or> err = Some EIO \<and> fe_bhs fe' = [] \<and> False \<in> set (s_io sb)"
    using ent_bread_at [OF assms(1-3) prod.collapse [symmetric] assms(4)] by blast
  have t: "same_table sb (sb\<lparr>s_io := io\<rparr>)" using r(3) by (rule io_table)
  show ?thesis using r(4)
  proof
    assume "err = None \<and> fe_at sb fe' e"
    then show ?thesis using r(1) t that(1) [of "sb\<lparr>s_io := io\<rparr>" fe'] by simp
  next
    assume "err = Some EIO \<and> fe_bhs fe' = [] \<and> False \<in> set (s_io sb)"
    then show ?thesis using r(1,2) t that(2) [of "sb\<lparr>s_io := io\<rparr>" fe'] by (auto simp: io_ok_def)
  qed
qed

lemma fat_ent_read_cases:
  assumes "fat_ok sb" "fe_ok sb fe" "FAT_START_ENT \<le> e" "e < max_cluster sb"
  obtains sb' fe' where "fat_ent_read sb fe e = Some (Inr (fat_table sb e), sb', fe')"
      "same_table sb sb'" "bh_data sb' = bh_data sb" "fe_at sb fe' e"
  | sb' fe' where "fat_ent_read sb fe e = Some (Inl EIO, sb', fe')"
      "same_table sb sb'" "bh_data sb' = bh_data sb" "fe_bhs fe' = []" "\<not> io_ok sb"
proof -
  have e: "0 \<le> e" using assms(3) by simp
  let ?fe = "fatent_set_entry fe e"
  have "fe_ok sb ?fe" "fe_entry ?fe = e" using assms(2) by (auto simp: fatent_set_entry_def fe_ok_def)
  then obtain hit fe1 where up: "fat_ent_update_ptr sb ?fe (fst (ent_blocknr sb e)) (snd (ent_blocknr sb e)) = Some (hit, fe1)"
    "fe_entry fe1 = e" "hit \<longrightarrow> fe_at sb fe1 e"
    using fat_ent_update_ptr_at [OF assms(1) _ _ e prod.collapse [symmetric]] by blast
  have rd: "fat_ent_read sb fe e = do {
      (err, sb, fatent) \<leftarrow> (if hit then Some (None, sb, fe1)
        else ent_bread sb (fatent_brelse fe1) (fst (ent_blocknr sb e)) (snd (ent_blocknr sb e)));
      (case err of Some e \<Rightarrow> Some (Inl e, sb, fatent) | None \<Rightarrow> do { v \<leftarrow> ent_get sb fatent; Some (Inr v, sb, fatent) }) }"
    using assms(3,4) up(1) by (simp add: fat_ent_read_def ge_max_def split_beta Let_def)
  show ?thesis
  proof (cases hit)
    case True
    then show ?thesis using that(1) [of sb fe1] rd up(3) ent_get_at [OF assms(1), of fe1 e] by simp
  next
    case False
    have br: "fe_entry (fatent_brelse fe1) = e" "fe_bhs (fatent_brelse fe1) = []" using up(2) by (simp_all add: fatent_brelse_def)
    show ?thesis
    proof (rule bread_cases [OF assms(1) br(1) e br(2)])
      fix sb' fe'
      assume r: "ent_bread sb (fatent_brelse fe1) (fst (ent_blocknr sb e)) (snd (ent_blocknr sb e)) = Some (None, sb', fe')"
        and t: "same_table sb sb'" "bh_data sb' = bh_data sb" "fe_at sb fe' e"
      have "ent_get sb' fe' = Some (fat_table sb e)"
        using ent_get_at [of sb' fe' e] same_table_ok [OF t(1)] same_table_fields(5) [OF t(1)]
          same_table_table [OF assms(1) t(1), of e] assms(1,4) e t(3) by simp
      then show ?thesis using that(1) [of sb' fe'] rd r False t by simp
    next
      fix sb' fe'
      assume "ent_bread sb (fatent_brelse fe1) (fst (ent_blocknr sb e)) (snd (ent_blocknr sb e)) = Some (Some EIO, sb', fe')"
        "same_table sb sb'" "bh_data sb' = bh_data sb" "fe_bhs fe' = []" "\<not> io_ok sb"
      then show ?thesis using that(2) [of sb' fe'] rd False by simp
    qed
  qed
qed

lemma fat_ent_read_block_cases:
  assumes "fat_ok sb" "fe_entry fe = e" "0 \<le> e" "e < max_cluster sb"
  obtains sb' fe' where "fat_ent_read_block sb fe = Some (None, sb', fe')"
      "same_table sb sb'" "bh_data sb' = bh_data sb" "fe_at sb fe' e"
  | sb' fe' where "fat_ent_read_block sb fe = Some (Some EIO, sb', fe')"
      "same_table sb sb'" "bh_data sb' = bh_data sb" "\<not> io_ok sb"
proof -
  have br: "fe_entry (fatent_brelse fe) = e" "fe_bhs (fatent_brelse fe) = []" using assms(2) by (simp_all add: fatent_brelse_def)
  have rd: "fat_ent_read_block sb fe = ent_bread sb (fatent_brelse fe) (fst (ent_blocknr sb e)) (snd (ent_blocknr sb e))"
    using br(1) by (simp add: fat_ent_read_block_def split_beta Let_def)
  show ?thesis by (rule bread_cases [OF assms(1) br(1) assms(3) br(2)]) (use that rd in auto)
qed

text \<open>Setting an entry: the blocks of the entry are the only ones whose copies may differ afterwards.\<close>

lemma ent_put_step:
  assumes "fat_ok sb" "fe_at sb fe e" "fat_entry_of sb e" "fat_value sb v" "mirrored_but B sb"
  obtains sb' where "ent_put sb fe v = Some sb'" "fat_ok sb'" "same_volume sb sb'" "io_ok sb' = io_ok sb"
    "mirrored_but (B \<union> set (fe_bhs fe)) sb'"
    "\<And>e'. 0 \<le> e' \<Longrightarrow> fat_table sb' e' = (if e' = e then v else fat_table sb e')"
    "counters sb' = counters sb"
proof -
  have e: "0 \<le> e" using assms(3) by simp
  obtain sb' where put: "ent_put sb fe v = Some sb'" and w: "wrote (fe_bhs fe) sb sb'"
    and tab: "\<forall>e'. 0 \<le> e' \<longrightarrow> fat_table sb' e' = (if e' = e then v else fat_table sb e')"
    using ent_put_at [OF assms(1,2) e assms(4)] by blast
  have vol: "same_volume sb sb'" using w by (rule wrote_volume)
  have ok: "fat_ok sb'" using wrote_ok [OF w] assms(1) by simp
  have io: "io_ok sb' = io_ok sb" and cnt: "counters sb' = counters sb"
    using wrote_counters [OF w] by (simp_all add: io_ok_def counters_def)
  have geo: "fats sb' = fats sb" "fat_length sb' = fat_length sb" "fat_blocks sb' = fat_blocks sb"
    using vol fat_blocks_volume [OF vol] by (simp_all add: same_volume_def)
  have keep: "bh_data sb' b = bh_data sb b" if "b \<notin> set (fe_bhs fe)" for b using wrote_data [OF w that] .
  have "bh_data sb' (fat_length sb * copy + b) = bh_data sb' b"
    if "copy < fats sb" "b \<in> fat_blocks sb" "b \<notin> B \<union> set (fe_bhs fe)" for copy b
  proof (cases copy)
    case (Suc c)
    then have "fat_length sb * copy + b \<notin> set (fe_bhs fe)"
      using copy_block [OF that(2), of copy] fe_at_blocks [OF assms(1,2,3)] by auto
    then show ?thesis using keep that assms(5) by (simp add: mirrored_but_def)
  qed simp
  then have "mirrored_but (B \<union> set (fe_bhs fe)) sb'" by (simp add: mirrored_but_def geo)
  then show ?thesis using that [OF put ok vol io] tab cnt by blast
qed

lemma mirrored_table:
  assumes "same_table sb sb'" "bh_data sb' = bh_data sb"
  shows "mirrored_but B sb' = mirrored_but B sb"
  using same_table_fields(1-3) [OF assms(1)] assms(2) by (simp add: mirrored_but_def)

lemma fat_entry_values:
  assumes "same_volume sb sb'"
  shows "fat_value sb' = fat_value sb" "max_cluster sb' = max_cluster sb" "fe_at sb' = fe_at sb" "fe_ok sb' = fe_ok sb"
    "fat_blocks sb' = fat_blocks sb"
  using assms same_volume_entries [OF assms] fat_blocks_volume [OF assms] by (simp_all add: same_volume_def)

section \<open>Properties\<close>

text \<open>A small FAT12 volume with an empty table of one block, in two copies, and ten clusters.\<close>

definition demo_fat :: fat_sb where
  "demo_fat = \<lparr>s_blocksize_bits = 9, s_rdonly = False, s_synchronous = False, sec_per_clus = 4, fats = 2, fat_bits = 12,
     fat_start = 1, fat_length = 1, data_start = 40, max_cluster = 12, prev_free = 2, free_clusters = 0xFFFFFFFF,
     free_clus_valid = False, opt_errors = FAT_ERRORS_RO, opt_discard = True, fatent_shift = -1, fatent_ops = fat12_ops,
     fsinfo_dirty = False, bh_data = (\<lambda>_. replicate 512 0), bh_dirty = (\<lambda>_. False), s_discards = [], s_io = []\<rparr>"

lemma demo_fat_ok: "fat_ok demo_fat" "io_ok demo_fat" "mirrored_but {} demo_fat" "max_cluster demo_fat = 12"
  by (simp_all add: demo_fat_def fat_ok_def s_blocksize_def ent_bad_def ent_pos_def ent_size_def io_ok_def mirrored_but_def)

lemma fatent_init_ok [simp]: "fe_ok sb fatent_init"
  by (simp add: fe_ok_def fatent_init_def)

lemma fe_ok_release [simp]: "fe_ok sb (fatent_brelse fe)"
  by (simp add: fe_ok_def fatent_brelse_def)

lemma fat_ent_read_invalid:
  assumes "e < FAT_START_ENT \<or> max_cluster sb \<le> e"
  shows "fat_ent_read sb fe e = (case fat_fs_error sb of None \<Rightarrow> None | Some sb \<Rightarrow> Some (Inl EIO, sb, fatent_brelse fe))"
  using assms by (auto simp: fat_ent_read_def ge_max_def Let_def split: option.splits)

text \<open>
  C13. \<open>fat_ent_read\<close> on a mounted volume, for each of the three formats and whatever buffers the entry still holds
  from an earlier read: for a cluster of the volume it returns what the table holds, unless a block of the table
  cannot be read; for every other number it returns \<open>-EIO\<close> without reading (or panics, when mounted so).
\<close>
theorem fat_ent_read_value:
  assumes "fat_ok sb" "fe_ok sb fe"
  shows "if FAT_START_ENT \<le> e \<and> e < max_cluster sb
    then \<exists>r sb' fe'. fat_ent_read sb fe e = Some (r, sb', fe') \<and> bh_data sb' = bh_data sb \<and> fe_ok sb' fe' \<and>
        (r = Inr (fat_table sb e) \<or> r = Inl EIO \<and> False \<in> set (s_io sb))
    else fat_ent_read sb fe e =
        (if opt_errors sb = FAT_ERRORS_PANIC then None
         else Some (Inl EIO, sb\<lparr>s_rdonly := (opt_errors sb = FAT_ERRORS_RO \<or> s_rdonly sb)\<rparr>, fatent_brelse fe))"
proof (cases "FAT_START_ENT \<le> e \<and> e < max_cluster sb")
  case True
  then have e: "FAT_START_ENT \<le> e" "e < max_cluster sb" by auto
  have "\<exists>r sb' fe'. fat_ent_read sb fe e = Some (r, sb', fe') \<and> bh_data sb' = bh_data sb \<and> fe_ok sb' fe' \<and>
        (r = Inr (fat_table sb e) \<or> r = Inl EIO \<and> False \<in> set (s_io sb))"
  proof (rule fat_ent_read_cases [OF assms e])
    fix sb' fe'
    assume "fat_ent_read sb fe e = Some (Inr (fat_table sb e), sb', fe')" "same_table sb sb'" "bh_data sb' = bh_data sb" "fe_at sb fe' e"
    then show ?thesis using fe_at_ok [OF assms(1)] same_table_fields(6) [of sb sb'] by auto
  next
    fix sb' fe'
    assume "fat_ent_read sb fe e = Some (Inl EIO, sb', fe')" "bh_data sb' = bh_data sb" "fe_bhs fe' = []" "\<not> io_ok sb"
    then show ?thesis by (auto simp: fe_ok_def io_ok_def)
  qed
  then show ?thesis unfolding if_P [OF True] .
next
  case False
  then have "e < FAT_START_ENT \<or> max_cluster sb \<le> e" by auto
  from fat_ent_read_invalid [OF this] show ?thesis unfolding if_not_P [OF False]
    by (auto simp: fat_fs_error_def split: fat_errors.splits)
qed

theorem fat_ent_read_value_witness:
  "(\<exists>r sb' fe'. fat_ent_read demo_fat fatent_init 3 = Some (r, sb', fe') \<and> bh_data sb' = bh_data demo_fat \<and> fe_ok sb' fe' \<and>
      (r = Inr (fat_table demo_fat 3) \<or> r = Inl EIO \<and> False \<in> set (s_io demo_fat))) \<and>
   fat_ent_read demo_fat fatent_init 12 =
     (if opt_errors demo_fat = FAT_ERRORS_PANIC then None
      else Some (Inl EIO, demo_fat\<lparr>s_rdonly := (opt_errors demo_fat = FAT_ERRORS_RO \<or> s_rdonly demo_fat)\<rparr>, fatent_brelse fatent_init))"
proof -
  have "FAT_START_ENT \<le> 3 \<and> 3 < max_cluster demo_fat" "\<not> (FAT_START_ENT \<le> 12 \<and> 12 < max_cluster demo_fat)"
    by (simp_all add: demo_fat_ok)
  from fat_ent_read_value [OF demo_fat_ok(1) fatent_init_ok, of 3, unfolded if_P [OF this(1)]]
    fat_ent_read_value [OF demo_fat_ok(1) fatent_init_ok, of 12, unfolded if_not_P [OF this(2)]]
  show ?thesis by (rule conjI)
qed

lemma fat_ent_write_step:
  assumes "fat_ok sb" "fe_at sb fe e" "fat_entry_of sb e" "fat_value sb v" "mirrored_but {} sb"
  obtains err sb' where "fat_ent_write sb fe v wait = Some (err, sb')" "fat_ok sb'" "same_volume sb sb'"
    "io_ok sb \<longrightarrow> err = None \<and> io_ok sb'" "err = None \<longrightarrow> mirrored_but {} sb'" "mirrored_but (set (fe_bhs fe)) sb'"
    "\<And>e'. fat_entry_of sb e' \<Longrightarrow> fat_table sb' e' = (if e' = e then v else fat_table sb e')"
proof -
  obtain sb1 where put: "ent_put sb fe v = Some sb1" "fat_ok sb1" "same_volume sb sb1" "io_ok sb1 = io_ok sb"
    "mirrored_but ({} \<union> set (fe_bhs fe)) sb1"
    "\<And>e'. 0 \<le> e' \<Longrightarrow> fat_table sb1 e' = (if e' = e then v else fat_table sb e')"
    using ent_put_step [OF assms] by metis
  obtain e2 sb2 where sync: "(if wait then fat_sync_bhs sb1 (fe_bhs fe) else (None, sb1)) = (e2, sb2)" by fastforce
  have t2: "same_table sb1 sb2" "bh_data sb2 = bh_data sb1" "io_ok sb1 \<longrightarrow> e2 = None"
    using sync fat_sync_bhs_table [of sb1 "fe_bhs fe"] by (auto split: if_splits)
  have m2: "mirrored_but (set (fe_bhs fe)) sb2" "fat_ok sb2"
    using mirrored_table [OF t2(1,2)] put(2,5) same_table_ok [OF t2(1)] by simp_all
  have bhs: "set (fe_bhs fe) \<subseteq> fat_blocks sb2"
    using fe_at_blocks [OF assms(1-3)] same_table_fields(3) [OF t2(1)] fat_blocks_volume [OF put(3)] by simp
  obtain e3 sb3 where mir: "fat_mirror_bhs sb2 (fe_bhs fe) = (e3, sb3)" by fastforce
  note m3 = fat_mirror_bhs_copies [OF mir bhs m2(2)]
  have res: "fat_ent_write sb fe v wait = Some (if e2 \<noteq> None then (e2, sb2) else (e3, sb3))"
    using put(1) sync mir by (simp add: fat_ent_write_def Let_def)
  have t3: "same_table sb1 sb3" using same_table_trans [OF t2(1) m3(1)] .
  have tab: "fat_table sb' e' = (if e' = e then v else fat_table sb e')" if "same_table sb1 sb'" "fat_entry_of sb e'" for sb' e'
    using same_table_table [OF put(2) that(1)] put(6) that(2) put(3) by (simp add: same_volume_def)
  show ?thesis
  proof (cases "e2 = None")
    case True
    then show ?thesis
      using that [of e3 sb3] res same_table_ok [OF t3] put(2,3,4) same_volume_trans [OF put(3) same_table_volume [OF t3]]
        m3 m3(3) [of "{}"] m2 t2 t3 tab [OF t3] by (auto simp: same_table_def)
  next
    case False
    then show ?thesis
      using that [of e2 sb2] res same_volume_trans [OF put(3) same_table_volume [OF t2(1)]]
        put(4) m2 t2 tab [OF t2(1)] by (auto simp: same_table_def)
  qed
qed

text \<open>
  C8. \<open>fat_ent_write\<close> after \<open>fat_ent_read\<close> of the same entry: the table of a mounted volume changes at that entry
  only, to the written value, for each of the three formats (a FAT12 entry shares a byte with its neighbour and may
  lie in two blocks), and when all requests to the device succeed every copy of the table is the same as the first
  one again. Every later \<open>fat_ent_read\<close>, which may use the same \<open>fat_entry\<close>, sees exactly that.
\<close>
theorem fat_ent_write_then_read:
  assumes "fat_ok sb" "fe_ok sb fe" "FAT_START_ENT \<le> e" "e < max_cluster sb" "fat_value sb v"
    and "io_ok sb" "mirrored_but {} sb"
  shows "\<exists>sb1 fe1 sb2. fat_ent_read sb fe e = Some (Inr (fat_table sb e), sb1, fe1) \<and>
    fat_ent_write sb1 fe1 v wait = Some (None, sb2) \<and> mirrored_but {} sb2 \<and>
    (\<forall>e'. FAT_START_ENT \<le> e' \<and> e' < max_cluster sb \<longrightarrow>
       (\<exists>sb3 fe3. fat_ent_read sb2 fe1 e' = Some (Inr (if e' = e then v else fat_table sb e'), sb3, fe3)))"
proof -
  obtain sb1 fe1 where rd: "fat_ent_read sb fe e = Some (Inr (fat_table sb e), sb1, fe1)"
    and t1: "same_table sb sb1" "bh_data sb1 = bh_data sb" and at: "fe_at sb fe1 e"
    using fat_ent_read_cases [OF assms(1-4)] assms(6) by metis
  note f1 = same_table_fields [OF t1(1)]
  have pre: "fat_ok sb1" "fe_at sb1 fe1 e" "fat_entry_of sb1 e" "fat_value sb1 v" "mirrored_but {} sb1"
    using assms same_table_ok [OF t1(1)] at f1 mirrored_table [OF t1] by simp_all
  obtain sb2 where w: "fat_ent_write sb1 fe1 v wait = Some (None, sb2)" "fat_ok sb2" "same_volume sb1 sb2" "io_ok sb2" "mirrored_but {} sb2"
    "\<And>e'. fat_entry_of sb1 e' \<Longrightarrow> fat_table sb2 e' = (if e' = e then v else fat_table sb1 e')"
    using fat_ent_write_step [OF pre, of wait] t1(1) assms(6) unfolding same_table_def by metis
  have "\<exists>sb3 fe3. fat_ent_read sb2 fe1 e' = Some (Inr (if e' = e then v else fat_table sb e'), sb3, fe3)"
    if "FAT_START_ENT \<le> e'" "e' < max_cluster sb" for e'
  proof -
    have "fe_ok sb2 fe1" using fe_at_ok [OF assms(1) at] fat_entry_values(4) [OF w(3)] f1(6) by simp
    moreover have "e' < max_cluster sb2" using that(2) fat_entry_values(2) [OF w(3)] f1(4) by simp
    moreover have "fat_table sb2 e' = (if e' = e then v else fat_table sb e')"
      using w(6) [of e'] same_table_table [OF assms(1) t1(1), of e'] that f1(4) by simp
    ultimately show ?thesis using fat_ent_read_cases [OF w(2) _ that(1), of fe1] w(4) by metis
  qed
  then show ?thesis using rd w(1,5) by blast
qed

theorem fat_ent_write_then_read_witness:
  "\<exists>sb1 fe1 sb2. fat_ent_read demo_fat fatent_init 3 = Some (Inr (fat_table demo_fat 3), sb1, fe1) \<and>
     fat_ent_write sb1 fe1 FAT_ENT_EOF True = Some (None, sb2) \<and> mirrored_but {} sb2 \<and>
     (\<exists>sb3 fe3. fat_ent_read sb2 fe1 3 = Some (Inr FAT_ENT_EOF, sb3, fe3)) \<and>
     (\<exists>sb3 fe3. fat_ent_read sb2 fe1 2 = Some (Inr (fat_table demo_fat 2), sb3, fe3))"
proof -
  obtain sb1 fe1 sb2 where "fat_ent_read demo_fat fatent_init 3 = Some (Inr (fat_table demo_fat 3), sb1, fe1)"
    "fat_ent_write sb1 fe1 FAT_ENT_EOF True = Some (None, sb2)" "mirrored_but {} sb2"
    and rd: "\<And>e'. FAT_START_ENT \<le> e' \<and> e' < max_cluster demo_fat \<Longrightarrow>
       \<exists>sb3 fe3. fat_ent_read sb2 fe1 e' = Some (Inr (if e' = 3 then FAT_ENT_EOF else fat_table demo_fat e'), sb3, fe3)"
    using fat_ent_write_then_read [OF demo_fat_ok(1) fatent_init_ok, of 3 FAT_ENT_EOF True] demo_fat_ok
    by (auto simp: fat_value_def)
  then show ?thesis using rd [of 3] rd [of 2] demo_fat_ok(4) by auto
qed

declare One_nat_def [simp]

end
