(* ===== verification/Vfat_Alloc.thy ===== *)
theory Vfat_Alloc
  imports Vfat_Rw
begin

text \<open>
  Allocation, release and counting of clusters (the second half of \<open>fatent.c\<close>).
  \<^item> \<open>fat_alloc_loop\<close> is the search of \<open>fat_alloc_clusters\<close>. Its two nested loops are one recursion: \<open>left\<close>
    is \<open>max_cluster - count\<close>, the number of entries that have not been looked at, and \<open>reread\<close> tells that the
    outer loop reads the block of the next entry first. The array \<open>cluster\<close> of the caller has \<open>nr_cluster\<close>
    elements; the list \<open>clus\<close> is its used part.
  \<^item> \<open>fat_free_loop\<close> is the loop of \<open>fat_free_clusters\<close>, with the number of entries of the table as fuel; the
    lemmas show that it is enough for every content of the table.
  \<^item> \<open>needs_sync\<close> is the result of the kernel's \<open>inode_needs_sync\<close> for the inode. The mutex \<open>fat_lock\<close> is left
    out: each function holds it for its whole loop. Read-ahead has no effect on the state.
\<close>

section \<open>Operations\<close>

definition fat_clus_to_blknr :: "fat_sb \<Rightarrow> int \<Rightarrow> int" where
  "fat_clus_to_blknr sb clus = (clus - FAT_START_ENT) * int (sec_per_clus sb) + int (data_start sb)"

definition free_known :: "fat_sb \<Rightarrow> bool" where
  "free_known sb \<longleftrightarrow> free_clusters sb \<noteq> 0xFFFFFFFF"

text \<open>Buffers are written, when the caller waits for them, and copied to the other tables.\<close>

definition fat_flush_bhs :: "bool \<Rightarrow> fat_sb \<Rightarrow> nat list \<Rightarrow> errno option \<times> fat_sb" where
  "fat_flush_bhs sync sb bhs =
     (let (err, sb) = (if sync then fat_sync_bhs sb bhs else (None, sb))
      in if err \<noteq> None then (err, sb) else fat_mirror_bhs sb bhs)"

text \<open>The request for discarding a run of clusters, issued when the run ends, and the new start of a run.\<close>

definition free_discard :: "fat_sb \<Rightarrow> int \<Rightarrow> int \<Rightarrow> int \<Rightarrow> fat_sb \<times> int" where
  "free_discard sb entry cluster first_cl =
     (if opt_discard sb \<and> cluster \<noteq> entry + 1
      then (sb\<lparr>s_discards := s_discards sb @ [(fat_clus_to_blknr sb first_cl, (entry - first_cl + 1) * int (sec_per_clus sb))]\<rparr>, cluster)
      else (sb, first_cl))"

fun fat_free_loop ::
  "nat \<Rightarrow> fat_sb \<Rightarrow> fat_entry \<Rightarrow> int \<Rightarrow> int \<Rightarrow> nat list \<Rightarrow> bool \<Rightarrow> (errno option \<times> fat_sb \<times> bool) option" where
  "fat_free_loop 0 sb fatent cluster first_cl bhs dirty_fsinfo = None"
| "fat_free_loop (Suc n) sb fatent cluster first_cl bhs dirty_fsinfo = do {
     (r, sb, fatent) \<leftarrow> fat_ent_read sb fatent cluster;
     (case r of
        Inl err \<Rightarrow> Some (Some err, sb, dirty_fsinfo)
      | Inr cluster \<Rightarrow>
          if cluster = FAT_ENT_FREE then do {
            sb \<leftarrow> fat_fs_error sb;
            Some (Some EIO, sb, dirty_fsinfo)
          }
          else do {
            let (sb, first_cl) = free_discard sb (fe_entry fatent) cluster first_cl;
            sb \<leftarrow> ent_put sb fatent FAT_ENT_FREE;
            let (sb, dirty_fsinfo) =
              (if free_known sb then (sb\<lparr>free_clusters := free_clusters sb + 1\<rparr>, True) else (sb, dirty_fsinfo));
            let full = (int (length bhs) + int (length (fe_bhs fatent)) > MAX_BUF_PER_PAGE);
            let (err, sb) = (if full then fat_flush_bhs (s_synchronous sb) sb bhs else (None, sb));
            (if err \<noteq> None then Some (err, sb, dirty_fsinfo)
             else
               let bhs = fat_collect_bhs (if full then [] else bhs) fatent
               in if cluster \<noteq> FAT_ENT_EOF then fat_free_loop n sb fatent cluster first_cl bhs dirty_fsinfo
                  else let (err, sb) = fat_flush_bhs (s_synchronous sb) sb bhs in Some (err, sb, dirty_fsinfo))
          })
   }"

definition fat_free_clusters :: "fat_sb \<Rightarrow> int \<Rightarrow> (errno option \<times> fat_sb) option" where
  "fat_free_clusters sb cluster = do {
     (err, sb, dirty_fsinfo) \<leftarrow> fat_free_loop (nat (max_cluster sb)) sb fatent_init cluster cluster [] False;
     Some (err, if dirty_fsinfo then mark_fsinfo_dirty sb else sb)
   }"

fun fat_alloc_loop ::
  "nat \<Rightarrow> bool \<Rightarrow> nat \<Rightarrow> fat_sb \<Rightarrow> fat_entry \<Rightarrow> fat_entry \<Rightarrow> nat list \<Rightarrow> int list \<Rightarrow>
     (errno option \<times> fat_sb \<times> nat list \<times> int list) option" where
  "fat_alloc_loop 0 reread nr sb fatent prev_ent bhs clus =
     Some (Some ENOSPC, sb\<lparr>free_clusters := 0, free_clus_valid := True\<rparr>, bhs, clus)"
| "fat_alloc_loop (Suc left) reread nr sb fatent prev_ent bhs clus = do {
     (err, sb, fatent) \<leftarrow>
       (if reread then fat_ent_read_block sb (fatent_set_entry fatent (if ge_max sb (fe_entry fatent) then FAT_START_ENT else fe_entry fatent))
        else Some (None, sb, fatent));
     (if err \<noteq> None then Some (err, sb, bhs, clus)
      else do {
        v \<leftarrow> ent_get sb fatent;
        (sb, prev_ent, bhs, clus) \<leftarrow>
          (if v = FAT_ENT_FREE then do {
             let entry = fe_entry fatent;
             sb \<leftarrow> ent_put sb fatent FAT_ENT_EOF;
             sb \<leftarrow> (if fe_bhs prev_ent \<noteq> [] then ent_put sb prev_ent entry else Some sb);
             let bhs = fat_collect_bhs bhs fatent;
             let sb = sb\<lparr>prev_free := word_of_int entry\<rparr>;
             let sb = (if free_known sb then sb\<lparr>free_clusters := free_clusters sb - 1\<rparr> else sb);
             (if length clus < nr then Some (sb, fatent, bhs, clus @ [entry]) else None)
           }
           else Some (sb, prev_ent, bhs, clus));
        (if v = FAT_ENT_FREE \<and> length clus = nr then Some (None, sb, bhs, clus)
         else if left = 0 then fat_alloc_loop 0 True nr sb fatent prev_ent bhs clus
         else do {
           (more, fatent) \<leftarrow> fat_ent_next sb fatent;
           fat_alloc_loop left (\<not> more) nr sb fatent prev_ent bhs clus
         })
      })
   }"

definition fat_alloc_clusters :: "bool \<Rightarrow> fat_sb \<Rightarrow> nat \<Rightarrow> (errno option \<times> fat_sb \<times> int list) option" where
  "fat_alloc_clusters needs_sync sb nr =
     (if int nr > MAX_BUF_PER_PAGE div 2 then None
      else if free_known sb \<and> free_clus_valid sb \<and> unat (free_clusters sb) < nr then Some (Some ENOSPC, sb, [])
      else do {
        (err, sb, bhs, clus) \<leftarrow>
          fat_alloc_loop (nat (max_cluster sb - FAT_START_ENT)) True nr sb
            (fatent_set_entry fatent_init (sint (prev_free sb + 1))) fatent_init [] [];
        let sb = mark_fsinfo_dirty sb;
        let (err, sb) =
          (if err \<noteq> None then (err, sb) else fat_flush_bhs needs_sync sb bhs);
        sb \<leftarrow> (if err \<noteq> None \<and> clus \<noteq> [] then do { (_, sb) \<leftarrow> fat_free_clusters sb (hd clus); Some sb } else Some sb);
        Some (err, sb, clus)
      })"

fun fat_count_loop :: "nat \<Rightarrow> bool \<Rightarrow> fat_sb \<Rightarrow> fat_entry \<Rightarrow> nat \<Rightarrow> (errno option \<times> fat_sb \<times> nat) option" where
  "fat_count_loop 0 reread sb fatent free = Some (None, sb, free)"
| "fat_count_loop (Suc left) reread sb fatent free = do {
     (err, sb, fatent) \<leftarrow> (if reread then fat_ent_read_block sb fatent else Some (None, sb, fatent));
     (if err \<noteq> None then Some (err, sb, free)
      else do {
        v \<leftarrow> ent_get sb fatent;
        (more, fatent) \<leftarrow> fat_ent_next sb fatent;
        fat_count_loop left (\<not> more) sb fatent (if v = FAT_ENT_FREE then free + 1 else free)
      })
   }"

definition fat_count_free_clusters :: "fat_sb \<Rightarrow> (errno option \<times> fat_sb) option" where
  "fat_count_free_clusters sb =
     (if free_known sb \<and> free_clus_valid sb then Some (None, sb)
      else do {
        (err, sb, free) \<leftarrow> fat_count_loop (nat (max_cluster sb - FAT_START_ENT)) True sb (fatent_set_entry fatent_init FAT_START_ENT) 0;
        Some (if err \<noteq> None then (err, sb)
              else (None, mark_fsinfo_dirty (sb\<lparr>free_clusters := of_nat free, free_clus_valid := True\<rparr>)))
      })"

section \<open>Shared steps\<close>

lemma fat_flush_bhs_copies:
  assumes "fat_flush_bhs sync sb bhs = (err, sb')" "set bhs \<subseteq> fat_blocks sb" "fat_ok sb" "mirrored_but (B \<union> set bhs) sb"
  shows "same_table sb sb'" "io_ok sb \<Longrightarrow> err = None" "err = None \<Longrightarrow> mirrored_but B sb'" "mirrored_but (B \<union> set bhs) sb'"
proof -
  obtain e1 sb1 where s1: "(if sync then fat_sync_bhs sb bhs else (None, sb)) = (e1, sb1)" by fastforce
  then have t1: "same_table sb sb1" "bh_data sb1 = bh_data sb" "io_ok sb \<longrightarrow> e1 = None"
    using fat_sync_bhs_table [of sb bhs e1 sb1] by (auto split: if_splits)
  have pre: "set bhs \<subseteq> fat_blocks sb1" "fat_ok sb1" "mirrored_but (B \<union> set bhs) sb1"
    using assms(2-4) same_table_fields(3) [OF t1(1)] same_table_ok [OF t1(1)] mirrored_table [OF t1(1,2)] by simp_all
  obtain e2 sb2 where s2: "fat_mirror_bhs sb1 bhs = (e2, sb2)" by fastforce
  note m = fat_mirror_bhs_copies [OF s2 pre(1,2)]
  have res: "(err, sb') = (if e1 \<noteq> None then (e1, sb1) else (e2, sb2))"
    using assms(1) s1 s2 by (cases "e1 = None") (auto simp: fat_flush_bhs_def)
  have t2: "same_table sb sb2" using same_table_trans [OF t1(1) m(1)] .
  show "same_table sb sb'" using res t1(1) t2 by (auto split: if_splits)
  show "io_ok sb \<Longrightarrow> err = None" using res t1 m(2) by (auto simp: same_table_def split: if_splits)
  show "err = None \<Longrightarrow> mirrored_but B sb'" using res m(3) [OF pre(3)] by (auto split: if_splits)
  show "mirrored_but (B \<union> set bhs) sb'" using res m(4) [OF pre(3)] pre(3) by (auto split: if_splits)
qed

lemma fat_collect_bhs_set: "set (fat_collect_bhs bhs fe) = set bhs \<union> set (fe_bhs fe)"
proof -
  have "set (fold (\<lambda>b bhs. if b \<in> set bhs then bhs else bhs @ [b]) xs bhs) = set bhs \<union> set xs" for xs :: "nat list"
    by (induction xs arbitrary: bhs) auto
  then show ?thesis by (simp add: fat_collect_bhs_def)
qed

text \<open>The fields that the table and its copies do not depend on.\<close>

definition same_blocks :: "fat_sb \<Rightarrow> fat_sb \<Rightarrow> bool" where
  "same_blocks sb sb' \<longleftrightarrow> same_volume sb sb' \<and> bh_data sb' = bh_data sb \<and> s_io sb' = s_io sb"

lemma same_blocks_table:
  assumes "same_blocks sb sb'"
  shows "same_volume sb sb'" "fat_ok sb' = fat_ok sb" "mirrored_but B sb' = mirrored_but B sb" "fat_table sb' = fat_table sb" "io_ok sb' = io_ok sb"
    "fat_blocks sb' = fat_blocks sb" "max_cluster sb' = max_cluster sb" "fe_at sb' = fe_at sb"
    "fe_ok sb' = fe_ok sb" "fat_value sb' = fat_value sb"
proof -
  have v: "same_volume sb sb'" "bh_data sb' = bh_data sb" "s_io sb' = s_io sb" using assms by (simp_all add: same_blocks_def)
  note f = fat_entry_values [OF v(1)]
  show "same_volume sb sb'" by fact
  show "max_cluster sb' = max_cluster sb" "fe_at sb' = fe_at sb" "fe_ok sb' = fe_ok sb" "fat_value sb' = fat_value sb"
    "fat_blocks sb' = fat_blocks sb" using f by simp_all
  show "fat_ok sb' = fat_ok sb" by (rule volume_ok [OF v(1)]) (simp add: v(2))
  show "mirrored_but B sb' = mirrored_but B sb" using v f(5) by (simp add: mirrored_but_def same_volume_def)
  show "fat_table sb' = fat_table sb"
    using same_volume_entries(1,3) [OF v(1)] same_volume_size [OF v(1)] v
    by (simp add: fun_eq_iff fat_table_def ent_raw_def fat_byte_def Let_def same_volume_def split: fatent_operations.splits)
  show "io_ok sb' = io_ok sb" by (simp add: io_ok_def v(3))
qed

lemma same_blocks_upd [simp]:
  "same_blocks sb (sb\<lparr>s_discards := x\<rparr>)" "same_blocks sb (sb\<lparr>free_clusters := f\<rparr>)" "same_blocks sb (sb\<lparr>prev_free := p\<rparr>)"
  "same_blocks sb (sb\<lparr>free_clus_valid := v\<rparr>)" "same_blocks sb (sb\<lparr>s_rdonly := r\<rparr>)" "same_blocks sb (sb\<lparr>fsinfo_dirty := i\<rparr>)" "same_blocks sb sb"
  by (simp_all add: same_blocks_def same_volume_def)

lemma same_blocks_trans: "same_blocks a b \<Longrightarrow> same_blocks b c \<Longrightarrow> same_blocks a c"
  using same_volume_trans [of a b c] by (simp add: same_blocks_def)

lemma mark_fsinfo_blocks [simp]: "same_blocks sb (mark_fsinfo_dirty sb)"
  by (simp add: mark_fsinfo_dirty_def)

section \<open>Freeing clusters\<close>

text \<open>
  The state between two iterations: the copies of the table differ from it at most in the collected buffers and in
  the blocks \<open>R\<close>, which an allocation that failed may have left behind.
\<close>

definition free_state :: "nat set \<Rightarrow> fat_sb \<Rightarrow> nat list \<Rightarrow> bool" where
  "free_state R sb bhs \<longleftrightarrow> fat_ok sb \<and> set bhs \<subseteq> fat_blocks sb \<and> mirrored_but (set bhs \<union> R) sb"

definition ent_blocks :: "fat_sb \<Rightarrow> int \<Rightarrow> nat set" where
  "ent_blocks sb e =
     {fat_start sb + ent_pos sb e div s_blocksize sb, fat_start sb + (ent_pos sb e + ent_size sb - 1) div s_blocksize sb}"

lemma ent_blocks_volume: "same_volume sb sb' \<Longrightarrow> ent_blocks sb' e = ent_blocks sb e"
  using same_volume_entries [of sb sb'] same_volume_size [of sb sb'] by (simp add: ent_blocks_def same_volume_def)

lemma fe_at_ent_blocks:
  assumes "fat_ok sb" "fe_at sb fe e"
  shows "set (fe_bhs fe) = ent_blocks sb e"
proof -
  let ?p = "ent_pos sb e" and ?bs = "s_blocksize sb"
  have "(?p + ent_size sb - 1) div ?bs = ?p div ?bs \<or> (?p + ent_size sb - 1) div ?bs = ?p div ?bs + 1"
  proof (cases "fatent_ops sb = fat12_ops")
    case True
    then have sz: "?p + ent_size sb - 1 = ?p + 1" by (simp add: ent_size_def)
    have "0 < ?bs" using blocksize_512 [OF assms(1)] by simp
    then show ?thesis unfolding sz using next_byte [of ?bs ?p] by blast
  next
    case False
    then show ?thesis using ent_pos_aligned(2) [OF assms(1) False] by simp
  qed
  then show ?thesis using assms(2) by (auto simp: fe_at_def Let_def ent_blocks_def)
qed

lemma mirrored_mono: "mirrored_but A sb \<Longrightarrow> A \<subseteq> B \<Longrightarrow> mirrored_but B sb"
  by (auto simp: mirrored_but_def)

definition count_up :: "u32 \<Rightarrow> u32" where
  "count_up f = (if f \<noteq> 0xFFFFFFFF then f + 1 else f)"

lemma free_iter:
  assumes "free_state R sb bhs" "fe_ok sb fe" "FAT_START_ENT \<le> c" "c < max_cluster sb" "fat_table sb c \<noteq> FAT_ENT_FREE"
    and "R \<subseteq> R' \<union> ent_blocks sb c"
  obtains (fail) e sb' d' where "\<And>n. fat_free_loop (Suc n) sb fe c fc bhs d = Some (Some e, sb', d')" "\<not> io_ok sb"
  | (step) sb1 fe1 bhs1 d1 where "free_state R' sb1 bhs1" "fe_ok sb1 fe1" "same_volume sb sb1" "io_ok sb \<longrightarrow> io_ok sb1"
      "\<And>e. fat_entry_of sb e \<Longrightarrow> fat_table sb1 e = (if e = c then FAT_ENT_FREE else fat_table sb e)"
      "free_clusters sb1 = count_up (free_clusters sb)" "free_clus_valid sb1 = free_clus_valid sb"
      "s_discards sb1 = s_discards (fst (free_discard sb c (fat_table sb c) fc))"
      "\<And>n. fat_free_loop (Suc n) sb fe c fc bhs d =
         (if fat_table sb c \<noteq> FAT_ENT_EOF then fat_free_loop n sb1 fe1 (fat_table sb c) (snd (free_discard sb c (fat_table sb c) fc)) bhs1 d1
          else let (err, sb') = fat_flush_bhs (s_synchronous sb1) sb1 bhs1 in Some (err, sb', d1))"
proof -
  have st: "fat_ok sb" "set bhs \<subseteq> fat_blocks sb" "mirrored_but (set bhs \<union> R) sb" using assms(1) by (simp_all add: free_state_def)
  show ?thesis
  proof (rule fat_ent_read_cases [OF st(1) assms(2-4)])
    fix sb' fe'
    assume "fat_ent_read sb fe c = Some (Inl EIO, sb', fe')" "\<not> io_ok sb"
    then show ?thesis using fail by simp
  next
    fix sb1 fe1
    assume rd: "fat_ent_read sb fe c = Some (Inr (fat_table sb c), sb1, fe1)" and t1: "same_table sb sb1" "bh_data sb1 = bh_data sb"
      and at: "fe_at sb fe1 c"
    obtain sb2 fc2 where disc: "free_discard sb1 c (fat_table sb c) fc = (sb2, fc2)" by fastforce
    have b2: "same_blocks sb1 sb2" and c2: "free_clusters sb2 = free_clusters sb1" "free_clus_valid sb2 = free_clus_valid sb1"
      using disc by (auto simp: free_discard_def split: if_splits)
    have eqs: "opt_discard sb1 = opt_discard sb" "sec_per_clus sb1 = sec_per_clus sb" "data_start sb1 = data_start sb"
      "s_discards sb1 = s_discards sb" "free_clusters sb1 = free_clusters sb" "free_clus_valid sb1 = free_clus_valid sb"
      using t1(1) by (simp_all add: same_table_def same_volume_def counters_def)
    have d2: "s_discards sb2 = s_discards (fst (free_discard sb c (fat_table sb c) fc))"
      "fc2 = snd (free_discard sb c (fat_table sb c) fc)"
      using disc eqs by (auto simp: free_discard_def fat_clus_to_blknr_def split: if_splits)
    note f1 = same_table_fields [OF t1(1)] and f2 = same_blocks_table [OF b2]
    have pre: "fat_ok sb2" "fe_at sb2 fe1 c" "fat_entry_of sb2 c" "fat_value sb2 FAT_ENT_FREE" "mirrored_but (set bhs \<union> R) sb2"
      using st at assms(3,4) f1 f2 same_table_ok [OF t1(1)] mirrored_table [OF t1] by (simp_all add: fat_value_def)
    obtain sb3 where put: "ent_put sb2 fe1 FAT_ENT_FREE = Some sb3" "fat_ok sb3" "same_volume sb2 sb3" "io_ok sb3 = io_ok sb2"
      "mirrored_but (set bhs \<union> R \<union> set (fe_bhs fe1)) sb3"
      "\<And>e'. 0 \<le> e' \<Longrightarrow> fat_table sb3 e' = (if e' = c then FAT_ENT_FREE else fat_table sb2 e')" "counters sb3 = counters sb2"
      using ent_put_step [OF pre] by metis
    define sb4 where "sb4 = (if free_known sb3 then sb3\<lparr>free_clusters := free_clusters sb3 + 1\<rparr> else sb3)"
    define d4 where "d4 = (free_known sb3 \<or> d)"
    have b4: "same_blocks sb3 sb4" and c4: "free_clusters sb4 = count_up (free_clusters sb)" "s_discards sb4 = s_discards sb2"
        "free_clus_valid sb4 = free_clus_valid sb"
      using put(7) c2 eqs(5,6) by (auto simp: sb4_def count_up_def free_known_def counters_def)
    note f4 = same_blocks_table [OF b4]
    let ?full = "int (length bhs) + int (length (fe_bhs fe1)) > MAX_BUF_PER_PAGE"
    obtain e5 sb5 where fl: "(if ?full then fat_flush_bhs (s_synchronous sb4) sb4 bhs else (None, sb4)) = (e5, sb5)" by fastforce
    have vol4: "same_volume sb sb4"
      using same_volume_trans [OF same_volume_trans [OF same_volume_trans [OF same_table_volume [OF t1(1)] f2(1)] put(3)] f4(1)] .
    have m4: "mirrored_but ((R' \<union> set (fe_bhs fe1)) \<union> set bhs) sb4" "fat_ok sb4" "set bhs \<subseteq> fat_blocks sb4" "set (fe_bhs fe1) \<subseteq> fat_blocks sb4"
    proof -
      have "set bhs \<union> R \<union> set (fe_bhs fe1) \<subseteq> (R' \<union> set (fe_bhs fe1)) \<union> set bhs"
        using assms(6) fe_at_ent_blocks [OF st(1) at] by auto
      then show "mirrored_but ((R' \<union> set (fe_bhs fe1)) \<union> set bhs) sb4" using put(5) f4(3) mirrored_mono by blast
    qed (use put(2) f4(2) st(2) fat_blocks_volume [OF vol4] fe_at_blocks [OF st(1) at] assms(3,4) in simp_all)
    let ?bhs = "if ?full then [] else bhs"
    have t5: "same_table sb4 sb5" "io_ok sb4 \<longrightarrow> e5 = None" "e5 = None \<longrightarrow> mirrored_but (set ?bhs \<union> (R' \<union> set (fe_bhs fe1))) sb5"
      using fl fat_flush_bhs_copies [OF _ m4(3,2,1), of "s_synchronous sb4" e5 sb5] m4(1) by (auto simp: Un_commute split: if_splits)
    have io4: "io_ok sb \<longrightarrow> io_ok sb4" using t1(1) f2(5) put(4) f4(5) by (simp add: same_table_def)
    have c: "fe_entry fe1 = c" using at by (simp add: fe_at_def Let_def)
    let ?b1 = "fat_collect_bhs ?bhs fe1"
    have loop: "fat_free_loop (Suc n) sb fe c fc bhs d =
        (if e5 \<noteq> None then Some (e5, sb5, d4)
         else if fat_table sb c \<noteq> FAT_ENT_EOF then fat_free_loop n sb5 fe1 (fat_table sb c) fc2 ?b1 d4
         else let (err, sb') = fat_flush_bhs (s_synchronous sb5) sb5 ?b1 in Some (err, sb', d4))" for n
    proof -
      have "(if free_known sb3 then (sb3\<lparr>free_clusters := free_clusters sb3 + 1\<rparr>, True) else (sb3, d)) = (sb4, d4)"
        by (simp add: sb4_def d4_def)
      then show ?thesis using rd disc put(1) assms(5) fl by (simp add: c Let_def)
    qed
    show ?thesis
    proof (cases e5)
      case (Some e)
      then show ?thesis using fail [of e sb5 d4] loop t5(2) io4 by auto
    next
      case None
      have vol5: "same_volume sb4 sb5" using t5(1) by (rule same_table_volume)
      have ok5: "fat_ok sb5" using same_table_ok [OF t5(1)] m4(2) by simp
      have bl5: "fat_blocks sb5 = fat_blocks sb4" using vol5 by (rule fat_blocks_volume)
      have "set ?bhs \<union> (R' \<union> set (fe_bhs fe1)) = set ?b1 \<union> R'" by (auto simp: fat_collect_bhs_set)
      then have "mirrored_but (set ?b1 \<union> R') sb5" using None t5(3) by simp
      then have "free_state R' sb5 ?b1"
        using ok5 m4(3,4) bl5 by (auto simp: free_state_def fat_collect_bhs_set split: if_splits)
      moreover have "fe_ok sb5 fe1" using fe_at_ok [OF st(1) at] fat_entry_values(4) [OF same_volume_trans [OF vol4 vol5]] by simp
      moreover have "fat_table sb5 e = (if e = c then FAT_ENT_FREE else fat_table sb e)" if "fat_entry_of sb e" for e
      proof -
        have "fat_table sb5 e = fat_table sb3 e"
          using same_table_table [OF m4(2) t5(1), of e] f4(4) that vol4 by (simp add: same_volume_def)
        moreover have "fat_table sb2 e = fat_table sb e" using f2(4) same_table_table [OF st(1) t1(1) that] by simp
        ultimately show ?thesis using put(6) [of e] that by simp
      qed
      moreover have "free_clusters sb5 = count_up (free_clusters sb)" "s_discards sb5 = s_discards sb2"
        "free_clus_valid sb5 = free_clus_valid sb"
        using t5(1) c4 by (simp_all add: same_table_def counters_def)
      moreover have "io_ok sb \<longrightarrow> io_ok sb5" using io4 t5(1) by (simp add: same_table_def)
      ultimately show ?thesis
        using step [of sb5 ?b1 fe1 d4] same_volume_trans [OF vol4 vol5] loop None d2 by simp
    qed
  qed
qed

lemma fat_fs_error_total:
  assumes "opt_errors sb \<noteq> FAT_ERRORS_PANIC"
  obtains r where "fat_fs_error sb = Some (sb\<lparr>s_rdonly := r\<rparr>)"
proof (cases "opt_errors sb")
  case FAT_ERRORS_CONT
  then show ?thesis using that [of "s_rdonly sb"] by (simp add: fat_fs_error_def)
qed (use that [of True] assms in \<open>simp_all add: fat_fs_error_def\<close>)

definition used_entries :: "fat_sb \<Rightarrow> int set" where
  "used_entries sb = {e. FAT_START_ENT \<le> e \<and> e < max_cluster sb \<and> fat_table sb e \<noteq> FAT_ENT_FREE}"

lemma finite_used: "finite (used_entries sb)"
  by (rule finite_subset [of _ "{FAT_START_ENT ..< max_cluster sb}"]) (auto simp: used_entries_def)

lemma fat_free_loop_total:
  assumes "free_state R sb bhs" "fe_ok sb fe" "opt_errors sb \<noteq> FAT_ERRORS_PANIC" "card (used_entries sb) < n"
  shows "\<exists>r. fat_free_loop n sb fe c fc bhs d = Some r"
  using assms
proof (induction n arbitrary: sb fe c fc bhs d)
  case (Suc n)
  have ok: "fat_ok sb" using Suc.prems(1) by (simp add: free_state_def)
  obtain ro where err: "fat_fs_error sb = Some (sb\<lparr>s_rdonly := ro\<rparr>)" using fat_fs_error_total [OF Suc.prems(3)] .
  consider "c < FAT_START_ENT \<or> max_cluster sb \<le> c" | "FAT_START_ENT \<le> c" "c < max_cluster sb" "fat_table sb c = FAT_ENT_FREE"
    | "FAT_START_ENT \<le> c" "c < max_cluster sb" "fat_table sb c \<noteq> FAT_ENT_FREE" by fastforce
  then show ?case
  proof cases
    case 1
    then show ?thesis using fat_ent_read_invalid [of c sb fe] err by simp
  next
    case 2
    show ?thesis
    proof (rule fat_ent_read_cases [OF ok Suc.prems(2) 2(1,2)])
      fix sb' fe'
      assume rd: "fat_ent_read sb fe c = Some (Inr (fat_table sb c), sb', fe')" and t: "same_table sb sb'"
      have "opt_errors sb' \<noteq> FAT_ERRORS_PANIC" using t Suc.prems(3) by (simp add: same_table_def same_volume_def)
      then obtain r where "fat_fs_error sb' = Some (sb'\<lparr>s_rdonly := r\<rparr>)" by (rule fat_fs_error_total)
      then show ?thesis using rd 2(3) by simp
    qed simp
  next
    case 3
    show ?thesis
    proof (rule free_iter [OF Suc.prems(1,2) 3 Un_upper1, of fc d])
      fix sb1 fe1 bhs1 d1
      assume st: "free_state R sb1 bhs1" "fe_ok sb1 fe1" and v: "same_volume sb sb1"
        and tab: "\<And>e. fat_entry_of sb e \<Longrightarrow> fat_table sb1 e = (if e = c then FAT_ENT_FREE else fat_table sb e)"
        and loop: "\<And>n. fat_free_loop (Suc n) sb fe c fc bhs d =
         (if fat_table sb c \<noteq> FAT_ENT_EOF then fat_free_loop n sb1 fe1 (fat_table sb c) (snd (free_discard sb c (fat_table sb c) fc)) bhs1 d1
          else let (err, sb') = fat_flush_bhs (s_synchronous sb1) sb1 bhs1 in Some (err, sb', d1))"
      have "used_entries sb1 = used_entries sb - {c}" using tab fat_entry_values(2) [OF v] by (auto simp: used_entries_def split: if_splits)
      moreover have "c \<in> used_entries sb" using 3 by (simp add: used_entries_def)
      ultimately have "card (used_entries sb1) < n" using Suc.prems(4) card_Suc_Diff1 [OF finite_used] by fastforce
      then have "\<exists>r. fat_free_loop n sb1 fe1 c' fc' bhs1 d1 = Some r" for c' fc'
        using Suc.IH [OF st] v Suc.prems(3) by (simp add: same_volume_def)
      then show ?thesis unfolding loop by (simp add: split_beta Let_def)
    qed simp
  qed
qed simp

section \<open>Chains\<close>

text \<open>The list of the clusters of a chain that starts at \<open>c\<close> and ends with an end mark.\<close>

primrec fat_chain :: "fat_sb \<Rightarrow> int \<Rightarrow> int list \<Rightarrow> bool" where
  "fat_chain sb c [] \<longleftrightarrow> c = FAT_ENT_EOF"
| "fat_chain sb c (x # xs) \<longleftrightarrow>
     c = x \<and> FAT_START_ENT \<le> x \<and> x < max_cluster sb \<and> fat_table sb x \<noteq> FAT_ENT_FREE \<and> fat_chain sb (fat_table sb x) xs"

lemma max_cluster_EOF: "fat_ok sb \<Longrightarrow> max_cluster sb < FAT_ENT_EOF"
  by (auto simp: fat_ok_def ent_bad_def split: fatent_operations.splits)

lemma fat_chain_range: "fat_chain sb c xs \<Longrightarrow> e \<in> set xs \<Longrightarrow> FAT_START_ENT \<le> e \<and> e < max_cluster sb"
  by (induction xs arbitrary: c) auto

lemma fat_chain_unique:
  assumes "fat_ok sb"
  shows "fat_chain sb c xs \<Longrightarrow> fat_chain sb c ys \<Longrightarrow> xs = ys"
proof (induction xs arbitrary: c ys)
  case Nil
  then show ?case using max_cluster_EOF [OF assms] by (cases ys) auto
next
  case (Cons x xs)
  then show ?case using max_cluster_EOF [OF assms] by (cases ys) auto
qed

lemma fat_chain_suffix: "fat_chain sb c (xs @ ys) \<Longrightarrow> \<exists>c'. fat_chain sb c' ys"
  by (induction xs arbitrary: c) auto

lemma fat_chain_distinct:
  assumes "fat_ok sb"
  shows "fat_chain sb c xs \<Longrightarrow> distinct xs"
proof (induction xs arbitrary: c)
  case (Cons x xs)
  have "x \<notin> set xs"
  proof
    assume "x \<in> set xs"
    then obtain as bs where xs: "xs = as @ x # bs" by (meson split_list)
    have a: "fat_chain sb (fat_table sb x) xs" using Cons.prems by simp
    then obtain c' where "fat_chain sb c' (x # bs)" using fat_chain_suffix unfolding xs by blast
    then have "xs = bs" using fat_chain_unique [OF assms a, of bs] by (simp only: fat_chain.simps simp_thms)
    then have "length xs = length bs" by (rule arg_cong)
    then show False unfolding xs by simp
  qed
  moreover have "distinct xs" using Cons.IH [of "fat_table sb x"] Cons.prems by simp
  ultimately show ?case by simp
qed simp

lemma fat_chain_keep:
  assumes "same_volume sb sb'" "\<And>e. e \<in> set xs \<Longrightarrow> fat_table sb' e = fat_table sb e"
  shows "fat_chain sb' c xs = fat_chain sb c xs"
  using assms(2)
proof (induction xs arbitrary: c)
  case (Cons x xs)
  then show ?case using assms(1) by (auto simp: same_volume_def)
qed simp

text \<open>The requests for discarding the runs \<open>rs\<close> of clusters, each given by its first and last cluster.\<close>

definition discard_runs :: "fat_sb \<Rightarrow> (int \<times> int) list \<Rightarrow> (int \<times> int) list" where
  "discard_runs sb = map (\<lambda>(f, l). (fat_clus_to_blknr sb f, (l - f + 1) * int (sec_per_clus sb)))"

definition discards :: "fat_sb \<Rightarrow> fat_sb \<Rightarrow> int list \<Rightarrow> bool" where
  "discards sb sb' cs \<longleftrightarrow>
     (if opt_discard sb
      then \<exists>rs. s_discards sb' = s_discards sb @ discard_runs sb rs \<and> concat (map (\<lambda>(f, l). [f..l]) rs) = cs
      else s_discards sb' = s_discards sb)"

lemma discard_runs_volume: "same_volume sb sb1 \<Longrightarrow> discard_runs sb1 = discard_runs sb"
  by (simp add: fun_eq_iff discard_runs_def fat_clus_to_blknr_def same_volume_def)

lemma discards_step:
  assumes "s_discards sb1 = s_discards (fst (free_discard sb c v fc))" "opt_discard sb \<longrightarrow> fc \<le> c" "same_volume sb sb1"
    and "discards sb1 sb' ([snd (free_discard sb c v fc)..v - 1] @ cs)"
  shows "discards sb sb' ([fc..c - 1] @ c # cs)"
proof (cases "opt_discard sb")
  case False
  then show ?thesis using assms by (simp add: discards_def free_discard_def same_volume_def)
next
  case True
  then have "opt_discard sb1" using assms(3) by (simp add: same_volume_def)
  then obtain rs where rs: "s_discards sb' = s_discards sb1 @ discard_runs sb rs"
    "concat (map (\<lambda>(f, l). [f..l]) rs) = [snd (free_discard sb c v fc)..v - 1] @ cs"
    using assms(4) discard_runs_volume [OF assms(3)] by (auto simp: discards_def)
  have app: "[fc..c - 1] @ c # cs = [fc..c] @ cs" using assms(2) True upto_rec2 [of fc c] by simp
  show ?thesis
  proof (cases "v = c + 1")
    case v: True
    then show ?thesis using True rs assms(1) app by (auto simp: discards_def free_discard_def)
  next
    case v: False
    then have "s_discards sb' = s_discards sb @ discard_runs sb ((fc, c) # rs)"
      "concat (map (\<lambda>(f, l). [f..l]) ((fc, c) # rs)) = [fc..c] @ cs"
      using True rs assms(1) by (simp_all add: free_discard_def discard_runs_def)
    then show ?thesis using True app unfolding discards_def by auto
  qed
qed

lemma fat_free_loop_chain:
  assumes "fat_chain sb c cs" "cs \<noteq> []" "length cs \<le> n" "free_state R sb bhs" "fe_ok sb fe" "io_ok sb" "opt_discard sb \<longrightarrow> fc \<le> c"
    and "R \<subseteq> (\<Union>e \<in> set cs. ent_blocks sb e)"
  shows "\<exists>sb' d'. fat_free_loop n sb fe c fc bhs d = Some (None, sb', d') \<and> free_state {} sb' [] \<and> same_volume sb sb' \<and> io_ok sb' \<and>
    (\<forall>e. fat_entry_of sb e \<longrightarrow> fat_table sb' e = (if e \<in> set cs then FAT_ENT_FREE else fat_table sb e)) \<and>
    free_clusters sb' = (count_up ^^ length cs) (free_clusters sb) \<and> free_clus_valid sb' = free_clus_valid sb \<and> discards sb sb' ([fc..c - 1] @ cs)"
  using assms
proof (induction cs arbitrary: n sb fe c fc bhs d R)
  case (Cons x cs)
  have c: "x = c" "FAT_START_ENT \<le> c" "c < max_cluster sb" "fat_table sb c \<noteq> FAT_ENT_FREE" and tl: "fat_chain sb (fat_table sb c) cs"
    using Cons.prems(1) by auto
  have ok: "fat_ok sb" using Cons.prems(4) by (simp add: free_state_def)
  have dist: "c \<notin> set cs" using fat_chain_distinct [OF ok Cons.prems(1)] c(1) by simp
  obtain m where n: "n = Suc m" "length cs \<le> m" using Cons.prems(3) by (cases n) auto
  let ?v = "fat_table sb c" and ?fc = "snd (free_discard sb c (fat_table sb c) fc)"
  let ?R = "\<Union>e \<in> set cs. ent_blocks sb e"
  have R: "R \<subseteq> ?R \<union> ent_blocks sb c" using Cons.prems(8) c(1) by auto
  show ?case
  proof (rule free_iter [OF Cons.prems(4,5) c(2-4) R, of fc d])
    fix sb1 fe1 bhs1 d1
    assume st: "free_state ?R sb1 bhs1" "fe_ok sb1 fe1" and v: "same_volume sb sb1" and io: "io_ok sb \<longrightarrow> io_ok sb1"
      and tab: "\<And>e. fat_entry_of sb e \<Longrightarrow> fat_table sb1 e = (if e = c then FAT_ENT_FREE else fat_table sb e)"
      and cnt: "free_clusters sb1 = count_up (free_clusters sb)" and val: "free_clus_valid sb1 = free_clus_valid sb"
      and disc: "s_discards sb1 = s_discards (fst (free_discard sb c ?v fc))"
      and loop: "\<And>n. fat_free_loop (Suc n) sb fe c fc bhs d =
         (if ?v \<noteq> FAT_ENT_EOF then fat_free_loop n sb1 fe1 ?v ?fc bhs1 d1
          else let (err, sb') = fat_flush_bhs (s_synchronous sb1) sb1 bhs1 in Some (err, sb', d1))"
    have mx: "max_cluster sb1 = max_cluster sb" using v by (simp add: same_volume_def)
    show ?thesis
    proof (cases cs)
      case Nil
      then have eof: "?v = FAT_ENT_EOF" using tl by simp
      obtain err sb' where fl: "fat_flush_bhs (s_synchronous sb1) sb1 bhs1 = (err, sb')" by fastforce
      have st1: "set bhs1 \<subseteq> fat_blocks sb1" "fat_ok sb1" "mirrored_but ({} \<union> set bhs1) sb1" using st(1) Nil by (simp_all add: free_state_def)
      note f = fat_flush_bhs_copies [OF fl st1]
      have err: "err = None" using f(2) io Cons.prems(6) by simp
      have "free_state {} sb' []" using f(3) [OF err] same_table_ok [OF f(1)] st1(2) by (simp add: free_state_def)
      moreover have "fat_table sb' e = (if e \<in> set (x # cs) then FAT_ENT_FREE else fat_table sb e)" if "fat_entry_of sb e" for e
        using same_table_table [OF st1(2) f(1), of e] tab [OF that] that mx Nil c(1) by simp
      moreover have "io_ok sb'" "free_clusters sb' = count_up (free_clusters sb)" "s_discards sb' = s_discards sb1"
        "free_clus_valid sb' = free_clus_valid sb"
        using f(1) io Cons.prems(6) cnt val by (simp_all add: same_table_def counters_def)
      moreover have "discards sb sb' ([fc..c - 1] @ x # cs)"
      proof -
        have "c + 1 \<noteq> FAT_ENT_EOF" using c(3) max_cluster_EOF [OF ok] by linarith
        then have "?fc = (if opt_discard sb then FAT_ENT_EOF else fc)" using eof by (auto simp: free_discard_def)
        then have "discards sb1 sb' ([?fc..?v - 1] @ cs)"
          using \<open>s_discards sb' = s_discards sb1\<close> v eof Nil
          by (auto simp: discards_def same_volume_def discard_runs_def intro: exI [of _ "[]"])
        then show ?thesis using discards_step [OF disc Cons.prems(7) v] c(1) by simp
      qed
      ultimately show ?thesis using loop [of m] n eof fl err Nil same_volume_trans [OF v same_table_volume [OF f(1)]] by auto
    next
      case (Cons y ys)
      have ne: "?v \<noteq> FAT_ENT_EOF" using tl Cons max_cluster_EOF [OF ok] by auto
      have "fat_table sb1 e = fat_table sb e" if "e \<in> set cs" for e
        using tab [of e] dist fat_chain_range [OF tl that] that by auto
      then have "fat_chain sb1 ?v cs" using tl fat_chain_keep [OF v, of cs ?v] by blast
      moreover have "opt_discard sb1 \<longrightarrow> ?fc \<le> ?v" using Cons.prems(7) v by (auto simp: free_discard_def same_volume_def)
      ultimately obtain sb' d' where ih: "fat_free_loop m sb1 fe1 ?v ?fc bhs1 d1 = Some (None, sb', d')" "free_state {} sb' []"
        "same_volume sb1 sb'" "io_ok sb'"
        "\<forall>e. fat_entry_of sb1 e \<longrightarrow> fat_table sb' e = (if e \<in> set cs then FAT_ENT_FREE else fat_table sb1 e)"
        "free_clusters sb' = (count_up ^^ length cs) (free_clusters sb1)" "discards sb1 sb' ([?fc..?v - 1] @ cs)"
        "free_clus_valid sb' = free_clus_valid sb1"
        using Cons.IH [of sb1 ?v m ?R bhs1 fe1 ?fc d1] n(2) st io Cons.prems(6) Cons ent_blocks_volume [OF v] by auto
      have "discards sb sb' ([fc..c - 1] @ x # cs)" using discards_step [OF disc Cons.prems(7) v ih(7)] c(1) by simp
      moreover have "free_clusters sb' = (count_up ^^ length (x # cs)) (free_clusters sb)"
        using ih(6) cnt by (simp add: funpow_swap1)
      moreover have "\<forall>e. fat_entry_of sb e \<longrightarrow> fat_table sb' e = (if e \<in> set (x # cs) then FAT_ENT_FREE else fat_table sb e)"
        using ih(5) tab mx c(1) by auto
      ultimately show ?thesis using loop [of m] n(1) ne ih val same_volume_trans [OF v ih(3)] by auto
    qed
  qed (use Cons.prems(6) in simp)
qed simp

lemma used_card: "fat_ok sb \<Longrightarrow> card (used_entries sb) < nat (max_cluster sb)"
proof -
  assume "fat_ok sb"
  then have "2 \<le> max_cluster sb" by (simp add: fat_ok_def)
  moreover have "card (used_entries sb) \<le> card {FAT_START_ENT ..< max_cluster sb}"
    by (rule card_mono) (auto simp: used_entries_def)
  ultimately show ?thesis by simp
qed

lemma fat_chain_used: "fat_chain sb c xs \<Longrightarrow> set xs \<subseteq> used_entries sb"
  by (induction xs arbitrary: c) (auto simp: used_entries_def)

lemma fat_chain_length: "fat_ok sb \<Longrightarrow> fat_chain sb c xs \<Longrightarrow> length xs < nat (max_cluster sb)"
  using fat_chain_distinct [of sb c xs] fat_chain_used [of sb c xs] card_mono [OF finite_used, of "set xs" sb] used_card [of sb]
  by (simp add: distinct_card)

lemma count_up_times:
  "unat f + n < 2 ^ 32 - 1 \<Longrightarrow> (count_up ^^ n) f = f + of_nat n"
proof (induction n)
  case (Suc n)
  have "unat (f + of_nat n) = unat f + n" using Suc.prems by (simp add: unat_word_ariths unat_of_nat)
  then have "unat (f + of_nat n) \<noteq> unat (0xFFFFFFFF :: u32)" using Suc.prems by (simp add: One_nat_def)
  then have "f + of_nat n \<noteq> 0xFFFFFFFF" by metis
  then show ?case using Suc by (simp add: count_up_def add_ac)
qed simp

section \<open>Properties\<close>

text \<open>The small volume with a chain of the single cluster 3.\<close>

definition demo_chain :: fat_sb where
  "demo_chain = demo_fat\<lparr>bh_data := (\<lambda>_. [0, 0, 0, 0, 0xF0, 0xFF] @ replicate 506 0)\<rparr>"

lemma demo_chain_ok: "fat_ok demo_chain" "io_ok demo_chain" "mirrored_but {} demo_chain" "max_cluster demo_chain = 12"
  by (simp_all add: demo_chain_def demo_fat_def fat_ok_def s_blocksize_def ent_bad_def ent_pos_def ent_size_def io_ok_def mirrored_but_def)

lemma demo_chain_3: "fat_chain demo_chain 3 [3]" "opt_errors demo_chain = FAT_ERRORS_RO" "free_clusters demo_chain = 0xFFFFFFFF"
  by (simp_all add: demo_chain_def demo_fat_def fat_table_def ent_raw_def fat_byte_def ent_pos_def ent_bad_def s_blocksize_def
      rdw_def le_dec.simps Let_def)

text \<open>
  C12. \<open>fat_free_clusters\<close> ends for every start and every content of the table, also when chains are cut, joined or
  cyclic: no cluster is freed twice, since a second visit finds the entry free.
\<close>
theorem fat_free_clusters_ends:
  assumes "fat_ok sb" "opt_errors sb \<noteq> FAT_ERRORS_PANIC"
  shows "\<exists>err sb'. fat_free_clusters sb c = Some (err, sb')"
proof -
  have "free_state UNIV sb []" using assms by (simp add: free_state_def mirrored_but_def)
  from fat_free_loop_total [OF this fatent_init_ok assms(2) used_card [OF assms(1)]]
  obtain err sb' d where "fat_free_loop (nat (max_cluster sb)) sb fatent_init c c [] False = Some (err, sb', d)" by force
  then show ?thesis by (simp add: fat_free_clusters_def)
qed

theorem fat_free_clusters_ends_witness: "\<exists>err sb'. fat_free_clusters demo_chain 3 = Some (err, sb')"
  by (rule fat_free_clusters_ends [OF demo_chain_ok(1)]) (simp add: demo_chain_3)

lemma fat_free_clusters_chain:
  assumes "fat_ok sb" "mirrored_but R sb" "io_ok sb" "fat_chain sb c cs" "cs \<noteq> []" "R \<subseteq> (\<Union>e \<in> set cs. ent_blocks sb e)"
  obtains sb' where "fat_free_clusters sb c = Some (None, sb')" "fat_ok sb'" "mirrored_but {} sb'" "io_ok sb'" "same_volume sb sb'"
    "\<And>e. fat_entry_of sb e \<Longrightarrow> fat_table sb' e = (if e \<in> set cs then FAT_ENT_FREE else fat_table sb e)"
    "free_clusters sb' = (count_up ^^ length cs) (free_clusters sb)" "discards sb sb' cs" "free_clus_valid sb' = free_clus_valid sb"
proof -
  have st: "free_state R sb []" using assms(1,2) by (simp add: free_state_def)
  have "length cs \<le> nat (max_cluster sb)" using fat_chain_length [OF assms(1,4)] by simp
  then obtain sb' d' where r: "fat_free_loop (nat (max_cluster sb)) sb fatent_init c c [] False = Some (None, sb', d')" "free_state {} sb' []"
    "same_volume sb sb'" "io_ok sb'"
    "\<And>e. fat_entry_of sb e \<Longrightarrow> fat_table sb' e = (if e \<in> set cs then FAT_ENT_FREE else fat_table sb e)"
    "free_clusters sb' = (count_up ^^ length cs) (free_clusters sb)" "discards sb sb' ([c..c - 1] @ cs)"
    "free_clus_valid sb' = free_clus_valid sb"
    using fat_free_loop_chain [OF assms(4,5) _ st fatent_init_ok assms(3) _ assms(6), of "nat (max_cluster sb)" c False] by auto
  let ?sb = "if d' then mark_fsinfo_dirty sb' else sb'"
  have b: "same_blocks sb' ?sb" by simp
  have cnt: "free_clusters ?sb = free_clusters sb'" "s_discards ?sb = s_discards sb'" "free_clus_valid ?sb = free_clus_valid sb'" by (simp_all add: mark_fsinfo_dirty_def)
  note f = same_blocks_table [OF b]
  show ?thesis
  proof (rule that [of ?sb])
    show "fat_free_clusters sb c = Some (None, ?sb)" using r(1) by (simp add: fat_free_clusters_def)
    show "fat_ok ?sb" "mirrored_but {} ?sb" "io_ok ?sb" using r(2,4) f(2,3,5) by (simp_all add: free_state_def)
    show "same_volume sb ?sb" using same_volume_trans [OF r(3) f(1)] .
    show "fat_table ?sb e = (if e \<in> set cs then FAT_ENT_FREE else fat_table sb e)" if "fat_entry_of sb e" for e
      using r(5) [OF that] f(4) by simp
    show "free_clusters ?sb = (count_up ^^ length cs) (free_clusters sb)" using r(6) cnt by simp
    show "discards sb ?sb cs" using r(7) cnt by (simp add: discards_def)
    show "free_clus_valid ?sb = free_clus_valid sb" using r(8) cnt by simp
  qed
qed

text \<open>
  C10. \<open>fat_free_clusters\<close> on a chain of clusters, when all requests to the device succeed: exactly the entries of the
  chain become free, every copy of the table is the same as the first one again, the count of free clusters grows by
  the length of the chain when it is known, and on a volume mounted with \<open>discard\<close> the discarded runs are together the
  clusters of the chain, in their order.
\<close>
theorem fat_free_clusters_frees_chain:
  assumes "fat_ok sb" "mirrored_but {} sb" "io_ok sb" "fat_chain sb c cs" "cs \<noteq> []"
    and "unat (free_clusters sb) + length cs < 2 ^ 32 - 1 \<or> free_clusters sb = 0xFFFFFFFF"
  shows "\<exists>sb'. fat_free_clusters sb c = Some (None, sb') \<and> mirrored_but {} sb' \<and>
    (\<forall>e. FAT_START_ENT \<le> e \<and> e < max_cluster sb \<longrightarrow> fat_table sb' e = (if e \<in> set cs then FAT_ENT_FREE else fat_table sb e)) \<and>
    free_clusters sb' = (if free_clusters sb = 0xFFFFFFFF then 0xFFFFFFFF else free_clusters sb + of_nat (length cs)) \<and>
    (opt_discard sb \<longrightarrow>
       (\<exists>rs. s_discards sb' = s_discards sb @ map (\<lambda>(f, l). (fat_clus_to_blknr sb f, (l - f + 1) * int (sec_per_clus sb))) rs \<and>
             concat (map (\<lambda>(f, l). [f..l]) rs) = cs))"
proof -
  have "(count_up ^^ n) 0xFFFFFFFF = 0xFFFFFFFF" for n by (induction n) (simp_all add: count_up_def)
  then have cnt: "(count_up ^^ length cs) (free_clusters sb) =
      (if free_clusters sb = 0xFFFFFFFF then 0xFFFFFFFF else free_clusters sb + of_nat (length cs))"
    using assms(6) count_up_times [of "free_clusters sb" "length cs"]
    by (cases "free_clusters sb = 0xFFFFFFFF") simp_all
  show ?thesis
  proof (rule fat_free_clusters_chain [OF assms(1-5) empty_subsetI])
    fix sb'
    assume free: "fat_free_clusters sb c = Some (None, sb')" and "mirrored_but {} sb'"
      and tab: "\<And>e. fat_entry_of sb e \<Longrightarrow> fat_table sb' e = (if e \<in> set cs then FAT_ENT_FREE else fat_table sb e)"
      and "free_clusters sb' = (count_up ^^ length cs) (free_clusters sb)" and disc: "discards sb sb' cs"
    moreover have "opt_discard sb \<longrightarrow>
       (\<exists>rs. s_discards sb' = s_discards sb @ map (\<lambda>(f, l). (fat_clus_to_blknr sb f, (l - f + 1) * int (sec_per_clus sb))) rs \<and>
             concat (map (\<lambda>(f, l). [f..l]) rs) = cs)"
      using disc unfolding discards_def discard_runs_def by (simp split: if_splits)
    moreover have "\<forall>e. FAT_START_ENT \<le> e \<and> e < max_cluster sb \<longrightarrow> fat_table sb' e = (if e \<in> set cs then FAT_ENT_FREE else fat_table sb e)"
      using tab by simp
    ultimately show ?thesis unfolding cnt by blast
  qed
qed

theorem fat_free_clusters_frees_chain_witness:
  "\<exists>sb'. fat_free_clusters demo_chain 3 = Some (None, sb') \<and> fat_table sb' 3 = FAT_ENT_FREE \<and> free_clusters sb' = 0xFFFFFFFF"
proof -
  have "unat (free_clusters demo_chain) + length [3 :: int] < 2 ^ 32 - 1 \<or> free_clusters demo_chain = 0xFFFFFFFF"
    by (simp add: demo_chain_3)
  from fat_free_clusters_frees_chain [OF demo_chain_ok(1,3,2) demo_chain_3(1) not_Cons_self2 this]
  obtain sb' where free: "fat_free_clusters demo_chain 3 = Some (None, sb')"
    and tab: "\<forall>e. FAT_START_ENT \<le> e \<and> e < max_cluster demo_chain \<longrightarrow> fat_table sb' e = (if e \<in> set [3] then FAT_ENT_FREE else fat_table demo_chain e)"
    and cnt: "free_clusters sb' = (if free_clusters demo_chain = 0xFFFFFFFF then 0xFFFFFFFF else free_clusters demo_chain + of_nat (length [3 :: int]))"
    by blast
  have "fat_table sb' 3 = FAT_ENT_FREE" using tab [rule_format, of 3] demo_chain_ok(4) by simp
  then show ?thesis using free cnt demo_chain_3(3) by auto
qed

end
