(* ===== verification/Vfat_Find.thy ===== *)
theory Vfat_Find
  imports Vfat_Alloc
begin

text \<open>
  What the search of \<open>fat_alloc_clusters\<close> finds and does to the table, and what \<open>fat_count_free_clusters\<close> counts.
\<close>

section \<open>Counting\<close>

definition free_entries :: "fat_sb \<Rightarrow> int set" where
  "free_entries sb = {e. FAT_START_ENT \<le> e \<and> e < max_cluster sb \<and> fat_table sb e = FAT_ENT_FREE}"

lemma fat_count_loop_counts:
  assumes "fat_ok sb" "io_ok sb" "FAT_START_ENT \<le> e" "e + int left = max_cluster sb" "fe_entry fe = e" "\<not> reread \<longrightarrow> fe_at sb fe e"
  shows "\<exists>sb'. fat_count_loop left reread sb fe k = Some (None, sb', k + card {x \<in> free_entries sb. e \<le> x}) \<and> same_table sb sb'"
  using assms
proof (induction left arbitrary: sb e fe reread k)
  case 0
  then have "{x \<in> free_entries sb. e \<le> x} = {}" by (auto simp: free_entries_def)
  then show ?case by (simp only: card.empty fat_count_loop.simps) simp
next
  case (Suc left)
  have e: "0 \<le> e" "e < max_cluster sb" using Suc.prems(3,4) by simp_all
  obtain sb1 fe1 where rd: "(if reread then fat_ent_read_block sb fe else Some (None, sb, fe)) = Some (None, sb1, fe1)"
    and t1: "same_table sb sb1" and at: "fe_at sb fe1 e"
  proof (cases reread)
    case True
    show ?thesis by (rule fat_ent_read_block_cases [OF Suc.prems(1,5) e]) (use True that Suc.prems(2) in auto)
  next
    case False
    then show ?thesis using that [of sb fe] Suc.prems(6) by simp
  qed
  have ok1: "fat_ok sb1" using same_table_ok [OF t1] Suc.prems(1) by simp
  have at1: "fe_at sb1 fe1 e" using at same_table_fields(5) [OF t1] by simp
  have tab: "fat_table sb1 x = fat_table sb x" if "FAT_START_ENT \<le> x" "x < max_cluster sb" for x
    using same_table_table [OF Suc.prems(1) t1, of x] that by simp
  have free1: "free_entries sb1 = free_entries sb" using tab same_table_fields(4) [OF t1] by (auto simp: free_entries_def)
  obtain m fe2 where nx: "fat_ent_next sb1 fe1 = Some (m, fe2)" "fe_entry fe2 = e + 1" "m \<longrightarrow> fe_at sb1 fe2 (e + 1)"
    using fat_ent_next_at [OF ok1 at1 e(1)] by blast
  let ?k = "if fat_table sb e = FAT_ENT_FREE then k + 1 else k"
  have "io_ok sb1" using t1 Suc.prems(2) by (simp add: same_table_def)
  then obtain sb2 where ih: "fat_count_loop left (\<not> m) sb1 fe2 ?k = Some (None, sb2, ?k + card {x \<in> free_entries sb1. e + 1 \<le> x})" "same_table sb1 sb2"
    using Suc.IH [of sb1 "e + 1" fe2 "\<not> m" ?k] ok1 Suc.prems(3,4) nx(2,3) same_table_fields(4) [OF t1] by auto
  have "{x \<in> free_entries sb. e \<le> x} = (if fat_table sb e = FAT_ENT_FREE then {e} else {}) \<union> {x \<in> free_entries sb. e + 1 \<le> x}"
    using e Suc.prems(3) by (auto simp: free_entries_def) (metis add1_zle_eq order_le_imp_less_or_eq)
  moreover have "finite {x \<in> free_entries sb. e + 1 \<le> x}"
    by (rule finite_subset [of _ "{e + 1 ..< max_cluster sb}"]) (auto simp: free_entries_def)
  ultimately have "card {x \<in> free_entries sb. e \<le> x} = (if fat_table sb e = FAT_ENT_FREE then 1 else 0) + card {x \<in> free_entries sb. e + 1 \<le> x}"
    by simp
  moreover have "ent_get sb1 fe1 = Some (fat_table sb e)" using ent_get_at [OF ok1 at1] tab [of e] Suc.prems(3) e by simp
  ultimately have "fat_count_loop (Suc left) reread sb fe k = Some (None, sb2, k + card {x \<in> free_entries sb. e \<le> x})"
    using rd nx(1) ih(1) free1 by simp
  then show ?case using same_table_trans [OF t1 ih(2)] by blast
qed

text \<open>
  C14. \<open>fat_count_free_clusters\<close>, when the count is not known and the table can be read, sets the count to the number
  of free entries of the table, each format included, and changes no entry; a known count is kept.
\<close>
theorem fat_count_free_clusters_counts:
  assumes "fat_ok sb" "io_ok sb"
  shows "\<exists>sb'. fat_count_free_clusters sb = Some (None, sb') \<and>
    (if free_clusters sb \<noteq> 0xFFFFFFFF \<and> free_clus_valid sb then sb' = sb
     else unat (free_clusters sb') = card {e. FAT_START_ENT \<le> e \<and> e < max_cluster sb \<and> fat_table sb e = FAT_ENT_FREE} \<and>
          free_clus_valid sb' \<and> (\<forall>e. FAT_START_ENT \<le> e \<and> e < max_cluster sb \<longrightarrow> fat_table sb' e = fat_table sb e))"
proof (cases "free_known sb \<and> free_clus_valid sb")
  case True
  then show ?thesis by (simp add: fat_count_free_clusters_def free_known_def)
next
  case False
  have mx: "2 \<le> max_cluster sb" "max_cluster sb < 2 ^ 28"
    using assms(1) max_cluster_EOF [OF assms(1)] by (simp_all add: fat_ok_def)
  obtain sb1 where l: "fat_count_loop (nat (max_cluster sb - FAT_START_ENT)) True sb (fatent_set_entry fatent_init FAT_START_ENT) 0 =
      Some (None, sb1, 0 + card {x \<in> free_entries sb. FAT_START_ENT \<le> x})" and t: "same_table sb sb1"
    using fat_count_loop_counts [OF assms order.refl, of "nat (max_cluster sb - FAT_START_ENT)" "fatent_set_entry fatent_init FAT_START_ENT" True 0] mx
    by (auto simp: fatent_set_entry_def)
  have set: "{x \<in> free_entries sb. FAT_START_ENT \<le> x} = free_entries sb" by (auto simp: free_entries_def)
  let ?sb = "mark_fsinfo_dirty (sb1\<lparr>free_clusters := of_nat (card (free_entries sb)), free_clus_valid := True\<rparr>)"
  have "card (free_entries sb) \<le> card {FAT_START_ENT ..< max_cluster sb}"
    by (rule card_mono) (auto simp: free_entries_def)
  then have "card (free_entries sb) < 2 ^ 32" using mx by simp
  then have "unat (free_clusters ?sb) = card (free_entries sb)" by (simp add: mark_fsinfo_dirty_def unat_of_nat)
  moreover have "free_clus_valid ?sb" by (simp add: mark_fsinfo_dirty_def)
  moreover have "fat_table ?sb e = fat_table sb e" if "FAT_START_ENT \<le> e \<and> e < max_cluster sb" for e
  proof -
    have "same_blocks sb1 ?sb"
      using same_blocks_trans [OF same_blocks_trans [OF same_blocks_upd(2) same_blocks_upd(4)] mark_fsinfo_blocks] by simp
    then show ?thesis using same_blocks_table(4) same_table_table [OF assms(1) t, of e] that by simp
  qed
  moreover have "fat_count_free_clusters sb = Some (None, ?sb)"
    using False l unfolding set fat_count_free_clusters_def by auto
  ultimately show ?thesis using False unfolding free_known_def free_entries_def by auto
qed

theorem fat_count_free_clusters_counts_witness:
  "\<exists>sb'. fat_count_free_clusters demo_fat = Some (None, sb') \<and> free_clus_valid sb' \<and>
     unat (free_clusters sb') = card {e. FAT_START_ENT \<le> e \<and> e < max_cluster demo_fat \<and> fat_table demo_fat e = FAT_ENT_FREE}"
proof -
  have unknown: "\<not> (free_clusters demo_fat \<noteq> 0xFFFFFFFF \<and> free_clus_valid demo_fat)" by (simp add: demo_fat_def)
  show ?thesis using fat_count_free_clusters_counts [OF demo_fat_ok(1,2)] unfolding if_not_P [OF unknown] by blast
qed

section \<open>Linking\<close>

text \<open>The table after the clusters \<open>cs\<close> have been appended one by one behind the cluster \<open>p\<close>, if there is one.\<close>

fun link_after :: "(int \<Rightarrow> int) \<Rightarrow> int option \<Rightarrow> int list \<Rightarrow> int \<Rightarrow> int" where
  "link_after T p [] = T"
| "link_after T p (c # cs) = link_after (case p of None \<Rightarrow> T(c := FAT_ENT_EOF) | Some q \<Rightarrow> T(c := FAT_ENT_EOF, q := c)) (Some c) cs"

primrec linked :: "(int \<Rightarrow> int) \<Rightarrow> int list \<Rightarrow> bool" where
  "linked T [] \<longleftrightarrow> True"
| "linked T (c # cs) \<longleftrightarrow> T c = (case cs of [] \<Rightarrow> FAT_ENT_EOF | d # _ \<Rightarrow> d) \<and> linked T cs"

lemma link_after_frame: "x \<notin> set cs \<Longrightarrow> p \<noteq> Some x \<Longrightarrow> link_after T p cs x = T x"
  by (induction T p cs rule: link_after.induct) (auto split: option.splits)

lemma link_after_hd: "cs \<noteq> [] \<Longrightarrow> q \<notin> set cs \<Longrightarrow> link_after T (Some q) cs q = hd cs"
  by (cases cs) (auto simp: link_after_frame)

lemma link_after_linked: "distinct cs \<Longrightarrow> (\<And>q. p = Some q \<Longrightarrow> q \<notin> set cs) \<Longrightarrow> linked (link_after T p cs) cs"
proof (induction T p cs rule: link_after.induct)
  case (2 T p c cs)
  let ?T = "case p of None \<Rightarrow> T(c := FAT_ENT_EOF) | Some q \<Rightarrow> T(c := FAT_ENT_EOF, q := c)"
  have c: "c \<notin> set cs" "p \<noteq> Some c" using "2.prems" by auto
  have "link_after ?T (Some c) cs c = (case cs of [] \<Rightarrow> FAT_ENT_EOF | d # _ \<Rightarrow> d)"
  proof (cases cs)
    case Nil
    then show ?thesis using c(2) by (auto split: option.splits)
  next
    case (Cons d ds)
    then show ?thesis using link_after_hd [of cs c ?T] c(1) by simp
  qed
  then show ?case using "2.IH" "2.prems" by simp
qed simp

lemma link_after_cong:
  assumes "\<And>x. P x \<Longrightarrow> T x = T' x"
  shows "P x \<Longrightarrow> link_after T p cs x = link_after T' p cs x"
  using assms
proof (induction cs arbitrary: T T' p)
  case (Cons c cs)
  let ?u = "\<lambda>T. case p of None \<Rightarrow> T(c := FAT_ENT_EOF) | Some q \<Rightarrow> T(c := FAT_ENT_EOF, q := c)"
  have "P x \<Longrightarrow> ?u T x = ?u T' x" for x using Cons.prems(2) by (auto split: option.splits)
  then show ?case using Cons.IH [OF Cons.prems(1), of "?u T" "?u T'"] by simp
qed simp

section \<open>The search\<close>

text \<open>The entries that the search visits, from entry \<open>e\<close> on.\<close>

primrec walk :: "fat_sb \<Rightarrow> int \<Rightarrow> int list \<Rightarrow> bool" where
  "walk sb e [] \<longleftrightarrow> True"
| "walk sb e (x # xs) \<longleftrightarrow> x = (if ge_max sb e then FAT_START_ENT else e) \<and> walk sb (x + 1) xs"

definition last_of :: "int list \<Rightarrow> int option" where
  "last_of clus = (if clus = [] then None else Some (last clus))"

definition count_down :: "u32 \<Rightarrow> u32" where
  "count_down f = (if f \<noteq> 0xFFFFFFFF then f - 1 else f)"

definition prev_at :: "fat_sb \<Rightarrow> fat_entry \<Rightarrow> int list \<Rightarrow> bool" where
  "prev_at sb prev clus \<longleftrightarrow>
     (case last_of clus of None \<Rightarrow> fe_bhs prev = [] | Some q \<Rightarrow> fe_at sb prev q \<and> fat_entry_of sb q)"

lemma fe_at_bhs: "fe_at sb fe e \<Longrightarrow> fe_bhs fe \<noteq> [] \<and> length (fe_bhs fe) \<le> 2"
  by (auto simp: fe_at_def Let_def)

lemma length_collect: "length (fat_collect_bhs bhs fe) \<le> length bhs + length (fe_bhs fe)"
proof -
  have "length (fold (\<lambda>b bhs. if b \<in> set bhs then bhs else bhs @ [b]) xs bhs) \<le> length bhs + length xs" for xs :: "nat list"
  proof (induction xs arbitrary: bhs)
    case (Cons x xs)
    show ?case using Cons.IH [of bhs] Cons.IH [of "bhs @ [x]"] by auto
  qed simp
  then show ?thesis by (simp add: fat_collect_bhs_def)
qed

text \<open>Taking the free entry \<open>c\<close>.\<close>

lemma alloc_take:
  assumes "free_state {} sb bhs" "fe_at sb fe c" "fat_entry_of sb c" "prev_at sb prev clus" "set (fe_bhs prev) \<subseteq> set bhs"
  obtains sb1 sb2 sb3 where "ent_put sb fe FAT_ENT_EOF = Some sb1"
    "(if fe_bhs prev \<noteq> [] then ent_put sb1 prev c else Some sb1) = Some sb2"
    "sb3 = (if free_known sb2 then sb2\<lparr>prev_free := word_of_int c, free_clusters := free_clusters sb2 - 1\<rparr> else sb2\<lparr>prev_free := word_of_int c\<rparr>)"
    "free_state {} sb3 (fat_collect_bhs bhs fe)" "same_volume sb sb3" "io_ok sb3 = io_ok sb"
    "\<And>x. 0 \<le> x \<Longrightarrow> fat_table sb3 x = link_after (fat_table sb) (last_of clus) [c] x"
    "prev_free sb3 = word_of_int c" "free_clusters sb3 = count_down (free_clusters sb)"
    "free_clus_valid sb3 = free_clus_valid sb" "s_discards sb3 = s_discards sb"
proof -
  have st: "fat_ok sb" "set bhs \<subseteq> fat_blocks sb" "mirrored_but (set bhs) sb" using assms(1) by (simp_all add: free_state_def)
  have eof: "fat_value sb FAT_ENT_EOF" by (simp add: fat_value_def)
  obtain sb1 where p1: "ent_put sb fe FAT_ENT_EOF = Some sb1" "fat_ok sb1" "same_volume sb sb1" "io_ok sb1 = io_ok sb"
    "mirrored_but (set bhs \<union> set (fe_bhs fe)) sb1"
    "\<And>x. 0 \<le> x \<Longrightarrow> fat_table sb1 x = (if x = c then FAT_ENT_EOF else fat_table sb x)" "counters sb1 = counters sb"
    using ent_put_step [OF st(1) assms(2,3) eof st(3)] by metis
  note f1 = fat_entry_values [OF p1(3)]
  let ?B = "set bhs \<union> set (fe_bhs fe)"
  obtain sb2 where p2: "(if fe_bhs prev \<noteq> [] then ent_put sb1 prev c else Some sb1) = Some sb2" "fat_ok sb2" "same_volume sb1 sb2"
    "io_ok sb2 = io_ok sb1" "mirrored_but ?B sb2"
    "\<And>x. 0 \<le> x \<Longrightarrow> fat_table sb2 x = (if last_of clus = Some x then c else fat_table sb1 x)" "counters sb2 = counters sb1"
  proof (cases "last_of clus")
    case None
    then show ?thesis using that [of sb1] assms(4) p1 by (simp add: prev_at_def)
  next
    case (Some q)
    then have q: "fe_at sb1 prev q" "fat_entry_of sb1 q" using assms(4) f1 by (simp_all add: prev_at_def)
    have v: "fat_value sb1 c" using assms(3) f1 by (simp add: fat_value_def)
    have B: "?B \<union> set (fe_bhs prev) = ?B" using assms(5) by auto
    show ?thesis
    proof (rule ent_put_step [OF p1(2) q v p1(5)])
      fix sb2
      assume "ent_put sb1 prev c = Some sb2" "fat_ok sb2" "same_volume sb1 sb2" "io_ok sb2 = io_ok sb1"
        "mirrored_but (?B \<union> set (fe_bhs prev)) sb2"
        "\<And>x. 0 \<le> x \<Longrightarrow> fat_table sb2 x = (if x = q then c else fat_table sb1 x)" "counters sb2 = counters sb1"
      then show ?thesis using that [of sb2] fe_at_bhs [OF q(1)] Some unfolding B by auto
    qed
  qed
  define sb3 where "sb3 = (if free_known sb2 then sb2\<lparr>prev_free := word_of_int c, free_clusters := free_clusters sb2 - 1\<rparr> else sb2\<lparr>prev_free := word_of_int c\<rparr>)"
  have b: "same_blocks sb2 sb3" by (simp add: sb3_def same_blocks_def same_volume_def)
  note f3 = same_blocks_table [OF b]
  have vol: "same_volume sb sb3" using same_volume_trans [OF same_volume_trans [OF p1(3) p2(3)] f3(1)] .
  have cnt: "counters sb2 = counters sb" using p1(7) p2(7) by simp
  show ?thesis
  proof (rule that [OF p1(1) p2(1) sb3_def])
    show "free_state {} sb3 (fat_collect_bhs bhs fe)"
      using p2(2,5) f3(2,3) st(2) fe_at_blocks [OF st(1) assms(2,3)] fat_blocks_volume [OF vol]
      by (simp add: free_state_def fat_collect_bhs_set)
    show "fat_table sb3 x = link_after (fat_table sb) (last_of clus) [c] x" if "0 \<le> x" for x
      using p1(6) [OF that] p2(6) [OF that] f3(4) by (auto split: option.splits)
  qed (use vol p1(4) p2(4) f3(5) cnt in \<open>simp_all add: sb3_def count_down_def free_known_def counters_def\<close>)
qed

definition alloc_state :: "fat_sb \<Rightarrow> bool \<Rightarrow> fat_entry \<Rightarrow> fat_entry \<Rightarrow> nat list \<Rightarrow> int list \<Rightarrow> bool" where
  "alloc_state sb reread fe prev bhs clus \<longleftrightarrow>
     free_state {} sb bhs \<and> io_ok sb \<and> prev_at sb prev clus \<and> set (fe_bhs prev) \<subseteq> set bhs \<and>
     (\<not> reread \<longrightarrow> fe_at sb fe (fe_entry fe) \<and> 0 \<le> fe_entry fe \<and> fe_entry fe < max_cluster sb)"

definition alloc_result :: "fat_sb \<Rightarrow> nat list \<Rightarrow> int list \<Rightarrow> int list \<Rightarrow> nat \<Rightarrow> errno option \<times> fat_sb \<times> nat list \<times> int list \<Rightarrow> bool" where
  "alloc_result sb bhs clus fs k r \<longleftrightarrow>
     (case r of (err, sb', bhs', clus') \<Rightarrow>
        clus' = clus @ take k fs \<and> free_state {} sb' bhs' \<and> io_ok sb' \<and> same_volume sb sb' \<and> s_discards sb' = s_discards sb \<and>
        length bhs' \<le> length bhs + 2 * length (take k fs) \<and>
        set bhs' \<subseteq> set bhs \<union> (\<Union>x \<in> set (take k fs). ent_blocks sb x) \<and>
        (\<forall>x. fat_entry_of sb x \<longrightarrow> fat_table sb' x = link_after (fat_table sb) (last_of clus) (take k fs) x) \<and>
        (if k \<le> length fs
         then err = None \<and> free_clusters sb' = (count_down ^^ k) (free_clusters sb) \<and> free_clus_valid sb' = free_clus_valid sb \<and>
              (0 < k \<longrightarrow> prev_free sb' = word_of_int (last (take k fs)))
         else err = Some ENOSPC \<and> free_clusters sb' = 0 \<and> free_clus_valid sb'))"

text \<open>The block of the next entry is in the buffers, or it is read.\<close>

lemma alloc_read:
  assumes "alloc_state sb reread fe prev bhs clus" "walk sb (fe_entry fe) (c # todo)" "fat_entry_of sb c"
  obtains sb1 fe1 where
    "(if reread then fat_ent_read_block sb (fatent_set_entry fe (if ge_max sb (fe_entry fe) then FAT_START_ENT else fe_entry fe))
      else Some (None, sb, fe)) = Some (None, sb1, fe1)"
    "same_table sb sb1" "bh_data sb1 = bh_data sb" "fe_at sb fe1 c"
proof (cases reread)
  case True
  have c: "c = (if ge_max sb (fe_entry fe) then FAT_START_ENT else fe_entry fe)" using assms(2) by simp
  have ok: "fat_ok sb" "io_ok sb" using assms(1) by (simp_all add: alloc_state_def free_state_def)
  have e: "fe_entry (fatent_set_entry fe c) = c" by (simp add: fatent_set_entry_def)
  show ?thesis
    by (rule fat_ent_read_block_cases [OF ok(1) e])
      (use True assms(3) that ok(2) in \<open>auto simp only: c [symmetric] if_True\<close>)
next
  case False
  then show ?thesis using that [of sb fe] assms by (simp add: alloc_state_def ge_max_def)
qed

lemma free_state_table:
  assumes "same_table sb sb'" "bh_data sb' = bh_data sb"
  shows "free_state {} sb' bhs = free_state {} sb bhs" "prev_at sb' prev clus = prev_at sb prev clus"
  using same_table_ok [OF assms(1)] same_table_fields [OF assms(1)] mirrored_table [OF assms]
  by (simp_all add: free_state_def prev_at_def split: option.splits)

lemma alloc_result_next:
  assumes "alloc_result sb1 bhs1 clus1 fs1 k1 r" "same_volume sb sb1" "s_discards sb1 = s_discards sb"
    and "clus1 @ take k1 fs1 = clus @ take k fs" "k1 \<le> length fs1 \<longleftrightarrow> k \<le> length fs"
    and "length bhs1 + 2 * length (take k1 fs1) \<le> length bhs + 2 * length (take k fs)"
    and "set bhs1 \<union> (\<Union>x \<in> set (take k1 fs1). ent_blocks sb x) \<subseteq> set bhs \<union> (\<Union>x \<in> set (take k fs). ent_blocks sb x)"
    and "\<And>x. fat_entry_of sb x \<Longrightarrow> link_after (fat_table sb1) (last_of clus1) (take k1 fs1) x = link_after (fat_table sb) (last_of clus) (take k fs) x"
    and "k \<le> length fs \<Longrightarrow> (count_down ^^ k1) (free_clusters sb1) = (count_down ^^ k) (free_clusters sb)"
    and "k \<le> length fs \<Longrightarrow> free_clus_valid sb1 = free_clus_valid sb"
    and "k \<le> length fs \<Longrightarrow> 0 < k \<Longrightarrow> 0 < k1 \<and> last (take k1 fs1) = last (take k fs)"
  shows "alloc_result sb bhs clus fs k r"
proof -
  obtain err sb' bhs' clus' where r: "r = (err, sb', bhs', clus')" by (metis prod_cases4)
  have mx: "max_cluster sb1 = max_cluster sb" using assms(2) by (simp add: same_volume_def)
  have vol: "same_volume sb1 sb' \<Longrightarrow> same_volume sb sb'" using same_volume_trans [OF assms(2)] .
  have bl: "(\<Union>x \<in> X. ent_blocks sb1 x) = (\<Union>x \<in> X. ent_blocks sb x)" for X using ent_blocks_volume [OF assms(2)] by simp
  note a = assms(1) [unfolded alloc_result_def r prod.case bl]
  have "set bhs' \<subseteq> set bhs \<union> (\<Union>x \<in> set (take k fs). ent_blocks sb x)" using a assms(7) by blast
  then show ?thesis using a assms(3-6,8-11) vol mx unfolding alloc_result_def r by (auto split: if_splits)
qed

lemma walk_volume: "same_volume sb sb1 \<Longrightarrow> walk sb1 e xs = walk sb e xs"
  by (induction xs arbitrary: e) (simp_all add: ge_max_def same_volume_def)

lemma alloc_loop_done:
  assumes "alloc_state sb reread fe prev bhs clus" "0 < k"
  shows "alloc_result sb bhs clus [] k (Some ENOSPC, sb\<lparr>free_clusters := 0, free_clus_valid := True\<rparr>, bhs, clus)"
proof -
  have b: "same_blocks sb (sb\<lparr>free_clusters := 0, free_clus_valid := True\<rparr>)"
    using same_blocks_trans [OF same_blocks_upd(2) same_blocks_upd(4)] by simp
  note f = same_blocks_table [OF b]
  show ?thesis using assms f by (simp add: alloc_result_def alloc_state_def free_state_def)
qed

lemma alloc_result_skip:
  assumes "same_table sb sb1" "alloc_result sb1 bhs clus fs k r" "fat_ok sb"
  shows "alloc_result sb bhs clus fs k r"
proof (rule alloc_result_next [OF assms(2) same_table_volume [OF assms(1)]])
  show "link_after (fat_table sb1) (last_of clus) (take k fs) x = link_after (fat_table sb) (last_of clus) (take k fs) x" if "fat_entry_of sb x" for x
    using same_table_table [OF assms(3,1)] that by (rule link_after_cong)
qed (use assms(1) in \<open>simp_all add: same_table_def counters_def\<close>)

lemma alloc_result_take:
  assumes "alloc_result sb3 bhs1 (clus @ [c]) fs k r" "same_volume sb sb3" "s_discards sb3 = s_discards sb"
    and "\<And>x. fat_entry_of sb x \<Longrightarrow> fat_table sb3 x = link_after (fat_table sb) (last_of clus) [c] x"
    and "length bhs1 \<le> length bhs + 2" "set bhs1 = set bhs \<union> ent_blocks sb c" "free_clusters sb3 = count_down (free_clusters sb)" "free_clus_valid sb3 = free_clus_valid sb"
    and "0 < k"
  shows "alloc_result sb bhs clus (c # fs) (Suc k) r"
proof (rule alloc_result_next [OF assms(1-3)])
  show "link_after (fat_table sb3) (last_of (clus @ [c])) (take k fs) x = link_after (fat_table sb) (last_of clus) (take (Suc k) (c # fs)) x"
    if "fat_entry_of sb x" for x
    using link_after_cong [where P = "fat_entry_of sb", of "fat_table sb3" "link_after (fat_table sb) (last_of clus) [c]" x "Some c" "take k fs"]
      assms(4) that by (simp add: last_of_def)
  show "set bhs1 \<union> (\<Union>x \<in> set (take k fs). ent_blocks sb x) \<subseteq> set bhs \<union> (\<Union>x \<in> set (take (Suc k) (c # fs)). ent_blocks sb x)"
    using assms(6) by auto
  show "0 < k \<and> last (take k fs) = last (take (Suc k) (c # fs))" if "Suc k \<le> length (c # fs)"
    using assms(9) that by auto
qed (use assms(5-8) in \<open>simp_all add: funpow_swap1\<close>)

lemma alloc_loop_spec:
  assumes "alloc_state sb reread fe prev bhs clus" "walk sb (fe_entry fe) todo" "distinct todo"
    and "\<forall>x \<in> set todo. FAT_START_ENT \<le> x \<and> x < max_cluster sb \<and> last_of clus \<noteq> Some x" "length clus < nr"
  shows "\<exists>r. fat_alloc_loop (length todo) reread nr sb fe prev bhs clus = Some r \<and>
    alloc_result sb bhs clus (filter (\<lambda>x. fat_table sb x = FAT_ENT_FREE) todo) (nr - length clus) r"
  using assms
proof (induction todo arbitrary: sb reread fe prev bhs clus)
  case Nil
  then show ?case using alloc_loop_done [OF Nil.prems(1), of "nr - length clus"] by simp
next
  case (Cons c todo)
  have c: "fat_entry_of sb c" "FAT_START_ENT \<le> c" using Cons.prems(4) by auto
  have st: "free_state {} sb bhs" "io_ok sb" "prev_at sb prev clus" "set (fe_bhs prev) \<subseteq> set bhs"
    using Cons.prems(1) by (simp_all add: alloc_state_def)
  have ok: "fat_ok sb" using st(1) by (simp add: free_state_def)
  obtain sb1 fe1 where rd: "(if reread then fat_ent_read_block sb (fatent_set_entry fe (if ge_max sb (fe_entry fe) then FAT_START_ENT else fe_entry fe))
      else Some (None, sb, fe)) = Some (None, sb1, fe1)" and t1: "same_table sb sb1" "bh_data sb1 = bh_data sb" and at: "fe_at sb fe1 c"
    using alloc_read [OF Cons.prems(1,2) c(1)] .
  have ok1: "fat_ok sb1" "io_ok sb1" using same_table_ok [OF t1(1)] ok t1(1) st(2) by (simp_all add: same_table_def)
  have mx1: "max_cluster sb1 = max_cluster sb" using same_table_fields(4) [OF t1(1)] .
  have at1: "fe_at sb1 fe1 c" "fe_entry fe1 = c" using at same_table_fields(5) [OF t1(1)] by (simp_all add: fe_at_def Let_def)
  have get: "ent_get sb1 fe1 = Some (fat_table sb1 c)" by (rule ent_get_at [OF ok1(1) at1(1)])
  have tab: "fat_table sb1 x = fat_table sb x" if "fat_entry_of sb x" for x using same_table_table [OF ok t1(1) that] .
  have fil: "filter (\<lambda>x. fat_table sb1 x = FAT_ENT_FREE) xs = filter (\<lambda>x. fat_table sb x = FAT_ENT_FREE) xs" if "set xs \<subseteq> set (c # todo)" for xs
  proof (rule filter_cong [OF refl])
    fix x assume "x \<in> set xs"
    then have "FAT_START_ENT \<le> x \<and> x < max_cluster sb" using Cons.prems(4) that by blast
    then have "fat_entry_of sb x" by simp
    then show "(fat_table sb1 x = FAT_ENT_FREE) = (fat_table sb x = FAT_ENT_FREE)" by (simp only: tab)
  qed
  have wk: "walk sb (c + 1) todo" using Cons.prems(2) unfolding walk.simps by blast
  define cont where "cont sb' prev' bhs' clus' =
    (if length todo = 0 then fat_alloc_loop 0 True nr sb' fe1 prev' bhs' clus'
     else do { (more, fatent) \<leftarrow> fat_ent_next sb' fe1; fat_alloc_loop (length todo) (\<not> more) nr sb' fatent prev' bhs' clus' })"
    for sb' prev' bhs' clus'
  have cont: "\<exists>r. cont sb' prev' bhs' clus' = Some r \<and>
      alloc_result sb' bhs' clus' (filter (\<lambda>x. fat_table sb' x = FAT_ENT_FREE) todo) (nr - length clus') r"
    if "free_state {} sb' bhs'" "io_ok sb'" "prev_at sb' prev' clus'" "set (fe_bhs prev') \<subseteq> set bhs'" "same_volume sb sb'" "length clus' < nr"
      "\<forall>x \<in> set todo. last_of clus' \<noteq> Some x" for sb' prev' bhs' clus'
  proof -
    have ok': "fat_ok sb'" "fe_at sb' fe1 c" using that(1) fat_entry_values(3) [OF that(5)] at by (simp_all add: free_state_def)
    obtain m fe2 where nx: "fat_ent_next sb' fe1 = Some (m, fe2)" "fe_entry fe2 = c + 1"
      "m \<longrightarrow> fe_at sb' fe2 (c + 1) \<and> c + 1 < max_cluster sb'"
      using fat_ent_next_at [OF ok'] c(1) by auto
    have state: "alloc_state sb' (\<not> m) fe2 prev' bhs' clus'" "alloc_state sb' True fe1 prev' bhs' clus'"
      using that nx c(1) by (auto simp: alloc_state_def)
    have "walk sb' (fe_entry fe2) todo" using wk walk_volume [OF that(5)] unfolding nx(2) by blast
    moreover have "\<forall>x \<in> set todo. FAT_START_ENT \<le> x \<and> x < max_cluster sb' \<and> last_of clus' \<noteq> Some x"
      using Cons.prems(4) that(7) fat_entry_values(2) [OF that(5)] by auto
    ultimately have "\<exists>r. fat_alloc_loop (length todo) (\<not> m) nr sb' fe2 prev' bhs' clus' = Some r \<and>
        alloc_result sb' bhs' clus' (filter (\<lambda>x. fat_table sb' x = FAT_ENT_FREE) todo) (nr - length clus') r"
      using Cons.IH [OF state(1)] Cons.prems(3) that(6) by auto
    then show ?thesis using nx(1) alloc_loop_done [OF state(2), of "nr - length clus'"] that(6) by (auto simp: cont_def)
  qed
  have st1: "free_state {} sb1 bhs" "prev_at sb1 prev clus" using free_state_table [OF t1] st by simp_all
  show ?case
  proof (cases "fat_table sb1 c = FAT_ENT_FREE")
    case False
    have "fat_alloc_loop (length (c # todo)) reread nr sb fe prev bhs clus = cont sb1 prev bhs clus"
      using rd get False by (simp add: cont_def)
    moreover have "filter (\<lambda>x. fat_table sb x = FAT_ENT_FREE) (c # todo) = filter (\<lambda>x. fat_table sb1 x = FAT_ENT_FREE) todo"
      using False tab [OF c(1)] fil [OF set_subset_Cons] by auto
    ultimately show ?thesis
      using cont [OF st1(1) ok1(2) st1(2) st(4) same_table_volume [OF t1(1)] Cons.prems(5)] Cons.prems(4)
        alloc_result_skip [OF t1(1) _ ok] by (metis list.set_intros(2))
  next
    case True
    have c1: "fat_entry_of sb1 c" using c(1) mx1 by simp
    let ?fs = "\<lambda>sb. filter (\<lambda>x. fat_table sb x = FAT_ENT_FREE)" and ?bhs = "fat_collect_bhs bhs fe1"
    have fs: "?fs sb (c # todo) = c # ?fs sb1 todo" using True tab [OF c(1)] fil [OF set_subset_Cons] by auto
    have goal: ?thesis if "fat_alloc_loop (length (c # todo)) reread nr sb fe prev bhs clus = Some r"
      "alloc_result sb1 bhs clus (c # ?fs sb1 todo) (nr - length clus) r" for r
      using that(1) alloc_result_skip [OF t1(1) that(2) ok] unfolding fs by blast
    show ?thesis
    proof (rule alloc_take [OF st1(1) at1(1) c1 st1(2) st(4)])
      fix sb2 sb3 sb4
      assume put: "ent_put sb1 fe1 FAT_ENT_EOF = Some sb2" "(if fe_bhs prev \<noteq> [] then ent_put sb2 prev c else Some sb2) = Some sb3"
        and sb4: "sb4 = (if free_known sb3 then sb3\<lparr>prev_free := word_of_int c, free_clusters := free_clusters sb3 - 1\<rparr> else sb3\<lparr>prev_free := word_of_int c\<rparr>)"
        and st4: "free_state {} sb4 ?bhs" "same_volume sb1 sb4" "io_ok sb4 = io_ok sb1"
        and tab4: "\<And>x. 0 \<le> x \<Longrightarrow> fat_table sb4 x = link_after (fat_table sb1) (last_of clus) [c] x"
        and cnt: "prev_free sb4 = word_of_int c" "free_clusters sb4 = count_down (free_clusters sb1)"
          "free_clus_valid sb4 = free_clus_valid sb1" "s_discards sb4 = s_discards sb1"
      have len: "length ?bhs \<le> length bhs + 2" using length_collect [of bhs fe1] fe_at_bhs [OF at1(1)] by linarith
      have blk: "set ?bhs = set bhs \<union> ent_blocks sb1 c" using fe_at_ent_blocks [OF ok1(1) at1(1)] by (simp add: fat_collect_bhs_set)
      have "(let sb = sb3\<lparr>prev_free := word_of_int c\<rparr>; sb = (if free_known sb then sb\<lparr>free_clusters := free_clusters sb - 1\<rparr> else sb) in sb) = sb4"
        by (simp add: sb4 free_known_def)
      then have loop: "fat_alloc_loop (length (c # todo)) reread nr sb fe prev bhs clus =
          (if length (clus @ [c]) = nr then Some (None, sb4, ?bhs, clus @ [c]) else cont sb4 fe1 ?bhs (clus @ [c]))"
        using rd get True put Cons.prems(5) at1(2) by (simp add: cont_def Let_def)
      show ?thesis
      proof (cases "length (clus @ [c]) = nr")
        case full: True
        then have k: "nr - length clus = 1" by simp
        have "alloc_result sb1 bhs clus (c # ?fs sb1 todo) 1 (None, sb4, ?bhs, clus @ [c])"
          using st4 tab4 cnt ok1(2) len blk by (simp add: alloc_result_def)
        then show ?thesis using goal loop full k by simp
      next
        case False
        have v4: "same_volume sb sb4" using same_volume_trans [OF same_table_volume [OF t1(1)] st4(2)] .
        have last: "last_of (clus @ [c]) = Some c" by (simp add: last_of_def)
        have "prev_at sb4 fe1 (clus @ [c])" using at c(1) fat_entry_values [OF v4] by (simp add: prev_at_def last)
        then obtain r where r: "cont sb4 fe1 ?bhs (clus @ [c]) = Some r"
          "alloc_result sb4 ?bhs (clus @ [c]) (?fs sb4 todo) (nr - length (clus @ [c])) r"
          using cont [OF st4(1) _ _ _ v4, of fe1 "clus @ [c]"] st4(3) ok1(2) False Cons.prems(3,5) last
          by (auto simp: fat_collect_bhs_set)
        have fs4: "?fs sb4 todo = ?fs sb1 todo"
        proof (rule filter_cong [OF refl])
          fix x assume "x \<in> set todo"
          then have "0 \<le> x" "x \<noteq> c" "last_of clus \<noteq> Some x" using Cons.prems(3,4) by auto
          then have "fat_table sb4 x = fat_table sb1 x" using tab4 link_after_frame [of x "[c]" "last_of clus"] by simp
          then show "(fat_table sb4 x = FAT_ENT_FREE) = (fat_table sb1 x = FAT_ENT_FREE)" by (simp only:)
        qed
        obtain k where k: "nr - length (clus @ [c]) = k" "nr - length clus = Suc k" "0 < k"
          using Cons.prems(5) False by (cases "nr - length clus") auto
        have "alloc_result sb1 bhs clus (c # ?fs sb1 todo) (Suc k) r"
          using alloc_result_take [OF r(2) [unfolded fs4 k(1)] st4(2) cnt(4) _ len blk cnt(2,3) k(3)] tab4 by simp
        then show ?thesis using goal [of r] loop False r(1) k(2) by simp
      qed
    qed
  qed
qed

section \<open>Allocating clusters\<close>

text \<open>
  The order of the search: from the entry behind the last allocated one to the end of the table, and from the
  first entry on; and the free entries in this order.
\<close>

definition fat_scan :: "fat_sb \<Rightarrow> int list" where
  "fat_scan sb =
     (let s = (if max_cluster sb \<le> uint (prev_free sb) + 1 then FAT_START_ENT else uint (prev_free sb) + 1)
      in [s..max_cluster sb - 1] @ [FAT_START_ENT..s - 1])"

definition fat_free_scan :: "fat_sb \<Rightarrow> int list" where
  "fat_free_scan sb = filter (\<lambda>e. fat_table sb e = FAT_ENT_FREE) (fat_scan sb)"

definition prev_free_ok :: "fat_sb \<Rightarrow> bool" where
  "prev_free_ok sb \<longleftrightarrow> FAT_START_ENT \<le> uint (prev_free sb) \<and> uint (prev_free sb) \<le> max_cluster sb"

lemma walk_upto: "0 \<le> a \<Longrightarrow> b < max_cluster sb \<Longrightarrow> a \<le> b + 1 \<Longrightarrow> walk sb (b + 1) xs \<Longrightarrow> walk sb a ([a..b] @ xs)"
proof (induction a b rule: upto.induct)
  case (1 a b)
  show ?case
  proof (cases "a \<le> b")
    case True
    then show ?thesis using 1 by (simp add: upto_rec1 ge_max_def)
  next
    case False
    then have "a = b + 1" using "1.prems" by simp
    then show ?thesis using "1.prems" by simp
  qed
qed

lemma walk_wrap: "max_cluster sb \<le> e \<Longrightarrow> walk sb FAT_START_ENT xs \<Longrightarrow> walk sb e xs"
  by (cases xs) (auto simp: ge_max_def)

lemma fat_scan_walk:
  assumes "fat_ok sb" "prev_free_ok sb"
  shows "walk sb (sint (prev_free sb + 1)) (fat_scan sb)" "distinct (fat_scan sb)" "set (fat_scan sb) = {FAT_START_ENT ..< max_cluster sb}"
    "length (fat_scan sb) = nat (max_cluster sb - FAT_START_ENT)"
proof -
  let ?p = "uint (prev_free sb) + 1"
  have p: "3 \<le> ?p" "?p \<le> max_cluster sb + 1" "max_cluster sb < 2 ^ 28" "2 \<le> max_cluster sb"
    using assms max_cluster_EOF [OF assms(1)] by (simp_all add: prev_free_ok_def fat_ok_def)
  have u: "uint (prev_free sb + 1) = ?p" using p by (simp add: uint_word_ariths)
  have e: "sint (prev_free sb + 1) = ?p"
    using p u by (simp add: sint_uint signed_take_bit_int_eq_self)
  define s where "s = (if max_cluster sb \<le> ?p then FAT_START_ENT else ?p)"
  have scan: "fat_scan sb = [s..max_cluster sb - 1] @ [FAT_START_ENT..s - 1]" by (simp add: fat_scan_def s_def Let_def)
  have s: "2 \<le> s" "s \<le> max_cluster sb" using p by (simp_all add: s_def)
  have "walk sb FAT_START_ENT ([FAT_START_ENT..s - 1] @ [])" by (rule walk_upto) (use s in simp_all)
  then have "walk sb (max_cluster sb - 1 + 1) [FAT_START_ENT..s - 1]" using walk_wrap [of sb "max_cluster sb"] by simp
  then have w: "walk sb s (fat_scan sb)" unfolding scan by (intro walk_upto) (use s in simp_all)
  show "walk sb (sint (prev_free sb + 1)) (fat_scan sb)"
  proof (cases "max_cluster sb \<le> ?p")
    case True
    then show ?thesis using w walk_wrap unfolding e s_def by simp
  next
    case False
    then show ?thesis using w unfolding e s_def by simp
  qed
  show "distinct (fat_scan sb)" "set (fat_scan sb) = {FAT_START_ENT ..< max_cluster sb}"
    "length (fat_scan sb) = nat (max_cluster sb - FAT_START_ENT)"
    using s by (auto simp: scan)
qed

lemma alloc_start:
  assumes "fat_ok sb" "mirrored_but {} sb" "io_ok sb" "prev_free_ok sb" "0 < nr"
  obtains err sb' bhs clus where
    "fat_alloc_loop (nat (max_cluster sb - FAT_START_ENT)) True nr sb (fatent_set_entry fatent_init (sint (prev_free sb + 1))) fatent_init [] [] =
       Some (err, sb', bhs, clus)"
    "alloc_result sb [] [] (fat_free_scan sb) nr (err, sb', bhs, clus)"
proof -
  note scan = fat_scan_walk [OF assms(1,4)]
  have "alloc_state sb True (fatent_set_entry fatent_init (sint (prev_free sb + 1))) fatent_init [] []"
    using assms by (simp add: alloc_state_def free_state_def prev_at_def last_of_def fatent_init_def)
  moreover have "walk sb (fe_entry (fatent_set_entry fatent_init (sint (prev_free sb + 1)))) (fat_scan sb)"
    using scan(1) by (simp add: fatent_set_entry_def)
  moreover have "\<forall>x \<in> set (fat_scan sb). FAT_START_ENT \<le> x \<and> x < max_cluster sb \<and> last_of [] \<noteq> Some x"
    unfolding scan(3) by (simp add: last_of_def)
  moreover have "length ([] :: int list) < nr" using assms(5) by simp
  ultimately obtain r where r: "fat_alloc_loop (length (fat_scan sb)) True nr sb (fatent_set_entry fatent_init (sint (prev_free sb + 1))) fatent_init [] [] = Some r"
    "alloc_result sb [] [] (filter (\<lambda>x. fat_table sb x = FAT_ENT_FREE) (fat_scan sb)) (nr - length ([] :: int list)) r"
    using alloc_loop_spec [of sb True "fatent_set_entry fatent_init (sint (prev_free sb + 1))" fatent_init "[]" "[]" "fat_scan sb" nr] scan(2)
    by (simp only: simp_thms) blast
  obtain err sb' bhs clus where "r = (err, sb', bhs, clus)" by (cases r)
  then show ?thesis using that r unfolding scan(4) fat_free_scan_def [symmetric] by simp
qed

lemma linked_chain:
  assumes "linked (fat_table sb) cs" "\<forall>x \<in> set cs. FAT_START_ENT \<le> x \<and> x < max_cluster sb" "fat_ok sb" "cs \<noteq> []"
  shows "fat_chain sb (hd cs) cs"
  using assms(1,2,4)
proof (induction cs)
  case (Cons c cs)
  then show ?case by (cases cs) auto
qed simp

lemma alloc_chosen:
  assumes "fat_ok sb" "prev_free_ok sb" "alloc_result sb [] [] (fat_free_scan sb) nr (err, sb', bhs, clus)"
  shows "clus = take nr (fat_free_scan sb)" "distinct clus" "\<forall>x \<in> set clus. FAT_START_ENT \<le> x \<and> x < max_cluster sb \<and> fat_table sb x = FAT_ENT_FREE"
    "free_state {} sb' bhs" "io_ok sb'" "same_volume sb sb'" "clus \<noteq> [] \<Longrightarrow> fat_chain sb' (hd clus) clus"
    "\<And>x. fat_entry_of sb x \<Longrightarrow> x \<notin> set clus \<Longrightarrow> fat_table sb' x = fat_table sb x"
proof -
  note scan = fat_scan_walk [OF assms(1,2)]
  show c: "clus = take nr (fat_free_scan sb)" and "free_state {} sb' bhs" "io_ok sb'" and v: "same_volume sb sb'"
    using assms(3) by (simp_all add: alloc_result_def)
  have tab: "fat_table sb' x = link_after (fat_table sb) None clus x" if "fat_entry_of sb x" for x
    using assms(3) that c by (simp add: alloc_result_def last_of_def)
  show d: "distinct clus" using scan(2) by (simp add: c fat_free_scan_def)
  show r: "\<forall>x \<in> set clus. FAT_START_ENT \<le> x \<and> x < max_cluster sb \<and> fat_table sb x = FAT_ENT_FREE"
    using scan(3) set_take_subset [of nr "fat_free_scan sb"] by (auto simp: c fat_free_scan_def)
  show "fat_table sb' x = fat_table sb x" if "fat_entry_of sb x" "x \<notin> set clus" for x
    using tab [OF that(1)] link_after_frame [OF that(2)] by simp
  assume "clus \<noteq> []"
  have "linked (link_after (fat_table sb) None clus) clus" using link_after_linked [OF d] by blast
  moreover have "fat_table sb' x = link_after (fat_table sb) None clus x" if "x \<in> set clus" for x
    using bspec [OF r that] tab [of x] by simp
  then have "linked (fat_table sb') xs = linked (link_after (fat_table sb) None clus) xs" if "set xs \<subseteq> set clus" for xs
    using that by (induction xs) simp_all
  ultimately have "linked (fat_table sb') clus" by simp
  moreover have "fat_ok sb'" using \<open>free_state {} sb' bhs\<close> by (simp add: free_state_def)
  moreover have "\<forall>x \<in> set clus. FAT_START_ENT \<le> x \<and> x < max_cluster sb'" using r fat_entry_values(2) [OF v] by simp
  ultimately show "fat_chain sb' (hd clus) clus" using linked_chain \<open>clus \<noteq> []\<close> by blast
qed

lemma fat_chain_cong:
  assumes "max_cluster sb' = max_cluster sb" "\<And>x. fat_entry_of sb x \<Longrightarrow> fat_table sb' x = fat_table sb x"
  shows "fat_chain sb' c cs = fat_chain sb c cs"
proof (induction cs arbitrary: c)
  case (Cons x cs)
  show ?case using assms(1) assms(2) [of x] Cons.IH [of "fat_table sb x"] by (simp cong: conj_cong)
qed simp

lemma count_down_times: "n \<le> unat f \<Longrightarrow> f \<noteq> 0xFFFFFFFF \<Longrightarrow> (count_down ^^ n) f = f - of_nat n"
proof (induction n)
  case (Suc n)
  have n: "unat (of_nat n :: u32) = n" using Suc.prems(1) unsigned_less [of f, where 'a = nat] by (simp add: unat_of_nat)
  then have "unat (f - of_nat n) = unat f - n" using Suc.prems(1) by (subst unat_sub) (simp_all add: word_le_nat_alt)
  moreover have "unat f \<noteq> unat (0xFFFFFFFF :: u32)" using Suc.prems(2) unsigned_word_eqI by blast
  moreover have "unat f \<le> unat (0xFFFFFFFF :: u32)" using unsigned_less [of f, where 'a = nat] by simp
  ultimately have "unat (f - of_nat n) \<noteq> unat (0xFFFFFFFF :: u32)" by linarith
  then have "f - of_nat n \<noteq> 0xFFFFFFFF" by metis
  then have "count_down (f - of_nat n) = f - of_nat (Suc n)" by (simp add: count_down_def algebra_simps)
  then show ?case using Suc by simp
qed simp

lemma alloc_none:
  assumes "int nr \<le> MAX_BUF_PER_PAGE div 2"
    and "\<not> (free_known sb \<and> free_clus_valid sb \<and> unat (free_clusters sb) < nr)"
    and "fat_alloc_loop (nat (max_cluster sb - FAT_START_ENT)) True nr sb
      (fatent_set_entry fatent_init (sint (prev_free sb + 1))) fatent_init [] [] = Some (err, sb1, bhs, clus)"
  shows "fat_alloc_clusters needs_sync sb nr = do {
      let sb = mark_fsinfo_dirty sb1;
      let (err, sb) = (if err \<noteq> None then (err, sb) else fat_flush_bhs needs_sync sb bhs);
      sb \<leftarrow> (if err \<noteq> None \<and> clus \<noteq> [] then do { (_, sb) \<leftarrow> fat_free_clusters sb (hd clus); Some sb } else Some sb);
      Some (err, sb, clus)
    }"
  using assms unfolding fat_alloc_clusters_def by (simp only: if_False not_less [symmetric]) simp

lemma demo_fat_zero: "fat_table demo_fat e = FAT_ENT_FREE"
proof -
  have "take 1 (drop off (replicate 512 (0::u8))) = (if off < 512 then [0] else [])" for off
    by (simp add: drop_replicate take_Suc)
  then have "rd8 (replicate 512 0) off = 0" for off by (simp add: rdw_def le_dec.simps)
  then show ?thesis by (simp add: demo_fat_def fat_table_def ent_raw_def fat_byte_def ent_bad_def Let_def)
qed

lemma demo_fat_scan: "fat_free_scan demo_fat = [3, 4, 5, 6, 7, 8, 9, 10, 11, 2]" "prev_free_ok demo_fat"
proof -
  have "fat_scan demo_fat = [3, 4, 5, 6, 7, 8, 9, 10, 11, 2]"
    by (simp add: fat_scan_def demo_fat_def Let_def upto_rec1)
  then show "fat_free_scan demo_fat = [3, 4, 5, 6, 7, 8, 9, 10, 11, 2]" by (simp add: fat_free_scan_def demo_fat_zero)
qed (simp add: prev_free_ok_def demo_fat_def)

text \<open>
  C9. \<open>fat_alloc_clusters\<close>, when all requests to the device succeed and enough entries are free: it returns the first
  free entries in the order of the search, which starts behind the last allocated cluster and wraps at the end of
  the table, links them to a chain with an end mark, changes no other entry, brings every copy of the table up to
  date and counts them off.
\<close>
theorem fat_alloc_clusters_allocates:
  assumes "fat_ok sb" "mirrored_but {} sb" "io_ok sb" "prev_free_ok sb" "0 < nr" "nr \<le> 4" "nr \<le> length (fat_free_scan sb)"
    and "free_clusters sb \<noteq> 0xFFFFFFFF \<longrightarrow> nr \<le> unat (free_clusters sb)"
  shows "\<exists>sb'. fat_alloc_clusters needs_sync sb nr = Some (None, sb', take nr (fat_free_scan sb)) \<and> mirrored_but {} sb' \<and>
    fat_chain sb' (hd (fat_free_scan sb)) (take nr (fat_free_scan sb)) \<and>
    (\<forall>e. FAT_START_ENT \<le> e \<and> e < max_cluster sb \<and> e \<notin> set (take nr (fat_free_scan sb)) \<longrightarrow> fat_table sb' e = fat_table sb e) \<and>
    prev_free_ok sb' \<and> uint (prev_free sb') = last (take nr (fat_free_scan sb)) \<and>
    free_clusters sb' = (if free_clusters sb = 0xFFFFFFFF then 0xFFFFFFFF else free_clusters sb - of_nat nr)"
proof -
  let ?cs = "take nr (fat_free_scan sb)"
  obtain err sb1 bhs clus where loop: "fat_alloc_loop (nat (max_cluster sb - FAT_START_ENT)) True nr sb
      (fatent_set_entry fatent_init (sint (prev_free sb + 1))) fatent_init [] [] = Some (err, sb1, bhs, clus)"
    and res: "alloc_result sb [] [] (fat_free_scan sb) nr (err, sb1, bhs, clus)"
    using alloc_start [OF assms(1-5)] .
  note ch = alloc_chosen [OF assms(1,4) res]
  have ne: "clus \<noteq> []" "clus = ?cs" using ch(1) assms(5,7) by auto
  let ?sb2 = "mark_fsinfo_dirty sb1"
  obtain err2 sb2 where fl: "fat_flush_bhs needs_sync ?sb2 bhs = (err2, sb2)" by fastforce
  note b = same_blocks_table [OF mark_fsinfo_blocks [of sb1]]
  have st: "set bhs \<subseteq> fat_blocks ?sb2" "fat_ok ?sb2" "mirrored_but ({} \<union> set bhs) ?sb2" "io_ok ?sb2"
    using ch(4,5) b by (simp_all add: free_state_def)
  note f = fat_flush_bhs_copies [OF fl st(1-3)]
  have e: "err = None" "err2 = None" using res assms(7) f(2) st(4) by (auto simp: alloc_result_def)
  have alloc: "fat_alloc_clusters needs_sync sb nr = Some (None, sb2, clus)"
    using alloc_none [OF _ _ loop, of needs_sync] assms(6,8) fl e by (auto simp: free_known_def)
  have mx: "max_cluster sb2 = max_cluster sb" using same_table_fields(4) [OF f(1)] b(7) fat_entry_values(2) [OF ch(6)] by simp
  have tab: "fat_table sb2 x = fat_table sb1 x" if "fat_entry_of sb x" for x
    using same_table_table [OF st(2) f(1), of x] b(4,7) that fat_entry_values(2) [OF ch(6)] by simp
  have "fat_chain sb2 (hd clus) clus"
    using ch(7) [OF ne(1)] fat_chain_cong [of sb2 sb1] tab mx fat_entry_values(2) [OF ch(6)] by simp
  moreover have "fat_table sb2 x = fat_table sb x" if "FAT_START_ENT \<le> x \<and> x < max_cluster sb \<and> x \<notin> set clus" for x
    using tab [of x] ch(8) [of x] that by simp
  moreover have cnt: "prev_free sb2 = word_of_int (last ?cs)" "free_clusters sb2 = (count_down ^^ nr) (free_clusters sb)"
    using f(1) res assms(5,7) by (simp_all add: same_table_def counters_def alloc_result_def mark_fsinfo_dirty_def)
  moreover have "FAT_START_ENT \<le> last ?cs" "last ?cs < max_cluster sb" using ch(3) ne last_in_set [of clus] by auto
  then have "uint (prev_free sb2) = last ?cs"
    using cnt(1) max_cluster_EOF [OF assms(1)] by (simp add: uint_word_of_int_eq take_bit_int_eq_self)
  moreover have "prev_free_ok sb2" using \<open>uint (prev_free sb2) = last ?cs\<close> \<open>FAT_START_ENT \<le> last ?cs\<close> \<open>last ?cs < max_cluster sb\<close> mx
    by (simp add: prev_free_ok_def)
  moreover have "(count_down ^^ n) 0xFFFFFFFF = 0xFFFFFFFF" for n by (induction n) (simp_all add: count_down_def)
  then have "(count_down ^^ nr) (free_clusters sb) = (if free_clusters sb = 0xFFFFFFFF then 0xFFFFFFFF else free_clusters sb - of_nat nr)"
    using count_down_times [of nr "free_clusters sb"] assms(8) by simp
  moreover have "hd clus = hd (fat_free_scan sb)" using ne assms(5) by simp
  ultimately show ?thesis using alloc f(3) [OF e(2)] ne(2) by auto
qed

theorem fat_alloc_clusters_allocates_witness:
  "\<exists>sb'. fat_alloc_clusters True demo_fat 2 = Some (None, sb', [3, 4]) \<and> mirrored_but {} sb' \<and> fat_chain sb' 3 [3, 4] \<and>
     uint (prev_free sb') = 4"
proof -
  have "0 < (2::nat)" "(2::nat) \<le> 4" "2 \<le> length (fat_free_scan demo_fat)"
    and unknown: "free_clusters demo_fat \<noteq> 0xFFFFFFFF \<longrightarrow> 2 \<le> unat (free_clusters demo_fat)"
    by (simp_all add: demo_fat_scan(1)) (simp add: demo_fat_def)
  from fat_alloc_clusters_allocates [OF demo_fat_ok(1,3,2) demo_fat_scan(2) this, of True]
  show ?thesis unfolding demo_fat_scan(1) by auto
qed

text \<open>
  C11. \<open>fat_alloc_clusters\<close>, when too few entries are free and all requests to the device succeed: it returns
  \<open>-ENOSPC\<close>, and every entry and every copy of the table is as before, although clusters had been linked to a chain
  already. Unless the request was refused at once, the count of free clusters is right afterwards.
\<close>
theorem fat_alloc_clusters_nospace:
  assumes "fat_ok sb" "mirrored_but {} sb" "io_ok sb" "prev_free_ok sb" "0 < nr" "nr \<le> 4" "length (fat_free_scan sb) < nr"
  shows "\<exists>sb' clus. fat_alloc_clusters needs_sync sb nr = Some (Some ENOSPC, sb', clus) \<and> mirrored_but {} sb' \<and>
    (\<forall>e. FAT_START_ENT \<le> e \<and> e < max_cluster sb \<longrightarrow> fat_table sb' e = fat_table sb e) \<and>
    (sb' = sb \<or> free_clus_valid sb' \<and> free_clusters sb' = of_nat (length (fat_free_scan sb)))"
proof (cases "free_known sb \<and> free_clus_valid sb \<and> unat (free_clusters sb) < nr")
  case True
  then show ?thesis using assms(2,6) by (simp add: fat_alloc_clusters_def)
next
  case False
  let ?fs = "fat_free_scan sb"
  obtain err sb1 bhs clus where loop: "fat_alloc_loop (nat (max_cluster sb - FAT_START_ENT)) True nr sb
      (fatent_set_entry fatent_init (sint (prev_free sb + 1))) fatent_init [] [] = Some (err, sb1, bhs, clus)"
    and res: "alloc_result sb [] [] ?fs nr (err, sb1, bhs, clus)"
    using alloc_start [OF assms(1-5)] .
  note ch = alloc_chosen [OF assms(1,4) res]
  have clus: "clus = ?fs" using ch(1) assms(7) by simp
  have e: "err = Some ENOSPC" "free_clusters sb1 = 0" "free_clus_valid sb1"
    and blk: "set bhs \<subseteq> (\<Union>x \<in> set clus. ent_blocks sb x)"
    using res assms(7) clus by (simp_all add: alloc_result_def)
  have mx: "max_cluster sb1 = max_cluster sb" using fat_entry_values(2) [OF ch(6)] .
  let ?sb = "mark_fsinfo_dirty sb1"
  note b = same_blocks_table [OF mark_fsinfo_blocks [of sb1]]
  have cnt: "free_clusters ?sb = 0" "free_clus_valid ?sb" using e by (simp_all add: mark_fsinfo_dirty_def)
  have st: "fat_ok ?sb" "mirrored_but (set bhs) ?sb" "io_ok ?sb" using ch(4,5) b by (simp_all add: free_state_def)
  have alloc: "fat_alloc_clusters needs_sync sb nr =
      (if clus \<noteq> [] then do { (_, sb) \<leftarrow> fat_free_clusters ?sb (hd clus); Some (Some ENOSPC, sb, clus) } else Some (Some ENOSPC, ?sb, clus))"
    using alloc_none [OF _ False loop, of needs_sync] assms(6) e(1) by (auto simp: case_prod_unfold)
  show ?thesis
  proof (cases "clus = []")
    case True
    then have "mirrored_but {} ?sb" using st(2) blk by simp
    moreover have "fat_table ?sb x = fat_table sb x" if "FAT_START_ENT \<le> x \<and> x < max_cluster sb" for x
      using ch(8) [of x] that True b(4) by simp
    ultimately show ?thesis using alloc True clus cnt by auto
  next
    case ne: False
    have chain: "fat_chain ?sb (hd clus) clus" using ch(7) [OF ne] fat_chain_cong [of ?sb sb1] b(4,7) by simp
    have R: "set bhs \<subseteq> (\<Union>x \<in> set clus. ent_blocks ?sb x)"
      using blk ent_blocks_volume [OF same_volume_trans [OF ch(6) b(1)]] by simp
    show ?thesis
    proof (rule fat_free_clusters_chain [OF st chain ne R])
      fix sb'
      assume fr: "fat_free_clusters ?sb (hd clus) = Some (None, sb')" "mirrored_but {} sb'"
        and tab: "\<And>e. fat_entry_of ?sb e \<Longrightarrow> fat_table sb' e = (if e \<in> set clus then FAT_ENT_FREE else fat_table ?sb e)"
        and cnt': "free_clusters sb' = (count_up ^^ length clus) (free_clusters ?sb)" and v: "free_clus_valid sb' = free_clus_valid ?sb"
      have "fat_table sb' x = fat_table sb x" if "FAT_START_ENT \<le> x \<and> x < max_cluster sb" for x
        using tab [of x] that b(4,7) mx ch(3) ch(8) [of x] by auto
      moreover have "free_clusters sb' = of_nat (length ?fs)"
        using cnt' cnt(1) count_up_times [of 0 "length clus"] assms(6,7) clus by simp
      ultimately show ?thesis using alloc ne fr v cnt(2) by auto
    qed
  qed
qed

theorem fat_alloc_clusters_nospace_witness:
  "\<exists>sb' clus. fat_alloc_clusters False (demo_fat\<lparr>max_cluster := 3\<rparr>) 2 = Some (Some ENOSPC, sb', clus) \<and> mirrored_but {} sb' \<and>
     fat_table sb' 2 = fat_table (demo_fat\<lparr>max_cluster := 3\<rparr>) 2"
proof -
  let ?sb = "demo_fat\<lparr>max_cluster := 3\<rparr>"
  have sb: "fat_ok ?sb" "mirrored_but {} ?sb" "io_ok ?sb" "prev_free_ok ?sb"
    by (simp_all add: demo_fat_def fat_ok_def s_blocksize_def ent_bad_def ent_pos_def ent_size_def io_ok_def mirrored_but_def prev_free_ok_def)
  have "length (fat_free_scan ?sb) \<le> length (fat_scan ?sb)" by (simp add: fat_free_scan_def)
  also have "length (fat_scan ?sb) < 2" using fat_scan_walk(4) [OF sb(1,4)] by simp
  finally have len: "length (fat_free_scan ?sb) < 2" .
  have "0 < (2::nat)" "(2::nat) \<le> 4" by simp_all
  from fat_alloc_clusters_nospace [OF sb this len, of False] show ?thesis by fastforce
qed

end
