(* ===== verification/Vfat_Time.thy ===== *)
theory Vfat_Time
  imports Vfat_Table
begin

unbundle bit_operations_syntax

declare One_nat_def [simp]

text \<open>
  The time stamps of the vfat port (\<open>misc.c\<close>): \<open>fat_time_fat2unix\<close> and \<open>fat_time_unix2fat\<close>.
  \<^item> \<open>tz_set\<close> and \<open>time_offset\<close> are the mount options of that name, \<open>minuteswest\<close> is \<open>sys_tz.tz_minuteswest\<close>.
  \<^item> \<open>time_to_tm\<close> is a function of the kernel: a parameter of \<open>fat_time_unix2fat\<close>.
  \<^item> \<open>time_t\<close> has 64 bits; the numbers here are far from its limits and are \<open>int\<close>. The pointer \<open>time_cs\<close> may be
    \<open>NULL\<close> (\<open>want_cs\<close> is false); then nothing is stored through it.
\<close>

section \<open>Conversions\<close>

definition SECS_PER_MIN :: int where [simp]: "SECS_PER_MIN = 60"
definition SECS_PER_HOUR :: int where [simp]: "SECS_PER_HOUR = 60 * 60"
definition SECS_PER_DAY :: int where [simp]: "SECS_PER_DAY = SECS_PER_HOUR * 24"
definition DAYS_DELTA :: int where [simp]: "DAYS_DELTA = 365 * 10 + 2"
definition YEAR_2100 :: int where [simp]: "YEAR_2100 = 120"

definition IS_LEAP_YEAR :: "int \<Rightarrow> bool" where
  "IS_LEAP_YEAR y \<longleftrightarrow> y AND 3 = 0 \<and> y \<noteq> YEAR_2100"

definition days_in_year :: "int list" where
  "days_in_year = [0, 0, 31, 59, 90, 120, 151, 181, 212, 243, 273, 304, 334, 0, 0, 0]"

definition leap_days :: "int \<Rightarrow> int \<Rightarrow> int" where
  "leap_days year month =
     (let leap_day = (year + 3) div 4;
          leap_day = (if YEAR_2100 < year then leap_day - 1 else leap_day)
      in if IS_LEAP_YEAR year \<and> 2 < month then leap_day + 1 else leap_day)"

definition fat_time_fat2unix :: "bool \<Rightarrow> int \<Rightarrow> int \<Rightarrow> u16 \<Rightarrow> u16 \<Rightarrow> u8 \<Rightarrow> int \<times> int" where
  "fat_time_fat2unix tz_set time_offset minuteswest time date time_cs =
     (let time = uint time; date = uint date;
          year = drop_bit 9 date;
          month = max 1 (drop_bit 5 date AND 0xF);
          day = max 1 (date AND 0x1F) - 1;
          second = push_bit 1 (time AND 0x1F) + (drop_bit 5 time AND 0x3F) * SECS_PER_MIN + drop_bit 11 time * SECS_PER_HOUR
                   + (year * 365 + leap_days year month + days_in_year ! nat month + day + DAYS_DELTA) * SECS_PER_DAY;
          second = (if \<not> tz_set then second + minuteswest * SECS_PER_MIN else second - time_offset * SECS_PER_MIN)
      in if time_cs \<noteq> 0 then (second + uint time_cs div 100, uint time_cs mod 100 * 10000000) else (second, 0))"

record tm =
  tm_sec :: int
  tm_min :: int
  tm_hour :: int
  tm_mday :: int
  tm_mon :: int
  tm_year :: int

text \<open>The offset that is passed to \<open>time_to_tm\<close>, in seconds.\<close>

definition tm_offset :: "bool \<Rightarrow> int \<Rightarrow> int \<Rightarrow> int" where
  "tm_offset tz_set time_offset minuteswest = (if tz_set then time_offset else - minuteswest) * SECS_PER_MIN"

definition fat_time_unix2fat ::
    "(int \<Rightarrow> int \<Rightarrow> tm) \<Rightarrow> bool \<Rightarrow> int \<Rightarrow> int \<Rightarrow> int \<Rightarrow> int \<Rightarrow> bool \<Rightarrow> u16 \<times> u16 \<times> u8 option" where
  "fat_time_unix2fat time_to_tm tz_set time_offset minuteswest tv_sec tv_nsec want_cs =
     (let tm = time_to_tm tv_sec (tm_offset tz_set time_offset minuteswest) in
      if tm_year tm < 1980 - 1900
      then (0, word_of_int (push_bit 9 0 OR push_bit 5 1 OR 1), if want_cs then Some 0 else None)
      else if tm_year tm > 2107 - 1900
      then (word_of_int (push_bit 11 23 OR push_bit 5 59 OR 29), word_of_int (push_bit 9 127 OR push_bit 5 12 OR 31),
            if want_cs then Some 199 else None)
      else
        let year = tm_year tm - 80; mon = tm_mon tm + 1; sec = drop_bit 1 (tm_sec tm)
        in (word_of_int (push_bit 11 (tm_hour tm) OR push_bit 5 (tm_min tm) OR sec),
            word_of_int (push_bit 9 year OR push_bit 5 mon OR tm_mday tm),
            if want_cs then Some (word_of_int ((tv_sec AND 1) * 100 + tv_nsec div 10000000)) else None))"

section \<open>The calendar\<close>

text \<open>The Gregorian calendar from 1970 on, year by year and month by month.\<close>

definition leap :: "int \<Rightarrow> bool" where
  "leap y \<longleftrightarrow> y mod 4 = 0 \<and> (y mod 100 \<noteq> 0 \<or> y mod 400 = 0)"

definition month_days :: "bool \<Rightarrow> int \<Rightarrow> int" where
  "month_days l m = (if m = 2 then (if l then 29 else 28) else if m \<in> {4, 6, 9, 11} then 30 else 31)"

definition days_before_year :: "int \<Rightarrow> int" where
  "days_before_year y = (\<Sum>i\<leftarrow>[1970..y - 1]. if leap i then 366 else 365)"

definition days_before_month :: "bool \<Rightarrow> int \<Rightarrow> int" where
  "days_before_month l m = (\<Sum>i\<leftarrow>[1..m - 1]. month_days l i)"

definition cal_seconds :: "int \<Rightarrow> int \<Rightarrow> int \<Rightarrow> int \<Rightarrow> int \<Rightarrow> int \<Rightarrow> int" where
  "cal_seconds y m d h mi s =
     (((days_before_year y + days_before_month (leap y) m + (d - 1)) * 24 + h) * 60 + mi) * 60 + s"

lemma leap_1980:
  assumes "0 \<le> y" "y \<le> 127"
  shows "leap (1980 + y) = (y mod 4 = 0 \<and> y \<noteq> 120)" "IS_LEAP_YEAR y = (y mod 4 = 0 \<and> y \<noteq> 120)"
proof -
  have "(1980 + y) mod 4 = y mod 4" using mod_mult_self4 [of 4 495 y] by simp
  moreover have "(1980 + y) mod 100 = 0 \<longleftrightarrow> y = 20 \<or> y = 120"
  proof
    assume z: "(1980 + y) mod 100 = 0"
    then obtain q where q: "1980 + y = 100 * q" by (metis dvd_imp_mod_0 dvd_def mod_0_imp_dvd)
    then have "q = 20 \<or> q = 21" using assms by linarith
    then show "y = 20 \<or> y = 120" using q by auto
  qed auto
  ultimately show "leap (1980 + y) = (y mod 4 = 0 \<and> y \<noteq> 120)" by (auto simp: leap_def)
  have "y AND 3 = y mod 4" using take_bit_eq_mask [of 2 y] by (simp add: take_bit_eq_mod mask_eq_exp_minus_1)
  then show "IS_LEAP_YEAR y = (y mod 4 = 0 \<and> y \<noteq> 120)" by (simp add: IS_LEAP_YEAR_def)
qed

lemma days_before_year_step: "1970 \<le> y \<Longrightarrow> days_before_year (y + 1) = days_before_year y + (if leap y then 366 else 365)"
  using upto_rec2 [of 1970 y] by (simp add: days_before_year_def)

lemma days_before_1980: "days_before_year 1980 = DAYS_DELTA"
  by code_simp

lemma days_before_year_1980:
  "n \<le> 127 \<Longrightarrow> days_before_year (1980 + int n) = int n * 365 + (int n + 3) div 4 - (if 120 < n then 1 else 0) + DAYS_DELTA"
proof (induction n)
  case 0
  then show ?case by (simp add: days_before_1980)
next
  case (Suc n)
  have "days_before_year (1980 + int (Suc n)) = days_before_year (1980 + int n) + (if leap (1980 + int n) then 366 else 365)"
    using days_before_year_step [of "1980 + int n"] by (simp add: add_ac)
  also have "\<dots> = int n * 365 + (int n + 3) div 4 - (if 120 < n then 1 else 0) + DAYS_DELTA + (if int n mod 4 = 0 \<and> n \<noteq> 120 then 366 else 365)"
    using Suc leap_1980(1) [of "int n"] by simp
  also have "(int n + 3) div 4 + (if int n mod 4 = 0 then 1 else 0) = (int (Suc n) + 3) div 4" by presburger
  then have "int n * 365 + (int n + 3) div 4 - (if 120 < n then 1 else 0) + DAYS_DELTA + (if int n mod 4 = 0 \<and> n \<noteq> 120 then 366 else 365) =
      int (Suc n) * 365 + (int (Suc n) + 3) div 4 - (if 120 < Suc n then 1 else 0) + DAYS_DELTA"
    by (cases "n = 120") (auto split: if_splits)
  finally show ?case .
qed

lemma months_check: "list_all (\<lambda>m. days_before_month l m = days_in_year ! nat m + (if l \<and> 2 < m then 1 else 0)) [1..12]"
  by (cases l) (simp_all, code_simp+)

text \<open>The day number that the code computes is that of the calendar.\<close>

lemma day_number:
  assumes "0 \<le> y" "y \<le> 127" "1 \<le> m" "m \<le> 12"
  shows "y * 365 + leap_days y m + days_in_year ! nat m + DAYS_DELTA = days_before_year (1980 + y) + days_before_month (leap (1980 + y)) m"
proof -
  have "m \<in> set [1..12]" using assms(3,4) by simp
  then have "days_before_month (leap (1980 + y)) m = days_in_year ! nat m + (if leap (1980 + y) \<and> 2 < m then 1 else 0)"
    using months_check unfolding list_all_iff by blast
  moreover have "days_before_year (1980 + y) = y * 365 + (y + 3) div 4 - (if 120 < y then 1 else 0) + DAYS_DELTA"
    using days_before_year_1980 [of "nat y"] assms(1,2) by (simp add: zless_nat_eq_int_zless)
  moreover have "leap (1980 + y) = IS_LEAP_YEAR y" using leap_1980 [OF assms(1,2)] by simp
  ultimately show ?thesis by (simp add: leap_days_def Let_def)
qed

section \<open>Properties\<close>

lemma field_masks: "(x::int) AND 0xF = x mod 16" "x AND 0x1F = x mod 32" "x AND 0x3F = x mod 64" "x AND 1 = x mod 2"
  using take_bit_eq_mask [of 4 x] take_bit_eq_mask [of 5 x] take_bit_eq_mask [of 6 x] take_bit_eq_mask [of 1 x]
  by (simp_all add: take_bit_eq_mod mask_eq_exp_minus_1)

lemma fat2unix_calendar:
  assumes "y = uint date div 512" "m = uint date div 32 mod 16" "d = uint date mod 32" "1 \<le> m" "m \<le> 12" "1 \<le> d"
    and "h = uint time div 2048" "mi = uint time div 32 mod 64" "s = 2 * (uint time mod 32)"
  shows "fat_time_fat2unix tz_set off mw time date cs =
    (cal_seconds (1980 + y) m d h mi s - tm_offset tz_set off mw + uint cs div 100, uint cs mod 100 * 10000000)"
proof -
  have "uint date < 2 ^ 16" using unsigned_less [of date, where 'a = int] by simp
  then have y: "0 \<le> y" "y \<le> 127" using assms(1) pos_imp_zdiv_nonneg_iff [of 512 "uint date"] by simp_all
  have fields: "drop_bit 9 (uint date) = y" "drop_bit 5 (uint date) AND 0xF = m" "uint date AND 0x1F = d" "drop_bit 11 (uint time) = h"
    "drop_bit 5 (uint time) AND 0x3F = mi" "push_bit 1 (uint time AND 0x1F) = s" "max 1 m = m" "max 1 d = d"
    using assms by (simp_all only: field_masks drop_bit_eq_div push_bit_eq_mult) simp_all
  have sec: "s + mi * SECS_PER_MIN + h * SECS_PER_HOUR + (y * 365 + leap_days y m + days_in_year ! nat m + (d - 1) + DAYS_DELTA) * SECS_PER_DAY =
      cal_seconds (1980 + y) m d h mi s"
  proof -
    have "y * 365 + leap_days y m + days_in_year ! nat m + (d - 1) + DAYS_DELTA =
        days_before_year (1980 + y) + days_before_month (leap (1980 + y)) m + (d - 1)"
      using day_number [OF y assms(4,5)] by linarith
    then show ?thesis unfolding cal_seconds_def by (simp only:) simp
  qed
  have "uint cs = 0 \<longleftrightarrow> cs = 0" by (simp add: uint_0_iff)
  then show ?thesis unfolding fat_time_fat2unix_def Let_def fields sec by (auto simp: tm_offset_def)
qed

lemma field_word:
  fixes a b c :: int
  assumes "0 \<le> b" "b < 2 ^ k" "0 \<le> c" "c < 2 ^ 5" "0 \<le> a" "a < 2 ^ (11 - k)" "k \<le> 6"
  shows "uint (word_of_int (push_bit (5 + k) a OR push_bit 5 b OR c) :: u16) = 2 ^ (5 + k) * a + 32 * b + c"
proof -
  have bc: "push_bit 5 b OR c = 32 * b + c" using or_plus(1) [OF assms(3,4), of b] by simp
  have "32 * b + 32 \<le> 32 * 2 ^ k" using assms(2) by simp
  then have lt: "0 \<le> 32 * b + c" "32 * b + c < 2 ^ (5 + k)" using assms(1,3,4) by (simp_all add: power_add)
  have eq: "push_bit (5 + k) a OR push_bit 5 b OR c = 2 ^ (5 + k) * a + (32 * b + c)" unfolding bc by (rule or_plus(1) [OF lt])
  have "2 ^ (5 + k) * (a + 1) \<le> 2 ^ (5 + k) * (2 ^ (11 - k) :: int)" using assms(6) by (intro mult_left_mono) simp_all
  also have "\<dots> = 2 ^ 16" using assms(7) by (simp flip: power_add)
  finally have "2 ^ (5 + k) * a + (32 * b + c) < 2 ^ 16" using lt by (simp add: algebra_simps)
  moreover have "0 \<le> 2 ^ (5 + k) * a + (32 * b + c)" using lt assms(5) by simp
  moreover have "uint (word_of_int x :: u16) = x" if "0 \<le> x" "x < 2 ^ 16" for x
    using that by (simp add: uint_word_of_int_eq take_bit_int_eq_self)
  ultimately show ?thesis unfolding eq by (simp only: add.assoc)
qed

lemma field_div:
  fixes a b c :: int
  assumes "0 \<le> c" "c < 32" "0 \<le> b"
  shows "b < 16 \<Longrightarrow> (512 * a + 32 * b + c) div 512 = a \<and> (512 * a + 32 * b + c) div 32 mod 16 = b \<and> (512 * a + 32 * b + c) mod 32 = c"
    and "b < 64 \<Longrightarrow> (2048 * a + 32 * b + c) div 2048 = a \<and> (2048 * a + 32 * b + c) div 32 mod 64 = b \<and> (2048 * a + 32 * b + c) mod 32 = c"
proof -
  have split: "(n * a + r) div n = a" "(n * a + r) mod n = r" if "0 \<le> r" "r < n" for n a r :: int
    using that by (simp_all add: div_add1_eq)
  have 32: "512 * a + 32 * b + c = 32 * (16 * a + b) + c" "2048 * a + 32 * b + c = 32 * (64 * a + b) + c" by simp_all
  show "b < 16 \<Longrightarrow> (512 * a + 32 * b + c) div 512 = a \<and> (512 * a + 32 * b + c) div 32 mod 16 = b \<and> (512 * a + 32 * b + c) mod 32 = c"
    using split [of "32 * b + c" 512 a] split [of c 32 "16 * a + b"] split [of b 16 a] assms unfolding 32 by (simp add: algebra_simps)
  show "b < 64 \<Longrightarrow> (2048 * a + 32 * b + c) div 2048 = a \<and> (2048 * a + 32 * b + c) div 32 mod 64 = b \<and> (2048 * a + 32 * b + c) mod 32 = c"
    using split [of "32 * b + c" 2048 a] split [of c 32 "64 * a + b"] split [of b 64 a] assms unfolding 32 by (simp add: algebra_simps)
qed

text \<open>
  C15. The conversions between a FAT time stamp and a UNIX time: a time of the years 1980 to 2107 that is stored with
  \<open>fat_time_unix2fat\<close> is read back by \<open>fat_time_fat2unix\<close> exactly, up to the resolution of 10 ms, in every time
  zone, when the kernel's \<open>time_to_tm\<close> returns the date and time of the Gregorian calendar.
\<close>
theorem fat_time_roundtrip:
  assumes conv: "time_to_tm sec (tm_offset tz_set off mw) = tm"
    and tm: "0 \<le> tm_sec tm" "tm_sec tm < 60" "0 \<le> tm_min tm" "tm_min tm < 60" "0 \<le> tm_hour tm" "tm_hour tm < 24"
      "1 \<le> tm_mday tm" "tm_mday tm \<le> 31" "0 \<le> tm_mon tm" "tm_mon tm < 12" "80 \<le> tm_year tm" "tm_year tm \<le> 207"
    and cal: "cal_seconds (1900 + tm_year tm) (tm_mon tm + 1) (tm_mday tm) (tm_hour tm) (tm_min tm) (tm_sec tm) =
      sec + tm_offset tz_set off mw"
    and nsec: "0 \<le> nsec" "nsec < 1000000000"
  shows "\<exists>time date cs. fat_time_unix2fat time_to_tm tz_set off mw sec nsec True = (time, date, Some cs) \<and>
    fat_time_fat2unix tz_set off mw time date cs = (sec, nsec div 10000000 * 10000000)"
proof -
  let ?y = "tm_year tm - 80" and ?m = "tm_mon tm + 1" and ?d = "tm_mday tm" and ?h = "tm_hour tm" and ?mi = "tm_min tm"
  let ?s = "tm_sec tm div 2" and ?n = "nsec div 10000000"
  define time date cs where "time = (word_of_int (push_bit 11 ?h OR push_bit 5 ?mi OR drop_bit 1 (tm_sec tm)) :: u16)"
    and "date = (word_of_int (push_bit 9 ?y OR push_bit 5 ?m OR ?d) :: u16)"
    and "cs = (word_of_int ((sec AND 1) * 100 + ?n) :: u8)"
  have n: "0 \<le> ?n" "?n < 100" using nsec by (auto simp: pos_imp_zdiv_nonneg_iff)
  have s: "0 \<le> ?s" "?s < 30" "drop_bit 1 (tm_sec tm) = ?s" using tm by (auto simp: drop_bit_eq_div)
  have ut: "uint time = 2048 * ?h + 32 * ?mi + ?s"
    unfolding time_def s(3) using field_word [of ?mi 6 ?s ?h] tm s by simp
  have ud: "uint date = 512 * ?y + 32 * ?m + ?d"
    unfolding date_def using field_word [of ?m 4 ?d ?y] tm by simp
  have uc: "uint cs = (sec mod 2) * 100 + ?n"
  proof -
    have "0 \<le> sec mod 2" "sec mod 2 < 2" by simp_all
    then have "0 \<le> sec mod 2 * 100 + ?n" "sec mod 2 * 100 + ?n < 256" using n by linarith+
    moreover have "uint (word_of_int x :: u8) = x" if "0 \<le> x" "x < 256" for x
      using that by (simp add: uint_word_of_int_eq take_bit_int_eq_self)
    ultimately show ?thesis unfolding cs_def field_masks by blast
  qed
  have "uint date div 512 = ?y \<and> uint date div 32 mod 16 = ?m \<and> uint date mod 32 = ?d"
    unfolding ud by (rule field_div(1)) (use tm in simp_all)
  moreover have "uint time div 2048 = ?h \<and> uint time div 32 mod 64 = ?mi \<and> uint time mod 32 = ?s"
    unfolding ut by (rule field_div(2)) (use tm s in simp_all)
  ultimately have f: "uint date div 512 = ?y" "uint date div 32 mod 16 = ?m" "uint date mod 32 = ?d"
    "uint time div 2048 = ?h" "uint time div 32 mod 64 = ?mi" "uint time mod 32 = ?s" by simp_all
  have fat: "fat_time_fat2unix tz_set off mw time date cs =
      (cal_seconds (1980 + ?y) ?m ?d ?h ?mi (2 * ?s) - tm_offset tz_set off mw + uint cs div 100, uint cs mod 100 * 10000000)"
    by (rule fat2unix_calendar [OF f(1-3) [symmetric] _ _ tm(7) f(4,5) [symmetric]]) (use f(6) tm in linarith)+
  have par: "tm_sec tm mod 2 = sec mod 2"
  proof -
    have "even (sec + tm_offset tz_set off mw) = even (tm_sec tm)" unfolding cal [symmetric] cal_seconds_def by simp
    moreover have "even (tm_offset tz_set off mw)" by (simp add: tm_offset_def)
    ultimately have "even (tm_sec tm) = even sec" by simp
    then show ?thesis by (simp only: mod_2_eq_odd)
  qed
  have "2 * ?s = tm_sec tm - sec mod 2" using minus_mult_div_eq_mod [of "tm_sec tm" 2] unfolding par by linarith
  moreover have "1980 + ?y = 1900 + tm_year tm" by simp
  ultimately have c: "cal_seconds (1980 + ?y) ?m ?d ?h ?mi (2 * ?s) = sec + tm_offset tz_set off mw - sec mod 2"
    unfolding cal [symmetric] cal_seconds_def by simp
  have "uint cs div 100 = sec mod 2" "uint cs mod 100 = ?n" unfolding uc using n by simp_all
  then have "fat_time_fat2unix tz_set off mw time date cs = (sec, ?n * 10000000)" unfolding fat c by simp
  moreover have "fat_time_unix2fat time_to_tm tz_set off mw sec nsec True = (time, date, Some cs)"
    using tm by (simp add: fat_time_unix2fat_def conv time_def date_def cs_def)
  ultimately show ?thesis by blast
qed

text \<open>The first second of 1980, with the time zone of the mount at Greenwich.\<close>
theorem fat_time_roundtrip_witness:
  "\<exists>time date cs. fat_time_unix2fat (\<lambda>t z. \<lparr>tm_sec = 0, tm_min = 0, tm_hour = 0, tm_mday = 1, tm_mon = 0, tm_year = 80\<rparr>)
      True 0 0 315532800 123456789 True = (time, date, Some cs) \<and>
    fat_time_fat2unix True 0 0 time date cs = (315532800, 120000000)"
  using fat_time_roundtrip [where time_to_tm = "\<lambda>t z. \<lparr>tm_sec = 0, tm_min = 0, tm_hour = 0, tm_mday = 1, tm_mon = 0, tm_year = 80\<rparr>"
      and sec = 315532800 and tz_set = True and off = 0 and mw = 0 and nsec = 123456789, OF refl]
  by (simp add: cal_seconds_def days_before_1980 days_before_month_def tm_offset_def)

end
