(* ===== verification/Spec2Isabelle.thy ===== *)
theory Spec2Isabelle
  imports Bilby_Mount Bilby_Vfs Bilby_Volname Vfat_Find Vfat_Time
begin

text \<open>
  BilbyFs in C, \<open>src/impl/fs/bilby/c\<close>, a log-structured file system for raw flash on top of UBI,
  and the file allocation table and time stamps of the FAT driver in \<open>src/impl/fs/vfat/cogent/plat/linux\<close>,
  modelled function by function, with the theorems that make their parts correct.

  \<^bold>\<open>The program.\<close> An object (inode, data block, directory entry array, deletion, padding,
  summary, superblock) is a block of bytes with a 24-byte header. A transaction is a list of
  objects that \<open>ostore.c\<close> appends to the write-buffer of the current erase-block (\<open>wbuf.c\<close>) and
  enters into the index (\<open>idx.c\<close>). Replaced and deleted objects become garbage, counted per id by
  \<open>gim.c\<close> and per erase-block by \<open>fsm.c\<close>; \<open>gc.c\<close> copies the live objects of the dirtiest
  erase-block and erases it. Mounting rebuilds index, garbage records and free space from the
  flash. \<open>fsop.c\<close> implements the file system operations on top, with \<open>dentarr.c\<close> and \<open>rdx.c\<close> for
  directories, and \<open>os/linux/wrapper.c\<close> connects them to the VFS of Linux: it takes the semaphore
  around every operation and works with the inode cache, the page cache and UBI. Index and garbage records are hash tables of red-black trees (\<open>rbt.c\<close>) whose nodes
  come from a pool that is filled before a transaction (\<open>allocpool.c\<close>).

  \<^bold>\<open>The model.\<close> Every operation is a function on the record \<open>bilbyfs_info\<close>, the \<open>struct
  bilbyfs_info\<close> of the code with the UBI volume and the outcomes of the coming allocations added.
  The outer \<open>option\<close> is \<open>None\<close> where the code stops the machine: a failed \<open>bilbyfs_assert\<close>, an
  access outside a block, through a null or error pointer, or to freed memory. An \<open>int\<close> result that is 0
  or a negative error code is an \<open>errno option\<close>, a pointer or value that may be an error is a sum.
  \<open>int\<close> is unbounded where the code keeps it small and converted at 32 bits where the code mixes
  it with unsigned values; unsigned types are words. A pointer to a tree node is the position of
  the node in the tree (a subtree and the path to it). The checksum, UBI and uninitialised memory
  are fields of the record \<open>kernel\<close>, an argument of the operations; what is expected of UBI is a
  named hypothesis of the theorems that need it (\<open>ubi_reads\<close>, \<open>ubi_writes\<close>, \<open>ubi_reads_all\<close>), which
  the volume in memory \<open>ram_kernel\<close> fulfils.

  \<^bold>\<open>Theories.\<close>
  \<^item> \<open>Bilby_Prelude\<close>: the option monad, bytes and little-endian words, blocks as lists of stores,
    rounding, small integers as words.
  \<^item> \<open>Bilby_Rbt\<close> (\<open>rbt.c\<close>): insertion with \<open>rbt_insert_color\<close>, removal with \<open>rbt_erase\<close>, neighbours.
    They end, never fault, keep order and colours, and insert or remove exactly one node.
  \<^item> \<open>Bilby_Keyed_Tree\<close>: the locale \<open>keyed_table\<close> of a hash table of such trees, interpreted for
    the index and for the garbage records.
  \<^item> \<open>Bilby_Types\<close> (\<open>bilbyfs.h\<close>): constants, ids and structures; ids keep their parts apart and
    order the objects of an inode.
  \<^item> \<open>Bilby_Allocpool\<close> (\<open>allocpool.c\<close>): a filled pool can be popped.
  \<^item> \<open>Bilby_Idx\<close> (\<open>idx.c\<close>): the index is a finite map; the locale \<open>obj_index\<close> is its contract.
  \<^item> \<open>Bilby_Gim\<close> (\<open>gim.c\<close>): the garbage records, and which objects may be dropped.
  \<^item> \<open>Bilby_Fsm\<close> (\<open>fsm.c\<close>): allocation of erase-blocks and the accounting invariant.
  \<^item> \<open>Bilby_Packobj\<close> (\<open>packobj.c\<close>): objects round-trip, headers check after packing.
  \<^item> \<open>Bilby_Dentarr\<close> (\<open>dentarr.c\<close>): directory entry arrays as lists of entries.
  \<^item> \<open>Bilby_Wbuf\<close> (\<open>wbuf.c\<close>): appending, padding, committing, paged reading, scanning.
  \<^item> \<open>Bilby_Ostore\<close>, \<open>Bilby_Gc\<close>, \<open>Bilby_Mount\<close> (\<open>ostore.c\<close>, \<open>gc.c\<close>): reading and writing objects,
    transactions, synchronisation, garbage collection, superblock and mount. The lemmas of
    \<open>Bilby_Mount\<close>: the markers of a transaction, termination of the scans, the superblock.
  \<^item> \<open>Bilby_Procobj\<close>: the invariant \<open>store_ok\<close> of index, garbage records and free space, and the
    refinement of an abstract store that keeps the newest version of each object.
  \<^item> \<open>Bilby_Trans\<close>: the write path of a transaction that fits in the write-buffer, and reading back.
  \<^item> \<open>Bilby_Rdx\<close> (\<open>rdx.c\<close>), \<open>Bilby_Fsop\<close> (\<open>fsop.c\<close>), \<open>Bilby_Fsprops\<close>: reading directories, the file
    system operations, and their properties through all layers.

  \<^item> \<open>Bilby_Objmap\<close>: the object store as a finite map from ids to objects; writing a transaction and
    reading implement it.
  \<^item> \<open>Bilby_Dirlog\<close>, \<open>Bilby_Dirprops\<close>: directories on top of this map; lookup, and lookup after a file is
    created or removed.
  \<^item> \<open>Bilby_Wrapper\<close> (\<open>os/linux/wrapper.c\<close>): the entry points of the VFS, on a record \<open>wrap\<close> of the file
    system, the semaphore, the inodes in memory and the calls made to the kernel. What the kernel answers is the
    record \<open>vfs\<close>, an argument: the theorems hold for all its answers, but for the named hypothesis
    \<open>frees_unhashed\<close> of one of them, which \<open>demo_vfs\<close> fulfils. A \<open>down\<close> that would wait forever is \<open>None\<close>.
  \<^item> \<open>Bilby_Volname\<close>, \<open>Bilby_Pages\<close>, \<open>Bilby_Vfs\<close>: names of volumes and mount options; writing pages back and
    reading them; the balance of the semaphore and of the inode references over all requests (the
    locale \<open>service\<close>), the operations of an inode, read-only mounts and the faults when mounting.

  \<^bold>\<open>The FAT driver.\<close> \<open>fatent.c\<close> keeps the file allocation table of a FAT12, FAT16 or FAT32 volume: an
  entry per cluster, stored in one or two blocks of the buffer cache, with copies of the table behind it.
  The model works on the record \<open>fat_sb\<close>, the fields of \<open>struct msdos_sb_info\<close> the code uses with the blocks, the
  outcomes of the coming requests to the device and the calls to it added. The format constants are those of the kernel's
  \<open>msdos_fs.h\<close>. \<open>None\<close> is again a stop of the machine (\<open>BUG_ON\<close>, a null pointer, a byte outside a block).
  \<^item> \<open>Vfat_Ent\<close>: the operations of the three kinds of entries and of the entry structure, reading, writing and copying.
  \<^item> \<open>Vfat_Table\<close>: the table as a function from cluster numbers to values (\<open>fe_at\<close>, decoded directly from the
    bytes); the operations on an entry read and change exactly its value (\<open>fat_ok\<close> is the invariant of the geometry).
  \<^item> \<open>Vfat_Rw\<close>: \<open>fat_ent_read\<close>, \<open>fat_ent_write\<close> and the copies of the table.
  \<^item> \<open>Vfat_Alloc\<close>: \<open>fat_free_clusters\<close>, \<open>fat_alloc_clusters\<close>, \<open>fat_count_free_clusters\<close>; freeing a chain. The loop of
    the first has \<open>max_cluster\<close> as fuel, which is enough, as it stops at an entry it has freed already
    (\<open>fat_free_clusters_ends\<close>); those of the others walk the table once.
  \<^item> \<open>Vfat_Find\<close>: the entries an allocation takes are the first free ones of a cyclic search; counting.
  \<^item> \<open>Vfat_Time\<close> (\<open>misc.c\<close>): time stamps, against the Gregorian calendar.

  \<^bold>\<open>Composition.\<close> \<open>fsm_alloc_eb\<close> calls the garbage collector, which writes objects. The write path
  takes the collector as an argument; \<open>ostore_write\<close> passes \<open>gc_garbage_collect\<close>, whose own writes
  carry \<open>OSW_GC\<close> and never call it (\<open>write_gc_irrelevant\<close>).

  \<^bold>\<open>Loops and fuel.\<close> The loops over ids (\<open>proc_del_loop\<close>, the directory reader) end because ids
  increase. The scans of a buffer have the length of the buffer as fuel: every step moves on by at
  least eight bytes (\<open>next_obj_loop\<close>) or by a header of 24 (\<open>scan_obj_loop\<close>, \<open>next_super_addr\<close>,
  \<open>last_super_loop\<close>, \<open>last_obj_loop\<close>), so it is never used up; the totality theorems for the scans
  and for \<open>mount_read_super\<close> show it. The page loops of a read have the number of bytes to read as
  fuel, \<open>gim_del_loop\<close> the number of nodes of a bucket.

  \<^bold>\<open>What the theorems do not cover.\<close> Writing is proved for transactions that stay in the current
  erase-block without synchronisation; the step to a new erase-block and the garbage collector
  are modelled and proved component by component, not as a whole. \<open>mount_scan_rbuf\<close> has fuel but
  no totality theorem yet. Addresses of erase-blocks are below \<open>2^31\<close> and erase-blocks below 1 GiB
  where summaries are on.

  \<^bold>\<open>Not modelled.\<close> Several threads inside the VFS layer at once (the semaphore admits one to the file
  system), debug output, the generated and Cogent implementations, the other file systems of the
  repository and the Cogent compiler. Of the FAT driver: locks, reference counts of buffer heads and read-ahead, and the
  rest of its kernel glue (directories, inodes, mounting), whose work is done by code generated from Cogent.
\<close>

end
